(* ===== verification/Prelude.thy ===== *)
theory Prelude
  imports Main "HOL-Library.AList" "HOL-Library.Char_ord" "HOL-Library.List_Lexorder"
    "HOL-Library.Multiset" "HOL-Library.Sublist" "HOL-Library.Signed_Division"
begin

text \<open>
  Shared vocabulary of the development: results of fallible Rust functions, the string
  operations of \<open>str\<close> on byte strings, decimal text of unsigned integers, association lists
  for \<open>HashMap\<close>s whose iteration order matters, and the stable sort of \<open>slice::sort_by\<close>.
  A Rust \<open>String\<close> is its UTF-8 byte sequence, a HOL \<^typ>\<open>string\<close>; the linear order of
  \<open>List_Lexorder\<close> and \<open>Char_ord\<close> is the byte-wise order of \<open>Ord for str\<close>.
\<close>

named_theorems res_simps "results of fallible operations"
named_theorems str_simps "string operations"
named_theorems inv_intros "preservation of component invariants"

section \<open>Results\<close>

type_synonym ('e, 'a) result = "'e + 'a"

fun rbind :: "('e, 'a) result \<Rightarrow> ('a \<Rightarrow> ('e, 'b) result) \<Rightarrow> ('e, 'b) result" where
  "rbind (Inl e) f = Inl e"
| "rbind (Inr x) f = f x"

fun rmap :: "('a \<Rightarrow> 'b) \<Rightarrow> ('e, 'a) result \<Rightarrow> ('e, 'b) result" where
  "rmap f (Inl e) = Inl e"
| "rmap f (Inr x) = Inr (f x)"

fun is_ok :: "('e, 'a) result \<Rightarrow> bool" where
  "is_ok (Inl e) = False"
| "is_ok (Inr x) = True"

lemma rbind_Inr [res_simps]: "rbind r f = Inr y \<longleftrightarrow> (\<exists>x. r = Inr x \<and> f x = Inr y)"
  by (cases r) auto

lemma rmap_Inr [res_simps]: "rmap f r = Inr y \<longleftrightarrow> (\<exists>x. r = Inr x \<and> y = f x)"
  by (cases r) auto

lemma is_ok_iff [res_simps]: "is_ok r \<longleftrightarrow> (\<exists>x. r = Inr x)"
  by (cases r) auto

lemma not_is_ok_iff [res_simps]: "\<not> is_ok r \<longleftrightarrow> (\<exists>e. r = Inl e)"
  by (cases r) auto

text \<open>A step on a state that may fail and, failing, may still have changed it; \<open>?\<close> returns early.\<close>

fun sbind :: "('e, 'a) result \<times> 's \<Rightarrow> ('a \<Rightarrow> 's \<Rightarrow> ('e, 'b) result \<times> 's) \<Rightarrow> ('e, 'b) result \<times> 's" where
  "sbind (Inl e, s) f = (Inl e, s)"
| "sbind (Inr x, s) f = f x s"

definition rmap_err :: "('e \<Rightarrow> 'f) \<Rightarrow> ('e, 'a) result \<Rightarrow> ('f, 'a) result" where
  "rmap_err g r = (case r of Inl e \<Rightarrow> Inl (g e) | Inr x \<Rightarrow> Inr x)"

lemma rmap_err_simps [simp]: "rmap_err g (Inl e) = Inl (g e)" "rmap_err g (Inr x) = Inr x"
  by (simp_all add: rmap_err_def)

lemma rmap_err_Inr [res_simps]: "rmap_err g r = Inr x \<longleftrightarrow> r = Inr x"
  by (cases r) auto

section \<open>Strings\<close>

fun strip_prefix :: "string \<Rightarrow> string \<Rightarrow> string option" where
  "strip_prefix [] s = Some s"
| "strip_prefix (c # p) [] = None"
| "strip_prefix (c # p) (d # s) = (if c = d then strip_prefix p s else None)"

definition starts_with :: "string \<Rightarrow> string \<Rightarrow> bool" where
  "starts_with s p \<longleftrightarrow> strip_prefix p s \<noteq> None"

definition strip_suffix :: "string \<Rightarrow> string \<Rightarrow> string option" where
  "strip_suffix p s = map_option rev (strip_prefix (rev p) (rev s))"

definition ends_with :: "string \<Rightarrow> string \<Rightarrow> bool" where
  "ends_with s p \<longleftrightarrow> starts_with (rev s) (rev p)"

fun contains_str :: "string \<Rightarrow> string \<Rightarrow> bool" where
  "contains_str [] p \<longleftrightarrow> p = []"
| "contains_str (c # s) p \<longleftrightarrow> starts_with (c # s) p \<or> contains_str s p"

text \<open>\<open>str::split\<close> on a single (ASCII) character: never the empty list.\<close>

fun split_on :: "char \<Rightarrow> string \<Rightarrow> string list" where
  "split_on c [] = [[]]"
| "split_on c (d # s) =
     (if d = c then [] # split_on c s
      else (case split_on c s of [] \<Rightarrow> [[d]] | w # ws \<Rightarrow> (d # w) # ws))"

fun split_once :: "char \<Rightarrow> string \<Rightarrow> (string \<times> string) option" where
  "split_once c [] = None"
| "split_once c (d # s) =
     (if d = c then Some ([], s)
      else map_option (\<lambda>(a, b). (d # a, b)) (split_once c s))"

definition ascii_lower_char :: "char \<Rightarrow> char" where
  "ascii_lower_char c =
     (let n = (of_char c :: nat) in if 65 \<le> n \<and> n \<le> 90 then char_of (n + 32) else c)"

definition to_ascii_lowercase :: "string \<Rightarrow> string" where
  "to_ascii_lowercase s = map ascii_lower_char s"

lemma strip_prefix_Some [str_simps]: "strip_prefix p s = Some r \<longleftrightarrow> s = p @ r"
  by (induction p s rule: strip_prefix.induct) auto

lemma strip_prefix_append [simp]: "strip_prefix p (p @ r) = Some r"
  by (simp add: strip_prefix_Some)

lemma starts_with_iff [str_simps]: "starts_with s p \<longleftrightarrow> (\<exists>r. s = p @ r)"
  by (auto simp: starts_with_def strip_prefix_Some)

lemma starts_with_append [simp]: "starts_with (p @ r) p"
  by (auto simp: starts_with_iff)

lemma starts_with_Nil [simp]: "starts_with s []"
  by (simp add: starts_with_iff)

lemma starts_with_eval [simp]:
  "starts_with [] (c # p) = False"
  "starts_with (d # s) (c # p) = (c = d \<and> starts_with s p)"
  by (auto simp: starts_with_def)

lemma starts_with_append_same [simp]: "starts_with (a @ s) (a @ p) = starts_with s p"
  by (auto simp: starts_with_iff)

lemma strip_suffix_Some [str_simps]: "strip_suffix p s = Some r \<longleftrightarrow> s = r @ p"
  by (auto simp: strip_suffix_def strip_prefix_Some rev_swap)

lemma ends_with_iff [str_simps]: "ends_with s p \<longleftrightarrow> (\<exists>r. s = r @ p)"
  by (auto simp: ends_with_def starts_with_iff rev_swap) (metis rev_rev_ident)

lemma split_on_not_Nil [simp]: "split_on c s \<noteq> []"
  by (induction s) (auto split: list.splits)

lemma split_on_no_sep: "c \<notin> set s \<Longrightarrow> split_on c s = [s]"
  by (induction s) auto

lemma split_on_sep: "c \<notin> set a \<Longrightarrow> split_on c (a @ c # s) = a # split_on c s"
  by (induction a) (auto split: list.splits)

lemma hd_split_on: "hd (split_on c s) = takeWhile (\<lambda>d. d \<noteq> c) s"
  by (induction s) (auto split: list.splits)

lemma split_once_None [str_simps]: "split_once c s = None \<longleftrightarrow> c \<notin> set s"
  by (induction s) auto

lemma split_once_Some: "split_once c s = Some (a, b) \<Longrightarrow> s = a @ c # b \<and> c \<notin> set a"
  by (induction s arbitrary: a) (auto split: if_splits)

section \<open>Decimal text of unsigned integers\<close>

definition digit_char :: "nat \<Rightarrow> char" where
  "digit_char d = char_of (48 + d)"

fun dec_text :: "nat \<Rightarrow> string" where
  "dec_text n = (if n < 10 then [digit_char n] else dec_text (n div 10) @ [digit_char (n mod 10)])"

declare dec_text.simps [simp del]

text \<open>\<open>format!("{:0width$}", n)\<close>\<close>

definition dec_pad :: "nat \<Rightarrow> nat \<Rightarrow> string" where
  "dec_pad w n = (let t = dec_text n in replicate (w - length t) (CHR ''0'') @ t)"

definition digit_val :: "char \<Rightarrow> nat option" where
  "digit_val c = (let n = (of_char c :: nat) in if 48 \<le> n \<and> n \<le> 57 then Some (n - 48) else None)"

fun digits_val :: "nat \<Rightarrow> string \<Rightarrow> nat option" where
  "digits_val acc [] = Some acc"
| "digits_val acc (c # s) =
     (case digit_val c of None \<Rightarrow> None | Some d \<Rightarrow> digits_val (10 * acc + d) s)"

definition u64_max :: nat where
  "u64_max = 2 ^ 64 - 1"

text \<open>\<open>str::parse::<u64>\<close>: an optional plus sign, at least one digit, no overflow.\<close>

definition parse_u64 :: "string \<Rightarrow> nat option" where
  "parse_u64 s =
     (let t = (case s of [] \<Rightarrow> [] | c # r \<Rightarrow> if c = CHR ''+'' then r else s)
      in if t = [] then None
         else case digits_val 0 t of
                None \<Rightarrow> None
              | Some n \<Rightarrow> if n \<le> u64_max then Some n else None)"

lemma of_char_digit [simp]: "d < 10 \<Longrightarrow> (of_char (digit_char d) :: nat) = 48 + d"
  by (simp add: digit_char_def)

lemma digit_val_digit_char [simp]: "d < 10 \<Longrightarrow> digit_val (digit_char d) = Some d"
  by (simp add: digit_val_def)

lemma digit_char_neq [simp]: "d < 10 \<Longrightarrow> digit_char d \<noteq> CHR ''+''" "d < 10 \<Longrightarrow> digit_char d \<noteq> CHR ''/''"
proof -
  assume d: "d < 10"
  have "(of_char (digit_char d) :: nat) = 48 + d" using d by simp
  then show "digit_char d \<noteq> CHR ''+''" and "digit_char d \<noteq> CHR ''/''"
    by (auto dest: arg_cong [of _ _ "of_char :: char \<Rightarrow> nat"])
qed

lemma digits_val_append: "digits_val acc (s @ t) = Option.bind (digits_val acc s) (\<lambda>a. digits_val a t)"
  by (induction s arbitrary: acc) (auto split: option.splits)

lemma dec_text_not_Nil [simp]: "dec_text n \<noteq> []"
  by (subst dec_text.simps) simp

lemma set_dec_text: "set (dec_text n) \<subseteq> digit_char ` {..<10}"
proof (induction n rule: dec_text.induct)
  case (1 n)
  then show ?case by (subst dec_text.simps) auto
qed

lemma digits_val_dec_text_gen:
  "digits_val acc (dec_text n) = Some (10 ^ length (dec_text n) * acc + n)"
proof (induction n arbitrary: acc rule: dec_text.induct)
  case (1 n)
  show ?case
  proof (cases "n < 10")
    case True
    then show ?thesis by (simp add: dec_text.simps [of n])
  next
    case False
    then have "digits_val acc (dec_text n) = Option.bind (digits_val acc (dec_text (n div 10)))
        (\<lambda>a. digits_val a [digit_char (n mod 10)])"
      by (simp add: dec_text.simps [of n] digits_val_append)
    also have "\<dots> = Some (10 * (10 ^ length (dec_text (n div 10)) * acc + n div 10) + n mod 10)"
      using "1" [OF False] by simp
    also have "\<dots> = Some (10 ^ length (dec_text n) * acc + n)"
      using False by (simp add: dec_text.simps [of n] algebra_simps)
    finally show ?thesis .
  qed
qed

lemma digits_val_zeros: "digits_val acc (replicate k (CHR ''0'') @ s) = digits_val (10 ^ k * acc) s"
  by (induction k arbitrary: acc) (auto simp: digit_val_def algebra_simps)

lemma hd_dec_text: "hd (dec_text n) \<noteq> CHR ''+''"
proof -
  have "hd (dec_text n) \<in> set (dec_text n)" by simp
  then obtain d where "d < 10" and "hd (dec_text n) = digit_char d"
    using set_dec_text [of n] by blast
  then show ?thesis by simp
qed

lemma parse_u64_dec_pad:
  assumes "n \<le> u64_max"
  shows "parse_u64 (dec_pad w n) = Some n"
proof -
  let ?k = "w - length (dec_text n)"
  have val: "digits_val 0 (dec_pad w n) = Some n"
    by (simp add: dec_pad_def Let_def digits_val_zeros digits_val_dec_text_gen)
  have hd: "hd (dec_pad w n) \<noteq> CHR ''+''"
    by (cases ?k) (simp_all add: dec_pad_def Let_def hd_dec_text)
  have ne: "dec_pad w n \<noteq> []" by (simp add: dec_pad_def Let_def)
  show ?thesis
    using hd ne val assms by (cases "dec_pad w n") (auto simp: parse_u64_def Let_def)
qed

lemma parse_u64_dec_text: "n \<le> u64_max \<Longrightarrow> parse_u64 (dec_text n) = Some n"
  using parse_u64_dec_pad [of n 0] by (simp add: dec_pad_def)

section \<open>Sorting with a comparator\<close>

text \<open>
  \<open>slice::sort_by\<close>: a stable sort. \<open>cmp x y\<close> is the \<open>Ordering\<close> of \<open>x\<close> against \<open>y\<close>; where it is
  a total preorder, the stable sorted permutation is unique, whatever the algorithm.
\<close>

datatype ordering = Less | Equal | Greater

fun then_with :: "ordering \<Rightarrow> ordering \<Rightarrow> ordering" where
  "then_with Equal o2 = o2"
| "then_with Less o2 = Less"
| "then_with Greater o2 = Greater"

definition cmp_lin :: "'a::linorder \<Rightarrow> 'a \<Rightarrow> ordering" where
  "cmp_lin x y = (if x < y then Less else if y < x then Greater else Equal)"

fun insort_by :: "('a \<Rightarrow> 'a \<Rightarrow> ordering) \<Rightarrow> 'a \<Rightarrow> 'a list \<Rightarrow> 'a list" where
  "insort_by cmp x [] = [x]"
| "insort_by cmp x (y # ys) = (if cmp x y \<noteq> Greater then x # y # ys else y # insort_by cmp x ys)"

fun sort_by :: "('a \<Rightarrow> 'a \<Rightarrow> ordering) \<Rightarrow> 'a list \<Rightarrow> 'a list" where
  "sort_by cmp [] = []"
| "sort_by cmp (x # xs) = insort_by cmp x (sort_by cmp xs)"

lemma mset_insort_by [simp]: "mset (insort_by cmp x xs) = add_mset x (mset xs)"
  by (induction xs) auto

lemma mset_sort_by [simp]: "mset (sort_by cmp xs) = mset xs"
  by (induction xs) auto

lemma set_insort_by [simp]: "set (insort_by cmp x xs) = insert x (set xs)"
  by (induction xs) auto

lemma set_sort_by [simp]: "set (sort_by cmp xs) = set xs"
  by (induction xs) auto

text \<open>A total preorder, as \<open>sort_by\<close> requires, on a set of elements.\<close>

definition preorder_on_cmp :: "'a set \<Rightarrow> ('a \<Rightarrow> 'a \<Rightarrow> ordering) \<Rightarrow> bool" where
  "preorder_on_cmp A cmp \<longleftrightarrow>
     (\<forall>x \<in> A. \<forall>y \<in> A. cmp x y = Greater \<longrightarrow> cmp y x \<noteq> Greater)
   \<and> (\<forall>x \<in> A. \<forall>y \<in> A. \<forall>z \<in> A. cmp x y \<noteq> Greater \<longrightarrow> cmp y z \<noteq> Greater \<longrightarrow> cmp x z \<noteq> Greater)"

lemma preorder_on_cmp_total:
  "preorder_on_cmp A cmp \<Longrightarrow> x \<in> A \<Longrightarrow> y \<in> A \<Longrightarrow> cmp x y = Greater \<Longrightarrow> cmp y x \<noteq> Greater"
  unfolding preorder_on_cmp_def by blast

lemma preorder_on_cmp_trans:
  "preorder_on_cmp A cmp \<Longrightarrow> x \<in> A \<Longrightarrow> y \<in> A \<Longrightarrow> z \<in> A \<Longrightarrow> cmp x y \<noteq> Greater \<Longrightarrow>
     cmp y z \<noteq> Greater \<Longrightarrow> cmp x z \<noteq> Greater"
  unfolding preorder_on_cmp_def by blast

lemma sorted_insort_by:
  assumes "preorder_on_cmp A cmp" "x \<in> A" "set xs \<subseteq> A" "sorted_wrt (\<lambda>x y. cmp x y \<noteq> Greater) xs"
  shows "sorted_wrt (\<lambda>x y. cmp x y \<noteq> Greater) (insort_by cmp x xs)"
  using assms(3,4)
proof (induction xs)
  case (Cons y ys)
  have y: "y \<in> A" and ys: "set ys \<subseteq> A" and below: "\<forall>z \<in> set ys. cmp y z \<noteq> Greater"
    and srt: "sorted_wrt (\<lambda>x y. cmp x y \<noteq> Greater) ys"
    using Cons.prems by simp_all
  show ?case
  proof (cases "cmp x y = Greater")
    case True
    then have "cmp y x \<noteq> Greater" by (rule preorder_on_cmp_total [OF assms(1,2) y])
    then show ?thesis using True Cons.IH [OF ys srt] below by simp
  next
    case False
    have "\<forall>z \<in> set ys. cmp x z \<noteq> Greater"
    proof
      fix z assume z: "z \<in> set ys"
      with ys have zA: "z \<in> A" by (rule subsetD)
      show "cmp x z \<noteq> Greater"
        by (rule preorder_on_cmp_trans [OF assms(1,2) y zA False bspec [OF below z]])
    qed
    then show ?thesis using False below srt by simp
  qed
qed simp

lemma sorted_sort_by:
  "preorder_on_cmp A cmp \<Longrightarrow> set xs \<subseteq> A \<Longrightarrow> sorted_wrt (\<lambda>x y. cmp x y \<noteq> Greater) (sort_by cmp xs)"
  by (induction xs) (auto intro!: sorted_insort_by)

end
