(* ===== verification/Floats.thy ===== *)
theory Floats
  imports Prelude "HOL-Library.Word"
begin

text \<open>
  Rust's \<open>f32\<close> and \<open>f64\<close>: IEEE 754 binary32 and binary64 as bit patterns, that is
  \<open>32 word\<close> and \<open>64 word\<close>. A pattern is a sign bit and a \<^emph>\<open>magnitude\<close>, the number formed
  by the remaining bits. Every finite value is a whole multiple of the smallest subnormal, so the
  value of a magnitude is a natural number in that unit (\<open>mag_val\<close>) and every arithmetic
  operation is an exact operation on naturals followed by one rounding to nearest, ties to even
  (\<open>mag_round\<close>). The parameter \<open>m\<close> is the number of mantissa bits, 23 or 52.
  The lemmas show that magnitudes are ordered like their values, that rounding is monotone and
  keeps representable values, and the order facts the components use.
\<close>

type_synonym f32 = "32 word"
type_synonym f64 = "64 word"

section \<open>Magnitudes and rounding\<close>

fun bit_len :: "nat \<Rightarrow> nat" where
  "bit_len n = (if n = 0 then 0 else Suc (bit_len (n div 2)))"

declare bit_len.simps [simp del]

definition mag_val :: "nat \<Rightarrow> nat \<Rightarrow> nat" where
  "mag_val m k =
     (let e = k div 2 ^ m; f = k mod 2 ^ m in if e = 0 then f else (2 ^ m + f) * 2 ^ (e - 1))"

definition mag_trunc :: "nat \<Rightarrow> nat \<Rightarrow> nat" where
  "mag_trunc m q = (let s = bit_len q - Suc m in s * 2 ^ m + q div 2 ^ s)"

text \<open>The magnitude nearest to the value \<open>n / d\<close>, ties to even.\<close>

definition mag_round :: "nat \<Rightarrow> nat \<Rightarrow> nat \<Rightarrow> nat" where
  "mag_round m n d =
     (let k = mag_trunc m (n div d); mid = (mag_val m k + mag_val m (Suc k)) * d
      in if 2 * n < mid then k else if mid < 2 * n then Suc k
         else if even k then k else Suc k)"

lemma bit_len_0 [simp]: "bit_len 0 = 0"
  by (simp add: bit_len.simps)

lemma bit_len_1 [simp]: "bit_len (Suc 0) = 1"
  by (subst bit_len.simps) simp

lemma bit_len_numeral [simp]:
  "bit_len (numeral num.One) = 1"
  "bit_len (numeral (num.Bit0 k)) = Suc (bit_len (numeral k))"
  "bit_len (numeral (num.Bit1 k)) = Suc (bit_len (numeral k))"
  by (subst bit_len.simps, simp)+

lemma bit_len_upper: "n < 2 ^ bit_len n"
proof (induction n rule: bit_len.induct)
  case (1 n)
  show ?case
  proof (cases "n = 0")
    case False
    then have "n div 2 < 2 ^ bit_len (n div 2)" using 1 by simp
    with False show ?thesis by (simp add: bit_len.simps [of n])
  qed simp
qed

lemma bit_len_lower: "0 < n \<Longrightarrow> 2 ^ bit_len n \<le> 2 * n"
proof (induction n rule: bit_len.induct)
  case (1 n)
  show ?case
  proof (cases "n = 1")
    case False
    then have "0 < n div 2" using 1 by linarith
    then have "2 ^ bit_len (n div 2) \<le> 2 * (n div 2)" using 1 by simp
    with 1 show ?thesis by (simp add: bit_len.simps [of n])
  qed simp
qed

lemma mag_val_shift:
  assumes "2 ^ m \<le> t" and "t \<le> 2 ^ Suc m"
  shows "mag_val m (s * 2 ^ m + t) = t * 2 ^ s"
proof (cases "t = 2 ^ Suc m")
  case True
  then have "s * 2 ^ m + t = (s + 2) * 2 ^ m" by simp
  moreover have "(s + 2) * 2 ^ m div 2 ^ m = s + 2" and "(s + 2) * 2 ^ m mod 2 ^ m = (0::nat)"
    by simp_all
  ultimately show ?thesis using True by (simp add: mag_val_def)
next
  case False
  with assms have t: "t < 2 * 2 ^ m" by simp
  define f where "f = t - 2 ^ m"
  have f: "t = 2 ^ m + f" and fl: "f < 2 ^ m" using assms t by (simp_all add: f_def)
  have eq: "s * 2 ^ m + t = Suc s * 2 ^ m + f" by (simp add: f)
  have "(Suc s * 2 ^ m + f) div 2 ^ m = Suc s" and "(Suc s * 2 ^ m + f) mod 2 ^ m = f"
    using fl by (simp_all add: div_mult_self3 [of "2 ^ m" "Suc s" f, simplified] del: mult_Suc)
  then show ?thesis unfolding eq mag_val_def by (simp add: f)
qed

lemma mag_val_small: "t \<le> 2 ^ Suc m \<Longrightarrow> mag_val m t = t"
  using mag_val_shift [of m t 0] by (cases "2 ^ m \<le> t") (auto simp: mag_val_def)

lemma mag_split: obtains s t where "k = s * 2 ^ m + t" "t < 2 ^ Suc m" "s = 0 \<or> 2 ^ m \<le> (t::nat)"
proof (cases "k < 2 ^ m")
  case True
  then show ?thesis using that [of 0 k] by simp
next
  case False
  then have "1 \<le> k div 2 ^ m" by (simp add: div_greater_zero_iff Suc_le_eq)
  then obtain e where e: "k div 2 ^ m = Suc e" by (cases "k div 2 ^ m") auto
  then have "k = Suc e * 2 ^ m + k mod 2 ^ m" by (metis div_mod_decomp)
  moreover have "k mod 2 ^ m < 2 ^ m" by simp
  ultimately show ?thesis using that [of e "2 ^ m + k mod 2 ^ m"] by simp
qed

lemma mag_val_split:
  assumes "t \<le> 2 ^ Suc m" and "s = 0 \<or> 2 ^ m \<le> t"
  shows "mag_val m (s * 2 ^ m + t) = t * 2 ^ s"
  using assms mag_val_shift [of m t s] mag_val_small [of t m] by auto

lemma mag_val_Suc: "mag_val m k < mag_val m (Suc k)"
proof -
  obtain s t where k: "k = s * 2 ^ m + t" "t < 2 ^ Suc m" "s = 0 \<or> 2 ^ m \<le> t"
    by (rule mag_split)
  have "mag_val m k = t * 2 ^ s" using k mag_val_split [of t m s] by simp
  moreover have "mag_val m (Suc k) = Suc t * 2 ^ s"
    using k mag_val_split [of "Suc t" m s] by auto
  ultimately show ?thesis by simp
qed

lemma mag_val_strict_mono: "strict_mono (mag_val m)"
  by (simp add: strict_mono_Suc_iff mag_val_Suc)

lemma mag_val_less_iff [simp]: "mag_val m a < mag_val m b \<longleftrightarrow> a < b"
  using mag_val_strict_mono by (rule strict_mono_less)

lemma mag_val_le_iff [simp]: "mag_val m a \<le> mag_val m b \<longleftrightarrow> a \<le> b"
  using mag_val_strict_mono by (rule strict_mono_less_eq)

lemma mag_val_eq_iff [simp]: "mag_val m a = mag_val m b \<longleftrightarrow> a = b"
  using mag_val_strict_mono by (rule strict_mono_eq)

lemma mag_val_0 [simp]: "mag_val m 0 = 0"
  by (simp add: mag_val_def)

lemma mag_trunc_bounds:
  "mag_val m (mag_trunc m q) \<le> q" "q < mag_val m (Suc (mag_trunc m q))"
proof -
  define s where "s = bit_len q - Suc m"
  define t where "t = q div 2 ^ s"
  have tr: "mag_trunc m q = s * 2 ^ m + t"
    by (simp add: mag_trunc_def s_def t_def Let_def)
  have "bit_len q \<le> Suc m + s" by (simp add: s_def)
  then have "(2::nat) ^ bit_len q \<le> 2 ^ (Suc m + s)" by (rule power_increasing) simp
  then have "q < 2 ^ (Suc m + s)" using bit_len_upper [of q] by (rule less_le_trans [rotated])
  then have "q < 2 ^ Suc m * 2 ^ s" by (simp add: power_add)
  then have ub: "t < 2 ^ Suc m" unfolding t_def by (rule less_mult_imp_div_less)
  have lb: "s = 0 \<or> 2 ^ m \<le> t"
  proof (cases "s = 0")
    case False
    then have bl: "bit_len q = Suc (m + s)" and "0 < q" by (auto simp: s_def intro: Nat.gr0I)
    then have "2 * 2 ^ (m + s) \<le> 2 * q" using bit_len_lower [of q] by simp
    then have "2 ^ m * 2 ^ s \<le> q" by (simp add: power_add)
    then show ?thesis by (simp add: t_def less_eq_div_iff_mult_less_eq)
  qed simp
  have v: "mag_val m (mag_trunc m q) = t * 2 ^ s" "mag_val m (Suc (mag_trunc m q)) = Suc t * 2 ^ s"
    using mag_val_split [of t m s] mag_val_split [of "Suc t" m s] ub lb tr by auto
  show "mag_val m (mag_trunc m q) \<le> q" by (simp add: v t_def)
  have "q < Suc (q div 2 ^ s) * 2 ^ s"
    by (metis dividend_less_div_times add.commute mult_Suc zero_less_numeral zero_less_power)
  then show "q < mag_val m (Suc (mag_trunc m q))" by (simp only: v t_def)
qed

lemma mag_trunc_mono: "q \<le> q' \<Longrightarrow> mag_trunc m q \<le> mag_trunc m q'"
  using mag_trunc_bounds [where m = m and q = q] mag_trunc_bounds [where m = m and q = q']
  by (metis le_less_trans less_Suc_eq_le mag_val_less_iff order_trans)

lemma mag_trunc_val [simp]: "mag_trunc m (mag_val m k) = k"
  using mag_trunc_bounds [where m = m and q = "mag_val m k"] by simp

lemma mag_round_cases:
  "mag_round m n d = mag_trunc m (n div d) \<or> mag_round m n d = Suc (mag_trunc m (n div d))"
  by (simp add: mag_round_def Let_def)

lemma mag_round_val:
  assumes "0 < d"
  shows "mag_round m (mag_val m k * d) d = k"
proof -
  have "2 * (mag_val m k * d) < (mag_val m k + mag_val m (Suc k)) * d"
    using assms mag_val_Suc [of m k] by (simp add: algebra_simps)
  then show ?thesis using assms by (simp add: mag_round_def Let_def)
qed

lemma mag_round_val1 [simp]: "mag_round m (mag_val m k) (Suc 0) = k"
  using mag_round_val [of 1 m k] by simp

lemma mag_round_0 [simp]: "0 < d \<Longrightarrow> mag_round m 0 d = 0"
  using mag_round_val [of d m 0] by simp

lemma mag_round_mono:
  assumes d: "0 < d" "0 < d'" and le: "n * d' \<le> n' * d"
  shows "mag_round m n d \<le> mag_round m n' d'"
proof -
  let ?k = "mag_trunc m (n div d)" and ?k' = "mag_trunc m (n' div d')"
  have "n div d \<le> n' div d'"
  proof -
    have "(n div d) * d * d' \<le> n' * d"
      using le by (meson div_times_less_eq_dividend mult_le_mono1 order_trans)
    then have "(n div d) * d' \<le> n'" using d by (simp add: mult.assoc mult.commute mult.left_commute)
    then show ?thesis using d by (simp add: less_eq_div_iff_mult_less_eq)
  qed
  then have kk: "?k \<le> ?k'" by (rule mag_trunc_mono)
  show ?thesis
  proof (cases "?k = ?k'")
    case False
    then have "Suc ?k \<le> ?k'" using kk by simp
    then show ?thesis using mag_round_cases [of m n d] mag_round_cases [of m n' d'] by linarith
  next
    case True
    define v where "v = mag_val m ?k' + mag_val m (Suc ?k')"
    have *: "2 * n * d' \<le> 2 * n' * d" using le by simp
    have lt: "2 * n < v * d" if "2 * n' < v * d'"
    proof -
      have "2 * n * d' < v * d * d'"
        using * that d by (metis (no_types, lifting) le_less_trans mult.commute mult.left_commute
            mult_less_cancel2)
      then show ?thesis by simp
    qed
    have eq: "2 * n \<le> v * d" if "2 * n' \<le> v * d'"
    proof -
      have "2 * n * d' \<le> v * d * d'"
        using * that d by (metis (no_types, lifting) mult.commute mult.left_commute
            mult_le_mono1 order_trans)
      then show ?thesis using d by simp
    qed
    show ?thesis
      using lt eq True by (auto simp: mag_round_def Let_def v_def [symmetric])
  qed
qed

section \<open>Bit patterns\<close>

text \<open>The place of the sign bit; magnitudes are below it.\<close>

definition fl_top :: "'a::len itself \<Rightarrow> nat" where
  "fl_top t = 2 ^ (LENGTH('a) - 1)"

definition fl_sign :: "'a::len word \<Rightarrow> bool" where
  "fl_sign x \<longleftrightarrow> fl_top TYPE('a) \<le> unat x"

definition fl_mag :: "'a::len word \<Rightarrow> nat" where
  "fl_mag x = unat x mod fl_top TYPE('a)"

definition fl_mk :: "bool \<Rightarrow> nat \<Rightarrow> 'a::len word" where
  "fl_mk s k = of_nat ((if s then fl_top TYPE('a) else 0) + k)"

text \<open>The magnitude of infinity: all exponent bits set, mantissa zero. Above it are the NaNs.\<close>

definition inf_mag :: "nat \<Rightarrow> 'a::len itself \<Rightarrow> nat" where
  "inf_mag m t = fl_top TYPE('a) - 2 ^ m"

definition fl_is_nan :: "nat \<Rightarrow> 'a::len word \<Rightarrow> bool" where
  "fl_is_nan m x \<longleftrightarrow> inf_mag m TYPE('a) < fl_mag x"

definition fl_is_inf :: "nat \<Rightarrow> 'a::len word \<Rightarrow> bool" where
  "fl_is_inf m x \<longleftrightarrow> fl_mag x = inf_mag m TYPE('a)"

definition fl_nan :: "nat \<Rightarrow> 'a::len word" where
  "fl_nan m = fl_mk False (inf_mag m TYPE('a) + 2 ^ (m - 1))"

text \<open>Sign and magnitude as one integer: comparisons of floats are comparisons of keys.\<close>

definition fl_key :: "'a::len word \<Rightarrow> int" where
  "fl_key x = (if fl_sign x then - int (fl_mag x) else int (fl_mag x))"

definition fl_val :: "nat \<Rightarrow> 'a::len word \<Rightarrow> int" where
  "fl_val m x = (if fl_sign x then - int (mag_val m (fl_mag x)) else int (mag_val m (fl_mag x)))"

definition fl_lt :: "nat \<Rightarrow> 'a::len word \<Rightarrow> 'a word \<Rightarrow> bool" where
  "fl_lt m x y \<longleftrightarrow> \<not> fl_is_nan m x \<and> \<not> fl_is_nan m y \<and> fl_key x < fl_key y"

definition fl_le :: "nat \<Rightarrow> 'a::len word \<Rightarrow> 'a word \<Rightarrow> bool" where
  "fl_le m x y \<longleftrightarrow> \<not> fl_is_nan m x \<and> \<not> fl_is_nan m y \<and> fl_key x \<le> fl_key y"

text \<open>The exponent of the unit: values are multiples of \<open>2 powr - fl_scale\<close>.\<close>

definition fl_scale :: "nat \<Rightarrow> 'a::len itself \<Rightarrow> nat" where
  "fl_scale m t = 2 ^ (LENGTH('a) - 2 - m) - 2 + m"

definition fl_of_units :: "nat \<Rightarrow> bool \<Rightarrow> nat \<Rightarrow> nat \<Rightarrow> 'a::len word" where
  "fl_of_units m s n d = fl_mk s (min (inf_mag m TYPE('a)) (mag_round m n d))"

definition fl_of_rat :: "nat \<Rightarrow> bool \<Rightarrow> nat \<Rightarrow> nat \<Rightarrow> 'a::len word" where
  "fl_of_rat m s n d = fl_of_units m s (n * 2 ^ fl_scale m TYPE('a)) d"

definition fl_of_nat :: "nat \<Rightarrow> nat \<Rightarrow> 'a::len word" where
  "fl_of_nat m n = fl_of_rat m False n 1"

definition fl_neg :: "'a::len word \<Rightarrow> 'a word" where
  "fl_neg x = fl_mk (\<not> fl_sign x) (fl_mag x)"

definition fl_add :: "nat \<Rightarrow> 'a::len word \<Rightarrow> 'a word \<Rightarrow> 'a word" where
  "fl_add m x y =
     (if fl_is_nan m x \<or> fl_is_nan m y then fl_nan m
      else if fl_is_inf m x then
        (if fl_is_inf m y \<and> fl_sign x \<noteq> fl_sign y then fl_nan m else x)
      else if fl_is_inf m y then y
      else let v = fl_val m x + fl_val m y
           in if v = 0 then fl_mk (fl_sign x \<and> fl_sign y) 0
              else fl_of_units m (v < 0) (nat \<bar>v\<bar>) 1)"

definition fl_sub :: "nat \<Rightarrow> 'a::len word \<Rightarrow> 'a word \<Rightarrow> 'a word" where
  "fl_sub m x y = fl_add m x (fl_neg y)"

definition fl_mul :: "nat \<Rightarrow> 'a::len word \<Rightarrow> 'a word \<Rightarrow> 'a word" where
  "fl_mul m x y =
     (let s = (fl_sign x \<noteq> fl_sign y)
      in if fl_is_nan m x \<or> fl_is_nan m y then fl_nan m
         else if fl_is_inf m x \<and> fl_mag y = 0 \<or> fl_mag x = 0 \<and> fl_is_inf m y then fl_nan m
         else if fl_is_inf m x \<or> fl_is_inf m y then fl_mk s (inf_mag m TYPE('a))
         else fl_of_units m s (mag_val m (fl_mag x) * mag_val m (fl_mag y))
                (2 ^ fl_scale m TYPE('a)))"

definition fl_div :: "nat \<Rightarrow> 'a::len word \<Rightarrow> 'a word \<Rightarrow> 'a word" where
  "fl_div m x y =
     (let s = (fl_sign x \<noteq> fl_sign y)
      in if fl_is_nan m x \<or> fl_is_nan m y then fl_nan m
         else if fl_is_inf m x \<and> fl_is_inf m y \<or> fl_mag x = 0 \<and> fl_mag y = 0 then fl_nan m
         else if fl_is_inf m x \<or> fl_mag y = 0 then fl_mk s (inf_mag m TYPE('a))
         else if fl_is_inf m y then fl_mk s 0
         else fl_of_units m s (mag_val m (fl_mag x) * 2 ^ fl_scale m TYPE('a))
                (mag_val m (fl_mag y)))"

text \<open>\<open>max\<close>, \<open>min\<close> and \<open>clamp\<close> of the standard library: a NaN operand of
  \<open>max\<close> and \<open>min\<close> is ignored.\<close>

definition fl_max :: "nat \<Rightarrow> 'a::len word \<Rightarrow> 'a word \<Rightarrow> 'a word" where
  "fl_max m x y =
     (if fl_is_nan m x then y else if fl_is_nan m y then x
      else if fl_key x < fl_key y then y else x)"

definition fl_min :: "nat \<Rightarrow> 'a::len word \<Rightarrow> 'a word \<Rightarrow> 'a word" where
  "fl_min m x y =
     (if fl_is_nan m x then y else if fl_is_nan m y then x
      else if fl_key y < fl_key x then y else x)"

definition fl_clamp :: "nat \<Rightarrow> 'a::len word \<Rightarrow> 'a word \<Rightarrow> 'a word \<Rightarrow> 'a word" where
  "fl_clamp m x lo hi =
     (let y = (if fl_lt m x lo then lo else x) in if fl_lt m hi y then hi else y)"

abbreviation "f32_lt \<equiv> fl_lt 23 :: f32 \<Rightarrow> f32 \<Rightarrow> bool"
abbreviation "f32_le \<equiv> fl_le 23 :: f32 \<Rightarrow> f32 \<Rightarrow> bool"
abbreviation "f32_is_nan \<equiv> fl_is_nan 23 :: f32 \<Rightarrow> bool"
abbreviation "f32_add \<equiv> fl_add 23 :: f32 \<Rightarrow> f32 \<Rightarrow> f32"
abbreviation "f32_sub \<equiv> fl_sub 23 :: f32 \<Rightarrow> f32 \<Rightarrow> f32"
abbreviation "f32_mul \<equiv> fl_mul 23 :: f32 \<Rightarrow> f32 \<Rightarrow> f32"
abbreviation "f32_div \<equiv> fl_div 23 :: f32 \<Rightarrow> f32 \<Rightarrow> f32"
abbreviation "f32_of_nat \<equiv> fl_of_nat 23 :: nat \<Rightarrow> f32"
abbreviation "f32_lit n d \<equiv> fl_of_rat 23 False n d :: f32"
abbreviation "f64_lt \<equiv> fl_lt 52 :: f64 \<Rightarrow> f64 \<Rightarrow> bool"
abbreviation "f64_le \<equiv> fl_le 52 :: f64 \<Rightarrow> f64 \<Rightarrow> bool"
abbreviation "f64_is_nan \<equiv> fl_is_nan 52 :: f64 \<Rightarrow> bool"
abbreviation "f64_add \<equiv> fl_add 52 :: f64 \<Rightarrow> f64 \<Rightarrow> f64"
abbreviation "f64_sub \<equiv> fl_sub 52 :: f64 \<Rightarrow> f64 \<Rightarrow> f64"
abbreviation "f64_mul \<equiv> fl_mul 52 :: f64 \<Rightarrow> f64 \<Rightarrow> f64"
abbreviation "f64_div \<equiv> fl_div 52 :: f64 \<Rightarrow> f64 \<Rightarrow> f64"
abbreviation "f64_max \<equiv> fl_max 52 :: f64 \<Rightarrow> f64 \<Rightarrow> f64"
abbreviation "f64_min \<equiv> fl_min 52 :: f64 \<Rightarrow> f64 \<Rightarrow> f64"
abbreviation "f64_of_nat \<equiv> fl_of_nat 52 :: nat \<Rightarrow> f64"

text \<open>Rules that evaluate operations on concrete bit patterns.\<close>

lemmas fl_eval =
  fl_add_def fl_sub_def fl_neg_def fl_mul_def fl_div_def fl_of_nat_def fl_of_rat_def
  fl_of_units_def fl_scale_def fl_mk_def inf_mag_def fl_top_def fl_sign_def fl_mag_def
  fl_is_nan_def fl_is_inf_def fl_nan_def fl_key_def fl_val_def fl_lt_def fl_le_def
  fl_max_def fl_min_def fl_clamp_def mag_round_def mag_trunc_def mag_val_def Let_def

section \<open>Order facts\<close>

lemma two_pow_len: "(2::nat) ^ LENGTH('a::len) = 2 * fl_top TYPE('a)"
  unfolding fl_top_def by (metis len_gt_0 power_eq_if not_gr_zero)

lemma unat_lt_two_pow: "unat (x :: 'a::len word) < 2 * fl_top TYPE('a)"
  using unsigned_less [of x] by (metis of_nat_id two_pow_len)

lemma fl_mag_less: "fl_mag (x :: 'a::len word) < fl_top TYPE('a)"
  by (simp add: fl_mag_def fl_top_def)

lemma fl_top_pos [simp]: "0 < fl_top TYPE('a::len)"
  by (simp add: fl_top_def)

lemma unat_fl_mk:
  assumes "k < fl_top TYPE('a::len)"
  shows "unat (fl_mk s k :: 'a word) = (if s then fl_top TYPE('a) else 0) + k"
proof -
  let ?n = "(if s then fl_top TYPE('a) else 0) + k"
  have "unat (of_nat ?n :: 'a word) = take_bit LENGTH('a) ?n"
    by (simp only: unsigned_of_nat of_nat_id)
  also have "\<dots> = ?n" using assms by (intro take_bit_nat_eq_self) (simp add: two_pow_len)
  finally show ?thesis by (simp only: fl_mk_def)
qed

lemma fl_mag_mk [simp]: "k < fl_top TYPE('a::len) \<Longrightarrow> fl_mag (fl_mk s k :: 'a word) = k"
  by (simp add: fl_mag_def unat_fl_mk)

lemma fl_sign_mk [simp]: "k < fl_top TYPE('a::len) \<Longrightarrow> fl_sign (fl_mk s k :: 'a word) = s"
  by (simp add: fl_sign_def unat_fl_mk)

lemma inf_mag_less [simp]: "inf_mag m TYPE('a::len) < fl_top TYPE('a)"
  by (simp add: inf_mag_def)

lemma inf_mag_le [simp]: "k \<le> inf_mag m TYPE('a::len) \<Longrightarrow> k < fl_top TYPE('a)"
  by (rule le_less_trans [OF _ inf_mag_less])

lemma min_inf_mag_less [simp]: "min (inf_mag m TYPE('a::len)) k < fl_top TYPE('a)"
  by (rule le_less_trans [OF min.cobounded1 inf_mag_less])

lemma fl_neg_simps [simp]:
  "fl_mag (fl_neg x) = fl_mag x" "fl_sign (fl_neg x) = (\<not> fl_sign x)"
  "fl_key (fl_neg x) = - fl_key x" "fl_val m (fl_neg x) = - fl_val m x"
  "fl_is_nan m (fl_neg x) = fl_is_nan m x" "fl_is_inf m (fl_neg x) = fl_is_inf m x"
  using fl_mag_less [of x]
  by (simp_all add: fl_neg_def fl_key_def fl_val_def fl_is_nan_def fl_is_inf_def)

lemma fl_mk_not_nan [simp]: "k \<le> inf_mag m TYPE('a::len) \<Longrightarrow> \<not> fl_is_nan m (fl_mk s k :: 'a word)"
  using inf_mag_less [of m, where 'a = 'a] by (simp add: fl_is_nan_def)

lemma fl_of_units_not_nan [simp]: "\<not> fl_is_nan m (fl_of_units m s n d)"
  by (simp add: fl_of_units_def)

definition fl_finite :: "nat \<Rightarrow> 'a::len word \<Rightarrow> bool" where
  "fl_finite m x \<longleftrightarrow> fl_mag x < inf_mag m TYPE('a)"

lemma fl_finite_iff: "fl_finite m x \<longleftrightarrow> \<not> fl_is_nan m x \<and> \<not> fl_is_inf m x"
  by (auto simp: fl_finite_def fl_is_nan_def fl_is_inf_def)

lemma fl_finite_neg [simp]: "fl_finite m (fl_neg x) = fl_finite m x"
  by (simp add: fl_finite_def)

lemma fl_key_le_iff: "fl_key x \<le> fl_key y \<longleftrightarrow> fl_val m x \<le> fl_val m y"
proof -
  have z: "mag_val m k = 0 \<longleftrightarrow> k = 0" for k
    using mag_val_eq_iff [of m k 0] by simp
  have "0 < mag_val m k \<longleftrightarrow> 0 < k" for k
    using mag_val_less_iff [of m 0 k] by simp
  note pos = this
  have neg: "int (mag_val m a) \<le> - int (mag_val m b) \<longleftrightarrow> int a \<le> - int b" for a b
    using z [of a] z [of b] pos [of a] pos [of b] by linarith
  have pos': "- int (mag_val m a) \<le> int (mag_val m b)" for a b by linarith
  show ?thesis
    by (cases "fl_sign x"; cases "fl_sign y") (simp_all add: fl_key_def fl_val_def neg pos')
qed

text \<open>The key of the float nearest to the integer \<open>v\<close> (in units).\<close>

definition rnd_key :: "nat \<Rightarrow> 'a::len itself \<Rightarrow> int \<Rightarrow> int" where
  "rnd_key m t v =
     (if v < 0 then - int (min (inf_mag m TYPE('a)) (mag_round m (nat (- v)) 1))
      else int (min (inf_mag m TYPE('a)) (mag_round m (nat v) 1)))"

lemma rnd_key_mono: "v \<le> v' \<Longrightarrow> rnd_key m TYPE('a::len) v \<le> rnd_key m TYPE('a) v'"
proof -
  have mono: "min (inf_mag m TYPE('a)) (mag_round m a 1) \<le> min (inf_mag m TYPE('a)) (mag_round m b 1)"
    if "a \<le> b" for a b
    using mag_round_mono [of 1 1 a b m] that by (simp add: min.coboundedI2 min_le_iff_disj)
  assume "v \<le> v'"
  then show ?thesis
    using mono [of "nat (- v')" "nat (- v)"] mono [of "nat v" "nat v'"]
    by (auto simp: rnd_key_def)
qed

lemma rnd_key_val:
  assumes "\<not> fl_is_nan m (x :: 'a::len word)"
  shows "rnd_key m TYPE('a) (fl_val m x) = fl_key x"
  using assms mag_val_eq_iff [of m "fl_mag x" 0]
  by (auto simp: rnd_key_def fl_val_def fl_key_def fl_is_nan_def not_less min_def)

lemma fl_add_finite:
  assumes "fl_finite m (x :: 'a::len word)" and "fl_finite m y"
  shows "fl_key (fl_add m x y) = rnd_key m TYPE('a) (fl_val m x + fl_val m y)"
    and "\<not> fl_is_nan m (fl_add m x y)"
proof -
  let ?v = "fl_val m x + fl_val m y"
  have add: "fl_add m x y = (if ?v = 0 then fl_mk (fl_sign x \<and> fl_sign y) 0
      else fl_of_units m (?v < 0) (nat \<bar>?v\<bar>) 1)"
    using assms by (auto simp: fl_add_def fl_finite_iff Let_def)
  show "fl_key (fl_add m x y) = rnd_key m TYPE('a) ?v"
    unfolding add fl_of_units_def
    by (auto simp: fl_key_def rnd_key_def abs_if)
  show "\<not> fl_is_nan m (fl_add m x y)" unfolding add by simp
qed

lemma fl_add_le:
  assumes "fl_finite m x" "fl_finite m y" "fl_key y \<le> 0"
  shows "fl_key (fl_add m x y) \<le> fl_key x"
proof -
  have "fl_val m y \<le> 0" using assms(3) by (auto simp: fl_key_def fl_val_def split: if_splits)
  then have "rnd_key m TYPE('a) (fl_val m x + fl_val m y) \<le> rnd_key m TYPE('a) (fl_val m x)"
    by (intro rnd_key_mono) simp
  then show ?thesis using assms by (simp add: fl_add_finite rnd_key_val fl_finite_iff)
qed

lemma fl_add_ge:
  assumes "fl_finite m x" "fl_finite m y" "0 \<le> fl_key y"
  shows "fl_key x \<le> fl_key (fl_add m x y)"
proof -
  have "0 \<le> fl_val m y"
    using assms(3) mag_val_eq_iff [of m "fl_mag y" 0] by (auto simp: fl_key_def fl_val_def split: if_splits)
  then have "rnd_key m TYPE('a) (fl_val m x) \<le> rnd_key m TYPE('a) (fl_val m x + fl_val m y)"
    by (intro rnd_key_mono) simp
  then show ?thesis using assms by (simp add: fl_add_finite rnd_key_val fl_finite_iff)
qed

lemma fl_add_mono:
  assumes "fl_finite m x" "fl_finite m x'" "fl_finite m y" "fl_key x \<le> fl_key x'"
  shows "fl_key (fl_add m x y) \<le> fl_key (fl_add m x' y)"
  using assms by (simp add: fl_add_finite fl_key_le_iff [of _ _ m] rnd_key_mono)

lemma fl_sub_le:
  "fl_finite m x \<Longrightarrow> fl_finite m y \<Longrightarrow> 0 \<le> fl_key y \<Longrightarrow> fl_key (fl_sub m x y) \<le> fl_key x"
  by (simp add: fl_sub_def fl_add_le)

lemma fl_sub_nonneg:
  assumes "fl_finite m (x :: 'a::len word)" "fl_finite m y" "fl_key y \<le> fl_key x"
  shows "0 \<le> fl_key (fl_sub m x y)"
  using assms by (simp add: fl_sub_def fl_add_finite fl_key_le_iff [of _ _ m] rnd_key_def)

lemma fl_sub_nonpos:
  assumes "fl_finite m (x :: 'a::len word)" "fl_finite m y" "fl_key x \<le> fl_key y"
  shows "fl_key (fl_sub m x y) \<le> 0"
proof -
  have "rnd_key m TYPE('a) (fl_val m x - fl_val m y) \<le> rnd_key m TYPE('a) 0"
    using assms by (intro rnd_key_mono) (simp add: fl_key_le_iff [of _ _ m])
  then show ?thesis using assms by (simp add: fl_sub_def fl_add_finite rnd_key_def)
qed

lemma fl_sub_not_nan:
  "fl_finite m x \<Longrightarrow> fl_finite m y \<Longrightarrow> \<not> fl_is_nan m (fl_sub m x y)"
  by (simp add: fl_sub_def fl_add_finite)

lemma fl_min_le:
  assumes "\<not> fl_is_nan m y"
  shows "fl_key (fl_min m x y) \<le> fl_key y" and "\<not> fl_is_nan m (fl_min m x y)"
  using assms by (auto simp: fl_min_def)

lemma fl_max_ge:
  assumes "\<not> fl_is_nan m y"
  shows "fl_key y \<le> fl_key (fl_max m x y)" and "\<not> fl_is_nan m (fl_max m x y)"
  using assms by (auto simp: fl_max_def)

end
