(* ===== verification/Core_Model.thy ===== *)
theory Core_Model
  imports Floats "HOL-Library.Countable"
begin

text \<open>
  The data model of \<open>crates/dwbase-core/src/lib.rs\<close>: importance scores, links and the immutable
  atom record with its builder. The newtypes \<open>AtomId\<close>, \<open>WorldKey\<close>, \<open>WorkerKey\<close> and
  \<open>Timestamp\<close> wrap a \<open>String\<close> and only ever compare, hash, print or expose it; they are
  synonyms of \<^typ>\<open>string\<close> here. The struct's fields are private in Rust and read through
  accessor methods; the record's selectors are those accessors.
\<close>

type_synonym atom_id = string
type_synonym world_key = string
type_synonym worker_key = string
type_synonym timestamp = string

datatype atom_kind = Observation | Reflection | Plan | Action | Message

datatype link_kind = Supersedes | References | Confirms | Contradicts

record link =
  l_target :: atom_id
  l_kind :: link_kind

definition link_new :: "atom_id \<Rightarrow> link_kind \<Rightarrow> link" where
  "link_new target kind = \<lparr>l_target = target, l_kind = kind\<rparr>"

section \<open>Importance\<close>

datatype importance = Importance (imp_get: f32)

datatype importance_error = OutOfRange f32 | NotANumber

definition f32_one :: f32 where
  "f32_one = 0x3F800000"

text \<open>\<open>Importance::new\<close>: NaN first, then the range test.\<close>

definition importance_new :: "f32 \<Rightarrow> (importance_error, importance) result" where
  "importance_new v =
     (if f32_is_nan v then Inl NotANumber
      else if \<not> (f32_le 0 v \<and> f32_le v f32_one) then Inl (OutOfRange v)
      else Inr (Importance v))"

definition importance_clamped :: "f32 \<Rightarrow> importance" where
  "importance_clamped v =
     (if f32_is_nan v then Importance 0 else Importance (fl_clamp 23 v 0 f32_one))"

text \<open>What the type promises: a number in the closed unit interval.\<close>

definition importance_ok :: "importance \<Rightarrow> bool" where
  "importance_ok i \<longleftrightarrow> f32_le 0 (imp_get i) \<and> f32_le (imp_get i) f32_one"

text \<open>
  \<open>Importance\<close> derives \<open>Deserialize\<close> as a newtype: the wrapped number is taken as it is.
\<close>

definition importance_deserialize :: "f32 \<Rightarrow> importance" where
  "importance_deserialize v = Importance v"

section \<open>Atoms\<close>

record atom =
  a_id :: atom_id
  a_world :: world_key
  a_worker :: worker_key
  a_kind :: atom_kind
  a_timestamp :: timestamp
  a_importance :: importance
  a_payload_json :: string
  a_vector :: "f32 list option"
  a_flags :: "string list"
  a_labels :: "string list"
  a_links :: "link list"

definition atom_new ::
  "atom_id \<Rightarrow> world_key \<Rightarrow> worker_key \<Rightarrow> atom_kind \<Rightarrow> timestamp \<Rightarrow> importance \<Rightarrow> string
   \<Rightarrow> f32 list option \<Rightarrow> string list \<Rightarrow> string list \<Rightarrow> link list \<Rightarrow> atom" where
  "atom_new i w wk k ts imp payload vec fls lbs lks =
     \<lparr>a_id = i, a_world = w, a_worker = wk, a_kind = k, a_timestamp = ts, a_importance = imp,
      a_payload_json = payload, a_vector = vec, a_flags = fls, a_labels = lbs, a_links = lks\<rparr>"

record atom_builder =
  b_id :: atom_id
  b_world :: world_key
  b_worker :: worker_key
  b_kind :: atom_kind
  b_timestamp :: timestamp
  b_importance :: importance
  b_payload_json :: string
  b_vector :: "f32 list option"
  b_flags :: "string list"
  b_labels :: "string list"
  b_links :: "link list"

definition atom_builder_new ::
  "atom_id \<Rightarrow> world_key \<Rightarrow> worker_key \<Rightarrow> atom_kind \<Rightarrow> timestamp \<Rightarrow> importance \<Rightarrow> string
   \<Rightarrow> atom_builder" where
  "atom_builder_new i w wk k ts imp payload =
     \<lparr>b_id = i, b_world = w, b_worker = wk, b_kind = k, b_timestamp = ts, b_importance = imp,
      b_payload_json = payload, b_vector = None, b_flags = [], b_labels = [], b_links = []\<rparr>"

definition builder_vector :: "f32 list option \<Rightarrow> atom_builder \<Rightarrow> atom_builder" where
  "builder_vector v b = b\<lparr>b_vector := v\<rparr>"

definition builder_add_flag :: "string \<Rightarrow> atom_builder \<Rightarrow> atom_builder" where
  "builder_add_flag f b = b\<lparr>b_flags := b_flags b @ [f]\<rparr>"

definition builder_add_label :: "string \<Rightarrow> atom_builder \<Rightarrow> atom_builder" where
  "builder_add_label l b = b\<lparr>b_labels := b_labels b @ [l]\<rparr>"

definition builder_add_link :: "atom_id \<Rightarrow> atom_builder \<Rightarrow> atom_builder" where
  "builder_add_link t b = b\<lparr>b_links := b_links b @ [link_new t References]\<rparr>"

definition builder_add_typed_link :: "atom_id \<Rightarrow> link_kind \<Rightarrow> atom_builder \<Rightarrow> atom_builder" where
  "builder_add_typed_link t k b = b\<lparr>b_links := b_links b @ [link_new t k]\<rparr>"

definition builder_build :: "atom_builder \<Rightarrow> atom" where
  "builder_build b =
     \<lparr>a_id = b_id b, a_world = b_world b, a_worker = b_worker b, a_kind = b_kind b,
      a_timestamp = b_timestamp b, a_importance = b_importance b,
      a_payload_json = b_payload_json b, a_vector = b_vector b, a_flags = b_flags b,
      a_labels = b_labels b, a_links = b_links b\<rparr>"

lemmas builder_defs =
  atom_builder_new_def builder_vector_def builder_add_flag_def builder_add_label_def
  builder_add_link_def builder_add_typed_link_def builder_build_def link_new_def

section \<open>Lemmas\<close>

lemma f32_consts [simp]:
  "fl_key (0::f32) = 0" "fl_key f32_one = 0x3F800000"
  "fl_mag f32_one = 0x3F800000" "\<not> fl_sign f32_one"
  "\<not> f32_is_nan 0" "\<not> f32_is_nan f32_one" "fl_finite 23 (0::f32)" "fl_finite 23 f32_one"
  by (simp_all add: f32_one_def fl_finite_def fl_eval)

lemma importance_ok_iff:
  "importance_ok (Importance v) \<longleftrightarrow>
     \<not> f32_is_nan v \<and> 0 \<le> fl_key v \<and> fl_key v \<le> fl_key f32_one"
  by (auto simp: importance_ok_def fl_le_def)

lemma importance_ok_finite: "importance_ok i \<Longrightarrow> fl_finite 23 (imp_get i)"
  by (cases i) (auto simp: importance_ok_iff fl_key_def fl_finite_def inf_mag_def fl_top_def
      split: if_splits)

text \<open>A builder that is fed lists item by item, as the callers do with \<open>for\<close> loops.\<close>

lemma fold_add_flag: "fold builder_add_flag fs b = b\<lparr>b_flags := b_flags b @ fs\<rparr>"
  by (induction fs arbitrary: b) (simp_all add: builder_add_flag_def)

lemma fold_add_label: "fold builder_add_label ls b = b\<lparr>b_labels := b_labels b @ ls\<rparr>"
  by (induction ls arbitrary: b) (simp_all add: builder_add_label_def)

lemma fold_add_typed_link:
  "fold (\<lambda>l. builder_add_typed_link (l_target l) (l_kind l)) ls b = b\<lparr>b_links := b_links b @ ls\<rparr>"
  by (induction ls arbitrary: b) (simp_all add: builder_add_typed_link_def link_new_def)

instance atom_kind :: countable by countable_datatype
instance link_kind :: countable by countable_datatype
instance importance :: countable by countable_datatype

section \<open>Properties\<close>

lemma importance_new_Inr: "importance_new v = Inr i \<longleftrightarrow> i = Importance v \<and> importance_ok i"
  by (auto simp: importance_new_def importance_ok_def fl_le_def)

lemma importance_clamped_ok: "importance_ok (importance_clamped v)"
  by (auto simp: importance_clamped_def importance_ok_iff fl_clamp_def fl_lt_def Let_def)

text \<open>
  \<open>Importance::new\<close> succeeds exactly on the numbers of the closed unit interval, NaN and every
  other value being distinguished errors that carry the value; \<open>Importance::clamped\<close> always
  yields a valid importance, agrees with \<open>new\<close> wherever that succeeds, and sends NaN to zero and
  any other rejected value to the nearer bound.
\<close>

theorem importance_construction:
  "importance_new v =
     (if f32_is_nan v then Inl NotANumber
      else if importance_ok (Importance v) then Inr (Importance v) else Inl (OutOfRange v))
   \<and> importance_ok (importance_clamped v)
   \<and> importance_clamped v =
       (if f32_is_nan v then Importance 0
        else if importance_ok (Importance v) then Importance v
        else if fl_key v < 0 then Importance 0 else Importance f32_one)"
proof (intro conjI)
  show "importance_ok (importance_clamped v)" by (rule importance_clamped_ok)
qed (auto simp: importance_new_def importance_clamped_def importance_ok_iff fl_le_def fl_lt_def
      fl_clamp_def Let_def)

end
