(* ===== verification/Engine_Types.thy ===== *)
theory Engine_Types
  imports Core_Model
begin

text \<open>
  The types of \<open>crates/dwbase-engine/src/lib.rs\<close> that its components share: the error type, the
  submitted atom, filters, questions and answers, world actions, time windows, the summary
  catalogue, and the time library. The \<open>time\<close> crate is not part of the repository: parsing and
  formatting of RFC 3339 text are the two functions of \<open>time_api\<close>, with instants as
  nanoseconds since the Unix epoch; the current time is an argument of the operations that read
  the clock.
\<close>

datatype dw_error =
    CapabilityDenied string
  | InvalidInput string
  | Storage string
  | Vector string
  | Stream string
  | Internal string

record new_atom =
  n_world :: world_key
  n_worker :: worker_key
  n_kind :: atom_kind
  n_timestamp :: timestamp
  n_importance :: importance
  n_payload_json :: string
  n_vector :: "f32 list option"
  n_flags :: "string list"
  n_labels :: "string list"
  n_links :: "link list"

record atom_filter =
  f_world :: "world_key option"
  f_kinds :: "atom_kind list"
  f_labels :: "string list"
  f_flags :: "string list"
  f_since :: "timestamp option"
  f_until :: "timestamp option"
  f_limit :: "nat option"

definition default_filter :: atom_filter where
  "default_filter =
     \<lparr>f_world = None, f_kinds = [], f_labels = [], f_flags = [], f_since = None, f_until = None,
      f_limit = None\<rparr>"

record question =
  q_world :: world_key
  q_text :: string
  q_filter :: "atom_filter option"

record answer =
  ans_world :: world_key
  ans_text :: string
  ans_supporting_atoms :: "atom list"
  ans_warnings :: "string list"

record world_meta =
  wm_world :: world_key
  wm_description :: "string option"
  wm_labels :: "string list"

datatype world_action = Create world_meta | Archive world_key | Resume world_key

record time_window =
  tw_start_ms :: int
  tw_end_ms :: int

record storage_stats =
  atom_count :: nat
  vector_count :: nat

text \<open>Instants are nanoseconds since the epoch; \<open>Err\<close> carries the library's message.\<close>

record time_api =
  rfc_parse :: "string \<Rightarrow> (string, int) result"
  rfc_format :: "int \<Rightarrow> string option"

definition parse_ts :: "time_api \<Rightarrow> timestamp \<Rightarrow> (dw_error, int) result" where
  "parse_ts api ts =
     (case rfc_parse api ts of
        Inl e \<Rightarrow> Inl (InvalidInput (''invalid timestamp '' @ ts @ '': '' @ e))
      | Inr t \<Rightarrow> Inr t)"

text \<open>\<open>OffsetDateTime::unix_timestamp\<close>: whole seconds, rounded down.\<close>

definition unix_timestamp :: "int \<Rightarrow> int" where
  "unix_timestamp t = t div 1000000000"

definition now_timestamp :: "time_api \<Rightarrow> int \<Rightarrow> timestamp" where
  "now_timestamp api now =
     (case rfc_format api now of Some s \<Rightarrow> s | None \<Rightarrow> ''1970-01-01T00:00:00Z'')"

section \<open>Summary catalogue\<close>

record summary_window =
  sw_start_ms :: int
  sw_end_ms :: int

record summary_advert =
  sa_world :: world_key
  sa_windows :: "summary_window list"
  sa_digest :: string

type_synonym summary_catalog = "(world_key \<times> summary_advert list) list"

fun upsert_advert :: "summary_advert \<Rightarrow> summary_advert list \<Rightarrow> summary_advert list" where
  "upsert_advert a [] = [a]"
| "upsert_advert a (b # bs) = (if sa_digest b = sa_digest a then a # bs else b # upsert_advert a bs)"

definition catalog_list :: "summary_catalog \<Rightarrow> world_key \<Rightarrow> summary_advert list" where
  "catalog_list c w = (case map_of c w of None \<Rightarrow> [] | Some as \<Rightarrow> as)"

definition catalog_upsert :: "summary_advert \<Rightarrow> summary_catalog \<Rightarrow> summary_catalog" where
  "catalog_upsert a c = AList.update (sa_world a) (upsert_advert a (catalog_list c (sa_world a))) c"

definition catalog_worlds :: "summary_catalog \<Rightarrow> world_key list" where
  "catalog_worlds c = map fst c"

text \<open>One advert per digest and world, each filed under its own world.\<close>

definition catalog_inv :: "summary_catalog \<Rightarrow> bool" where
  "catalog_inv c \<longleftrightarrow> distinct (map fst c) \<and>
     (\<forall>(w, as) \<in> set c. distinct (map sa_digest as) \<and> (\<forall>a \<in> set as. sa_world a = w))"

lemma set_upsert_advert_digests:
  "sa_digest ` set (upsert_advert a as) = insert (sa_digest a) (sa_digest ` set as)"
  by (induction as) auto

lemma distinct_upsert_advert:
  "distinct (map sa_digest as) \<Longrightarrow> distinct (map sa_digest (upsert_advert a as))"
  by (induction as) (auto simp: set_upsert_advert_digests)

lemma set_upsert_advert: "set (upsert_advert a as) \<subseteq> insert a (set as)"
  by (induction as) auto

lemma in_upsert_advert: "a \<in> set (upsert_advert a as)"
  by (induction as) auto

lemma upsert_advert_lookup:
  "distinct (map sa_digest as) \<Longrightarrow> b \<in> set (upsert_advert a as) \<longleftrightarrow>
     b = a \<or> b \<in> set as \<and> sa_digest b \<noteq> sa_digest a"
  by (induction as) (auto, metis image_eqI)

lemma catalog_list_upsert:
  "catalog_list (catalog_upsert a c) w =
     (if w = sa_world a then upsert_advert a (catalog_list c w) else catalog_list c w)"
  by (simp add: catalog_list_def catalog_upsert_def update_conv')

lemma catalog_upsert_inv [inv_intros]:
  assumes "catalog_inv c"
  shows "catalog_inv (catalog_upsert a c)"
proof -
  let ?as = "catalog_list c (sa_world a)"
  have as: "distinct (map sa_digest ?as) \<and> (\<forall>x \<in> set ?as. sa_world x = sa_world a)"
    using assms by (auto simp: catalog_inv_def catalog_list_def dest!: map_of_SomeD split: option.split)
  then have new: "distinct (map sa_digest (upsert_advert a ?as))
      \<and> (\<forall>x \<in> set (upsert_advert a ?as). sa_world x = sa_world a)"
    using set_upsert_advert [of a ?as] by (auto intro: distinct_upsert_advert)
  have d: "distinct (map fst (catalog_upsert a c))"
    using assms by (simp add: catalog_upsert_def catalog_inv_def distinct_update)
  show ?thesis
    unfolding catalog_inv_def
  proof (intro conjI ballI, rule d)
    fix e assume "e \<in> set (catalog_upsert a c)"
    then have "map_of (catalog_upsert a c) (fst e) = Some (snd e)" using d by (simp add: map_of_is_SomeI)
    then have "e = (sa_world a, upsert_advert a ?as) \<or> e \<in> set c"
      by (auto simp: catalog_upsert_def update_conv' prod_eq_iff dest!: map_of_SomeD split: if_splits)
    then show "case e of (w, as) \<Rightarrow> distinct (map sa_digest as) \<and> (\<forall>x\<in>set as. sa_world x = w)"
      using new assms by (auto simp: catalog_inv_def)
  qed
qed

end
