(* ===== verification/Reflex_Index.thy ===== *)
theory Reflex_Index
  imports Engine_Types
begin

text \<open>
  \<open>ReflexIndex\<close> of \<open>crates/dwbase-engine/src/lib.rs\<close>: per world, atoms in buckets of
  \<open>bucket_width_seconds\<close>, trimmed on insert to a window that ends at the bucket of the inserted
  atom. The two nested \<open>HashMap\<close>s are association lists, whose order stands for the iteration
  order. Widths and windows are \<open>u64\<close> values cast to \<open>i64\<close>; the subtraction that computes
  the oldest kept bucket wraps at 64 bits, as in a release build. The lemmas show that an insert
  refines "add, then forget what lies before the window" and that filtering returns exactly the
  matching atoms.
\<close>

record reflex_config =
  recency_seconds :: "64 word"
  bucket_width_seconds :: "64 word"

definition default_reflex_config :: reflex_config where
  "default_reflex_config = \<lparr>recency_seconds = 300, bucket_width_seconds = 1\<rparr>"

type_synonym world_buckets = "(int \<times> atom list) list"

record reflex_index =
  rx_config :: reflex_config
  rx_buckets :: "(world_key \<times> world_buckets) list"

definition reflex_new :: "reflex_config \<Rightarrow> reflex_index" where
  "reflex_new c = \<lparr>rx_config = c, rx_buckets = []\<rparr>"

record reflex_filter =
  rf_world :: "world_key option"
  rf_kinds :: "atom_kind list"
  rf_labels :: "string list"
  rf_author :: "worker_key option"
  rf_min_importance :: "f32 option"
  rf_since :: "timestamp option"
  rf_exclude_flags :: "string list"

definition filter_from_question :: "question \<Rightarrow> reflex_filter" where
  "filter_from_question q =
     (let base = \<lparr>rf_world = Some (q_world q), rf_kinds = [], rf_labels = [], rf_author = None,
                  rf_min_importance = None, rf_since = None, rf_exclude_flags = []\<rparr>
      in case q_filter q of
           None \<Rightarrow> base
         | Some f \<Rightarrow> base\<lparr>rf_kinds := f_kinds f, rf_labels := f_labels f,
                          rf_exclude_flags := f_flags f, rf_since := f_since f\<rparr>)"

definition reflex_parse_ts :: "time_api \<Rightarrow> timestamp \<Rightarrow> (dw_error, int) result" where
  "reflex_parse_ts api ts = rmap unix_timestamp (parse_ts api ts)"

definition bucket_id :: "reflex_config \<Rightarrow> int \<Rightarrow> int" where
  "bucket_id c ts = (let width = sint (max (bucket_width_seconds c) 1) in ts sdiv width)"

text \<open>The width of the window in buckets, cast to \<open>i64\<close>.\<close>

definition window_buckets :: "reflex_config \<Rightarrow> int" where
  "window_buckets c =
     sint (max (recency_seconds c div max (bucket_width_seconds c) 1) 1)"

definition min_bucket :: "reflex_config \<Rightarrow> int \<Rightarrow> int" where
  "min_bucket c newest = sint (word_of_int (newest - window_buckets c) :: 64 word)"

definition trim_old_buckets :: "reflex_config \<Rightarrow> world_buckets \<Rightarrow> int \<Rightarrow> world_buckets" where
  "trim_old_buckets c wb newest = filter (\<lambda>(b, _). min_bucket c newest \<le> b) wb"

definition alist_default :: "'v \<Rightarrow> ('k \<times> 'v) list \<Rightarrow> 'k \<Rightarrow> 'v" where
  "alist_default d m k = (case map_of m k of None \<Rightarrow> d | Some v \<Rightarrow> v)"

definition reflex_insert ::
  "time_api \<Rightarrow> reflex_index \<Rightarrow> atom \<Rightarrow> reflex_index \<times> (dw_error, unit) result" where
  "reflex_insert api r a =
     (case reflex_parse_ts api (a_timestamp a) of
        Inl e \<Rightarrow> (r, Inl e)
      | Inr ts \<Rightarrow>
          let b = bucket_id (rx_config r) ts;
              wb = alist_default [] (rx_buckets r) (a_world a);
              wb1 = AList.update b (alist_default [] wb b @ [a]) wb;
              wb2 = trim_old_buckets (rx_config r) wb1 b
          in (r\<lparr>rx_buckets := AList.update (a_world a) wb2 (rx_buckets r)\<rparr>, Inr ()))"

text \<open>
  The body of the filter loop: \<open>Inr True\<close> when the atom is pushed, \<open>Inr False\<close> for
  \<open>continue\<close>, an error when the atom's own timestamp does not parse.
\<close>

definition reflex_keep ::
  "time_api \<Rightarrow> reflex_filter \<Rightarrow> int option \<Rightarrow> atom \<Rightarrow> (dw_error, bool) result" where
  "reflex_keep api f since a =
     (if rf_kinds f \<noteq> [] \<and> a_kind a \<notin> set (rf_kinds f) then Inr False
      else if (case rf_author f of None \<Rightarrow> False | Some w \<Rightarrow> a_worker a \<noteq> w) then Inr False
      else if (case rf_min_importance f of None \<Rightarrow> False
               | Some m \<Rightarrow> f32_lt (imp_get (a_importance a)) m) then Inr False
      else rbind
        (case since of None \<Rightarrow> Inr True
         | Some s \<Rightarrow> rmap (\<lambda>t. \<not> t < s) (reflex_parse_ts api (a_timestamp a)))
        (\<lambda>recent. Inr (recent
           \<and> \<not> (rf_labels f \<noteq> [] \<and> \<not> set (rf_labels f) \<subseteq> set (a_labels a))
           \<and> \<not> (rf_exclude_flags f \<noteq> [] \<and> (\<exists>x\<in>set (rf_exclude_flags f). x \<in> set (a_flags a))))))"

fun reflex_scan ::
  "time_api \<Rightarrow> reflex_filter \<Rightarrow> int option \<Rightarrow> atom list \<Rightarrow> (dw_error, atom list) result" where
  "reflex_scan api f since [] = Inr []"
| "reflex_scan api f since (a # as) =
     rbind (reflex_keep api f since a)
       (\<lambda>k. rmap (\<lambda>rs. if k then a # rs else rs) (reflex_scan api f since as))"

definition world_atoms :: "world_buckets \<Rightarrow> atom list" where
  "world_atoms wb = concat (map snd wb)"

definition reflex_views :: "reflex_index \<Rightarrow> reflex_filter \<Rightarrow> atom list" where
  "reflex_views r f =
     (case rf_world f of
        Some w \<Rightarrow> (case map_of (rx_buckets r) w of None \<Rightarrow> [] | Some wb \<Rightarrow> world_atoms wb)
      | None \<Rightarrow> concat (map (\<lambda>(_, wb). world_atoms wb) (rx_buckets r)))"

definition reflex_index_filter ::
  "time_api \<Rightarrow> reflex_index \<Rightarrow> reflex_filter \<Rightarrow> (dw_error, atom list) result" where
  "reflex_index_filter api r f =
     rbind (case rf_since f of None \<Rightarrow> Inr None
            | Some s \<Rightarrow> rmap Some (reflex_parse_ts api s))
       (\<lambda>since. reflex_scan api f since (reflex_views r f))"

section \<open>Abstraction and invariant\<close>

definition reflex_atoms :: "reflex_index \<Rightarrow> world_key \<Rightarrow> atom list" where
  "reflex_atoms r w = world_atoms (alist_default [] (rx_buckets r) w)"

text \<open>The bucket an atom belongs to; \<open>None\<close> when its timestamp does not parse.\<close>

definition atom_bucket :: "time_api \<Rightarrow> reflex_config \<Rightarrow> atom \<Rightarrow> int option" where
  "atom_bucket api c a =
     (case reflex_parse_ts api (a_timestamp a) of Inl _ \<Rightarrow> None | Inr t \<Rightarrow> Some (bucket_id c t))"

text \<open>The atom survives the trim that inserting \<open>newest\<close> into its world does.\<close>

definition in_window :: "time_api \<Rightarrow> reflex_config \<Rightarrow> atom \<Rightarrow> atom \<Rightarrow> bool" where
  "in_window api c newest a =
     (case (atom_bucket api c newest, atom_bucket api c a) of
        (Some n, Some b) \<Rightarrow> min_bucket c n \<le> b
      | _ \<Rightarrow> False)"

definition world_inv :: "time_api \<Rightarrow> reflex_config \<Rightarrow> world_key \<Rightarrow> world_buckets \<Rightarrow> bool" where
  "world_inv api c w wb \<longleftrightarrow> distinct (map fst wb) \<and>
     (\<forall>(b, as) \<in> set wb. as \<noteq> [] \<and> (\<forall>a \<in> set as. a_world a = w \<and> atom_bucket api c a = Some b))"

definition reflex_inv :: "time_api \<Rightarrow> reflex_index \<Rightarrow> bool" where
  "reflex_inv api r \<longleftrightarrow> distinct (map fst (rx_buckets r)) \<and>
     (\<forall>(w, wb) \<in> set (rx_buckets r). world_inv api (rx_config r) w wb)"

lemma alist_default_update:
  "alist_default d (AList.update k v m) k' = (if k' = k then v else alist_default d m k')"
  by (simp add: alist_default_def update_conv')

lemma alist_update_Ball:
  assumes "distinct (map fst m)" and "\<forall>(k, v) \<in> set m. P k v" and "P k0 v0"
  shows "\<forall>(k, v) \<in> set (AList.update k0 v0 m). P k v"
proof safe
  fix k v assume "(k, v) \<in> set (AList.update k0 v0 m)"
  then have "map_of (AList.update k0 v0 m) k = Some v"
    using assms(1) by (simp add: distinct_update)
  then show "P k v" using assms by (auto simp: update_conv' split: if_splits dest!: map_of_SomeD)
qed

lemma mset_world_atoms_push:
  "mset (world_atoms (AList.update b (alist_default [] wb b @ [a]) wb))
     = add_mset a (mset (world_atoms wb))"
  by (induction wb) (auto simp: world_atoms_def alist_default_def)

lemma world_inv_push:
  assumes "world_inv api c w wb" and "a_world a = w" and "atom_bucket api c a = Some b"
  shows "world_inv api c w (AList.update b (alist_default [] wb b @ [a]) wb)"
proof -
  let ?P = "\<lambda>b as. as \<noteq> [] \<and> (\<forall>a \<in> set as. a_world a = w \<and> atom_bucket api c a = Some b)"
  have wb: "distinct (map fst wb)" "\<forall>(b, as) \<in> set wb. ?P b as"
    using assms(1) by (auto simp: world_inv_def)
  have "?P b (alist_default [] wb b @ [a])"
    using wb(2) assms(2,3)
    by (cases "map_of wb b") (auto simp: alist_default_def dest!: map_of_SomeD)
  with wb have "\<forall>(b', as) \<in> set (AList.update b (alist_default [] wb b @ [a]) wb). ?P b' as"
    by (rule alist_update_Ball)
  then show ?thesis using wb(1) by (simp add: world_inv_def distinct_update)
qed

lemma world_inv_trim: "world_inv api c w wb \<Longrightarrow> world_inv api c w (trim_old_buckets c wb n)"
  by (auto simp: world_inv_def trim_old_buckets_def distinct_map_filter)

lemma world_atoms_trim:
  assumes "world_inv api c w wb"
  shows "world_atoms (trim_old_buckets c wb n) =
    filter (\<lambda>a. \<exists>b. atom_bucket api c a = Some b \<and> min_bucket c n \<le> b) (world_atoms wb)"
proof -
  have "\<forall>(b, as) \<in> set wb. \<forall>a \<in> set as. atom_bucket api c a = Some b"
    using assms by (auto simp: world_inv_def)
  then show ?thesis
    by (induction wb)
      (auto simp: world_atoms_def trim_old_buckets_def intro!: filter_True [symmetric] filter_False [symmetric])
qed

lemma reflex_inv_new [inv_intros]: "reflex_inv api (reflex_new c)"
  by (simp add: reflex_inv_def reflex_new_def)

lemma reflex_inv_world:
  "reflex_inv api r \<Longrightarrow> world_inv api (rx_config r) w (alist_default [] (rx_buckets r) w)"
proof (cases "map_of (rx_buckets r) w")
  case None
  then show ?thesis by (simp add: alist_default_def world_inv_def)
next
  case (Some wb)
  then have "(w, wb) \<in> set (rx_buckets r)" by (rule map_of_SomeD)
  moreover assume "reflex_inv api r"
  ultimately show ?thesis using Some by (auto simp: reflex_inv_def alist_default_def)
qed

lemma reflex_insert_inv [inv_intros]:
  assumes "reflex_inv api r" and "reflex_insert api r a = (r', res)"
  shows "reflex_inv api r'"
proof (cases "reflex_parse_ts api (a_timestamp a)")
  case (Inl e)
  then show ?thesis using assms by (simp add: reflex_insert_def)
next
  case (Inr ts)
  let ?c = "rx_config r" and ?w = "a_world a"
  let ?b = "bucket_id ?c ts" and ?wb = "alist_default [] (rx_buckets r) (a_world a)"
  let ?wb2 = "trim_old_buckets ?c (AList.update ?b (alist_default [] ?wb ?b @ [a]) ?wb) ?b"
  have "atom_bucket api ?c a = Some ?b" using Inr by (simp add: atom_bucket_def)
  then have "world_inv api ?c ?w ?wb2"
    using assms(1) by (intro world_inv_trim world_inv_push reflex_inv_world) simp_all
  then have "\<forall>(w, wb) \<in> set (AList.update ?w ?wb2 (rx_buckets r)). world_inv api ?c w wb"
    using assms(1) by (intro alist_update_Ball) (simp_all add: reflex_inv_def)
  then show ?thesis
    using assms Inr by (auto simp: reflex_insert_def reflex_inv_def Let_def distinct_update)
qed

lemma reflex_insert_config: "reflex_insert api r a = (r', res) \<Longrightarrow> rx_config r' = rx_config r"
  by (auto simp: reflex_insert_def Let_def split: sum.splits)

lemma reflex_insert_result:
  "snd (reflex_insert api r a) = rmap (\<lambda>_. ()) (reflex_parse_ts api (a_timestamp a))"
  by (auto simp: reflex_insert_def Let_def split: sum.splits)

lemma reflex_insert_atoms:
  assumes "reflex_inv api r" and "reflex_insert api r a = (r', Inr ())"
  shows "mset (reflex_atoms r' w) =
      (if w = a_world a then
         filter_mset (in_window api (rx_config r) a) (add_mset a (mset (reflex_atoms r w)))
       else mset (reflex_atoms r w))"
proof -
  let ?c = "rx_config r" and ?wb = "alist_default [] (rx_buckets r) (a_world a)"
  from assms(2) obtain ts where ts: "reflex_parse_ts api (a_timestamp a) = Inr ts"
    by (auto simp: reflex_insert_def split: sum.splits)
  let ?b = "bucket_id ?c ts"
  let ?wb1 = "AList.update ?b (alist_default [] ?wb ?b @ [a]) ?wb"
  have b: "atom_bucket api ?c a = Some ?b" using ts by (simp add: atom_bucket_def)
  have inv: "world_inv api ?c (a_world a) ?wb1"
    using assms(1) b by (intro world_inv_push reflex_inv_world) simp_all
  have r': "r' = r\<lparr>rx_buckets := AList.update (a_world a) (trim_old_buckets ?c ?wb1 ?b) (rx_buckets r)\<rparr>"
    using assms(2) ts by (simp add: reflex_insert_def Let_def)
  have win: "(\<lambda>x. \<exists>k. atom_bucket api ?c x = Some k \<and> min_bucket ?c ?b \<le> k) = in_window api ?c a"
    by (auto simp: in_window_def b fun_eq_iff split: option.split)
  show ?thesis
    by (simp add: r' reflex_atoms_def alist_default_update world_atoms_trim [OF inv] win
        mset_world_atoms_push)
qed

lemma reflex_scan_Inr:
  assumes "\<And>a. a \<in> set as \<Longrightarrow> reflex_keep api f since a = Inr (P a)"
  shows "reflex_scan api f since as = Inr (filter P as)"
  using assms by (induction as) simp_all

lemma reflex_views_stored:
  assumes "reflex_inv api r" and "a \<in> set (reflex_views r f)"
  shows "atom_bucket api (rx_config r) a \<noteq> None" and "rf_world f = Some w \<Longrightarrow> a_world a = w"
proof -
  have "\<exists>w' wb. (w', wb) \<in> set (rx_buckets r) \<and> a \<in> set (world_atoms wb)
      \<and> (rf_world f = Some w \<longrightarrow> w' = w)"
  proof (cases "rf_world f")
    case None
    then show ?thesis using assms(2) by (auto simp: reflex_views_def)
  next
    case (Some v)
    then obtain wb where "map_of (rx_buckets r) v = Some wb" "a \<in> set (world_atoms wb)"
      using assms(2) by (cases "map_of (rx_buckets r) v") (auto simp: reflex_views_def)
    then show ?thesis using Some by (auto dest: map_of_SomeD)
  qed
  then obtain w' wb where wb: "(w', wb) \<in> set (rx_buckets r)" "a \<in> set (world_atoms wb)"
    and w': "rf_world f = Some w \<longrightarrow> w' = w" by blast
  have "world_inv api (rx_config r) w' wb" using assms(1) wb(1) by (auto simp: reflex_inv_def)
  then have "atom_bucket api (rx_config r) a \<noteq> None \<and> a_world a = w'"
    using wb(2) by (auto simp: world_inv_def world_atoms_def)
  then show "atom_bucket api (rx_config r) a \<noteq> None" and "rf_world f = Some w \<Longrightarrow> a_world a = w"
    using w' by auto
qed

section \<open>Runs of inserts\<close>

fun reflex_run :: "time_api \<Rightarrow> reflex_index \<Rightarrow> atom list \<Rightarrow> reflex_index" where
  "reflex_run api r [] = r"
| "reflex_run api r (a # as) = reflex_run api (fst (reflex_insert api r a)) as"

text \<open>
  What the index holds of a world after the inserts \<open>as\<close>: an atom is kept unless a later one of
  its world moved the window past its bucket.
\<close>

fun window_spec :: "time_api \<Rightarrow> reflex_config \<Rightarrow> world_key \<Rightarrow> atom list \<Rightarrow> atom list" where
  "window_spec api c w [] = []"
| "window_spec api c w (a # later) =
     (if a_world a = w \<and> (\<forall>y \<in> set (a # later). a_world y = w \<longrightarrow> in_window api c y a)
      then [a] else []) @ window_spec api c w later"

lemma window_spec_snoc:
  "window_spec api c w (as @ [y]) =
     (if a_world y = w then filter (in_window api c y) (window_spec api c w as @ [y])
      else window_spec api c w as)"
  by (induction as) auto

lemma reflex_run_snoc: "reflex_run api r (as @ [a]) = fst (reflex_insert api (reflex_run api r as) a)"
  by (induction as arbitrary: r) auto

lemma reflex_run_inv:
  "reflex_inv api r \<Longrightarrow> reflex_inv api (reflex_run api r as) \<and> rx_config (reflex_run api r as) = rx_config r"
proof (induction as arbitrary: r)
  case (Cons a as)
  obtain r' res where i: "reflex_insert api r a = (r', res)" by fastforce
  show ?case
    using Cons.IH [OF reflex_insert_inv [OF Cons.prems i]] reflex_insert_config [OF i] by (simp add: i)
qed simp

lemma mset_reflex_run:
  assumes "\<forall>a \<in> set as. is_ok (parse_ts api (a_timestamp a))"
  shows "mset (reflex_atoms (reflex_run api (reflex_new c) as) w) = mset (window_spec api c w as)"
  using assms
proof (induction as rule: rev_induct)
  case Nil
  show ?case by (simp add: reflex_atoms_def reflex_new_def alist_default_def world_atoms_def)
next
  case (snoc a as)
  let ?r = "reflex_run api (reflex_new c) as"
  have inv: "reflex_inv api ?r" and c: "rx_config ?r = c"
    using reflex_run_inv [OF reflex_inv_new, of api c as] by (simp_all add: reflex_new_def)
  obtain t where "parse_ts api (a_timestamp a) = Inr t" using snoc.prems by (auto simp: is_ok_iff)
  then have "snd (reflex_insert api ?r a) = Inr ()"
    by (simp add: reflex_insert_result reflex_parse_ts_def)
  then obtain r' where r': "reflex_insert api ?r a = (r', Inr ())"
    by (cases "reflex_insert api ?r a") simp
  have "mset (reflex_atoms ?r w) = mset (window_spec api c w as)" using snoc by simp
  with reflex_insert_atoms [OF inv r', of w] c show ?case
    by (cases "w = a_world a") (auto simp: reflex_run_snoc r' window_spec_snoc)
qed

text \<open>What a query keeps; \<open>since\<close> is the parsed lower bound.\<close>

definition reflex_hit :: "time_api \<Rightarrow> reflex_filter \<Rightarrow> int option \<Rightarrow> atom \<Rightarrow> bool" where
  "reflex_hit api f since a \<longleftrightarrow>
     (rf_kinds f = [] \<or> a_kind a \<in> set (rf_kinds f))
   \<and> (case rf_author f of None \<Rightarrow> True | Some w \<Rightarrow> a_worker a = w)
   \<and> (case rf_min_importance f of None \<Rightarrow> True | Some m \<Rightarrow> \<not> f32_lt (imp_get (a_importance a)) m)
   \<and> (case since of None \<Rightarrow> True
      | Some s \<Rightarrow> (case reflex_parse_ts api (a_timestamp a) of Inl _ \<Rightarrow> False | Inr t \<Rightarrow> s \<le> t))
   \<and> set (rf_labels f) \<subseteq> set (a_labels a)
   \<and> set (rf_exclude_flags f) \<inter> set (a_flags a) = {}"

lemma reflex_keep_hit:
  assumes "since = None \<or> is_ok (reflex_parse_ts api (a_timestamp a))"
  shows "reflex_keep api f since a = Inr (reflex_hit api f since a)"
  using assms
  by (cases since; cases "reflex_parse_ts api (a_timestamp a)")
    (auto simp: reflex_keep_def reflex_hit_def not_less split: option.split)

text \<open>
  A query on a well-formed index fails exactly when its own \<open>since\<close> does not parse; otherwise
  it returns, in index order, the atoms of the queried world that have one of the kinds, the
  author, the importance, all labels, none of the excluded flags and a second not before
  \<open>since\<close>. Timestamps of stored atoms never make a query fail.
\<close>

theorem reflex_query_correct:
  assumes "reflex_inv api r"
  shows "reflex_index_filter api r f =
    (case (case rf_since f of None \<Rightarrow> Inr None | Some s \<Rightarrow> rmap Some (reflex_parse_ts api s)) of
       Inl e \<Rightarrow> Inl e
     | Inr since \<Rightarrow> Inr (filter (reflex_hit api f since) (reflex_views r f)))"
proof -
  have ok: "is_ok (reflex_parse_ts api (a_timestamp a))" if "a \<in> set (reflex_views r f)" for a
    using reflex_views_stored(1) [OF assms that]
    by (cases "reflex_parse_ts api (a_timestamp a)") (auto simp: atom_bucket_def)
  have "reflex_scan api f since (reflex_views r f) = Inr (filter (reflex_hit api f since) (reflex_views r f))"
    for since
    by (rule reflex_scan_Inr) (simp add: reflex_keep_hit ok)
  then show ?thesis
    by (cases "case rf_since f of None \<Rightarrow> Inr None | Some s \<Rightarrow> rmap Some (reflex_parse_ts api s)")
      (simp_all add: reflex_index_filter_def)
qed

text \<open>A time library whose timestamps are decimal nanoseconds, for concrete runs.\<close>

definition plain_time :: time_api where
  "plain_time =
     \<lparr>rfc_parse = (\<lambda>s. case digits_val 0 s of None \<Rightarrow> Inl ''bad'' | Some n \<Rightarrow> Inr (int n)),
      rfc_format = (\<lambda>t. Some (dec_text (nat t)))\<rparr>"

definition reflex_sample :: "atom_id \<Rightarrow> string \<Rightarrow> atom" where
  "reflex_sample i ts =
     builder_build (atom_builder_new i ''w'' ''k'' Observation ts (Importance 0) ''{}'')"

theorem reflex_query_correct_witness:
  "reflex_index_filter plain_time (reflex_new default_reflex_config)
      (filter_from_question \<lparr>q_world = ''w'', q_text = [], q_filter = None\<rparr>) = Inr []"
  using reflex_query_correct [OF reflex_inv_new, of plain_time default_reflex_config
      "filter_from_question \<lparr>q_world = ''w'', q_text = [], q_filter = None\<rparr>"]
  by (simp add: filter_from_question_def reflex_views_def reflex_new_def)

text \<open>
  C15: The recency window. After inserting any list of atoms with parsable timestamps into a new
  index, a world holds exactly the atoms that no later or equal insert of that world has moved the
  window past: the index refines a list from which each insert drops what lies before its window.
\<close>

theorem reflex_window_content:
  assumes "\<forall>a \<in> set as. is_ok (parse_ts api (a_timestamp a))"
  shows "mset (reflex_atoms (reflex_run api (reflex_new c) as) w) = mset (window_spec api c w as)
    \<and> reflex_inv api (reflex_run api (reflex_new c) as)"
  using mset_reflex_run [OF assms] reflex_run_inv [OF reflex_inv_new] by simp

theorem reflex_window_content_witness:
  "mset (reflex_atoms (reflex_run plain_time (reflex_new default_reflex_config)
      [reflex_sample ''a'' ''0'', reflex_sample ''b'' ''400000000000'']) ''w'')
     = {#reflex_sample ''b'' ''400000000000''#}"
  using reflex_window_content [of "[reflex_sample ''a'' ''0'', reflex_sample ''b'' ''400000000000'']"
      plain_time default_reflex_config "''w''"]
  by (simp add: plain_time_def reflex_sample_def builder_defs parse_ts_def digit_val_def in_window_def
      atom_bucket_def reflex_parse_ts_def unix_timestamp_def bucket_id_def default_reflex_config_def
      min_bucket_def window_buckets_def signed_divide_int_def)

end
