(* ===== verification/Conflict_Index.thy ===== *)
theory Conflict_Index
  imports Engine_Types
begin

text \<open>
  \<open>ConflictIndex\<close> of \<open>crates/dwbase-engine/src/lib.rs\<close>: which atom supersedes an atom (the
  last one registered wins) and which atoms contradict or confirm it, by target id. The lemmas
  relate the three tables to the list of registered atoms.
\<close>

record conflict_index =
  cx_supersedes :: "atom_id \<rightharpoonup> atom_id"
  cx_contradicts :: "atom_id \<rightharpoonup> atom_id list"
  cx_confirms :: "atom_id \<rightharpoonup> atom_id list"

definition conflict_new :: conflict_index where
  "conflict_new = \<lparr>cx_supersedes = Map.empty, cx_contradicts = Map.empty, cx_confirms = Map.empty\<rparr>"

definition push_entry :: "atom_id \<Rightarrow> atom_id \<Rightarrow> (atom_id \<rightharpoonup> atom_id list) \<Rightarrow> (atom_id \<rightharpoonup> atom_id list)" where
  "push_entry k v m = m(k \<mapsto> (case m k of None \<Rightarrow> [] | Some vs \<Rightarrow> vs) @ [v])"

definition register_link :: "atom_id \<Rightarrow> link \<Rightarrow> conflict_index \<Rightarrow> conflict_index" where
  "register_link i l c =
     (case l_kind l of
        Supersedes \<Rightarrow> c\<lparr>cx_supersedes := (cx_supersedes c)(l_target l \<mapsto> i)\<rparr>
      | Contradicts \<Rightarrow> c\<lparr>cx_contradicts := push_entry (l_target l) i (cx_contradicts c)\<rparr>
      | Confirms \<Rightarrow> c\<lparr>cx_confirms := push_entry (l_target l) i (cx_confirms c)\<rparr>
      | References \<Rightarrow> c)"

definition conflict_register :: "atom \<Rightarrow> conflict_index \<Rightarrow> conflict_index" where
  "conflict_register a c = fold (register_link (a_id a)) (a_links a) c"

definition superseded_by :: "conflict_index \<Rightarrow> atom_id \<Rightarrow> atom_id option" where
  "superseded_by c i = cx_supersedes c i"

definition contradiction_count :: "conflict_index \<Rightarrow> atom_id \<Rightarrow> nat" where
  "contradiction_count c i = (case cx_contradicts c i of None \<Rightarrow> 0 | Some v \<Rightarrow> length v)"

definition confirmation_count :: "conflict_index \<Rightarrow> atom_id \<Rightarrow> nat" where
  "confirmation_count c i = (case cx_confirms c i of None \<Rightarrow> 0 | Some v \<Rightarrow> length v)"

definition links_to :: "link_kind \<Rightarrow> atom_id \<Rightarrow> link list \<Rightarrow> nat" where
  "links_to k i ls = length (filter (\<lambda>l. l_kind l = k \<and> l_target l = i) ls)"

lemma links_to_simps [simp]:
  "links_to k i [] = 0"
  "links_to k i (l # ls) = (if l_kind l = k \<and> l_target l = i then 1 else 0) + links_to k i ls"
  "links_to k i (ls @ ls') = links_to k i ls + links_to k i ls'"
  by (simp_all add: links_to_def)

lemma register_link_counts:
  "contradiction_count (register_link i l c) j =
     contradiction_count c j + (if l_kind l = Contradicts \<and> l_target l = j then 1 else 0)"
  "confirmation_count (register_link i l c) j =
     confirmation_count c j + (if l_kind l = Confirms \<and> l_target l = j then 1 else 0)"
  "superseded_by (register_link i l c) j =
     (if l_kind l = Supersedes \<and> l_target l = j then Some i else superseded_by c j)"
  by (auto simp: register_link_def contradiction_count_def confirmation_count_def superseded_by_def
      push_entry_def split: link_kind.split option.split)

lemma fold_register_link:
  "contradiction_count (fold (register_link i) ls c) j = contradiction_count c j + links_to Contradicts j ls"
  "confirmation_count (fold (register_link i) ls c) j = confirmation_count c j + links_to Confirms j ls"
  "superseded_by (fold (register_link i) ls c) j =
     (if 0 < links_to Supersedes j ls then Some i else superseded_by c j)"
  by (induction ls arbitrary: c) (auto simp: register_link_counts)

lemma conflict_register_counts:
  "contradiction_count (conflict_register a c) j = contradiction_count c j + links_to Contradicts j (a_links a)"
  "confirmation_count (conflict_register a c) j = confirmation_count c j + links_to Confirms j (a_links a)"
  "superseded_by (conflict_register a c) j =
     (if 0 < links_to Supersedes j (a_links a) then Some (a_id a) else superseded_by c j)"
  by (simp_all add: conflict_register_def fold_register_link)

lemma conflict_new_counts [simp]:
  "contradiction_count conflict_new j = 0" "confirmation_count conflict_new j = 0"
  "superseded_by conflict_new j = None"
  by (simp_all add: conflict_new_def contradiction_count_def confirmation_count_def superseded_by_def)

text \<open>
  After registering any sequence of atoms, the contradiction and confirmation counts of an id
  are the numbers of links of that kind to it over the whole sequence, and it is superseded by the
  last atom of the sequence that has a \<open>Supersedes\<close> link to it.
\<close>

theorem conflict_register_run:
  "contradiction_count (fold conflict_register as conflict_new) j =
     links_to Contradicts j (concat (map a_links as))
   \<and> confirmation_count (fold conflict_register as conflict_new) j =
     links_to Confirms j (concat (map a_links as))
   \<and> superseded_by (fold conflict_register as conflict_new) j =
     map_option a_id (find (\<lambda>a. 0 < links_to Supersedes j (a_links a)) (rev as))"
proof (induction as rule: rev_induct)
  case (snoc a as)
  then show ?case by (auto simp: conflict_register_counts)
qed simp

end
