(* ===== verification/Float_Text.thy ===== *)
theory Float_Text
  imports Floats
begin

text \<open>
  The text of an \<open>f32\<close>: \<open>Display\<close> (the shortest decimal that reads back to the same number, never
  with an exponent) and \<open>str::parse::<f32>\<close> (Rust's grammar, correctly rounded).
\<close>

section \<open>Printing\<close>

text \<open>The float of the decimal \<open>c / 10 ^ p\<close>; the power may be negative.\<close>

definition dec_float :: "nat \<Rightarrow> int \<Rightarrow> f32" where
  "dec_float c p =
     (if 0 \<le> p then fl_of_rat 23 False c (10 ^ nat p) else fl_of_rat 23 False (c * 10 ^ nat (- p)) 1)"

text \<open>The value of a magnitude is \<open>mag_val 23 k / 2 ^ 149\<close>.\<close>

definition f32_den :: nat where
  "f32_den = 2 ^ 149"

text \<open>The number of digits before the decimal point, not positive for values below one tenth.\<close>

definition dec_exp :: "nat \<Rightarrow> int" where
  "dec_exp n =
     (if f32_den \<le> n then int (length (dec_text (n div f32_den)))
      else 1 - int (length (dec_text ((f32_den - 1) div n))))"

text \<open>The decimals of \<open>digits\<close> digits next to the value from below and above, the nearer of those that read back.\<close>

definition dec_candidate :: "f32 \<Rightarrow> nat \<Rightarrow> (nat \<times> int) option" where
  "dec_candidate x digits =
     (let n = mag_val 23 (fl_mag x);
          p = int digits - dec_exp n;
          num = (if 0 \<le> p then n * 10 ^ nat p else n);
          den = (if 0 \<le> p then f32_den else f32_den * 10 ^ nat (- p));
          lo = num div den;
          lo_ok = (dec_float lo p = fl_mk False (fl_mag x));
          hi_ok = (dec_float (lo + 1) p = fl_mk False (fl_mag x))
      in if lo_ok \<and> (\<not> hi_ok \<or> 2 * (num mod den) \<le> den) then Some (lo, p)
         else if hi_ok then Some (lo + 1, p) else None)"

fun first_candidate :: "f32 \<Rightarrow> nat list \<Rightarrow> (nat \<times> int) option" where
  "first_candidate x [] = None"
| "first_candidate x (d # ds) =
     (case dec_candidate x d of Some r \<Rightarrow> Some r | None \<Rightarrow> first_candidate x ds)"

definition plain_decimal :: "nat \<Rightarrow> int \<Rightarrow> string" where
  "plain_decimal c p =
     (if p \<le> 0 then dec_text (c * 10 ^ nat (- p))
      else let s = dec_text c; k = nat p
           in if k < length s then take (length s - k) s @ ''.'' @ drop (length s - k) s
              else ''0.'' @ replicate (k - length s) (CHR ''0'') @ s)"

text \<open>Nine digits always suffice for an \<open>f32\<close>.\<close>

definition show_f32 :: "f32 \<Rightarrow> string" where
  "show_f32 x =
     (if f32_is_nan x then ''NaN''
      else (if fl_sign x then ''-'' else [])
        @ (if fl_is_inf 23 x then ''inf''
           else if fl_mag x = 0 then ''0''
           else case first_candidate x [1..<10] of
                  Some (c, p) \<Rightarrow> plain_decimal c p
                | None \<Rightarrow> []))"

section \<open>Parsing\<close>

definition is_digit :: "char \<Rightarrow> bool" where
  "is_digit c \<longleftrightarrow> digit_val c \<noteq> None"

definition digits_nat :: "string \<Rightarrow> nat" where
  "digits_nat s = (case digits_val 0 s of None \<Rightarrow> 0 | Some n \<Rightarrow> n)"

definition split_sign :: "string \<Rightarrow> bool \<times> string" where
  "split_sign s =
     (case s of
        [] \<Rightarrow> (False, [])
      | c # r \<Rightarrow> if c = CHR ''-'' then (True, r) else if c = CHR ''+'' then (False, r) else (False, s))"

text \<open>The exponent part: empty, or a letter, an optional sign and at least one digit.\<close>

definition parse_exponent :: "string \<Rightarrow> int option" where
  "parse_exponent s =
     (case s of
        [] \<Rightarrow> Some 0
      | c # r \<Rightarrow>
          if c = CHR ''e'' \<or> c = CHR ''E'' then
            (case split_sign r of
               (neg, ds) \<Rightarrow> if ds = [] \<or> \<not> list_all is_digit ds then None
                            else Some (if neg then - int (digits_nat ds) else int (digits_nat ds)))
          else None)"

definition parse_number :: "bool \<Rightarrow> string \<Rightarrow> f32 option" where
  "parse_number neg s =
     (let ip = takeWhile is_digit s; r1 = dropWhile is_digit s;
          (fp, r2) = (case r1 of
                        c # r \<Rightarrow> if c = CHR ''.'' then (takeWhile is_digit r, dropWhile is_digit r) else ([], r1)
                      | [] \<Rightarrow> ([], []))
      in if ip = [] \<and> fp = [] then None
         else case parse_exponent r2 of
                None \<Rightarrow> None
              | Some e \<Rightarrow>
                  let m = digits_nat (ip @ fp); k = e - int (length fp)
                  in Some (if 0 \<le> k then fl_of_rat 23 neg (m * 10 ^ nat k) 1
                           else fl_of_rat 23 neg m (10 ^ nat (- k))))"

definition parse_f32 :: "string \<Rightarrow> f32 option" where
  "parse_f32 s =
     (case split_sign s of
        (neg, r) \<Rightarrow>
          let l = to_ascii_lowercase r
          in if l = ''inf'' \<or> l = ''infinity'' then Some (fl_mk neg (inf_mag 23 TYPE(32)))
             else if l = ''nan'' then Some (fl_mk neg (inf_mag 23 TYPE(32) + 2 ^ 22))
             else parse_number neg r)"

end
