(* ===== verification/Engine_State.thy ===== *)
theory Engine_State
  imports Reflex_Index Conflict_Index Float_Text
begin

text \<open>
  The state of \<open>DWBaseEngine\<close> in \<open>crates/dwbase-engine/src/lib.rs\<close> and the traits of its five
  components. A trait is a record of functions over the component's state; a method that may
  write returns the state. The engine's own fields (reflex and conflict index, suspicions, index
  metadata, id counter) are kept in the same record. The clocks are arguments: \<open>oc_mono\<close> is the
  monotonic reading in nanoseconds, \<open>oc_utc n\<close> the \<open>n\<close>-th reading of the wall clock. The
  standard library's \<open>DefaultHasher\<close> is the function \<open>ee_hash\<close>.
\<close>

section \<open>Component traits\<close>

record 's storage_api =
  st_append :: "atom \<Rightarrow> 's \<Rightarrow> (dw_error, unit) result \<times> 's"
  st_get_by_ids :: "'s \<Rightarrow> atom_id list \<Rightarrow> (dw_error, atom list) result"
  st_scan :: "'s \<Rightarrow> world_key \<Rightarrow> atom_filter \<Rightarrow> (dw_error, atom list) result"
  st_stats :: "'s \<Rightarrow> world_key \<Rightarrow> (dw_error, storage_stats) result"
  st_list_ids :: "'s \<Rightarrow> world_key \<Rightarrow> time_window \<Rightarrow> (dw_error, atom_id list) result"
  st_delete :: "world_key \<Rightarrow> atom_id list \<Rightarrow> 's \<Rightarrow> (dw_error, nat) result \<times> 's"
  st_worlds :: "'s \<Rightarrow> (dw_error, world_key list) result"

record 'v vector_api =
  ve_upsert :: "world_key \<Rightarrow> atom_id \<Rightarrow> f32 list \<Rightarrow> 'v \<Rightarrow> (dw_error, unit) result \<times> 'v"
  ve_search :: "'v \<Rightarrow> world_key \<Rightarrow> f32 list \<Rightarrow> nat \<Rightarrow> atom_filter \<Rightarrow> (dw_error, atom_id list) result"
  ve_rebuild :: "world_key \<Rightarrow> 'v \<Rightarrow> (dw_error, unit) result \<times> 'v"

record 't stream_api =
  sr_publish :: "atom \<Rightarrow> 't \<Rightarrow> (dw_error, unit) result \<times> 't"

record embed_api =
  em_embed :: "string \<Rightarrow> (dw_error, f32 list option) result"
  em_version :: string

record 'g gate_api =
  ga_remember :: "new_atom \<Rightarrow> 'g \<Rightarrow> (dw_error, unit) result \<times> 'g"
  ga_ask :: "question \<Rightarrow> 'g \<Rightarrow> (dw_error, unit) result \<times> 'g"
  ga_action :: "world_action \<Rightarrow> 'g \<Rightarrow> (dw_error, unit) result \<times> 'g"

text \<open>
  \<open>serde_json\<close> values; an object is an association list whose order has no meaning. Printing is the
  library's: the function \<open>ee_json\<close>. \<open>ee_days\<close> is \<open>time::Duration::days\<close> in nanoseconds,
  \<open>None\<close> where it panics.
\<close>

datatype json =
    JNull
  | JBool bool
  | JInt int
  | JFloat f64
  | JStr string
  | JArr "json list"
  | JObj "(string \<times> json) list"

record ('s, 'v, 't, 'g) engine_env =
  ee_time :: time_api
  ee_days :: "int \<Rightarrow> int option"
  ee_json :: "json \<Rightarrow> string"
  ee_hash :: "string \<Rightarrow> nat"
  ee_storage :: "'s storage_api"
  ee_vector :: "'v vector_api"
  ee_stream :: "'t stream_api"
  ee_gate :: "'g gate_api"
  ee_embed :: embed_api

record op_clock =
  oc_mono :: nat
  oc_utc :: "nat \<Rightarrow> int"

section \<open>Engine state\<close>

record index_metadata =
  im_world :: world_key
  im_version :: nat
  im_embedder_version :: string
  im_last_rebuilt :: timestamp
  im_ready :: bool
  im_rebuilding :: bool
  im_progress :: f32
  im_started_at :: "timestamp option"
  im_last_progress :: "timestamp option"

record ('s, 'v, 't, 'g) engine =
  en_storage :: 's
  en_vector :: 'v
  en_stream :: 't
  en_gate :: 'g
  en_reflex :: reflex_index
  en_conflict :: conflict_index
  en_suspicions :: "worker_key \<rightharpoonup> nat list"
  en_index_state :: "(world_key \<times> index_metadata) list"
  en_id_gen :: nat

definition engine_with_reflex_index ::
  "'s \<Rightarrow> 'v \<Rightarrow> 't \<Rightarrow> 'g \<Rightarrow> reflex_index \<Rightarrow> ('s, 'v, 't, 'g) engine" where
  "engine_with_reflex_index s v t g r =
     \<lparr>en_storage = s, en_vector = v, en_stream = t, en_gate = g, en_reflex = r,
      en_conflict = conflict_new, en_suspicions = Map.empty, en_index_state = [], en_id_gen = 1\<rparr>"

definition engine_new :: "'s \<Rightarrow> 'v \<Rightarrow> 't \<Rightarrow> 'g \<Rightarrow> ('s, 'v, 't, 'g) engine" where
  "engine_new s v t g = engine_with_reflex_index s v t g (reflex_new default_reflex_config)"

definition new_id :: "('s, 'v, 't, 'g) engine \<Rightarrow> atom_id \<times> ('s, 'v, 't, 'g) engine" where
  "new_id en = (''atom-'' @ dec_text (en_id_gen en), en\<lparr>en_id_gen := (en_id_gen en + 1) mod 2 ^ 64\<rparr>)"

section \<open>Calls of the components\<close>

definition on_storage where
  "on_storage f en = (case f (en_storage en) of (r, s) \<Rightarrow> (r, en\<lparr>en_storage := s\<rparr>))"

definition on_vector where
  "on_vector f en = (case f (en_vector en) of (r, v) \<Rightarrow> (r, en\<lparr>en_vector := v\<rparr>))"

definition on_stream where
  "on_stream f en = (case f (en_stream en) of (r, t) \<Rightarrow> (r, en\<lparr>en_stream := t\<rparr>))"

definition on_gate where
  "on_gate f en = (case f (en_gate en) of (r, g) \<Rightarrow> (r, en\<lparr>en_gate := g\<rparr>))"

definition engine_reflex_insert ::
  "time_api \<Rightarrow> atom \<Rightarrow> ('s, 'v, 't, 'g) engine \<Rightarrow> (dw_error, unit) result \<times> ('s, 'v, 't, 'g) engine" where
  "engine_reflex_insert api a en =
     (case reflex_insert api (en_reflex en) a of (r, res) \<Rightarrow> (res, en\<lparr>en_reflex := r\<rparr>))"

definition register_conflicts :: "atom \<Rightarrow> ('s, 'v, 't, 'g) engine \<Rightarrow> ('s, 'v, 't, 'g) engine" where
  "register_conflicts a en = en\<lparr>en_conflict := conflict_register a (en_conflict en)\<rparr>"

section \<open>Quarantine\<close>

text \<open>\<open>pop_front\<close> while the front is more than a second old.\<close>

fun drop_old :: "nat \<Rightarrow> nat list \<Rightarrow> nat list" where
  "drop_old now [] = []"
| "drop_old now (t # ts) = (if 1000000000 < now - t then drop_old now ts else t # ts)"

definition record_suspicion ::
  "worker_key \<Rightarrow> nat \<Rightarrow> ('s, 'v, 't, 'g) engine \<Rightarrow> nat \<times> ('s, 'v, 't, 'g) engine" where
  "record_suspicion w now en =
     (let entry = drop_old now ((case en_suspicions en w of None \<Rightarrow> [] | Some ts \<Rightarrow> ts) @ [now])
      in (length entry, en\<lparr>en_suspicions := (en_suspicions en)(w \<mapsto> entry)\<rparr>))"

definition is_impossible_payload :: "string \<Rightarrow> bool" where
  "is_impossible_payload payload =
     (let lower = to_ascii_lowercase payload
      in contains_str lower ''nan'' \<or> contains_str lower ''infinity'' \<or> contains_str lower ''impossible'')"

definition low_trust :: "worker_key \<Rightarrow> bool" where
  "low_trust w = starts_with (to_ascii_lowercase w) ''lowtrust''"

definition should_quarantine ::
  "new_atom \<Rightarrow> nat \<Rightarrow> ('s, 'v, 't, 'g) engine \<Rightarrow> bool \<times> ('s, 'v, 't, 'g) engine" where
  "should_quarantine a now en =
     (case record_suspicion (n_worker a) now en of
        (cnt, en1) \<Rightarrow>
          let spam = 5 < cnt;
              impossible = is_impossible_payload (n_payload_json a);
              low = low_trust (n_worker a) \<and> f32_lt (f32_lit 7 10) (imp_get (n_importance a))
          in (spam \<or> impossible \<or> low, en1))"

section \<open>Ranking\<close>

definition trust_hint :: "(string \<Rightarrow> nat) \<Rightarrow> atom \<Rightarrow> f32" where
  "trust_hint h a = f32_div (f32_of_nat (h (a_worker a) mod 10000)) (f32_of_nat 10000)"

definition rank_score :: "conflict_index \<Rightarrow> atom \<Rightarrow> f32" where
  "rank_score c a =
     (let s0 = imp_get (a_importance a);
          s1 = (if superseded_by c (a_id a) \<noteq> None then f32_sub s0 f32_one else s0);
          k = contradiction_count c (a_id a);
          s2 = (if 0 < k then f32_sub s1 (f32_mul (f32_lit 3 10) (f32_of_nat k)) else s1);
          n = confirmation_count c (a_id a)
      in if 0 < n then f32_add s2 (f32_mul (f32_lit 2 10) (f32_of_nat n)) else s2)"

text \<open>\<open>partial_cmp\<close> of \<open>f32\<close>, with \<open>Equal\<close> for an unordered pair.\<close>

definition f32_cmp :: "f32 \<Rightarrow> f32 \<Rightarrow> ordering" where
  "f32_cmp x y = (if f32_lt x y then Less else if f32_lt y x then Greater else Equal)"

definition ts_or_epoch :: "time_api \<Rightarrow> atom \<Rightarrow> int" where
  "ts_or_epoch api a = (case parse_ts api (a_timestamp a) of Inl _ \<Rightarrow> 0 | Inr t \<Rightarrow> t)"

definition rank_cmp ::
  "time_api \<Rightarrow> (string \<Rightarrow> nat) \<Rightarrow> conflict_index \<Rightarrow> atom \<Rightarrow> atom \<Rightarrow> ordering" where
  "rank_cmp api h c a b =
     then_with (f32_cmp (rank_score c b) (rank_score c a))
       (then_with (cmp_lin (ts_or_epoch api b) (ts_or_epoch api a))
         (then_with (f32_cmp (imp_get (a_importance b)) (imp_get (a_importance a)))
           (f32_cmp (trust_hint h b) (trust_hint h a))))"

text \<open>\<open>retain(|a| seen.insert(a.id()))\<close>: the first of each id.\<close>

fun dedup_ids :: "atom_id list \<Rightarrow> atom list \<Rightarrow> atom list" where
  "dedup_ids seen [] = []"
| "dedup_ids seen (a # as) =
     (if a_id a \<in> set seen then dedup_ids seen as else a # dedup_ids (a_id a # seen) as)"

section \<open>Index metadata\<close>

definition fresh_metadata :: "world_key \<Rightarrow> string \<Rightarrow> timestamp \<Rightarrow> index_metadata" where
  "fresh_metadata w version ts =
     \<lparr>im_world = w, im_version = 1, im_embedder_version = version, im_last_rebuilt = ts, im_ready = True,
      im_rebuilding = False, im_progress = f32_one, im_started_at = None, im_last_progress = None\<rparr>"

definition index_status :: "('s, 'v, 't, 'g) engine \<Rightarrow> index_metadata list" where
  "index_status en = map snd (en_index_state en)"

definition ensure_index_entry ::
  "('s, 'v, 't, 'g) engine_env \<Rightarrow> int \<Rightarrow> world_key \<Rightarrow> ('s, 'v, 't, 'g) engine \<Rightarrow> ('s, 'v, 't, 'g) engine" where
  "ensure_index_entry X now w en =
     (case map_of (en_index_state en) w of
        Some _ \<Rightarrow> en
      | None \<Rightarrow> en\<lparr>en_index_state := AList.update w
          (fresh_metadata w (em_version (ee_embed X)) (now_timestamp (ee_time X) now)) (en_index_state en)\<rparr>)"

text \<open>
  The metadata is updated under its lock, which spans the call of \<open>rebuild\<close>; the states between
  the first and the last assignment are not seen by others. \<open>rebuild\<close>'s result is ignored.
\<close>

definition maybe_rebuild_index ::
  "('s, 'v, 't, 'g) engine_env \<Rightarrow> (nat \<Rightarrow> int) \<Rightarrow> world_key \<Rightarrow> ('s, 'v, 't, 'g) engine \<Rightarrow> ('s, 'v, 't, 'g) engine" where
  "maybe_rebuild_index X utc w en =
     (let en1 = ensure_index_entry X (utc 0) w en
      in case map_of (en_index_state en1) w of
           None \<Rightarrow> en1
         | Some meta \<Rightarrow>
             if im_embedder_version meta \<noteq> em_version (ee_embed X) then
               (let now = now_timestamp (ee_time X) (utc 1);
                    en2 = en1\<lparr>en_vector := snd (ve_rebuild (ee_vector X) w (en_vector en1))\<rparr>;
                    rebuilt = now_timestamp (ee_time X) (utc 2);
                    meta' = meta\<lparr>im_started_at := Some now, im_version := (im_version meta + 1) mod 2 ^ 64,
                              im_embedder_version := em_version (ee_embed X),
                              im_last_rebuilt := rebuilt, im_ready := True, im_rebuilding := False,
                              im_progress := f32_one, im_last_progress := Some rebuilt\<rparr>
                in en2\<lparr>en_index_state := AList.update w meta' (en_index_state en2)\<rparr>)
             else en1)"

text \<open>\<open>whole_milliseconds().max(0) as u64\<close> of the lag, maximised over the worlds that lag.\<close>

fun max_lag :: "time_api \<Rightarrow> int \<Rightarrow> index_metadata list \<Rightarrow> nat option \<Rightarrow> nat option" where
  "max_lag api now [] best = best"
| "max_lag api now (m # ms) best =
     (if im_ready m \<and> \<not> im_rebuilding m then max_lag api now ms best
      else let ts = (case im_last_progress m of Some t \<Rightarrow> t
                     | None \<Rightarrow> (case im_started_at m of Some t \<Rightarrow> t | None \<Rightarrow> im_last_rebuilt m))
           in case parse_ts api ts of
                Inl _ \<Rightarrow> max_lag api now ms best
              | Inr t \<Rightarrow>
                  let lag = nat (max ((now - t) sdiv 1000000) 0) mod 2 ^ 64
                  in max_lag api now ms
                       (case best of None \<Rightarrow> Some lag | Some b \<Rightarrow> if b < lag then Some lag else best))"

definition max_index_rebuild_lag_ms ::
  "time_api \<Rightarrow> int \<Rightarrow> ('s, 'v, 't, 'g) engine \<Rightarrow> nat option" where
  "max_index_rebuild_lag_ms api now en = max_lag api now (index_status en) None"

end
