(* ===== verification/Engine_Ops.thy ===== *)
theory Engine_Ops
  imports Engine_State
begin

text \<open>
  The operations of \<open>DWBaseEngine\<close> in \<open>crates/dwbase-engine/src/lib.rs\<close>, over any components that
  implement the traits: remembering, asking, ingesting from peers, garbage collection, and world
  management. An operation that returns early keeps the effects of the steps it has taken. Without
  the \<open>metrics\<close> feature nothing is recorded about them. Awaiting a component is a call.
\<close>

section \<open>Policies and world status\<close>

record gc_policy =
  gp_retention_days :: "nat option"
  gp_min_importance :: "f32 option"
  gp_replication_allow :: "string list"
  gp_replication_deny :: "string list"

definition default_policy :: gc_policy where
  "default_policy = \<lparr>gp_retention_days = Some 365, gp_min_importance = None,
     gp_replication_allow = [], gp_replication_deny = []\<rparr>"

text \<open>The body of the label loop; the second component is \<open>retention_min_days\<close>.\<close>

definition policy_label :: "string \<Rightarrow> gc_policy \<times> nat option \<Rightarrow> gc_policy \<times> nat option" where
  "policy_label l acc =
     (let (p0, m0) = acc;
          p1 = (case Option.bind (strip_prefix ''policy:retention_days='' l) parse_u64 of
                  Some d \<Rightarrow> p0\<lparr>gp_retention_days := Some d\<rparr> | None \<Rightarrow> p0);
          m1 = (case Option.bind (strip_prefix ''policy:retention_min_days='' l) parse_u64 of
                  Some d \<Rightarrow> Some d | None \<Rightarrow> m0);
          p2 = (case Option.bind (strip_prefix ''policy:min_importance='' l) parse_f32 of
                  Some v \<Rightarrow> p1\<lparr>gp_min_importance := Some v\<rparr> | None \<Rightarrow> p1);
          p3 = (case strip_prefix ''policy:replication_allow='' l of
                  Some v \<Rightarrow> if v \<noteq> [] then p2\<lparr>gp_replication_allow := gp_replication_allow p2 @ [v]\<rparr> else p2
                | None \<Rightarrow> p2);
          p4 = (case strip_prefix ''policy:replication_deny='' l of
                  Some v \<Rightarrow> if v \<noteq> [] then p3\<lparr>gp_replication_deny := gp_replication_deny p3 @ [v]\<rparr> else p3
                | None \<Rightarrow> p3)
      in (p4, m1))"

definition enforce_min_days :: "gc_policy \<times> nat option \<Rightarrow> gc_policy" where
  "enforce_min_days acc =
     (case acc of
        (p, None) \<Rightarrow> p
      | (p, Some m) \<Rightarrow>
          (case gp_retention_days p of
             Some d \<Rightarrow> if d < m then p\<lparr>gp_retention_days := Some m\<rparr> else p
           | None \<Rightarrow> p\<lparr>gp_retention_days := Some m\<rparr>))"

definition policy_of_atoms :: "atom list \<Rightarrow> gc_policy" where
  "policy_of_atoms as =
     enforce_min_days (fold policy_label (concat (map a_labels as)) (default_policy, None))"

definition ok_or_empty :: "(dw_error, 'a list) result \<Rightarrow> 'a list" where
  "ok_or_empty r = (case r of Inl _ \<Rightarrow> [] | Inr xs \<Rightarrow> xs)"

definition tenant_policy_world :: "world_key \<Rightarrow> world_key option" where
  "tenant_policy_world w =
     Option.bind (strip_prefix ''tenant:'' w) (\<lambda>rest.
     map_option (\<lambda>(tenant, _). ''tenant:'' @ tenant @ ''/policy'') (split_once (CHR ''/'') rest))"

definition parse_policy ::
  "('s, 'v, 't, 'g) engine_env \<Rightarrow> 's \<Rightarrow> atom list \<Rightarrow> world_key \<Rightarrow> gc_policy" where
  "parse_policy X s as w =
     policy_of_atoms
       (filter (\<lambda>a. a_world a = w) as
        @ ok_or_empty (st_scan (ee_storage X) s (''policy:'' @ w) default_filter)
        @ (case tenant_policy_world w of
             None \<Rightarrow> []
           | Some tw \<Rightarrow> ok_or_empty (st_scan (ee_storage X) s tw default_filter)))"

definition is_policy_atom :: "atom \<Rightarrow> bool" where
  "is_policy_atom a \<longleftrightarrow> (\<exists>l \<in> set (a_labels a). starts_with l ''policy:'' \<or> l = ''world_meta'')"

fun status_of_labels :: "string list \<Rightarrow> string option" where
  "status_of_labels [] = None"
| "status_of_labels (l # ls) =
     (case strip_prefix ''world_status:'' l of Some s \<Rightarrow> Some s | None \<Rightarrow> status_of_labels ls)"

text \<open>The loop of \<open>world_status\<close>: a later timestamp replaces, an equal one does not.\<close>

fun latest_status :: "time_api \<Rightarrow> (int \<times> string) option \<Rightarrow> atom list \<Rightarrow> (int \<times> string) option" where
  "latest_status api best [] = best"
| "latest_status api best (a # as) =
     latest_status api
       (case status_of_labels (a_labels a) of
          None \<Rightarrow> best
        | Some s \<Rightarrow> if (case best of None \<Rightarrow> True | Some (t, _) \<Rightarrow> t < ts_or_epoch api a)
                    then Some (ts_or_epoch api a, s) else best) as"

definition world_status ::
  "('s, 'v, 't, 'g) engine_env \<Rightarrow> 's \<Rightarrow> world_key \<Rightarrow> (dw_error, string option) result" where
  "world_status X s w =
     Inr (map_option snd (latest_status (ee_time X) None
       (ok_or_empty (st_scan (ee_storage X) s w
          (default_filter\<lparr>f_world := Some w, f_labels := [''world_meta'']\<rparr>)))))"

definition world_archived ::
  "('s, 'v, 't, 'g) engine_env \<Rightarrow> 's \<Rightarrow> world_key \<Rightarrow> (dw_error, bool) result" where
  "world_archived X s w = rmap (\<lambda>st. st = Some ''archived'') (world_status X s w)"

fun drop_archived ::
  "('s, 'v, 't, 'g) engine_env \<Rightarrow> 's \<Rightarrow> world_key list \<Rightarrow> (dw_error, world_key list) result" where
  "drop_archived X s [] = Inr []"
| "drop_archived X s (w # ws) =
     rbind (world_archived X s w) (\<lambda>gone.
     rmap (\<lambda>rest. if gone then rest else w # rest) (drop_archived X s ws))"

definition worlds_filtered ::
  "('s, 'v, 't, 'g) engine_env \<Rightarrow> bool \<Rightarrow> ('s, 'v, 't, 'g) engine \<Rightarrow> (dw_error, world_key list) result" where
  "worlds_filtered X include_archived en =
     rbind (st_worlds (ee_storage X) (en_storage en)) (\<lambda>ws.
     if include_archived then Inr (sort ws) else drop_archived X (en_storage en) (sort ws))"

definition engine_worlds ::
  "('s, 'v, 't, 'g) engine_env \<Rightarrow> ('s, 'v, 't, 'g) engine \<Rightarrow> (dw_error, world_key list) result" where
  "engine_worlds X en = worlds_filtered X False en"

section \<open>Remembering\<close>

definition atom_from_new :: "atom_id \<Rightarrow> new_atom \<Rightarrow> atom" where
  "atom_from_new i n =
     builder_build
       (fold (\<lambda>l. builder_add_typed_link (l_target l) (l_kind l)) (n_links n)
         (fold builder_add_label (n_labels n)
           (fold builder_add_flag (n_flags n)
             (builder_vector (n_vector n)
               (atom_builder_new i (n_world n) (n_worker n) (n_kind n) (n_timestamp n) (n_importance n)
                 (n_payload_json n))))))"

definition upsert_vector ::
  "('s, 'v, 't, 'g) engine_env \<Rightarrow> atom \<Rightarrow> ('s, 'v, 't, 'g) engine
   \<Rightarrow> (dw_error, unit) result \<times> ('s, 'v, 't, 'g) engine" where
  "upsert_vector X a en =
     (case a_vector a of
        None \<Rightarrow> (Inr (), en)
      | Some v \<Rightarrow> on_vector (ve_upsert (ee_vector X) (a_world a) (a_id a) v) en)"

text \<open>The tail that remembering, ingesting and world actions share.\<close>

definition commit_atom ::
  "('s, 'v, 't, 'g) engine_env \<Rightarrow> atom \<Rightarrow> ('s, 'v, 't, 'g) engine
   \<Rightarrow> (dw_error, unit) result \<times> ('s, 'v, 't, 'g) engine" where
  "commit_atom X a en =
     sbind (upsert_vector X a en) (\<lambda>_ en1.
     sbind (on_storage (st_append (ee_storage X) a) en1) (\<lambda>_ en2.
     sbind (engine_reflex_insert (ee_time X) a en2) (\<lambda>_ en3.
     on_stream (sr_publish (ee_stream X) a) (register_conflicts a en3))))"

definition quarantine_atom :: "new_atom \<Rightarrow> new_atom" where
  "quarantine_atom n =
     (let n1 = n\<lparr>n_world := ''quarantine:'' @ n_world n\<rparr>;
          n2 = (if ''suspect'' \<in> set (n_flags n1) then n1 else n1\<lparr>n_flags := n_flags n1 @ [''suspect'']\<rparr>)
      in if ''quarantine'' \<in> set (n_labels n2) then n2 else n2\<lparr>n_labels := n_labels n2 @ [''quarantine'']\<rparr>)"

definition engine_remember ::
  "('s, 'v, 't, 'g) engine_env \<Rightarrow> op_clock \<Rightarrow> new_atom \<Rightarrow> ('s, 'v, 't, 'g) engine
   \<Rightarrow> (dw_error, atom_id) result \<times> ('s, 'v, 't, 'g) engine" where
  "engine_remember X clk n en =
     sbind (on_gate (ga_remember (ee_gate X) n) en) (\<lambda>_ en1.
       let (i, en2) = new_id en1;
           n1 = (if n_timestamp n = []
                 then n\<lparr>n_timestamp := now_timestamp (ee_time X) (oc_utc clk 0)\<rparr> else n);
           en3 = ensure_index_entry X (oc_utc clk 1) (n_world n1) en2;
           en4 = maybe_rebuild_index X (\<lambda>k. oc_utc clk (k + 2)) (n_world n1) en3;
           (suspect, en5) = should_quarantine n1 (oc_mono clk) en4;
           n2 = (if suspect then quarantine_atom n1 else n1)
       in case em_embed (ee_embed X) (n_payload_json n2) of
            Inl e \<Rightarrow> (Inl e, en5)
          | Inr emb \<Rightarrow>
              let n3 = (if n_vector n2 = None then n2\<lparr>n_vector := emb\<rparr> else n2)
              in sbind (commit_atom X (atom_from_new i n3) en5) (\<lambda>_ en6. (Inr i, en6)))"

section \<open>Asking\<close>

definition in_quarantine :: "world_key \<Rightarrow> bool" where
  "in_quarantine w = starts_with w ''quarantine:''"

definition question_filter :: "question \<Rightarrow> atom_filter" where
  "question_filter q = (case q_filter q of None \<Rightarrow> default_filter | Some f \<Rightarrow> f)"

text \<open>The atoms that are ranked: reflex index or scan, then vector hits, then a bounded scan.\<close>

definition ask_candidates ::
  "('s, 'v, 't, 'g) engine_env \<Rightarrow> question \<Rightarrow> bool \<Rightarrow> atom list \<Rightarrow> ('s, 'v, 't, 'g) engine
   \<Rightarrow> (dw_error, atom list) result" where
  "ask_candidates X q ready cs en =
     (let w = q_world q; f = question_filter q; st = ee_storage X in
      rbind (if cs = [] then st_scan st (en_storage en) w (f\<lparr>f_world := Some w\<rparr>) else Inr cs) (\<lambda>c1.
      let c2 = (if in_quarantine w then c1 else filter (\<lambda>a. \<not> in_quarantine (a_world a)) c1) in
      rbind (if ready then
               (case em_embed (ee_embed X) (q_text q) of
                  Inr (Some v) \<Rightarrow>
                    rbind (ve_search (ee_vector X) (en_vector en) w v 10 f) (\<lambda>ids.
                    if ids = [] then Inr c2
                    else rmap (\<lambda>found. c2 @ found) (st_get_by_ids st (en_storage en) ids))
                | _ \<Rightarrow> Inr c2)
             else Inr c2) (\<lambda>c3.
      if c3 = [] then rmap (take 20) (st_scan st (en_storage en) w f) else Inr c3)))"

definition engine_ask ::
  "('s, 'v, 't, 'g) engine_env \<Rightarrow> op_clock \<Rightarrow> question \<Rightarrow> ('s, 'v, 't, 'g) engine
   \<Rightarrow> (dw_error, answer) result \<times> ('s, 'v, 't, 'g) engine" where
  "engine_ask X clk q en =
     sbind (on_gate (ga_ask (ee_gate X) q) en) (\<lambda>_ en1.
       case reflex_index_filter (ee_time X) (en_reflex en1) (filter_from_question q) of
         Inl e \<Rightarrow> (Inl e, en1)
       | Inr cs \<Rightarrow>
           let en2 = ensure_index_entry X (oc_utc clk 0) (q_world q) en1;
               en3 = maybe_rebuild_index X (\<lambda>k. oc_utc clk (k + 1)) (q_world q) en2;
               meta = (case map_of (en_index_state en3) (q_world q) of
                         Some m \<Rightarrow> m
                       | None \<Rightarrow> fresh_metadata (q_world q) (em_version (ee_embed X))
                                   (now_timestamp (ee_time X) (oc_utc clk 4)));
               warnings = (if im_ready meta then []
                 else ''index not ready; used fallback search''
                      # (if im_rebuilding meta then [''index rebuilding in background''] else []))
           in (rmap (\<lambda>cs. \<lparr>ans_world = q_world q, ans_text = ''answer-pending'',
                    ans_supporting_atoms =
                      sort_by (rank_cmp (ee_time X) (ee_hash X) (en_conflict en3)) (dedup_ids [] cs),
                    ans_warnings = warnings\<rparr>)
                 (ask_candidates X q (im_ready meta) cs en3), en3))"

section \<open>Reading and peers\<close>

definition engine_list_ids_in_window where
  "engine_list_ids_in_window X w tw en = st_list_ids (ee_storage X) (en_storage en) w tw"

definition storage_ready :: "('s, 'v, 't, 'g) engine_env \<Rightarrow> ('s, 'v, 't, 'g) engine \<Rightarrow> bool" where
  "storage_ready X en = is_ok (st_worlds (ee_storage X) (en_storage en))"

definition get_atoms where
  "get_atoms X ids en = st_get_by_ids (ee_storage X) (en_storage en) ids"

fun ingest_loop ::
  "('s, 'v, 't, 'g) engine_env \<Rightarrow> atom list \<Rightarrow> atom_id list \<Rightarrow> ('s, 'v, 't, 'g) engine
   \<Rightarrow> (dw_error, atom_id list) result \<times> ('s, 'v, 't, 'g) engine" where
  "ingest_loop X [] out en = (Inr out, en)"
| "ingest_loop X (a # as) out en =
     (case st_get_by_ids (ee_storage X) (en_storage en) [a_id a] of
        Inl e \<Rightarrow> (Inl e, en)
      | Inr (_ # _) \<Rightarrow> ingest_loop X as out en
      | Inr [] \<Rightarrow> sbind (commit_atom X a en) (\<lambda>_ en1. ingest_loop X as (out @ [a_id a]) en1))"

definition ingest_remote_atoms where
  "ingest_remote_atoms X as en = ingest_loop X as [] en"

definition engine_observe ::
  "('s, 'v, 't, 'g) engine_env \<Rightarrow> atom \<Rightarrow> ('s, 'v, 't, 'g) engine
   \<Rightarrow> (dw_error, unit) result \<times> ('s, 'v, 't, 'g) engine" where
  "engine_observe X a en = on_stream (sr_publish (ee_stream X) a) en"

definition engine_replay where
  "engine_replay X w f en = st_scan (ee_storage X) (en_storage en) w f"

section \<open>Garbage collection\<close>

text \<open>\<open>days as i64\<close>.\<close>

definition days_i64 :: "nat \<Rightarrow> int" where
  "days_i64 d = sint (of_nat d :: 64 word)"

text \<open>Whether an atom has expired; \<open>None\<close> where \<open>Duration::days\<close> panics.\<close>

definition atom_expired ::
  "('s, 'v, 't, 'g) engine_env \<Rightarrow> gc_policy \<Rightarrow> int \<Rightarrow> atom \<Rightarrow> bool option" where
  "atom_expired X p now a =
     (case gp_retention_days p of
        None \<Rightarrow> Some False
      | Some d \<Rightarrow>
          if d = 0 then Some False
          else case parse_ts (ee_time X) (a_timestamp a) of
                 Inl _ \<Rightarrow> Some False
               | Inr ts \<Rightarrow> map_option (\<lambda>span. span < now - ts) (ee_days X (days_i64 d)))"

definition low_importance :: "gc_policy \<Rightarrow> atom \<Rightarrow> bool" where
  "low_importance p a =
     (case gp_min_importance p of None \<Rightarrow> False | Some m \<Rightarrow> f32_lt (imp_get (a_importance a)) m)"

definition gc_exempt :: "atom_id list \<Rightarrow> atom \<Rightarrow> bool" where
  "gc_exempt refd a \<longleftrightarrow> is_policy_atom a \<or> a_id a \<in> set refd
     \<or> (\<exists>l \<in> set (a_labels a). starts_with l ''world_meta'')"

fun doomed_ids ::
  "('s, 'v, 't, 'g) engine_env \<Rightarrow> gc_policy \<Rightarrow> int \<Rightarrow> atom_id list \<Rightarrow> atom list \<Rightarrow> atom_id list option" where
  "doomed_ids X p now refd [] = Some []"
| "doomed_ids X p now refd (a # as) =
     (if gc_exempt refd a then doomed_ids X p now refd as
      else Option.bind (atom_expired X p now a) (\<lambda>expired.
           map_option (\<lambda>ids. if expired \<or> low_importance p a then a_id a # ids else ids)
             (doomed_ids X p now refd as)))"

definition referenced_ids :: "atom list \<Rightarrow> atom_id list" where
  "referenced_ids as = concat (map (\<lambda>a. map l_target (a_links a)) as)"

fun parsed_times :: "time_api \<Rightarrow> atom list \<Rightarrow> int list" where
  "parsed_times api [] = []"
| "parsed_times api (a # as) =
     (case parse_ts api (a_timestamp a) of
        Inl _ \<Rightarrow> parsed_times api as | Inr t \<Rightarrow> t # parsed_times api as)"

text \<open>The newest timestamp of the world stands for the current time; the clock is read if there is none.\<close>

definition gc_now :: "time_api \<Rightarrow> int \<Rightarrow> atom list \<Rightarrow> int" where
  "gc_now api clock as = (case parsed_times api as of [] \<Rightarrow> clock | t # ts \<Rightarrow> fold max ts t)"

text \<open>One world's pass; \<open>None\<close> in place of a result is a panic.\<close>

definition gc_world ::
  "('s, 'v, 't, 'g) engine_env \<Rightarrow> int \<Rightarrow> world_key \<Rightarrow> ('s, 'v, 't, 'g) engine
   \<Rightarrow> (dw_error, nat) result option \<times> ('s, 'v, 't, 'g) engine" where
  "gc_world X clock w en =
     (case st_scan (ee_storage X) (en_storage en) w default_filter of
        Inl e \<Rightarrow> (Some (Inl e), en)
      | Inr as0 \<Rightarrow>
          let p = parse_policy X (en_storage en) as0 w;
              refd = referenced_ids as0;
              as = sort_key (ts_or_epoch (ee_time X)) as0
          in case doomed_ids X p (gc_now (ee_time X) clock as) refd as of
               None \<Rightarrow> (None, en)
             | Some [] \<Rightarrow> (Some (Inr 0), en)
             | Some ids \<Rightarrow>
                 (case on_storage (st_delete (ee_storage X) w ids) en of (r, en1) \<Rightarrow> (Some r, en1)))"

fun gc_worlds ::
  "('s, 'v, 't, 'g) engine_env \<Rightarrow> (nat \<Rightarrow> int) \<Rightarrow> nat \<Rightarrow> world_key list \<Rightarrow> nat \<Rightarrow> ('s, 'v, 't, 'g) engine
   \<Rightarrow> (dw_error, nat) result option \<times> ('s, 'v, 't, 'g) engine" where
  "gc_worlds X utc k [] evicted en = (Some (Inr evicted), en)"
| "gc_worlds X utc k (w # ws) evicted en =
     (case gc_world X (utc k) w en of
        (None, en1) \<Rightarrow> (None, en1)
      | (Some (Inl e), en1) \<Rightarrow> (Some (Inl e), en1)
      | (Some (Inr n), en1) \<Rightarrow> gc_worlds X utc (k + 1) ws (evicted + n) en1)"

definition gc_once ::
  "('s, 'v, 't, 'g) engine_env \<Rightarrow> (nat \<Rightarrow> int) \<Rightarrow> ('s, 'v, 't, 'g) engine
   \<Rightarrow> (dw_error, nat) result option \<times> ('s, 'v, 't, 'g) engine" where
  "gc_once X utc en =
     (case st_worlds (ee_storage X) (en_storage en) of
        Inl e \<Rightarrow> (Some (Inl e), en)
      | Inr ws \<Rightarrow> gc_worlds X utc 0 ws 0 en)"

section \<open>World management\<close>

fun action_parts :: "world_action \<Rightarrow> world_key \<times> string \<times> string option \<times> string list" where
  "action_parts (Create meta) = (wm_world meta, ''active'', wm_description meta, wm_labels meta)"
| "action_parts (Archive w) = (w, ''archived'', None, [])"
| "action_parts (Resume w) = (w, ''active'', None, [])"

definition action_payload :: "string \<Rightarrow> world_key \<Rightarrow> timestamp \<Rightarrow> string option \<Rightarrow> string list \<Rightarrow> json" where
  "action_payload status w now desc labels =
     JObj ([(''action'', JStr status), (''world'', JStr w), (''at'', JStr now)]
       @ (case desc of None \<Rightarrow> [] | Some d \<Rightarrow> [(''description'', JStr d)])
       @ (if labels = [] then [] else [(''labels'', JArr (map JStr labels))]))"

definition world_meta_atom ::
  "('s, 'v, 't, 'g) engine_env \<Rightarrow> atom_id \<Rightarrow> timestamp \<Rightarrow> world_action \<Rightarrow> atom" where
  "world_meta_atom X i now action =
     (case action_parts action of (w, status, desc, labels) \<Rightarrow>
        builder_build (fold builder_add_label labels
          (builder_add_label (''world_status:'' @ status)
            (builder_add_label ''world_meta''
              (atom_builder_new i w ''system'' Reflection now (importance_clamped (f32_lit 1 10))
                (ee_json X (action_payload status w now desc labels)))))))"

definition manage_world ::
  "('s, 'v, 't, 'g) engine_env \<Rightarrow> op_clock \<Rightarrow> world_action \<Rightarrow> ('s, 'v, 't, 'g) engine
   \<Rightarrow> (dw_error, unit) result \<times> ('s, 'v, 't, 'g) engine" where
  "manage_world X clk action en =
     sbind (on_gate (ga_action (ee_gate X) action) en) (\<lambda>_ en1.
       case action_parts action of (w, status, desc, labels) \<Rightarrow>
         sbind (world_status X (en_storage en1) w, en1) (\<lambda>cur en1.
         if cur = Some status \<and> desc = None \<and> labels = [] then (Inr (), en1)
         else let now = now_timestamp (ee_time X) (oc_utc clk 0);
                  (i, en2) = new_id en1
              in commit_atom X (world_meta_atom X i now action) en2))"

end
