(* ===== verification/Sled_Keys.thy ===== *)
theory Sled_Keys
  imports Engine_Types
begin

text \<open>
  The key layout of \<open>crates/dwbase-storage-sled/src/lib.rs\<close>:
  \<open>world/{world}/atoms/{id}\<close>, \<open>world/{world}/log/{seq}\<close> and \<open>idx/atom/{id}\<close>. Keys are UTF-8
  text written by this crate, so the \<open>from_utf8\<close> failures of the readers do not arise. The
  lemmas show that log keys of a world sort in sequence order, that the readers invert the
  writers, and that keys of different worlds and kinds are apart as long as world names hold no
  slash; \<open>world_from_key\<close> cuts a world name at its first slash.
\<close>

definition LOG_SEQ_WIDTH :: nat where
  "LOG_SEQ_WIDTH = 20"

definition atom_key :: "world_key \<Rightarrow> atom_id \<Rightarrow> string" where
  "atom_key w i = ''world/'' @ w @ ''/atoms/'' @ i"

definition atoms_prefix :: "world_key \<Rightarrow> string" where
  "atoms_prefix w = ''world/'' @ w @ ''/atoms/''"

definition log_prefix :: "world_key \<Rightarrow> string" where
  "log_prefix w = ''world/'' @ w @ ''/log/''"

definition log_key :: "world_key \<Rightarrow> nat \<Rightarrow> string" where
  "log_key w n = ''world/'' @ w @ ''/log/'' @ dec_pad LOG_SEQ_WIDTH n"

definition atom_index_key :: "atom_id \<Rightarrow> string" where
  "atom_index_key i = ''idx/atom/'' @ i"

text \<open>\<open>rsplit('/').next()\<close> is the last piece; it always exists.\<close>

definition seq_from_log_key :: "string \<Rightarrow> nat option" where
  "seq_from_log_key k = parse_u64 (last (split_on (CHR ''/'') k))"

definition world_from_key :: "string \<Rightarrow> world_key option" where
  "world_from_key k =
     (case split_on (CHR ''/'') k of
        first # world # _ \<Rightarrow> if first = ''world'' then Some world else None
      | _ \<Rightarrow> None)"

definition slash_free :: "string \<Rightarrow> bool" where
  "slash_free w \<longleftrightarrow> CHR ''/'' \<notin> set w"

section \<open>Text order of padded numbers\<close>

lemma append_less_append [simp]: "(p @ x :: char list) < p @ y \<longleftrightarrow> x < y"
  by (induction p) auto

lemma append_le_append [simp]: "(p @ x :: char list) \<le> p @ y \<longleftrightarrow> x \<le> y"
  by (induction p) auto

lemma digit_val_less: "digit_val c = Some a \<Longrightarrow> digit_val d = Some b \<Longrightarrow> c < d \<longleftrightarrow> a < b"
  by (auto simp: digit_val_def less_char_def Let_def split: if_splits)

lemma digit_val_inj: "digit_val c = Some a \<Longrightarrow> digit_val d = Some a \<Longrightarrow> c = d"
  using digit_val_less [of c a d a] digit_val_less [of d a c a] by simp

lemma digit_val_bound: "digit_val c = Some a \<Longrightarrow> a < 10"
  by (auto simp: digit_val_def Let_def split: if_splits)

lemma digits_val_acc:
  "digits_val acc s = map_option (\<lambda>v. 10 ^ length s * acc + v) (digits_val 0 s)"
proof (induction s arbitrary: acc)
  case (Cons c s)
  show ?case
  proof (cases "digit_val c")
    case (Some d)
    then show ?thesis
      using Cons [of "10 * acc + d"] Cons [of d]
      by (cases "digits_val 0 s") (simp_all add: algebra_simps)
  qed simp
qed simp

lemma digits_val_Cons:
  assumes "digits_val 0 (c # s) = Some v"
  shows "\<exists>d u. digit_val c = Some d \<and> digits_val 0 s = Some u \<and> v = 10 ^ length s * d + u"
proof (cases "digit_val c")
  case (Some d)
  then have "digits_val d s = Some v" using assms by simp
  then have "map_option (\<lambda>u. 10 ^ length s * d + u) (digits_val 0 s) = Some v"
    by (subst (asm) digits_val_acc)
  then show ?thesis using Some by auto
qed (use assms in simp)

lemma block_less: "d < m \<Longrightarrow> u < b \<Longrightarrow> b * d + u < b * m" for d m u b :: nat
  using mult_le_mono2 [of "Suc d" m b] by simp

lemma digits_val_bound: "digits_val 0 s = Some v \<Longrightarrow> v < 10 ^ length s"
proof (induction s arbitrary: v)
  case (Cons c s)
  obtain d u where d: "digit_val c = Some d" and u: "digits_val 0 s = Some u"
    and v: "v = 10 ^ length s * d + u"
    using digits_val_Cons [OF Cons.prems] by blast
  have "v < 10 ^ length s * 10"
    unfolding v by (rule block_less [OF digit_val_bound [OF d] Cons.IH [OF u]])
  then show ?case by simp
qed simp

lemma digits_val_less:
  assumes "length s = length t" "digits_val 0 s = Some a" "digits_val 0 t = Some b"
  shows "s < t \<longleftrightarrow> a < b"
  using assms
proof (induction s t arbitrary: a b rule: list_induct2)
  case (Cons c s d t)
  obtain c' u where c: "digit_val c = Some c'" "digits_val 0 s = Some u" "a = 10 ^ length s * c' + u"
    using digits_val_Cons [OF Cons.prems(1)] by blast
  obtain d' v where d: "digit_val d = Some d'" "digits_val 0 t = Some v" "b = 10 ^ length t * d' + v"
    using digits_val_Cons [OF Cons.prems(2)] by blast
  note len = Cons.hyps
  have u: "u < 10 ^ length s" and v: "v < 10 ^ length s"
    using digits_val_bound [OF c(2)] digits_val_bound [OF d(2)] len by simp_all
  have big: "10 ^ length s * x + y < 10 ^ length s * x' + y'"
    if "x < x'" "y < 10 ^ length s" for x x' y y' :: nat
    using block_less [OF that] by simp
  consider "c' < d'" | "c' = d'" | "d' < c'" by linarith
  then show ?case
  proof cases
    case 1
    then show ?thesis using digit_val_less [OF c(1) d(1)] big [OF 1 u, of v] c(3) d(3) len by simp
  next
    case 2
    then have "c = d" using c(1) d(1) digit_val_inj by blast
    then show ?thesis using Cons.IH [OF c(2) d(2)] 2 c(3) d(3) len by simp
  next
    case 3
    then have "\<not> c < d" "c \<noteq> d" using digit_val_less [OF c(1) d(1)] c(1) d(1) by auto
    then show ?thesis using big [OF 3 v, of u] c(3) d(3) len by simp
  qed
qed simp

lemma digits_val_dec_pad [simp]: "digits_val 0 (dec_pad w n) = Some n"
  by (simp add: dec_pad_def Let_def digits_val_zeros digits_val_dec_text_gen)

lemma length_dec_text_le: "n < 10 ^ w \<Longrightarrow> 0 < w \<Longrightarrow> length (dec_text n) \<le> w"
proof (induction n arbitrary: w rule: dec_text.induct)
  case (1 n)
  show ?case
  proof (cases "n < 10")
    case True
    then show ?thesis using 1 by (simp add: dec_text.simps [of n])
  next
    case False
    then obtain v where v: "w = Suc v" "0 < v"
      using 1(2,3) by (cases w; cases "w - 1") auto
    then have "n div 10 < 10 ^ v" using 1(2) by (simp add: div_less_iff_less_mult)
    then have "length (dec_text (n div 10)) \<le> v" using 1(1) False v by simp
    then show ?thesis using False v by (simp add: dec_text.simps [of n])
  qed
qed

lemma length_dec_pad: "n < 10 ^ w \<Longrightarrow> 0 < w \<Longrightarrow> length (dec_pad w n) = w"
  using length_dec_text_le [of n w] by (simp add: dec_pad_def Let_def)

lemma dec_pad_less:
  "a < 10 ^ w \<Longrightarrow> b < 10 ^ w \<Longrightarrow> 0 < w \<Longrightarrow> dec_pad w a < dec_pad w b \<longleftrightarrow> a < b"
  by (rule digits_val_less) (simp_all add: length_dec_pad)

lemma u64_width: "n \<le> u64_max \<Longrightarrow> n < 10 ^ LOG_SEQ_WIDTH"
  by (simp add: u64_max_def LOG_SEQ_WIDTH_def)

lemma set_dec_pad: "CHR ''/'' \<notin> set (dec_pad w n)"
proof
  assume "CHR ''/'' \<in> set (dec_pad w n)"
  then have "CHR ''/'' \<in> set (dec_text n)" by (simp add: dec_pad_def Let_def split: if_splits)
  then obtain d where "d < 10" and "CHR ''/'' = digit_char d" using set_dec_text [of n] by blast
  then show False using digit_char_neq(2) [of d] by simp
qed

section \<open>Reading keys back\<close>

lemma slash_free_simps [simp]:
  "slash_free []" "slash_free (c # s) \<longleftrightarrow> c \<noteq> CHR ''/'' \<and> slash_free s"
  "slash_free (s @ t) \<longleftrightarrow> slash_free s \<and> slash_free t"
  by (auto simp: slash_free_def)

lemma split_on_snoc:
  "c \<notin> set t \<Longrightarrow> \<exists>w ws. split_on c (s @ c # t) = (w # ws) @ [t]"
  by (induction s) (auto simp: split_on_no_sep)

lemma last_split_on: "c \<notin> set t \<Longrightarrow> last (split_on c (s @ c # t)) = t"
  using split_on_snoc [of c t s] by auto

lemma seq_from_log_key_log_key [simp]: "n \<le> u64_max \<Longrightarrow> seq_from_log_key (log_key w n) = Some n"
  using last_split_on [OF set_dec_pad, of "''world/'' @ w @ ''/log''" LOG_SEQ_WIDTH n]
  by (simp add: seq_from_log_key_def log_key_def parse_u64_dec_pad)

lemma log_key_less:
  "a \<le> u64_max \<Longrightarrow> b \<le> u64_max \<Longrightarrow> log_key w a < log_key w b \<longleftrightarrow> a < b"
  using dec_pad_less [OF u64_width u64_width, of a b] by (simp add: log_key_def LOG_SEQ_WIDTH_def)

lemma log_key_eq: "a \<le> u64_max \<Longrightarrow> b \<le> u64_max \<Longrightarrow> log_key w a = log_key w b \<longleftrightarrow> a = b"
  by (metis log_key_less less_irrefl linorder_neqE_nat)

lemma log_key_prefix [simp]: "starts_with (log_key w n) (log_prefix w)"
  by (simp add: log_key_def log_prefix_def)

text \<open>The world read from a key is the name up to its first slash.\<close>

lemma world_from_key_world:
  "world_from_key (''world/'' @ w @ CHR ''/'' # s) = Some (takeWhile (\<lambda>c. c \<noteq> CHR ''/'') w)"
proof -
  have 1: "split_on (CHR ''/'') (''world/'' @ r) = ''world'' # split_on (CHR ''/'') r" for r
    using split_on_sep [of "CHR ''/''" "''world''" r] by simp
  have "hd (split_on (CHR ''/'') (w @ CHR ''/'' # s)) = takeWhile (\<lambda>c. c \<noteq> CHR ''/'') w"
    unfolding hd_split_on by (induction w) auto
  then show ?thesis
    unfolding world_from_key_def 1
    by (cases "split_on (CHR ''/'') (w @ CHR ''/'' # s)") auto
qed

lemma world_from_atom_key:
  "world_from_key (atom_key w i) = Some (takeWhile (\<lambda>c. c \<noteq> CHR ''/'') w)"
  using world_from_key_world [of w "''atoms/'' @ i"] by (simp add: atom_key_def)

lemma world_from_log_key:
  "world_from_key (log_key w n) = Some (takeWhile (\<lambda>c. c \<noteq> CHR ''/'') w)"
  using world_from_key_world [of w "''log/'' @ dec_pad LOG_SEQ_WIDTH n"] by (simp add: log_key_def)

lemma takeWhile_slash_free: "slash_free w \<Longrightarrow> takeWhile (\<lambda>c. c \<noteq> CHR ''/'') w = w"
  by (auto simp: slash_free_def takeWhile_eq_all_conv)

lemma slash_split:
  assumes "slash_free w" "slash_free w'" "w @ CHR ''/'' # s = w' @ CHR ''/'' # s'"
  shows "w = w' \<and> s = s'"
proof -
  have "takeWhile (\<lambda>c. c \<noteq> CHR ''/'') (w @ CHR ''/'' # s) = w" if "slash_free w" for w s
    using that by (induction w) auto
  then show ?thesis using assms by (metis append_same_eq same_append_eq list.inject)
qed

lemma atom_key_eq:
  "slash_free w \<Longrightarrow> slash_free w' \<Longrightarrow> atom_key w i = atom_key w' i' \<longleftrightarrow> w = w' \<and> i = i'"
  using slash_split [of w w' "''atoms/'' @ i" "''atoms/'' @ i'"] by (auto simp: atom_key_def)

lemma log_prefix_world:
  "slash_free w \<Longrightarrow> slash_free w' \<Longrightarrow> starts_with (log_key w' n) (log_prefix w) \<longleftrightarrow> w' = w"
  using slash_split [of w' w "''log/'' @ dec_pad LOG_SEQ_WIDTH n"]
  by (auto simp: log_key_def log_prefix_def starts_with_iff)

lemma atom_key_not_log_prefix:
  "slash_free w \<Longrightarrow> slash_free w' \<Longrightarrow> \<not> starts_with (atom_key w' i) (log_prefix w)"
  using slash_split [of w' w "''atoms/'' @ i"] by (auto simp: atom_key_def log_prefix_def starts_with_iff)

lemma atom_key_neq_log_key: "slash_free w \<Longrightarrow> slash_free w' \<Longrightarrow> atom_key w i \<noteq> log_key w' n"
  using slash_split [of w w' "''atoms/'' @ i" "''log/'' @ dec_pad LOG_SEQ_WIDTH n"]
  by (auto simp: atom_key_def log_key_def)

lemma index_key_apart [simp]:
  "atom_index_key i \<noteq> atom_key w j" "atom_index_key i \<noteq> log_key w n"
  "\<not> starts_with (atom_index_key i) (log_prefix w)"
  "\<not> starts_with (atom_index_key i) (CHR ''w'' # s)"
  "atom_index_key i = atom_index_key j \<longleftrightarrow> i = j"
  by (auto simp: atom_index_key_def atom_key_def log_key_def log_prefix_def)

text \<open>
  Within a world the log keys sort in the order of their sequence numbers and the number is read
  back from the key, for every \<open>u64\<close> sequence number.
\<close>

theorem log_keys_ordered:
  assumes "a \<le> u64_max" and "b \<le> u64_max"
  shows "(log_key w a < log_key w b \<longleftrightarrow> a < b) \<and> seq_from_log_key (log_key w a) = Some a"
  using assms by (simp add: log_key_less)

theorem log_keys_ordered_witness:
  "(log_key ''tenant:a/b'' 9 < log_key ''tenant:a/b'' 10 \<longleftrightarrow> (9::nat) < 10)
   \<and> seq_from_log_key (log_key ''tenant:a/b'' 9) = Some 9"
  by (rule log_keys_ordered) (simp_all add: u64_max_def)

text \<open>
  A world whose name contains a slash is never recovered from its keys: \<open>world_from_key\<close> yields
  the part before the first slash, which is a different name.
\<close>

theorem world_from_key_cuts_at_slash:
  "world_from_key (atom_key w i) = Some w \<longleftrightarrow> slash_free w"
  by (simp add: world_from_atom_key takeWhile_eq_all_conv slash_free_def) metis

end
