(* ===== verification/Sled_Store.thy ===== *)
theory Sled_Store
  imports Sled_Keys
begin

text \<open>
  \<open>SledStorage\<close> of \<open>crates/dwbase-storage-sled/src/lib.rs\<close>: bodies, log frames and the id index
  kept in one key-value tree, with optional encryption of bodies and repair of the logs on open.
  The third-party code it calls is one record of functions, \<open>sled_env\<close>: the tree of the \<open>sled\<close>
  crate (an iterator is the list of its items), the MessagePack codecs of \<open>rmp_serde\<close>, CRC-32,
  SHA-256, AES-GCM and the nonce drawn from the operating system. Nothing is assumed of it here.
  A fallible operation on \<open>&self\<close> that writes returns its result and the storage, because
  an early return keeps what was written before it.
\<close>

record log_frame =
  lf_atom_id :: atom_id
  lf_checksum :: "32 word"
  lf_len :: nat

record atom_index_entry =
  ie_world :: world_key
  ie_seq :: nat

record encrypted_blob =
  eb_key_id :: string
  eb_nonce :: string
  eb_cipher :: string

record 'db sled_env =
  sl_get :: "'db \<Rightarrow> string \<Rightarrow> (string, string option) result"
  sl_insert :: "string \<Rightarrow> string \<Rightarrow> 'db \<Rightarrow> (string, unit) result \<times> 'db"
  sl_remove :: "string \<Rightarrow> 'db \<Rightarrow> (string, unit) result \<times> 'db"
  sl_scan :: "'db \<Rightarrow> string \<Rightarrow> (string, string \<times> string) result list"
  sl_flush :: "'db \<Rightarrow> (string, unit) result \<times> 'db"
  enc_atom :: "atom \<Rightarrow> (string, string) result"
  dec_atom :: "string \<Rightarrow> (string, atom) result"
  enc_frame :: "log_frame \<Rightarrow> (string, string) result"
  dec_frame :: "string \<Rightarrow> (string, log_frame) result"
  enc_index :: "atom_index_entry \<Rightarrow> (string, string) result"
  dec_index :: "string \<Rightarrow> (string, atom_index_entry) result"
  enc_blob :: "encrypted_blob \<Rightarrow> (string, string) result"
  dec_blob :: "string \<Rightarrow> (string, encrypted_blob) result"
  crc32 :: "string \<Rightarrow> 32 word"
  sha256 :: "string \<Rightarrow> string"
  aes_encrypt :: "string \<Rightarrow> string \<Rightarrow> string \<Rightarrow> (string, string) result"
  aes_decrypt :: "string \<Rightarrow> string \<Rightarrow> string \<Rightarrow> (string, string) result"
  os_nonce :: "'db \<Rightarrow> string \<Rightarrow> string"

record sled_config =
  sc_flush_on_write :: bool
  sc_encryption_enabled :: bool
  sc_key_id :: "string option"

definition sled_config_new :: sled_config where
  "sled_config_new = \<lparr>sc_flush_on_write = True, sc_encryption_enabled = False, sc_key_id = None\<rparr>"

type_synonym key_provider = "string \<Rightarrow> (dw_error, string) result"

record 'db sled_storage =
  ss_db :: 'db
  ss_flush_on_write :: bool
  ss_encryption_enabled :: bool
  ss_key_id :: "string option"
  ss_key_provider :: key_provider

definition sl_err :: "string \<Rightarrow> dw_error" where
  "sl_err e = Storage (''sled error: '' @ e)"

definition ser_err :: "string \<Rightarrow> dw_error" where
  "ser_err e = Storage (''serialization error: '' @ e)"

definition de_err :: "string \<Rightarrow> dw_error" where
  "de_err e = Storage (''deserialization error: '' @ e)"

section \<open>Key providers\<close>

definition dummy_with_key :: "string \<Rightarrow> string \<Rightarrow> (string \<rightharpoonup> string) \<Rightarrow> (string \<rightharpoonup> string)" where
  "dummy_with_key key_id bytes keys = keys(key_id \<mapsto> bytes)"

definition dummy_key_bytes :: "(string \<rightharpoonup> string) \<Rightarrow> key_provider" where
  "dummy_key_bytes keys key_id =
     (case keys key_id of
        Some b \<Rightarrow> Inr b
      | None \<Rightarrow> Inl (InvalidInput (''missing key for id '' @ key_id)))"

definition ascii_upper_char :: "char \<Rightarrow> char" where
  "ascii_upper_char c =
     (let n = (of_char c :: nat) in if 97 \<le> n \<and> n \<le> 122 then char_of (n - 32) else c)"

text \<open>
  \<open>EnvKeyProvider\<close>: \<open>env_var\<close> is the process environment and \<open>hex_trim\<close> is \<open>hex::decode\<close> of
  the trimmed value.
\<close>

definition env_key_bytes ::
  "(string \<rightharpoonup> string) \<Rightarrow> (string \<Rightarrow> (string, string) result) \<Rightarrow> key_provider" where
  "env_key_bytes env_var hex_trim key_id =
     (let env_key = ''DWBASE_KEY_''
            @ map (\<lambda>c. if c = CHR ''-'' then CHR ''_'' else c) (map ascii_upper_char key_id)
      in case env_var env_key of
           None \<Rightarrow> Inl (InvalidInput
             (''env var '' @ env_key @ '' missing for key id '' @ key_id))
         | Some raw \<Rightarrow> rmap_err InvalidInput (hex_trim raw))"

section \<open>Encryption\<close>

definition key_from_bytes :: "string \<Rightarrow> (dw_error, string) result" where
  "key_from_bytes bytes =
     (if length bytes \<noteq> 32
      then Inl (InvalidInput ''encryption key must be 32 bytes (AES-256-GCM)'') else Inr bytes)"

definition derive_data_key :: "'db sled_env \<Rightarrow> string \<Rightarrow> string \<Rightarrow> string \<Rightarrow> string" where
  "derive_data_key E master key_id nonce = sha256 E (master @ key_id @ nonce)"

definition ENC_MAGIC :: string where
  "ENC_MAGIC = ''ENC1''"

definition encrypt_bytes ::
  "'db sled_env \<Rightarrow> 'db sled_storage \<Rightarrow> string \<Rightarrow> (dw_error, string) result" where
  "encrypt_bytes E st plain =
     (case ss_key_id st of
        None \<Rightarrow> Inl (InvalidInput ''key_id missing'')
      | Some key_id \<Rightarrow>
          rbind (ss_key_provider st key_id) (\<lambda>key_bytes.
          rbind (key_from_bytes key_bytes) (\<lambda>master.
          let nonce = os_nonce E (ss_db st) plain;
              data_key = derive_data_key E master key_id nonce
          in rbind (rmap_err Storage (aes_encrypt E data_key nonce plain)) (\<lambda>cipher.
             rbind (rmap_err ser_err (enc_blob E
                 \<lparr>eb_key_id = key_id, eb_nonce = nonce, eb_cipher = cipher\<rparr>)) (\<lambda>blob_bytes.
             Inr (ENC_MAGIC @ blob_bytes))))))"

definition decrypt_bytes ::
  "'db sled_env \<Rightarrow> 'db sled_storage \<Rightarrow> string \<Rightarrow> (dw_error, string) result" where
  "decrypt_bytes E st bytes =
     rbind (rmap_err de_err (dec_blob E bytes)) (\<lambda>blob.
     rbind (ss_key_provider st (eb_key_id blob)) (\<lambda>key_bytes.
     rbind (key_from_bytes key_bytes) (\<lambda>master.
     rmap_err Storage (aes_decrypt E (derive_data_key E master (eb_key_id blob) (eb_nonce blob))
       (eb_nonce blob) (eb_cipher blob)))))"

definition encode_atom ::
  "'db sled_env \<Rightarrow> 'db sled_storage \<Rightarrow> atom \<Rightarrow> (dw_error, string) result" where
  "encode_atom E st a =
     rbind (rmap_err ser_err (enc_atom E a)) (\<lambda>plain.
     if ss_encryption_enabled st then encrypt_bytes E st plain else Inr plain)"

definition decode_atom ::
  "'db sled_env \<Rightarrow> 'db sled_storage \<Rightarrow> string \<Rightarrow> (dw_error, atom) result" where
  "decode_atom E st bytes =
     (case strip_prefix ENC_MAGIC bytes of
        Some rest \<Rightarrow>
          rbind (decrypt_bytes E st rest) (\<lambda>plain. rmap_err de_err (dec_atom E plain))
      | None \<Rightarrow> rmap_err de_err (dec_atom E bytes))"

section \<open>Single database operations\<close>

definition db_insert ::
  "'db sled_env \<Rightarrow> string \<Rightarrow> string \<Rightarrow> 'db sled_storage \<Rightarrow> (dw_error, unit) result \<times> 'db sled_storage" where
  "db_insert E k v st =
     (case sl_insert E k v (ss_db st) of (r, d) \<Rightarrow> (rmap_err sl_err r, st\<lparr>ss_db := d\<rparr>))"

text \<open>\<open>let _ = self.db.remove(key)\<close>: the outcome is ignored.\<close>

definition db_remove :: "'db sled_env \<Rightarrow> string \<Rightarrow> 'db sled_storage \<Rightarrow> 'db sled_storage" where
  "db_remove E k st = st\<lparr>ss_db := snd (sl_remove E k (ss_db st))\<rparr>"

definition db_get ::
  "'db sled_env \<Rightarrow> 'db sled_storage \<Rightarrow> string \<Rightarrow> (dw_error, string option) result" where
  "db_get E st k = rmap_err sl_err (sl_get E (ss_db st) k)"

definition flush_if_needed ::
  "'db sled_env \<Rightarrow> 'db sled_storage \<Rightarrow> (dw_error, unit) result \<times> 'db sled_storage" where
  "flush_if_needed E st =
     (if ss_flush_on_write st
      then (case sl_flush E (ss_db st) of (r, d) \<Rightarrow> (rmap_err sl_err r, st\<lparr>ss_db := d\<rparr>))
      else (Inr (), st))"

definition decode_frame :: "'db sled_env \<Rightarrow> string \<Rightarrow> (dw_error, log_frame) result" where
  "decode_frame E bytes = rmap_err de_err (dec_frame E bytes)"

definition decode_index :: "'db sled_env \<Rightarrow> string \<Rightarrow> (dw_error, atom_index_entry) result" where
  "decode_index E bytes = rmap_err de_err (dec_index E bytes)"

definition index_entry :: "'db sled_env \<Rightarrow> world_key \<Rightarrow> nat \<Rightarrow> (dw_error, string) result" where
  "index_entry E w n = rmap_err ser_err (enc_index E \<lparr>ie_world = w, ie_seq = n\<rparr>)"

definition record_index ::
  "'db sled_env \<Rightarrow> world_key \<Rightarrow> atom_id \<Rightarrow> nat \<Rightarrow> 'db sled_storage
   \<Rightarrow> (dw_error, unit) result \<times> 'db sled_storage" where
  "record_index E w i n st =
     (case index_entry E w n of
        Inl e \<Rightarrow> (Inl e, st)
      | Inr v \<Rightarrow> db_insert E (atom_index_key i) v st)"

section \<open>Appending\<close>

text \<open>
  \<open>next_seq\<close>: the last item of the scan; an item that is an error or whose key has no number
  counts as an empty log. The increment is that of a release build.
\<close>

definition next_seq :: "'db sled_env \<Rightarrow> 'db sled_storage \<Rightarrow> world_key \<Rightarrow> nat" where
  "next_seq E st w =
     (let items = sl_scan E (ss_db st) (log_prefix w)
      in if items = [] then 0
         else case last items of
                Inl _ \<Rightarrow> 0
              | Inr (key, _) \<Rightarrow>
                  (case seq_from_log_key key of None \<Rightarrow> 0 | Some n \<Rightarrow> (n + 1) mod 2 ^ 64))"

text \<open>The body of the append loop after the world test.\<close>

definition append_one ::
  "'db sled_env \<Rightarrow> world_key \<Rightarrow> nat \<Rightarrow> atom \<Rightarrow> 'db sled_storage
   \<Rightarrow> (dw_error, unit) result \<times> 'db sled_storage" where
  "append_one E w n a st =
     (case encode_atom E st a of
        Inl e \<Rightarrow> (Inl e, st)
      | Inr bytes \<Rightarrow>
          (case enc_frame E \<lparr>lf_atom_id = a_id a, lf_checksum = crc32 E bytes,
                             lf_len = length bytes\<rparr> of
             Inl e \<Rightarrow> (Inl (ser_err e), st)
           | Inr frame_bytes \<Rightarrow>
               sbind (db_insert E (atom_key w (a_id a)) bytes st) (\<lambda>_ st1.
               sbind (db_insert E (log_key w n) frame_bytes st1) (\<lambda>_ st2.
               record_index E w (a_id a) n st2))))"

fun append_loop ::
  "'db sled_env \<Rightarrow> world_key \<Rightarrow> nat \<Rightarrow> atom list \<Rightarrow> atom_id list \<Rightarrow> 'db sled_storage
   \<Rightarrow> (dw_error, atom_id list) result \<times> 'db sled_storage" where
  "append_loop E w n [] ids st = (Inr ids, st)"
| "append_loop E w n (a # as) ids st =
     (if a_world a \<noteq> w
      then (Inl (InvalidInput
              (''atom world '' @ a_world a @ '' does not match target world '' @ w)), st)
      else sbind (append_one E w n a st)
             (\<lambda>_ st'. append_loop E w ((n + 1) mod 2 ^ 64) as (ids @ [a_id a]) st'))"

definition append_atoms ::
  "'db sled_env \<Rightarrow> world_key \<Rightarrow> atom list \<Rightarrow> 'db sled_storage
   \<Rightarrow> (dw_error, atom_id list) result \<times> 'db sled_storage" where
  "append_atoms E w as st =
     sbind (append_loop E w (next_seq E st w) as [] st) (\<lambda>ids st1.
     sbind (flush_if_needed E st1) (\<lambda>_ st2. (Inr ids, st2)))"

definition sled_append ::
  "'db sled_env \<Rightarrow> atom \<Rightarrow> 'db sled_storage \<Rightarrow> (dw_error, unit) result \<times> 'db sled_storage" where
  "sled_append E a st = sbind (append_atoms E (a_world a) [a] st) (\<lambda>_ st'. (Inr (), st'))"

section \<open>Reading\<close>

definition atom_from_store ::
  "'db sled_env \<Rightarrow> 'db sled_storage \<Rightarrow> atom_id \<Rightarrow> world_key \<Rightarrow> (dw_error, atom option) result" where
  "atom_from_store E st i w =
     rbind (db_get E st (atom_key w i)) (\<lambda>b.
     case b of None \<Rightarrow> Inr None | Some bytes \<Rightarrow> rmap Some (decode_atom E st bytes))"

definition matches_filter :: "atom \<Rightarrow> atom_filter \<Rightarrow> bool" where
  "matches_filter a f =
     (if f_kinds f \<noteq> [] \<and> a_kind a \<notin> set (f_kinds f) then False
      else if f_labels f \<noteq> [] \<and> \<not> (\<forall>l \<in> set (f_labels f). l \<in> set (a_labels a)) then False
      else if f_flags f \<noteq> [] \<and> \<not> (\<forall>l \<in> set (f_flags f). l \<in> set (a_flags a)) then False
      else if (case f_since f of None \<Rightarrow> False | Some s \<Rightarrow> a_timestamp a < s) then False
      else if (case f_until f of None \<Rightarrow> False | Some u \<Rightarrow> u < a_timestamp a) then False
      else True)"

fun scan_loop ::
  "'db sled_env \<Rightarrow> 'db sled_storage \<Rightarrow> world_key \<Rightarrow> atom_filter
   \<Rightarrow> (string, string \<times> string) result list \<Rightarrow> atom list \<Rightarrow> (dw_error, atom list) result" where
  "scan_loop E st w f [] acc = Inr acc"
| "scan_loop E st w f (Inl e # items) acc = Inl (sl_err e)"
| "scan_loop E st w f (Inr (k, v) # items) acc =
     (case decode_frame E v of
        Inl _ \<Rightarrow> scan_loop E st w f items acc
      | Inr frame \<Rightarrow>
          (case atom_from_store E st (lf_atom_id frame) w of
             Inl e \<Rightarrow> Inl e
           | Inr None \<Rightarrow> scan_loop E st w f items acc
           | Inr (Some a) \<Rightarrow>
               if matches_filter a f then
                 (case f_limit f of
                    Some l \<Rightarrow> if l \<le> length (acc @ [a]) then Inr (acc @ [a])
                              else scan_loop E st w f items (acc @ [a])
                  | None \<Rightarrow> scan_loop E st w f items (acc @ [a]))
               else scan_loop E st w f items acc))"

definition sled_scan ::
  "'db sled_env \<Rightarrow> 'db sled_storage \<Rightarrow> world_key \<Rightarrow> atom_filter \<Rightarrow> (dw_error, atom list) result" where
  "sled_scan E st w f =
     (if (case f_world f of None \<Rightarrow> False | Some fw \<Rightarrow> fw \<noteq> w) then Inr []
      else scan_loop E st w f (sl_scan E (ss_db st) (log_prefix w)) [])"

text \<open>The fallback of \<open>get_by_ids\<close>: every key that ends with the id, whatever its world.\<close>

fun legacy_lookup ::
  "'db sled_env \<Rightarrow> 'db sled_storage \<Rightarrow> atom_id \<Rightarrow> (string, string \<times> string) result list
   \<Rightarrow> (dw_error, atom option) result" where
  "legacy_lookup E st i [] = Inr None"
| "legacy_lookup E st i (Inl e # items) = Inl (sl_err e)"
| "legacy_lookup E st i (Inr (k, v) # items) =
     (if \<not> ends_with k (''/atoms/'' @ i) then legacy_lookup E st i items
      else let parts = split_on (CHR ''/'') k;
               world = (if 1 < length parts then parts ! 1 else [])
           in rbind (atom_from_store E st i world) (\<lambda>found.
              case found of Some a \<Rightarrow> Inr (Some a) | None \<Rightarrow> legacy_lookup E st i items))"

definition get_by_id ::
  "'db sled_env \<Rightarrow> 'db sled_storage \<Rightarrow> atom_id \<Rightarrow> (dw_error, atom option) result" where
  "get_by_id E st i =
     rbind (db_get E st (atom_index_key i)) (\<lambda>idx.
     rbind (case idx of
              None \<Rightarrow> Inr None
            | Some bytes \<Rightarrow>
                (case decode_index E bytes of
                   Inl _ \<Rightarrow> Inr None
                 | Inr entry \<Rightarrow> atom_from_store E st i (ie_world entry)))
       (\<lambda>found. case found of
          Some a \<Rightarrow> Inr (Some a)
        | None \<Rightarrow> legacy_lookup E st i (sl_scan E (ss_db st) ''world/'')))"

fun get_by_ids ::
  "'db sled_env \<Rightarrow> 'db sled_storage \<Rightarrow> atom_id list \<Rightarrow> (dw_error, atom list) result" where
  "get_by_ids E st [] = Inr []"
| "get_by_ids E st (i # is) =
     rbind (get_by_id E st i) (\<lambda>found.
     rmap (\<lambda>out. case found of Some a \<Rightarrow> a # out | None \<Rightarrow> out) (get_by_ids E st is))"

fun stats_loop ::
  "'db sled_env \<Rightarrow> 'db sled_storage \<Rightarrow> (string, string \<times> string) result list \<Rightarrow> nat \<Rightarrow> nat
   \<Rightarrow> (dw_error, storage_stats) result" where
  "stats_loop E st [] n m = Inr \<lparr>atom_count = n, vector_count = m\<rparr>"
| "stats_loop E st (Inl e # items) n m = Inl (sl_err e)"
| "stats_loop E st (Inr (k, v) # items) n m =
     stats_loop E st items (n + 1)
       (case decode_atom E st v of
          Inl _ \<Rightarrow> m
        | Inr a \<Rightarrow> if a_vector a \<noteq> None then m + 1 else m)"

definition sled_stats ::
  "'db sled_env \<Rightarrow> 'db sled_storage \<Rightarrow> world_key \<Rightarrow> (dw_error, storage_stats) result" where
  "sled_stats E st w = stats_loop E st (sl_scan E (ss_db st) (atoms_prefix w)) 0 0"

text \<open>Milliseconds of an instant: \<open>i128\<close> division, which truncates, then a cast to \<open>i64\<close>.\<close>

definition ts_ms :: "int \<Rightarrow> int" where
  "ts_ms t = sint (word_of_int (t sdiv 1000000) :: 64 word)"

fun window_loop ::
  "'db sled_env \<Rightarrow> time_api \<Rightarrow> 'db sled_storage \<Rightarrow> world_key \<Rightarrow> time_window
   \<Rightarrow> (string, string \<times> string) result list \<Rightarrow> atom_id list \<Rightarrow> (dw_error, atom_id list) result" where
  "window_loop E api st w tw [] ids = Inr ids"
| "window_loop E api st w tw (Inl e # items) ids = Inl (sl_err e)"
| "window_loop E api st w tw (Inr (k, v) # items) ids =
     (case decode_frame E v of
        Inl _ \<Rightarrow> window_loop E api st w tw items ids
      | Inr frame \<Rightarrow>
          rbind (atom_from_store E st (lf_atom_id frame) w) (\<lambda>found.
          window_loop E api st w tw items
            (case found of
               None \<Rightarrow> ids
             | Some a \<Rightarrow>
                 (case rfc_parse api (a_timestamp a) of
                    Inl _ \<Rightarrow> ids
                  | Inr dt \<Rightarrow>
                      let ms = ts_ms dt
                      in if tw_start_ms tw \<le> ms \<and> ms \<le> tw_end_ms tw
                         then ids @ [lf_atom_id frame] else ids))))"

definition list_ids_in_window ::
  "'db sled_env \<Rightarrow> time_api \<Rightarrow> 'db sled_storage \<Rightarrow> world_key \<Rightarrow> time_window
   \<Rightarrow> (dw_error, atom_id list) result" where
  "list_ids_in_window E api st w tw =
     window_loop E api st w tw (sl_scan E (ss_db st) (log_prefix w)) []"

text \<open>The distinct worlds of the keys; a \<open>HashSet\<close>, so only the set of them is meaningful.\<close>

fun worlds_loop :: "(string, string \<times> string) result list \<Rightarrow> world_key list \<Rightarrow> (dw_error, world_key list) result" where
  "worlds_loop [] ws = Inr ws"
| "worlds_loop (Inl e # items) ws = Inl (sl_err e)"
| "worlds_loop (Inr (k, v) # items) ws =
     worlds_loop items
       (case world_from_key k of None \<Rightarrow> ws | Some w \<Rightarrow> List.insert w ws)"

definition sled_worlds :: "'db sled_env \<Rightarrow> 'db sled_storage \<Rightarrow> (dw_error, world_key list) result" where
  "sled_worlds E st = worlds_loop (sl_scan E (ss_db st) ''world/'') []"

section \<open>Deleting\<close>

fun delete_loop ::
  "'db sled_env \<Rightarrow> atom_id list \<Rightarrow> (string, string \<times> string) result list \<Rightarrow> nat \<Rightarrow> 'db sled_storage
   \<Rightarrow> (dw_error, nat) result \<times> 'db sled_storage" where
  "delete_loop E ids [] n st = (Inr n, st)"
| "delete_loop E ids (Inl e # items) n st = (Inl (sl_err e), st)"
| "delete_loop E ids (Inr (k, v) # items) n st =
     (case decode_frame E v of
        Inl _ \<Rightarrow> delete_loop E ids items n st
      | Inr frame \<Rightarrow>
          if lf_atom_id frame \<in> set ids then delete_loop E ids items (n + 1) (db_remove E k st)
          else delete_loop E ids items n st)"

definition delete_bodies :: "'db sled_env \<Rightarrow> world_key \<Rightarrow> atom_id list \<Rightarrow> 'db sled_storage \<Rightarrow> 'db sled_storage" where
  "delete_bodies E w ids st =
     fold (\<lambda>i st. db_remove E (atom_index_key i) (db_remove E (atom_key w i) st)) ids st"

definition delete_atoms ::
  "'db sled_env \<Rightarrow> world_key \<Rightarrow> atom_id list \<Rightarrow> 'db sled_storage
   \<Rightarrow> (dw_error, nat) result \<times> 'db sled_storage" where
  "delete_atoms E w ids st =
     (let st1 = delete_bodies E w ids st
      in delete_loop E ids (sl_scan E (ss_db st1) (log_prefix w)) 0 st1)"

section \<open>Repair and index rebuild\<close>

text \<open>The first pass of \<open>repair_world_log\<close>: the sequence number of the first bad frame.\<close>

fun find_bad ::
  "'db sled_env \<Rightarrow> 'db sled_storage \<Rightarrow> world_key \<Rightarrow> (string, string \<times> string) result list
   \<Rightarrow> (dw_error, nat option) result" where
  "find_bad E st w [] = Inr None"
| "find_bad E st w (Inl e # items) = Inl (sl_err e)"
| "find_bad E st w (Inr (k, v) # items) =
     (case seq_from_log_key k of
        None \<Rightarrow> find_bad E st w items
      | Some n \<Rightarrow>
          (case decode_frame E v of
             Inl _ \<Rightarrow> Inr (Some n)
           | Inr frame \<Rightarrow>
               (case sl_get E (ss_db st) (atom_key w (lf_atom_id frame)) of
                  Inr (Some bytes) \<Rightarrow>
                    if crc32 E bytes \<noteq> lf_checksum frame then Inr (Some n)
                    else find_bad E st w items
                | _ \<Rightarrow> Inr (Some n))))"

fun keys_from :: "nat \<Rightarrow> (string, string \<times> string) result list \<Rightarrow> (dw_error, string list) result" where
  "keys_from bad [] = Inr []"
| "keys_from bad (Inl e # items) = Inl (sl_err e)"
| "keys_from bad (Inr (k, v) # items) =
     rmap (\<lambda>ks. case seq_from_log_key k of
                  Some n \<Rightarrow> if bad \<le> n then k # ks else ks
                | None \<Rightarrow> ks) (keys_from bad items)"

definition repair_world_log ::
  "'db sled_env \<Rightarrow> world_key \<Rightarrow> 'db sled_storage \<Rightarrow> (dw_error, unit) result \<times> 'db sled_storage" where
  "repair_world_log E w st =
     (case find_bad E st w (sl_scan E (ss_db st) (log_prefix w)) of
        Inl e \<Rightarrow> (Inl e, st)
      | Inr None \<Rightarrow> (Inr (), st)
      | Inr (Some bad) \<Rightarrow>
          (case keys_from bad (sl_scan E (ss_db st) (log_prefix w)) of
             Inl e \<Rightarrow> (Inl e, st)
           | Inr ks \<Rightarrow> (Inr (), fold (db_remove E) ks st)))"

fun repair_worlds ::
  "'db sled_env \<Rightarrow> world_key list \<Rightarrow> 'db sled_storage \<Rightarrow> (dw_error, unit) result \<times> 'db sled_storage" where
  "repair_worlds E [] st = (Inr (), st)"
| "repair_worlds E (w # ws) st = sbind (repair_world_log E w st) (\<lambda>_ st'. repair_worlds E ws st')"

definition repair_logs ::
  "'db sled_env \<Rightarrow> 'db sled_storage \<Rightarrow> (dw_error, unit) result \<times> 'db sled_storage" where
  "repair_logs E st =
     (case worlds_loop (sl_scan E (ss_db st) ''world/'') [] of
        Inl e \<Rightarrow> (Inl e, st)
      | Inr ws \<Rightarrow> repair_worlds E ws st)"

fun scan_keys :: "(string, string \<times> string) result list \<Rightarrow> (dw_error, string list) result" where
  "scan_keys [] = Inr []"
| "scan_keys (Inl e # items) = Inl (sl_err e)"
| "scan_keys (Inr (k, v) # items) = rmap (\<lambda>ks. k # ks) (scan_keys items)"

definition clear_index ::
  "'db sled_env \<Rightarrow> 'db sled_storage \<Rightarrow> (dw_error, unit) result \<times> 'db sled_storage" where
  "clear_index E st =
     (case scan_keys (sl_scan E (ss_db st) ''idx/atom/'') of
        Inl e \<Rightarrow> (Inl e, st)
      | Inr ks \<Rightarrow> (Inr (), fold (db_remove E) ks st))"

fun rebuild_log ::
  "'db sled_env \<Rightarrow> world_key \<Rightarrow> (string, string \<times> string) result list \<Rightarrow> nat \<Rightarrow> 'db sled_storage
   \<Rightarrow> (dw_error, nat) result \<times> 'db sled_storage" where
  "rebuild_log E w [] n st = (Inr n, st)"
| "rebuild_log E w (Inl e # items) n st = (Inl (sl_err e), st)"
| "rebuild_log E w (Inr (k, v) # items) n st =
     (case seq_from_log_key k of
        None \<Rightarrow> rebuild_log E w items n st
      | Some seq \<Rightarrow>
          (case decode_frame E v of
             Inl _ \<Rightarrow> rebuild_log E w items n st
           | Inr frame \<Rightarrow>
               sbind (record_index E w (lf_atom_id frame) seq st)
                 (\<lambda>_ st'. rebuild_log E w items (n + 1) st')))"

fun rebuild_worlds ::
  "'db sled_env \<Rightarrow> world_key list \<Rightarrow> nat \<Rightarrow> 'db sled_storage
   \<Rightarrow> (dw_error, nat) result \<times> 'db sled_storage" where
  "rebuild_worlds E [] n st = (Inr n, st)"
| "rebuild_worlds E (w # ws) n st =
     sbind (rebuild_log E w (sl_scan E (ss_db st) (log_prefix w)) n st)
       (\<lambda>n' st'. rebuild_worlds E ws n' st')"

definition rebuild_index ::
  "'db sled_env \<Rightarrow> 'db sled_storage \<Rightarrow> (dw_error, nat) result \<times> 'db sled_storage" where
  "rebuild_index E st =
     sbind (clear_index E st) (\<lambda>_ st1.
     case sled_worlds E st1 of
       Inl e \<Rightarrow> (Inl e, st1)
     | Inr ws \<Rightarrow> rebuild_worlds E ws 0 st1)"

section \<open>Opening\<close>

text \<open>
  One attempt of \<open>sled::open\<close> and the clock reading after it: an error says whether it is lock
  contention. \<open>None\<close> means that the attempts given ran out while the loop was still waiting.
\<close>

fun open_db_waiting_for_lock ::
  "nat \<Rightarrow> ((bool \<times> string, 'db) result \<times> nat) list \<Rightarrow> (dw_error, 'db) result option" where
  "open_db_waiting_for_lock deadline [] = None"
| "open_db_waiting_for_lock deadline ((Inr db, now) # rest) = Some (Inr db)"
| "open_db_waiting_for_lock deadline ((Inl (contended, e), now) # rest) =
     (if \<not> contended \<or> deadline \<le> now then Some (Inl (sl_err e))
      else open_db_waiting_for_lock deadline rest)"

definition LOCK_WAIT_BUDGET :: nat where
  "LOCK_WAIT_BUDGET = 5000000000"

text \<open>\<open>open\<close> with the database already opened; \<open>opened\<close> is what \<open>open_db_waiting_for_lock\<close> gave.\<close>

definition sled_open ::
  "'db sled_env \<Rightarrow> sled_config \<Rightarrow> key_provider \<Rightarrow> (dw_error, 'db) result
   \<Rightarrow> (dw_error, 'db sled_storage) result" where
  "sled_open E c kp opened =
     (if sc_encryption_enabled c \<and> sc_key_id c = None
      then Inl (InvalidInput ''encryption enabled but key_id missing'')
      else rbind opened (\<lambda>db.
        let st = \<lparr>ss_db = db, ss_flush_on_write = sc_flush_on_write c,
                  ss_encryption_enabled = sc_encryption_enabled c, ss_key_id = sc_key_id c,
                  ss_key_provider = kp\<rparr>
        in case repair_logs E st of
             (Inl e, _) \<Rightarrow> Inl e
           | (Inr _, st1) \<Rightarrow> Inr (snd (rebuild_index E st1))))"

end
