(* ===== verification/Sled_Log.thy ===== *)
theory Sled_Log
  imports Sled_Store
begin

text \<open>
  What the sled store promises. \<open>sled_env_ok\<close> states the documented behaviour of the crates it
  calls when no input/output error occurs: the tree is an ordered map, a scan yields the entries
  of a prefix in key order, the codecs and AES-GCM are inverted by their counterparts, and a
  MessagePack atom (an array) never starts with the bytes \<open>ENC1\<close>. \<open>store_ok\<close> is the invariant
  of the tree. Under both, a world's log is the list \<open>log_atoms\<close> of the atoms its frames name,
  and each operation of \<open>Sled_Store\<close> is a simple function on those lists.
\<close>

section \<open>Ordered association lists\<close>

lemma map_of_filter_key: "map_of (filter (\<lambda>e. P (fst e)) xs) k = (if P k then map_of xs k else None)"
  by (induction xs) auto

lemma alist_of_keys:
  "distinct (map fst xs) \<Longrightarrow> xs = map (\<lambda>k. (k, the (map_of xs k))) (map fst xs)"
proof -
  assume "distinct (map fst xs)"
  then have "map (\<lambda>e. (fst e, the (map_of xs (fst e)))) xs = xs"
    by (intro map_idI) (auto simp: map_of_is_SomeI)
  then show ?thesis by (simp add: comp_def)
qed

lemma sorted_alist_unique:
  fixes xs ys :: "('k::linorder \<times> 'v) list"
  assumes "sorted_wrt (<) (map fst xs)" "sorted_wrt (<) (map fst ys)" "map_of xs = map_of ys"
  shows "xs = ys"
proof -
  have "set (map fst xs) = set (map fst ys)"
    using arg_cong [OF assms(3), of dom] by (simp add: dom_map_of_conv_image_fst)
  then have "map fst xs = map fst ys" using assms(1,2) by (metis strict_sorted_equal)
  then show ?thesis
    using alist_of_keys [of xs] alist_of_keys [of ys] assms
    by (metis strict_sorted_iff)
qed

lemma sorted_alist_filter:
  "sorted_wrt (<) (map fst xs) \<Longrightarrow> sorted_wrt (<) (map fst (filter P xs))"
  by (simp add: sorted_wrt_map sorted_wrt_filter)

lemma sorted_alist_update_out:
  fixes xs ys :: "('k::linorder \<times> 'v) list"
  assumes "sorted_wrt (<) (map fst xs)" "sorted_wrt (<) (map fst ys)"
    and "\<And>k. P k \<Longrightarrow> map_of ys k = map_of xs k"
  shows "filter (\<lambda>e. P (fst e)) ys = filter (\<lambda>e. P (fst e)) xs"
  using assms by (intro sorted_alist_unique sorted_alist_filter ext) (auto simp: map_of_filter_key)

lemma sorted_alist_update_last:
  fixes xs ys :: "('k::linorder \<times> 'v) list"
  assumes "sorted_wrt (<) (map fst xs)" "sorted_wrt (<) (map fst ys)"
    and "P k" and "\<And>k'. P k' \<Longrightarrow> map_of xs k' \<noteq> None \<Longrightarrow> k' < k"
    and "\<And>k'. P k' \<Longrightarrow> map_of ys k' = (if k' = k then Some v else map_of xs k')"
  shows "filter (\<lambda>e. P (fst e)) ys = filter (\<lambda>e. P (fst e)) xs @ [(k, v)]"
proof (rule sorted_alist_unique [OF sorted_alist_filter [OF assms(2)]])
  have "fst e < k" if "e \<in> set xs" "P (fst e)" for e
    using assms(4) [OF that(2)] that(1) by (auto simp: map_of_eq_None_iff)
  then show "sorted_wrt (<) (map fst (filter (\<lambda>e. P (fst e)) xs @ [(k, v)]))"
    using sorted_alist_filter [OF assms(1), of "\<lambda>e. P (fst e)"] by (auto simp: sorted_wrt_append)
  have new: "map_of xs k = None" using assms(3,4) by blast
  show "map_of (filter (\<lambda>e. P (fst e)) ys) = map_of (filter (\<lambda>e. P (fst e)) xs @ [(k, v)])"
  proof
    fix k'
    show "map_of (filter (\<lambda>e. P (fst e)) ys) k' = map_of (filter (\<lambda>e. P (fst e)) xs @ [(k, v)]) k'"
      using assms(3,5) new by (cases "map_of xs k'") (auto simp: map_of_filter_key map_add_def)
  qed
qed

lemma sorted_alist_remove:
  fixes xs ys :: "('k::linorder \<times> 'v) list"
  assumes "sorted_wrt (<) (map fst xs)" "sorted_wrt (<) (map fst ys)"
    and "map_of ys = (map_of xs)(k := None)"
  shows "ys = filter (\<lambda>e. fst e \<noteq> k) xs"
  using assms by (intro sorted_alist_unique sorted_alist_filter) (auto simp: map_of_filter_key [where P = "\<lambda>x. x \<noteq> k"] fun_eq_iff)

section \<open>The environment\<close>

text \<open>The entries of the tree, in key order: a scan with the empty prefix.\<close>

definition entries :: "'db sled_env \<Rightarrow> 'db \<Rightarrow> (string \<times> string) list" where
  "entries E d = concat (map (\<lambda>r. case r of Inl _ \<Rightarrow> [] | Inr e \<Rightarrow> [e]) (sl_scan E d []))"

definition tree_ok :: "'db sled_env \<Rightarrow> bool" where
  "tree_ok E \<longleftrightarrow>
     (\<forall>d. sorted_wrt (<) (map fst (entries E d)))
   \<and> (\<forall>d p. sl_scan E d p = map Inr (filter (\<lambda>e. starts_with (fst e) p) (entries E d)))
   \<and> (\<forall>d k. sl_get E d k = Inr (map_of (entries E d) k))
   \<and> (\<forall>d k v. \<exists>d'. sl_insert E k v d = (Inr (), d')
                \<and> map_of (entries E d') = (map_of (entries E d))(k \<mapsto> v))
   \<and> (\<forall>d k. map_of (entries E (snd (sl_remove E k d))) = (map_of (entries E d))(k := None))
   \<and> (\<forall>d. \<exists>d'. sl_flush E d = (Inr (), d') \<and> entries E d' = entries E d)"

definition codecs_ok :: "'db sled_env \<Rightarrow> bool" where
  "codecs_ok E \<longleftrightarrow>
     (\<forall>a. \<exists>b. enc_atom E a = Inr b \<and> dec_atom E b = Inr a \<and> \<not> starts_with b ENC_MAGIC)
   \<and> (\<forall>f. \<exists>b. enc_frame E f = Inr b \<and> dec_frame E b = Inr f)
   \<and> (\<forall>x. \<exists>b. enc_index E x = Inr b \<and> dec_index E b = Inr x)
   \<and> (\<forall>x. \<exists>b. enc_blob E x = Inr b \<and> dec_blob E b = Inr x)
   \<and> (\<forall>k n p. \<exists>c. aes_encrypt E k n p = Inr c \<and> aes_decrypt E k n c = Inr p)"

definition sled_env_ok :: "'db sled_env \<Rightarrow> bool" where
  "sled_env_ok E \<longleftrightarrow> tree_ok E \<and> codecs_ok E"

text \<open>Encryption is off, or the provider knows a key of 32 bytes under the configured id.\<close>

definition keys_ok :: "'db sled_storage \<Rightarrow> bool" where
  "keys_ok st \<longleftrightarrow> (ss_encryption_enabled st \<longrightarrow>
     (\<exists>i key. ss_key_id st = Some i \<and> ss_key_provider st i = Inr key \<and> length key = 32))"

definition kv :: "'db sled_env \<Rightarrow> 'db sled_storage \<Rightarrow> (string \<rightharpoonup> string)" where
  "kv E st = map_of (entries E (ss_db st))"

text \<open>The two storages differ in their tree only.\<close>

definition same_config :: "'db sled_storage \<Rightarrow> 'db sled_storage \<Rightarrow> bool" where
  "same_config st st' \<longleftrightarrow> (\<exists>d. st' = st\<lparr>ss_db := d\<rparr>)"

lemma same_config_refl [simp]: "same_config st st"
  unfolding same_config_def by (rule exI [of _ "ss_db st"]) simp

lemma same_config_trans: "same_config a b \<Longrightarrow> same_config b c \<Longrightarrow> same_config a c"
  unfolding same_config_def by auto

lemma same_config_fields:
  "same_config st st' \<Longrightarrow> ss_flush_on_write st' = ss_flush_on_write st
     \<and> ss_encryption_enabled st' = ss_encryption_enabled st \<and> ss_key_id st' = ss_key_id st
     \<and> ss_key_provider st' = ss_key_provider st"
  unfolding same_config_def by auto

lemma same_config_decode: "same_config st st' \<Longrightarrow> decode_atom E st' = decode_atom E st"
  unfolding same_config_def by (auto simp: decode_atom_def decrypt_bytes_def fun_eq_iff split: option.split)

lemma same_config_keys: "same_config st st' \<Longrightarrow> keys_ok st' = keys_ok st"
  unfolding same_config_def by (auto simp: keys_ok_def)

lemma db_get_ok [simp]: "tree_ok E \<Longrightarrow> db_get E st k = Inr (kv E st k)"
  by (simp add: tree_ok_def db_get_def kv_def)

lemma db_insert_ok:
  assumes "tree_ok E"
  obtains st' where "db_insert E k v st = (Inr (), st')" "kv E st' = (kv E st)(k \<mapsto> v)"
    "same_config st st'"
proof -
  obtain d where "sl_insert E k v (ss_db st) = (Inr (), d)"
    "map_of (entries E d) = (map_of (entries E (ss_db st)))(k \<mapsto> v)"
    using assms unfolding tree_ok_def by blast
  then show ?thesis
    by (intro that [of "st\<lparr>ss_db := d\<rparr>"]) (auto simp: db_insert_def kv_def same_config_def)
qed

lemma kv_remove [simp]: "tree_ok E \<Longrightarrow> kv E (db_remove E k st) = (kv E st)(k := None)"
  by (simp add: tree_ok_def db_remove_def kv_def)

lemma same_config_remove [simp]: "same_config st (db_remove E k st)"
  by (auto simp: same_config_def db_remove_def)

lemma flush_ok:
  assumes "tree_ok E"
  obtains st' where "flush_if_needed E st = (Inr (), st')" "kv E st' = kv E st"
    "same_config st st'"
proof -
  obtain d where "sl_flush E (ss_db st) = (Inr (), d)" "entries E d = entries E (ss_db st)"
    using assms unfolding tree_ok_def by blast
  then show ?thesis
    by (cases "ss_flush_on_write st")
      (auto intro!: that simp: flush_if_needed_def kv_def same_config_def)
qed

lemma decode_encode_atom:
  assumes "codecs_ok E" and "keys_ok st"
  obtains bytes where "encode_atom E st a = Inr bytes" "decode_atom E st bytes = Inr a"
proof -
  obtain plain where plain: "enc_atom E a = Inr plain" "dec_atom E plain = Inr a"
    and magic: "\<not> starts_with plain ENC_MAGIC"
    using assms(1) unfolding codecs_ok_def by blast
  show ?thesis
  proof (cases "ss_encryption_enabled st")
    case False
    then show ?thesis
      using plain magic by (intro that [of plain]) (auto simp: encode_atom_def decode_atom_def starts_with_def)
  next
    case True
    then obtain i key where key: "ss_key_id st = Some i" "ss_key_provider st i = Inr key" "length key = 32"
      using assms(2) unfolding keys_ok_def by blast
    let ?n = "os_nonce E (ss_db st) plain"
    let ?k = "derive_data_key E key i ?n"
    obtain c where c: "aes_encrypt E ?k ?n plain = Inr c" "aes_decrypt E ?k ?n c = Inr plain"
      using assms(1) unfolding codecs_ok_def by blast
    obtain b where b: "enc_blob E \<lparr>eb_key_id = i, eb_nonce = ?n, eb_cipher = c\<rparr> = Inr b"
      "dec_blob E b = Inr \<lparr>eb_key_id = i, eb_nonce = ?n, eb_cipher = c\<rparr>"
      using assms(1) unfolding codecs_ok_def by blast
    show ?thesis
      by (rule that [of "ENC_MAGIC @ b"])
        (simp_all add: encode_atom_def decode_atom_def encrypt_bytes_def decrypt_bytes_def
          key_from_bytes_def plain True key c b Let_def)
  qed
qed

section \<open>Logs and the store invariant\<close>

definition body :: "'db sled_env \<Rightarrow> 'db sled_storage \<Rightarrow> world_key \<Rightarrow> atom_id \<Rightarrow> atom option" where
  "body E st w i =
     (case kv E st (atom_key w i) of
        None \<Rightarrow> None
      | Some b \<Rightarrow> (case decode_atom E st b of Inl _ \<Rightarrow> None | Inr a \<Rightarrow> Some a))"

definition frame_of :: "'db sled_env \<Rightarrow> string \<Rightarrow> log_frame option" where
  "frame_of E v = (case decode_frame E v of Inl _ \<Rightarrow> None | Inr f \<Rightarrow> Some f)"

definition log_items :: "'db sled_env \<Rightarrow> 'db sled_storage \<Rightarrow> world_key \<Rightarrow> (string \<times> string) list" where
  "log_items E st w = filter (\<lambda>e. starts_with (fst e) (log_prefix w)) (entries E (ss_db st))"

definition log_ids :: "'db sled_env \<Rightarrow> 'db sled_storage \<Rightarrow> world_key \<Rightarrow> atom_id list" where
  "log_ids E st w =
     List.map_filter (\<lambda>e. map_option lf_atom_id (frame_of E (snd e))) (log_items E st w)"

text \<open>The abstract log of a world: the atoms its frames name, in append order.\<close>

definition log_atoms :: "'db sled_env \<Rightarrow> 'db sled_storage \<Rightarrow> world_key \<Rightarrow> atom list" where
  "log_atoms E st w = List.map_filter (body E st w) (log_ids E st w)"

text \<open>One past the last sequence number in use.\<close>

definition log_end :: "'db sled_env \<Rightarrow> 'db sled_storage \<Rightarrow> world_key \<Rightarrow> nat" where
  "log_end E st w =
     (if log_items E st w = [] then 0
      else Suc (the (seq_from_log_key (fst (last (log_items E st w))))))"

definition atom_entry_ok :: "'db sled_env \<Rightarrow> 'db sled_storage \<Rightarrow> string \<Rightarrow> string \<Rightarrow> bool" where
  "atom_entry_ok E st k v \<longleftrightarrow>
     (\<exists>a. slash_free (a_world a) \<and> k = atom_key (a_world a) (a_id a) \<and> decode_atom E st v = Inr a)"

definition log_entry_ok :: "'db sled_env \<Rightarrow> 'db sled_storage \<Rightarrow> string \<Rightarrow> string \<Rightarrow> bool" where
  "log_entry_ok E st k v \<longleftrightarrow>
     (\<exists>w n f. slash_free w \<and> n \<le> u64_max \<and> k = log_key w n \<and> frame_of E v = Some f
        \<and> kv E st (atom_key w (lf_atom_id f)) \<noteq> None)"

text \<open>
  Every key under \<open>world/\<close> is a body filed under its own world and id, or a frame whose body
  exists; world names hold no slash.
\<close>

definition store_ok :: "'db sled_env \<Rightarrow> 'db sled_storage \<Rightarrow> bool" where
  "store_ok E st \<longleftrightarrow> keys_ok st \<and>
     (\<forall>k v. kv E st k = Some v \<longrightarrow> starts_with k ''world/'' \<longrightarrow>
        atom_entry_ok E st k v \<or> log_entry_ok E st k v)"

lemma world_prefix [simp]:
  "starts_with (atom_key w i) ''world/''" "starts_with (log_key w n) ''world/''"
  by (simp_all add: atom_key_def log_key_def)

lemma log_prefix_world_prefix: "starts_with k (log_prefix w) \<Longrightarrow> starts_with k ''world/''"
  by (auto simp: log_prefix_def starts_with_iff)

lemma body_ok:
  assumes "store_ok E st" "slash_free w" "kv E st (atom_key w i) = Some b"
  shows "\<exists>a. body E st w i = Some a \<and> decode_atom E st b = Inr a \<and> a_id a = i \<and> a_world a = w"
proof -
  have "atom_entry_ok E st (atom_key w i) b \<or> log_entry_ok E st (atom_key w i) b"
    using assms(1,3) unfolding store_ok_def by simp
  then show ?thesis
    using assms(2,3) atom_key_neq_log_key [OF assms(2)] atom_key_eq [OF assms(2)]
    by (auto simp: atom_entry_ok_def log_entry_ok_def body_def)
qed

lemma body_fields:
  assumes "store_ok E st" "slash_free w" "body E st w i = Some a"
  shows "a_id a = i \<and> a_world a = w"
  using body_ok [OF assms(1,2), of i] assms(3) by (auto simp: body_def split: option.splits)

lemma atom_from_store_ok:
  assumes "tree_ok E" "store_ok E st" "slash_free w"
  shows "atom_from_store E st i w = Inr (body E st w i)"
proof (cases "kv E st (atom_key w i)")
  case None
  then show ?thesis using assms(1) by (simp add: atom_from_store_def body_def)
next
  case (Some b)
  then show ?thesis
    using assms(1) body_ok [OF assms(2,3) Some] by (auto simp: atom_from_store_def)
qed

lemma log_items_kv:
  assumes "tree_ok E"
  shows "e \<in> set (log_items E st w) \<longleftrightarrow>
    kv E st (fst e) = Some (snd e) \<and> starts_with (fst e) (log_prefix w)"
proof -
  have "distinct (map fst (entries E (ss_db st)))"
    using assms strict_sorted_iff unfolding tree_ok_def by blast
  then show ?thesis by (cases e) (auto simp: log_items_def kv_def)
qed

lemma log_items_sorted: "tree_ok E \<Longrightarrow> sorted_wrt (<) (map fst (log_items E st w))"
  unfolding log_items_def tree_ok_def by (intro sorted_alist_filter) blast

lemma log_item_ok:
  assumes "tree_ok E" "store_ok E st" "slash_free w" "e \<in> set (log_items E st w)"
  shows "\<exists>n f a. n \<le> u64_max \<and> fst e = log_key w n \<and> frame_of E (snd e) = Some f
           \<and> body E st w (lf_atom_id f) = Some a"
proof -
  have e: "kv E st (fst e) = Some (snd e)" "starts_with (fst e) (log_prefix w)"
    using assms(4) by (simp_all add: log_items_kv [OF assms(1)])
  have "log_entry_ok E st (fst e) (snd e)"
    using assms(2) e log_prefix_world_prefix [OF e(2)] atom_key_not_log_prefix [OF assms(3)]
    unfolding store_ok_def atom_entry_ok_def by metis
  then obtain w' n f where f: "slash_free w'" "n \<le> u64_max" "fst e = log_key w' n"
    "frame_of E (snd e) = Some f" "kv E st (atom_key w' (lf_atom_id f)) \<noteq> None"
    unfolding log_entry_ok_def by blast
  then have "w' = w" using e(2) log_prefix_world [OF assms(3) f(1)] by simp
  then obtain a where "body E st w (lf_atom_id f) = Some a"
    using f(5) body_ok [OF assms(2,3), of "lf_atom_id f"] by blast
  then show ?thesis using f \<open>w' = w\<close> by blast
qed

lemma le_last_sorted: "sorted xs \<Longrightarrow> x \<in> set xs \<Longrightarrow> x \<le> last xs"
  by (induction xs) auto

lemma log_end_bound:
  assumes "tree_ok E" "store_ok E st" "slash_free w" "n \<le> u64_max" "kv E st (log_key w n) \<noteq> None"
  shows "n < log_end E st w"
proof -
  obtain v where v: "(log_key w n, v) \<in> set (log_items E st w)"
    using assms(5) by (auto simp: log_items_kv [OF assms(1)])
  then have ne: "log_items E st w \<noteq> []" by auto
  obtain m where m: "m \<le> u64_max" "fst (last (log_items E st w)) = log_key w m"
    using log_item_ok [OF assms(1,2,3) last_in_set [OF ne]] by blast
  have "log_key w n \<le> log_key w m"
  proof -
    have "sorted (map fst (log_items E st w))"
      using log_items_sorted [OF assms(1)] strict_sorted_iff by blast
    then have "log_key w n \<le> last (map fst (log_items E st w))"
      using v by (intro le_last_sorted) force+
    then show ?thesis using m(2) ne by (simp add: last_map)
  qed
  then have "n \<le> m" using log_key_less [OF m(1) assms(4), of w] by (simp add: not_less [symmetric])
  then show ?thesis using ne m by (simp add: log_end_def)
qed

lemma next_seq_log_end:
  assumes "tree_ok E" "store_ok E st" "slash_free w"
  shows "next_seq E st w = log_end E st w mod 2 ^ 64"
proof -
  have scan: "sl_scan E (ss_db st) (log_prefix w) = map Inr (log_items E st w)"
    using assms(1) by (simp add: tree_ok_def log_items_def)
  show ?thesis
  proof (cases "log_items E st w = []")
    case False
    obtain m where "m \<le> u64_max" "fst (last (log_items E st w)) = log_key w m"
      using log_item_ok [OF assms last_in_set [OF False]] by blast
    then show ?thesis
      using False by (cases "last (log_items E st w)")
        (simp add: next_seq_def log_end_def scan Let_def last_map)
  qed (simp add: next_seq_def log_end_def scan)
qed

section \<open>Scanning\<close>

lemma map_filter_cong_set:
  "(\<And>x. x \<in> set xs \<Longrightarrow> f x = g x) \<Longrightarrow> List.map_filter f xs = List.map_filter g xs"
  by (induction xs) (auto simp: map_filter_simps split: option.splits)

lemma map_filter_append: "List.map_filter f (xs @ ys) = List.map_filter f xs @ List.map_filter f ys"
  by (simp add: List.map_filter_def)

definition scan_spec :: "atom_filter \<Rightarrow> atom list \<Rightarrow> atom list" where
  "scan_spec f as =
     (let hits = filter (\<lambda>a. matches_filter a f) as
      in case f_limit f of None \<Rightarrow> hits | Some l \<Rightarrow> take (max 1 l) hits)"

definition items_atoms ::
  "'db sled_env \<Rightarrow> 'db sled_storage \<Rightarrow> world_key \<Rightarrow> (string \<times> string) list \<Rightarrow> atom list" where
  "items_atoms E st w items =
     List.map_filter (\<lambda>e. Option.bind (frame_of E (snd e)) (\<lambda>f. body E st w (lf_atom_id f))) items"

lemma items_atoms_simps [simp]:
  "items_atoms E st w [] = []"
  "items_atoms E st w (e # items) =
     (case frame_of E (snd e) of
        None \<Rightarrow> items_atoms E st w items
      | Some f \<Rightarrow> (case body E st w (lf_atom_id f) of
                    None \<Rightarrow> items_atoms E st w items
                  | Some a \<Rightarrow> a # items_atoms E st w items))"
  by (simp_all add: items_atoms_def map_filter_simps split: option.split)

lemma log_atoms_items: "log_atoms E st w = items_atoms E st w (log_items E st w)"
proof -
  have "List.map_filter (body E st w)
      (List.map_filter (\<lambda>e. map_option lf_atom_id (frame_of E (snd e))) items) = items_atoms E st w items"
    for items
    by (induction items) (simp_all add: map_filter_simps split: option.split)
  then show ?thesis by (simp add: log_atoms_def log_ids_def)
qed

lemma scan_loop_items:
  assumes "tree_ok E" "store_ok E st" "slash_free w"
  shows "scan_loop E st w f (map Inr items) acc =
    Inr (acc @ (let hits = filter (\<lambda>a. matches_filter a f) (items_atoms E st w items)
      in case f_limit f of None \<Rightarrow> hits | Some l \<Rightarrow> take (max 1 (l - length acc)) hits))"
proof (induction items arbitrary: acc)
  case (Cons e items)
  obtain k v where e: "e = (k, v)" by (cases e)
  show ?case
  proof (cases "decode_frame E v")
    case (Inl x)
    then show ?thesis using Cons [of acc] by (simp add: e frame_of_def)
  next
    case (Inr fr)
    show ?thesis
    proof (cases "body E st w (lf_atom_id fr)")
      case None
      then show ?thesis
        using Cons [of acc] Inr by (simp add: e frame_of_def atom_from_store_ok [OF assms])
    next
      case (Some a)
      show ?thesis
      proof (cases "matches_filter a f")
        case False
        then show ?thesis
          using Cons [of acc] Inr Some by (simp add: e frame_of_def atom_from_store_ok [OF assms])
      next
        case True
        show ?thesis
        proof (cases "f_limit f")
          case None
          then show ?thesis
            using Cons [of "acc @ [a]"] Inr Some True
            by (simp add: e frame_of_def atom_from_store_ok [OF assms])
        next
          case (Some l)
          note facts = Inr True Some \<open>body E st w (lf_atom_id fr) = Some a\<close>
          show ?thesis
          proof (cases "l \<le> length (acc @ [a])")
            case True
            then have "max 1 (l - length acc) = 1" by simp
            with True show ?thesis
              using facts by (simp add: e frame_of_def atom_from_store_ok [OF assms])
          next
            case False
            then have "max 1 (l - length acc) = Suc (max 1 (l - length (acc @ [a])))" by simp
            with False show ?thesis
              using facts Cons [of "acc @ [a]"]
              by (simp add: e frame_of_def atom_from_store_ok [OF assms])
          qed
        qed
      qed
    qed
  qed
qed (simp split: option.split)

lemma sled_scan_spec:
  assumes "tree_ok E" "store_ok E st" "slash_free w"
  shows "sled_scan E st w f =
    Inr (if f_world f \<in> {None, Some w} then scan_spec f (log_atoms E st w) else [])"
proof -
  have scan: "sl_scan E (ss_db st) (log_prefix w) = map Inr (log_items E st w)"
    using assms(1) by (simp add: tree_ok_def log_items_def)
  have "scan_loop E st w f (map Inr (log_items E st w)) [] = Inr (scan_spec f (log_atoms E st w))"
    by (subst scan_loop_items [OF assms]) (simp add: scan_spec_def log_atoms_items Let_def split: option.split)
  then show ?thesis by (auto simp: sled_scan_def scan split: option.split)
qed

section \<open>Appending\<close>

definition log_put :: "atom \<Rightarrow> atom list \<Rightarrow> atom list" where
  "log_put a as = map (\<lambda>x. if a_id x = a_id a then a else x) as @ [a]"

text \<open>What one pass of the append loop does to the tree.\<close>

lemma append_one_kv:
  assumes "sled_env_ok E" "store_ok E st"
  obtains st' bytes frame_bytes idx where
    "append_one E w n a st = (Inr (), st')"
    "encode_atom E st a = Inr bytes" "decode_atom E st bytes = Inr a"
    "decode_frame E frame_bytes = Inr \<lparr>lf_atom_id = a_id a, lf_checksum = crc32 E bytes, lf_len = length bytes\<rparr>"
    "decode_index E idx = Inr \<lparr>ie_world = w, ie_seq = n\<rparr>"
    "kv E st' = (kv E st)(atom_key w (a_id a) \<mapsto> bytes, log_key w n \<mapsto> frame_bytes,
                          atom_index_key (a_id a) \<mapsto> idx)"
    "same_config st st'"
proof -
  have t: "tree_ok E" and c: "codecs_ok E" and k: "keys_ok st"
    using assms by (auto simp: sled_env_ok_def store_ok_def)
  obtain bytes where bytes: "encode_atom E st a = Inr bytes" "decode_atom E st bytes = Inr a"
    using decode_encode_atom [OF c k] by blast
  let ?f = "\<lparr>lf_atom_id = a_id a, lf_checksum = crc32 E bytes, lf_len = length bytes\<rparr>"
  obtain fb where fb: "enc_frame E ?f = Inr fb" "dec_frame E fb = Inr ?f"
    using c unfolding codecs_ok_def by blast
  obtain ix where ix: "enc_index E \<lparr>ie_world = w, ie_seq = n\<rparr> = Inr ix"
    "dec_index E ix = Inr \<lparr>ie_world = w, ie_seq = n\<rparr>"
    using c unfolding codecs_ok_def by blast
  obtain s1 where s1: "db_insert E (atom_key w (a_id a)) bytes st = (Inr (), s1)"
    "kv E s1 = (kv E st)(atom_key w (a_id a) \<mapsto> bytes)" "same_config st s1"
    using db_insert_ok [OF t] by blast
  obtain s2 where s2: "db_insert E (log_key w n) fb s1 = (Inr (), s2)"
    "kv E s2 = (kv E s1)(log_key w n \<mapsto> fb)" "same_config s1 s2"
    using db_insert_ok [OF t] by blast
  obtain s3 where s3: "db_insert E (atom_index_key (a_id a)) ix s2 = (Inr (), s3)"
    "kv E s3 = (kv E s2)(atom_index_key (a_id a) \<mapsto> ix)" "same_config s2 s3"
    using db_insert_ok [OF t] by blast
  have A: "append_one E w n a st = (Inr (), s3)"
    using bytes(1) fb(1) ix(1) s1(1) s2(1) s3(1)
    by (simp add: append_one_def record_index_def index_entry_def)
  have F: "decode_frame E fb = Inr ?f" "decode_index E ix = Inr \<lparr>ie_world = w, ie_seq = n\<rparr>"
    using fb(2) ix(2) by (simp_all add: decode_frame_def decode_index_def)
  have K: "kv E s3 = (kv E st)(atom_key w (a_id a) \<mapsto> bytes, log_key w n \<mapsto> fb,
      atom_index_key (a_id a) \<mapsto> ix)"
    using s1(2) s2(2) s3(2) by simp
  have S: "same_config st s3"
    using s1(3) s2(3) s3(3) same_config_trans by metis
  show ?thesis by (rule that [OF A bytes F K S])
qed

lemma index_not_world: "\<not> starts_with (atom_index_key i) ''world/''"
  by simp

lemma log_items_same:
  assumes "tree_ok E" "\<And>k. starts_with k (log_prefix w) \<Longrightarrow> kv E st' k = kv E st k"
  shows "log_items E st' w = log_items E st w"
  unfolding log_items_def
proof (rule sorted_alist_update_out)
  show "map_of (entries E (ss_db st')) k = map_of (entries E (ss_db st)) k"
    if "starts_with k (log_prefix w)" for k
    using assms(2) [OF that] by (simp add: kv_def)
qed (use assms(1) in \<open>auto simp: tree_ok_def\<close>)

lemma log_items_snoc:
  assumes "tree_ok E" "store_ok E st" "slash_free w" "log_end E st w \<le> n" "n \<le> u64_max"
    and "\<And>k. starts_with k (log_prefix w) \<Longrightarrow>
      kv E st' k = (if k = log_key w n then Some v else kv E st k)"
  shows "log_items E st' w = log_items E st w @ [(log_key w n, v)]"
  unfolding log_items_def
proof (rule sorted_alist_update_last)
  fix k assume k: "starts_with k (log_prefix w)"
  show "map_of (entries E (ss_db st')) k = (if k = log_key w n then Some v else map_of (entries E (ss_db st)) k)"
    using assms(6) [OF k] by (simp add: kv_def)
  assume "map_of (entries E (ss_db st)) k \<noteq> None"
  then obtain u where "(k, u) \<in> set (log_items E st w)"
    using k by (auto simp: log_items_kv [OF assms(1)] kv_def)
  then obtain m where m: "m \<le> u64_max" "k = log_key w m" and "kv E st k = Some u"
    using log_item_ok [OF assms(1,2,3), of "(k, u)"] log_items_kv [OF assms(1), of "(k, u)"] by auto
  then have "m < n" using log_end_bound [OF assms(1,2,3), of m] assms(4) by simp
  then show "k < log_key w n" using m log_key_less [OF m(1) assms(5)] by simp
qed (use assms(1) in \<open>auto simp: tree_ok_def\<close>)

lemma body_same:
  "same_config st st' \<Longrightarrow> kv E st' (atom_key w i) = kv E st (atom_key w i) \<Longrightarrow> body E st' w i = body E st w i"
  by (simp add: body_def same_config_decode split: option.split)

lemma items_atoms_cong:
  "(\<And>e f. e \<in> set items \<Longrightarrow> frame_of E (snd e) = Some f \<Longrightarrow>
      body E st' w (lf_atom_id f) = g (lf_atom_id f) (body E st w (lf_atom_id f))) \<Longrightarrow>
   items_atoms E st' w items =
     List.map_filter (\<lambda>e. Option.bind (frame_of E (snd e)) (\<lambda>f. g (lf_atom_id f) (body E st w (lf_atom_id f)))) items"
  unfolding items_atoms_def by (intro map_filter_cong_set) (auto split: bind_split)

lemma log_put_items:
  assumes "store_ok E st" "slash_free (a_world a)"
  shows "List.map_filter (\<lambda>e. Option.bind (frame_of E (snd e)) (\<lambda>f.
      if lf_atom_id f = a_id a \<and> body E st (a_world a) (lf_atom_id f) \<noteq> None then Some a
      else body E st (a_world a) (lf_atom_id f))) items
    = map (\<lambda>x. if a_id x = a_id a then a else x) (items_atoms E st (a_world a) items)"
  by (induction items)
    (auto simp: map_filter_simps body_fields [OF assms] split: option.split bind_split)

text \<open>One append at or past the end of its world's log.\<close>

lemma append_one_ok:
  assumes env: "sled_env_ok E" and st: "store_ok E st" and w: "slash_free (a_world a)"
    and n: "log_end E st (a_world a) \<le> n" "n \<le> u64_max"
  shows "\<exists>st'. append_one E (a_world a) n a st = (Inr (), st')
    \<and> store_ok E st' \<and> same_config st st' \<and> log_end E st' (a_world a) = Suc n
    \<and> log_atoms E st' (a_world a) = log_put a (log_atoms E st (a_world a))
    \<and> (\<forall>w'. slash_free w' \<longrightarrow> w' \<noteq> a_world a \<longrightarrow>
         log_atoms E st' w' = log_atoms E st w' \<and> log_end E st' w' = log_end E st w')
    \<and> (\<forall>w' i. slash_free w' \<longrightarrow>
         body E st' w' i = (if w' = a_world a \<and> i = a_id a then Some a else body E st w' i))
    \<and> (\<exists>idx. kv E st' (atom_index_key (a_id a)) = Some idx
         \<and> decode_index E idx = Inr \<lparr>ie_world = a_world a, ie_seq = n\<rparr>)"
proof -
  have t: "tree_ok E" using env by (simp add: sled_env_ok_def)
  let ?w = "a_world a"
  obtain st' b fb ix where st': "append_one E ?w n a st = (Inr (), st')"
    and "encode_atom E st a = Inr b"
    and b: "decode_atom E st b = Inr a"
    and fb: "decode_frame E fb = Inr \<lparr>lf_atom_id = a_id a, lf_checksum = crc32 E b, lf_len = length b\<rparr>"
    and ix: "decode_index E ix = Inr \<lparr>ie_world = ?w, ie_seq = n\<rparr>"
    and kv': "kv E st' = (kv E st)(atom_key ?w (a_id a) \<mapsto> b, log_key ?w n \<mapsto> fb, atom_index_key (a_id a) \<mapsto> ix)"
    and same: "same_config st st'"
    by (rule append_one_kv [OF env st])
  note dec = same_config_decode [OF same]
  have keeps: "kv E st' k \<noteq> None" if "kv E st k \<noteq> None" for k
    using that by (simp add: kv')
  have store: "store_ok E st'"
    unfolding store_ok_def
  proof (intro conjI allI impI)
    show "keys_ok st'" using st same_config_keys [OF same] by (simp add: store_ok_def)
    fix k v assume k: "kv E st' k = Some v" and pre: "starts_with k ''world/''"
    consider "k = atom_key ?w (a_id a)" "v = b" | "k = log_key ?w n" "v = fb" | "kv E st k = Some v"
    proof -
      have ne: "k \<noteq> atom_index_key (a_id a)" using pre index_not_world by metis
      show thesis
      proof (cases "k = atom_key ?w (a_id a) \<or> k = log_key ?w n")
        case True
        then show thesis using k ne that(1,2) atom_key_neq_log_key [OF w w] by (auto simp: kv')
      next
        case False
        then show thesis using k ne that(3) by (simp add: kv')
      qed
    qed
    then show "atom_entry_ok E st' k v \<or> log_entry_ok E st' k v"
    proof cases
      case 1
      then show ?thesis using b w by (auto simp: atom_entry_ok_def dec)
    next
      case 2
      have "kv E st' (atom_key ?w (a_id a)) \<noteq> None" by (simp add: kv')
      then have "log_entry_ok E st' (log_key ?w n) fb"
        unfolding log_entry_ok_def using w n(2) fb
        by (intro exI [of _ ?w] exI [of _ n] exI [of _ "\<lparr>lf_atom_id = a_id a, lf_checksum = crc32 E b, lf_len = length b\<rparr>"])
          (simp add: frame_of_def)
      then show ?thesis using 2 by simp
    next
      case 3
      then have "atom_entry_ok E st k v \<or> log_entry_ok E st k v"
        using st pre by (simp add: store_ok_def)
      then show ?thesis using keeps unfolding atom_entry_ok_def log_entry_ok_def dec by blast
    qed
  qed
  have bod: "body E st' w' i = (if w' = ?w \<and> i = a_id a then Some a else body E st w' i)"
    if "slash_free w'" for w' i
    using b atom_key_neq_log_key [OF that w] atom_key_eq [OF that w]
    by (auto simp: body_def kv' dec index_key_apart(1) [symmetric] simp del: index_key_apart(1)
        split: option.split)
  have items: "log_items E st' ?w = log_items E st ?w @ [(log_key ?w n, fb)]"
    using t st w n atom_key_not_log_prefix [OF w w]
    by (intro log_items_snoc) (auto simp: kv')
  have frame: "frame_of E fb = Some \<lparr>lf_atom_id = a_id a, lf_checksum = crc32 E b, lf_len = length b\<rparr>"
    by (simp add: frame_of_def fb)
  have "log_atoms E st' ?w = items_atoms E st' ?w (log_items E st ?w) @ [a]"
    unfolding log_atoms_items items items_atoms_def map_filter_append
    by (simp add: map_filter_simps frame bod [OF w])
  also have "items_atoms E st' ?w (log_items E st ?w) =
      map (\<lambda>x. if a_id x = a_id a then a else x) (items_atoms E st ?w (log_items E st ?w))"
    unfolding log_put_items [OF st w, symmetric]
  proof (rule items_atoms_cong)
    fix e f assume "e \<in> set (log_items E st ?w)" "frame_of E (snd e) = Some f"
    then have "body E st ?w (lf_atom_id f) \<noteq> None" using log_item_ok [OF t st w, of e] by auto
    then show "body E st' ?w (lf_atom_id f) =
        (if lf_atom_id f = a_id a \<and> body E st ?w (lf_atom_id f) \<noteq> None then Some a
         else body E st ?w (lf_atom_id f))"
      by (simp add: bod [OF w])
  qed
  finally have put: "log_atoms E st' ?w = log_put a (log_atoms E st ?w)"
    by (simp add: log_put_def log_atoms_items)
  have other: "log_atoms E st' w' = log_atoms E st w' \<and> log_end E st' w' = log_end E st w'"
    if "slash_free w'" "w' \<noteq> ?w" for w'
  proof -
    have "log_items E st' w' = log_items E st w'"
      using that atom_key_not_log_prefix [OF that(1) w] log_prefix_world [OF that(1) w]
      by (intro log_items_same [OF t]) (auto simp: kv')
    then show ?thesis
      using that by (simp add: log_atoms_items items_atoms_def log_end_def bod)
  qed
  have "log_end E st' ?w = Suc n" using n(2) by (simp add: log_end_def items)
  moreover have "kv E st' (atom_index_key (a_id a)) = Some ix" by (simp add: kv')
  ultimately show ?thesis
    using st' store same put other bod ix by (intro exI [of _ st']) auto
qed

text \<open>Sequence numbers left in the world's log.\<close>

definition log_room :: "'db sled_env \<Rightarrow> 'db sled_storage \<Rightarrow> world_key \<Rightarrow> nat \<Rightarrow> bool" where
  "log_room E st w k \<longleftrightarrow> log_end E st w + k \<le> 2 ^ 64"

lemma append_loop_ok:
  assumes "sled_env_ok E" "store_ok E st" "slash_free w" "\<forall>a \<in> set as. a_world a = w"
    and "log_room E st w (length as)" "n = log_end E st w mod 2 ^ 64"
  shows "\<exists>st'. append_loop E w n as ids st = (Inr (ids @ map a_id as), st')
    \<and> store_ok E st' \<and> same_config st st' \<and> log_end E st' w = log_end E st w + length as
    \<and> log_atoms E st' w = fold log_put as (log_atoms E st w)
    \<and> (\<forall>w'. slash_free w' \<longrightarrow> w' \<noteq> w \<longrightarrow>
         log_atoms E st' w' = log_atoms E st w' \<and> log_end E st' w' = log_end E st w')"
  using assms
proof (induction as arbitrary: n ids st)
  case (Cons a as)
  have w: "a_world a = w" "slash_free (a_world a)" using Cons.prems by simp_all
  have room: "log_end E st w < 2 ^ 64" using Cons.prems(5) by (simp add: log_room_def)
  then have n: "n = log_end E st w" "n \<le> u64_max" using Cons.prems(6) by (simp_all add: u64_max_def)
  obtain st1 where st1: "append_one E w n a st = (Inr (), st1)"
    "store_ok E st1" "same_config st st1" "log_end E st1 w = Suc n"
    "log_atoms E st1 w = log_put a (log_atoms E st w)"
    "\<forall>w'. slash_free w' \<longrightarrow> w' \<noteq> w \<longrightarrow>
       log_atoms E st1 w' = log_atoms E st w' \<and> log_end E st1 w' = log_end E st w'"
    using append_one_ok [OF Cons.prems(1,2) w(2), of n] n unfolding w(1) by blast
  have "log_room E st1 w (length as)" using Cons.prems(5) st1(4) n by (simp add: log_room_def)
  then obtain st' where "append_loop E w ((n + 1) mod 2 ^ 64) as (ids @ [a_id a]) st1
        = (Inr ((ids @ [a_id a]) @ map a_id as), st')"
    "store_ok E st'" "same_config st1 st'" "log_end E st' w = log_end E st1 w + length as"
    "log_atoms E st' w = fold log_put as (log_atoms E st1 w)"
    "\<forall>w'. slash_free w' \<longrightarrow> w' \<noteq> w \<longrightarrow>
       log_atoms E st' w' = log_atoms E st1 w' \<and> log_end E st' w' = log_end E st1 w'"
    using Cons.IH [OF Cons.prems(1) st1(2) Cons.prems(3), of "(n + 1) mod 2 ^ 64" "ids @ [a_id a]"]
      Cons.prems(4) st1(4) by auto
  then show ?case
    using st1 n w(1) by (intro exI [of _ st']) (auto intro: same_config_trans)
qed simp

lemma store_ok_kv:
  assumes "same_config st st'" "kv E st' = kv E st" "store_ok E st"
  shows "store_ok E st'"
  using assms by (simp add: store_ok_def atom_entry_ok_def log_entry_ok_def same_config_decode same_config_keys)

lemma log_atoms_kv:
  assumes "tree_ok E" "same_config st st'" "kv E st' = kv E st"
  shows "log_items E st' w = log_items E st w" "log_atoms E st' w = log_atoms E st w"
    "log_end E st' w = log_end E st w"
proof -
  show items: "log_items E st' w = log_items E st w"
    using assms by (intro log_items_same) simp_all
  show "log_end E st' w = log_end E st w" by (simp add: log_end_def items)
  show "log_atoms E st' w = log_atoms E st w"
    using assms(2,3) by (simp add: log_atoms_items items items_atoms_def body_same)
qed

lemma append_atoms_ok:
  assumes "sled_env_ok E" "store_ok E st" "slash_free w" "\<forall>a \<in> set as. a_world a = w"
    and "log_room E st w (length as)"
  shows "\<exists>st'. append_atoms E w as st = (Inr (map a_id as), st') \<and> store_ok E st' \<and> same_config st st'
    \<and> log_end E st' w = log_end E st w + length as
    \<and> log_atoms E st' w = fold log_put as (log_atoms E st w)
    \<and> (\<forall>w'. slash_free w' \<longrightarrow> w' \<noteq> w \<longrightarrow>
         log_atoms E st' w' = log_atoms E st w' \<and> log_end E st' w' = log_end E st w')"
proof -
  have t: "tree_ok E" using assms(1) by (simp add: sled_env_ok_def)
  obtain st1 where st1: "append_loop E w (next_seq E st w) as [] st = (Inr (map a_id as), st1)"
    "store_ok E st1" "same_config st st1" "log_end E st1 w = log_end E st w + length as"
    "log_atoms E st1 w = fold log_put as (log_atoms E st w)"
    "\<forall>w'. slash_free w' \<longrightarrow> w' \<noteq> w \<longrightarrow>
       log_atoms E st1 w' = log_atoms E st w' \<and> log_end E st1 w' = log_end E st w'"
    using append_loop_ok [OF assms next_seq_log_end [OF t assms(2,3)], of "[]"] by auto
  obtain st2 where st2: "flush_if_needed E st1 = (Inr (), st2)" "kv E st2 = kv E st1"
    "same_config st1 st2"
    using flush_ok [OF t] by blast
  show ?thesis
    using st1 st2 store_ok_kv [OF st2(3,2) st1(2)] log_atoms_kv [OF t st2(3,2)]
    by (intro exI [of _ st2]) (auto simp: append_atoms_def intro: same_config_trans)
qed

end
