(* ===== verification/Contracts.thy ===== *)
theory Contracts
  imports Engine_Ops Sled_Log
begin

text \<open>
  The contracts between the engine and its components. A storage engine keeps one log of atoms per
  world, a vector engine accepts vectors of its worlds' dimensions, a stream never refuses an
  atom, and a gatekeeper lets through only what it permits. The engine's lemmas are proved once
  over these laws; the theories of the components interpret them.
\<close>

section \<open>Storage\<close>

text \<open>
  \<open>okw\<close> are the worlds the contract covers, \<open>room s w k\<close> says that \<open>k\<close> more atoms fit into the
  log of \<open>w\<close>.
\<close>

locale atom_store =
  fixes st :: "'s storage_api"
    and inv :: "'s \<Rightarrow> bool"
    and okw :: "world_key \<Rightarrow> bool"
    and room :: "'s \<Rightarrow> world_key \<Rightarrow> nat \<Rightarrow> bool"
    and log :: "'s \<Rightarrow> world_key \<Rightarrow> atom list"
  assumes append_law: "inv s \<Longrightarrow> okw (a_world a) \<Longrightarrow> room s (a_world a) 1 \<Longrightarrow>
      \<exists>s'. st_append st a s = (Inr (), s') \<and> inv s'
        \<and> (\<forall>w. okw w \<longrightarrow> log s' w = (if w = a_world a then log_put a (log s w) else log s w))
        \<and> (\<forall>w k. okw w \<longrightarrow> room s w (if w = a_world a then Suc k else k) \<longrightarrow> room s' w k)"
    and scan_law: "inv s \<Longrightarrow> okw w \<Longrightarrow>
      st_scan st s w f = Inr (if f_world f \<in> {None, Some w} then scan_spec f (log s w) else [])"
    and delete_law: "inv s \<Longrightarrow> okw w \<Longrightarrow>
      \<exists>s'. st_delete st w ids s = (Inr (length (filter (\<lambda>a. a_id a \<in> set ids) (log s w))), s') \<and> inv s'
        \<and> (\<forall>w'. okw w' \<longrightarrow> log s' w' = (if w' = w then filter (\<lambda>a. a_id a \<notin> set ids) (log s w) else log s w'))"
    and worlds_law: "inv s \<Longrightarrow> \<exists>ws. st_worlds st s = Inr ws \<and> distinct ws \<and> (\<forall>w \<in> set ws. okw w)
        \<and> (\<forall>w. okw w \<longrightarrow> log s w \<noteq> [] \<longrightarrow> w \<in> set ws)"
    and log_world: "inv s \<Longrightarrow> okw w \<Longrightarrow> a \<in> set (log s w) \<Longrightarrow> a_world a = w"
    and log_functional: "inv s \<Longrightarrow> okw w \<Longrightarrow> a \<in> set (log s w) \<Longrightarrow> b \<in> set (log s w) \<Longrightarrow>
      a_id a = a_id b \<Longrightarrow> a = b"
    and room_mono: "room s w (Suc k) \<Longrightarrow> room s w k"

text \<open>A store that also finds atoms by id; \<open>known s i\<close> says that a lookup of \<open>i\<close> succeeds.\<close>

locale indexed_store = atom_store +
  fixes known :: "'s \<Rightarrow> atom_id \<Rightarrow> bool"
  assumes get_law: "inv s \<Longrightarrow> \<exists>as. st_get_by_ids st s [i] = Inr as \<and> (as = [] \<longleftrightarrow> \<not> known s i)"
    and known_append: "inv s \<Longrightarrow> okw (a_world a) \<Longrightarrow> room s (a_world a) 1 \<Longrightarrow>
      known (snd (st_append st a s)) i \<longleftrightarrow> i = a_id a \<or> known s i"

section \<open>Vectors, streams and the gatekeeper\<close>

locale vector_contract =
  fixes ve :: "'v vector_api"
    and vinv :: "'v \<Rightarrow> bool"
    and fits :: "'v \<Rightarrow> world_key \<Rightarrow> nat \<Rightarrow> bool"
  assumes upsert_law: "vinv v \<Longrightarrow> fits v w (length x) \<Longrightarrow>
      \<exists>v'. ve_upsert ve w i x v = (Inr (), v') \<and> vinv v'
        \<and> (\<forall>w' k. fits v' w' k = (if w' = w then k = length x else fits v w' k))"
    and upsert_refused: "vinv v \<Longrightarrow> \<not> fits v w (length x) \<Longrightarrow>
      \<exists>e. ve_upsert ve w i x v = (Inl e, v)"
    and rebuild_law: "vinv v \<Longrightarrow> vinv (snd (ve_rebuild ve w v)) \<and> fits (snd (ve_rebuild ve w v)) = fits v"

locale stream_contract =
  fixes sr :: "'t stream_api"
    and tinv :: "'t \<Rightarrow> bool"
  assumes publish_law: "tinv t \<Longrightarrow> \<exists>t'. sr_publish sr a t = (Inr (), t') \<and> tinv t'"

locale gate_contract =
  fixes ga :: "'g gate_api"
    and may_write :: "'g \<Rightarrow> new_atom \<Rightarrow> bool"
  assumes gate_law: "ga_remember ga n g = (Inr (), g') \<Longrightarrow> may_write g n"
    and gate_keeps: "may_write (snd (ga_remember ga n g)) = may_write g"

text \<open>What an append does to a log, and what a filter does to the appended log.\<close>

lemma set_log_put: "set (log_put a as) \<subseteq> insert a (set as)"
  by (auto simp: log_put_def)

lemma in_log_put [simp]: "a \<in> set (log_put a as)"
  by (simp add: log_put_def)

lemma log_put_fresh: "a_id a \<notin> a_id ` set as \<Longrightarrow> log_put a as = as @ [a]"
  by (induction as) (auto simp: log_put_def)

lemma log_put_not_Nil [simp]: "log_put a as \<noteq> []"
  by (simp add: log_put_def)

lemma scan_spec_all [simp]: "scan_spec default_filter as = as" "f_world default_filter = None"
  by (simp_all add: scan_spec_def default_filter_def matches_filter_def)

section \<open>The engine over the contracts\<close>

locale engine_contract =
  indexed_store "ee_storage X" inv okw room log known
  + vector_contract "ee_vector X" vinv fits
  + stream_contract "ee_stream X" tinv
  for X :: "('s, 'v, 't, 'g) engine_env" and inv okw room log known vinv fits tinv
begin

definition einv :: "('s, 'v, 't, 'g) engine \<Rightarrow> bool" where
  "einv en \<longleftrightarrow> inv (en_storage en) \<and> vinv (en_vector en) \<and> tinv (en_stream en)"

definition elog :: "('s, 'v, 't, 'g) engine \<Rightarrow> world_key \<Rightarrow> atom list" where
  "elog en w = log (en_storage en) w"

definition accepts :: "('s, 'v, 't, 'g) engine \<Rightarrow> atom \<Rightarrow> bool" where
  "accepts en a \<longleftrightarrow> (\<forall>v. a_vector a = Some v \<longrightarrow> fits (en_vector en) (a_world a) (length v))"

lemma upsert_vector_ok:
  assumes "einv en" "accepts en a"
  obtains v' where "upsert_vector X a en = (Inr (), en\<lparr>en_vector := v'\<rparr>)" "vinv v'"
proof (cases "a_vector a")
  case None
  then show ?thesis using assms by (intro that [of "en_vector en"]) (simp_all add: upsert_vector_def einv_def)
next
  case (Some v)
  then obtain v' where "ve_upsert (ee_vector X) (a_world a) (a_id a) v (en_vector en) = (Inr (), v')" "vinv v'"
    using upsert_law [of "en_vector en" "a_world a" v "a_id a"] assms by (auto simp: einv_def accepts_def)
  then show ?thesis using Some by (intro that [of v']) (simp_all add: upsert_vector_def on_vector_def)
qed

lemma upsert_vector_refused:
  assumes "einv en" "\<not> accepts en a"
  obtains e where "upsert_vector X a en = (Inl e, en)"
proof -
  obtain v where v: "a_vector a = Some v" "\<not> fits (en_vector en) (a_world a) (length v)"
    using assms(2) by (auto simp: accepts_def)
  then obtain e where "ve_upsert (ee_vector X) (a_world a) (a_id a) v (en_vector en) = (Inl e, en_vector en)"
    using upsert_refused [of "en_vector en" "a_world a" v "a_id a"] assms(1) by (auto simp: einv_def)
  then show ?thesis using v(1) by (intro that [of e]) (simp add: upsert_vector_def on_vector_def)
qed

text \<open>
  A commit either stores nothing or stores the atom; it reports success exactly when the vector
  fits and the timestamp parses, and an atom whose timestamp does not parse is stored all the same.
\<close>

definition commits :: "atom \<Rightarrow> ('s, 'v, 't, 'g) engine \<Rightarrow> ('s, 'v, 't, 'g) engine \<Rightarrow> bool" where
  "commits a en en' \<longleftrightarrow> einv en'
     \<and> (\<forall>w. okw w \<longrightarrow> elog en' w = (if w = a_world a \<and> accepts en a then log_put a (elog en w) else elog en w))
     \<and> (\<forall>w k. okw w \<longrightarrow> room (en_storage en) w (if w = a_world a then Suc k else k) \<longrightarrow> room (en_storage en') w k)
     \<and> (\<forall>i. known (en_storage en') i \<longleftrightarrow> known (en_storage en) i \<or> i = a_id a \<and> accepts en a)
     \<and> en_gate en' = en_gate en \<and> en_id_gen en' = en_id_gen en"

lemma commit_atom_effect:
  assumes "einv en" "okw (a_world a)" "room (en_storage en) (a_world a) 1"
  obtains r en' where "commit_atom X a en = (r, en')" "commits a en en'"
    "r = Inr () \<longleftrightarrow> accepts en a \<and> is_ok (parse_ts (ee_time X) (a_timestamp a))"
proof (cases "accepts en a")
  case True
  have inv1: "inv (en_storage en)" using assms(1) by (simp add: einv_def)
  obtain v' where v': "upsert_vector X a en = (Inr (), en\<lparr>en_vector := v'\<rparr>)" "vinv v'"
    using upsert_vector_ok [OF assms(1) True] .
  obtain s' where s': "st_append (ee_storage X) a (en_storage en) = (Inr (), s')" "inv s'"
    "\<forall>w. okw w \<longrightarrow> log s' w = (if w = a_world a then log_put a (log (en_storage en) w) else log (en_storage en) w)"
    "\<forall>w k. okw w \<longrightarrow> room (en_storage en) w (if w = a_world a then Suc k else k) \<longrightarrow> room s' w k"
    using append_law [OF inv1 assms(2,3)] by blast
  have known': "known s' i \<longleftrightarrow> i = a_id a \<or> known (en_storage en) i" for i
    using known_append [OF inv1 assms(2,3), of i] s'(1) by simp
  let ?en2 = "en\<lparr>en_vector := v', en_storage := s'\<rparr>"
  have app: "on_storage (st_append (ee_storage X) a) (en\<lparr>en_vector := v'\<rparr>) = (Inr (), ?en2)"
    using s'(1) by (simp add: on_storage_def)
  have stored: "commits a en en'" if "en_storage en' = s'" "vinv (en_vector en')" "tinv (en_stream en')"
    "en_gate en' = en_gate en" "en_id_gen en' = en_id_gen en" for en'
    using that s' known' True by (auto simp: commits_def einv_def elog_def)
  show ?thesis
  proof (cases "parse_ts (ee_time X) (a_timestamp a)")
    case (Inl e)
    have c: "commit_atom X a en = (Inl e, ?en2)"
      unfolding commit_atom_def v'(1)
      by (simp add: app engine_reflex_insert_def reflex_insert_def reflex_parse_ts_def Inl)
    have "commits a en ?en2" using assms(1) v'(2) by (intro stored) (simp_all add: einv_def)
    then show ?thesis using c Inl by (intro that [of "Inl e" ?en2]) simp_all
  next
    case (Inr t)
    obtain en3 where ins: "engine_reflex_insert (ee_time X) a ?en2 = (Inr (), en3)"
      and fields: "en_storage en3 = s'" "en_stream en3 = en_stream en" "en_vector en3 = v'"
        "en_gate en3 = en_gate en" "en_id_gen en3 = en_id_gen en"
      by (simp add: engine_reflex_insert_def reflex_insert_def reflex_parse_ts_def Inr Let_def)
    obtain t' where t': "sr_publish (ee_stream X) a (en_stream en) = (Inr (), t')" "tinv t'"
      using publish_law [of "en_stream en" a] assms(1) by (auto simp: einv_def)
    let ?en4 = "(register_conflicts a en3)\<lparr>en_stream := t'\<rparr>"
    have c: "commit_atom X a en = (Inr (), ?en4)"
      unfolding commit_atom_def v'(1) using t'(1)
      by (simp add: app ins on_stream_def register_conflicts_def fields)
    have "commits a en ?en4" using t'(2) v'(2) by (intro stored) (simp_all add: register_conflicts_def fields)
    then show ?thesis using c Inr True by (intro that [of "Inr ()" ?en4]) simp_all
  qed
next
  case False
  obtain e where "upsert_vector X a en = (Inl e, en)" using upsert_vector_refused [OF assms(1) False] .
  then have c: "commit_atom X a en = (Inl e, en)" by (simp add: commit_atom_def)
  have rm: "\<forall>w k. okw w \<longrightarrow> room (en_storage en) w (if w = a_world a then Suc k else k)
      \<longrightarrow> room (en_storage en) w k"
  proof (intro allI impI)
    fix w k assume "room (en_storage en) w (if w = a_world a then Suc k else k)"
    then show "room (en_storage en) w k"
      using room_mono [of "en_storage en" w k] by (cases "w = a_world a") simp_all
  qed
  have "commits a en en" unfolding commits_def by (intro conjI rm) (use assms(1) False in simp_all)
  then show ?thesis using c False by (intro that [of "Inl e" en]) simp_all
qed

end

section \<open>Remembering\<close>

text \<open>The atom a submission becomes when the embedder returns \<open>emb\<close>.\<close>

definition suspicious :: "op_clock \<Rightarrow> new_atom \<Rightarrow> ('s, 'v, 't, 'g) engine \<Rightarrow> bool" where
  "suspicious clk n en = fst (should_quarantine n (oc_mono clk) en)"

definition stamped :: "('s, 'v, 't, 'g) engine_env \<Rightarrow> op_clock \<Rightarrow> new_atom \<Rightarrow> new_atom" where
  "stamped X clk n =
     (if n_timestamp n = [] then n\<lparr>n_timestamp := now_timestamp (ee_time X) (oc_utc clk 0)\<rparr> else n)"

definition remember_atom ::
  "('s, 'v, 't, 'g) engine_env \<Rightarrow> op_clock \<Rightarrow> new_atom \<Rightarrow> f32 list option \<Rightarrow> ('s, 'v, 't, 'g) engine \<Rightarrow> atom" where
  "remember_atom X clk n emb en =
     (let n1 = stamped X clk n;
          n2 = (if suspicious clk n en then quarantine_atom n1 else n1)
      in atom_from_new (''atom-'' @ dec_text (en_id_gen en))
           (if n_vector n2 = None then n2\<lparr>n_vector := emb\<rparr> else n2))"

text \<open>The world a submission goes to.\<close>

definition target_world :: "op_clock \<Rightarrow> new_atom \<Rightarrow> ('s, 'v, 't, 'g) engine \<Rightarrow> world_key" where
  "target_world clk n en = (if suspicious clk n en then ''quarantine:'' @ n_world n else n_world n)"

lemma quarantine_atom_fields [simp]:
  "n_world (quarantine_atom n) = ''quarantine:'' @ n_world n"
  "n_payload_json (quarantine_atom n) = n_payload_json n"
  "n_vector (quarantine_atom n) = n_vector n"
  "n_timestamp (quarantine_atom n) = n_timestamp n"
  by (simp_all add: quarantine_atom_def Let_def)

lemma stamped_fields [simp]:
  "n_world (stamped X clk n) = n_world n" "n_payload_json (stamped X clk n) = n_payload_json n"
  "n_worker (stamped X clk n) = n_worker n" "n_importance (stamped X clk n) = n_importance n"
  "n_vector (stamped X clk n) = n_vector n"
  by (simp_all add: stamped_def)

lemma atom_from_new_fields [simp]:
  "a_id (atom_from_new i n) = i" "a_world (atom_from_new i n) = n_world n"
  "a_timestamp (atom_from_new i n) = n_timestamp n" "a_vector (atom_from_new i n) = n_vector n"
  "a_flags (atom_from_new i n) = n_flags n" "a_labels (atom_from_new i n) = n_labels n"
  "a_links (atom_from_new i n) = n_links n" "a_worker (atom_from_new i n) = n_worker n"
  "a_kind (atom_from_new i n) = n_kind n" "a_importance (atom_from_new i n) = n_importance n"
  "a_payload_json (atom_from_new i n) = n_payload_json n"
  by (simp_all add: atom_from_new_def fold_add_flag fold_add_label fold_add_typed_link builder_defs)

lemma remember_atom_fields:
  "a_id (remember_atom X clk n emb en) = ''atom-'' @ dec_text (en_id_gen en)"
  "a_world (remember_atom X clk n emb en) = target_world clk n en"
  "a_timestamp (remember_atom X clk n emb en) = n_timestamp (stamped X clk n)"
  "a_payload_json (remember_atom X clk n emb en) = n_payload_json n"
  "a_vector (remember_atom X clk n emb en) = (if n_vector n = None then emb else n_vector n)"
  by (auto simp: remember_atom_def target_world_def Let_def)

lemma should_quarantine_fields:
  "should_quarantine n now en = (q, en') \<Longrightarrow>
     en_storage en' = en_storage en \<and> en_vector en' = en_vector en \<and> en_stream en' = en_stream en
     \<and> en_gate en' = en_gate en \<and> en_id_gen en' = en_id_gen en"
  by (auto simp: should_quarantine_def record_suspicion_def Let_def split: prod.splits)

lemma should_quarantine_cong:
  assumes "en_suspicions en' = en_suspicions en" "n_worker n' = n_worker n"
    "n_payload_json n' = n_payload_json n" "n_importance n' = n_importance n"
  shows "fst (should_quarantine n' now en') = fst (should_quarantine n now en)"
  using assms by (simp add: should_quarantine_def record_suspicion_def Let_def)

lemma remember_refused:
  assumes "ga_remember (ee_gate X) n (en_gate en) = (Inl e, g')"
  shows "engine_remember X clk n en = (Inl e, en\<lparr>en_gate := g'\<rparr>)"
  using assms by (simp add: engine_remember_def on_gate_def)

context engine_contract
begin

lemma rebuild_fields:
  assumes "einv en"
  shows "einv (maybe_rebuild_index X utc w en)"
    "en_storage (maybe_rebuild_index X utc w en) = en_storage en"
    "fits (en_vector (maybe_rebuild_index X utc w en)) = fits (en_vector en)"
    "en_gate (maybe_rebuild_index X utc w en) = en_gate en"
    "en_id_gen (maybe_rebuild_index X utc w en) = en_id_gen en"
    "en_suspicions (maybe_rebuild_index X utc w en) = en_suspicions en"
    "en_conflict (maybe_rebuild_index X utc w en) = en_conflict en"
    "en_reflex (maybe_rebuild_index X utc w en) = en_reflex en"
  using assms rebuild_law [of "en_vector en" w]
  by (simp_all add: maybe_rebuild_index_def ensure_index_entry_def einv_def Let_def split: option.split)

lemma ensure_fields:
  "einv (ensure_index_entry X now w en) = einv en"
  "en_storage (ensure_index_entry X now w en) = en_storage en"
  "en_vector (ensure_index_entry X now w en) = en_vector en"
  "en_gate (ensure_index_entry X now w en) = en_gate en"
  "en_id_gen (ensure_index_entry X now w en) = en_id_gen en"
  "en_suspicions (ensure_index_entry X now w en) = en_suspicions en"
  by (simp_all add: ensure_index_entry_def einv_def split: option.split)

text \<open>What happens up to the commit: nothing that the components' contracts can see.\<close>

lemma remember_prepared:
  assumes "einv en" "ga_remember (ee_gate X) n (en_gate en) = (Inr (), g')"
  obtains en5 where "einv en5" "en_storage en5 = en_storage en" "en_gate en5 = g'"
    "en_id_gen en5 = (en_id_gen en + 1) mod 2 ^ 64"
    "fits (en_vector en5) = fits (en_vector en)"
    "engine_remember X clk n en =
       (case em_embed (ee_embed X) (n_payload_json n) of
          Inl e \<Rightarrow> (Inl e, en5)
        | Inr emb \<Rightarrow> sbind (commit_atom X (remember_atom X clk n emb en) en5)
            (\<lambda>_ en6. (Inr (''atom-'' @ dec_text (en_id_gen en)), en6)))"
proof -
  let ?utc = "\<lambda>k. oc_utc clk (k + 2)"
  define en2 where "en2 = en\<lparr>en_gate := g', en_id_gen := (en_id_gen en + 1) mod 2 ^ 64\<rparr>"
  define en3 where "en3 = ensure_index_entry X (oc_utc clk 1) (n_world n) en2"
  define en4 where "en4 = maybe_rebuild_index X ?utc (n_world n) en3"
  obtain q en5 where q: "should_quarantine (stamped X clk n) (oc_mono clk) en4 = (q, en5)" by fastforce
  have f2: "einv en2" "en_storage en2 = en_storage en" "en_vector en2 = en_vector en" "en_gate en2 = g'"
    "en_suspicions en2 = en_suspicions en" "en_id_gen en2 = (en_id_gen en + 1) mod 2 ^ 64"
    using assms(1) by (simp_all add: en2_def einv_def)
  have f3: "einv en3" "en_storage en3 = en_storage en" "en_vector en3 = en_vector en" "en_gate en3 = g'"
    "en_suspicions en3 = en_suspicions en" "en_id_gen en3 = (en_id_gen en + 1) mod 2 ^ 64"
    by (simp_all add: en3_def ensure_fields f2)
  have f4: "einv en4" "en_storage en4 = en_storage en" "fits (en_vector en4) = fits (en_vector en)"
    "en_gate en4 = g'" "en_suspicions en4 = en_suspicions en" "en_id_gen en4 = (en_id_gen en + 1) mod 2 ^ 64"
    unfolding en4_def by (simp_all add: rebuild_fields [OF f3(1)] f3)
  note f5 = should_quarantine_fields [OF q]
  have "q = suspicious clk n en"
    using should_quarantine_cong [OF f4(5), of "stamped X clk n" n "oc_mono clk"] q
    by (simp add: suspicious_def)
  then have "engine_remember X clk n en =
       (case em_embed (ee_embed X) (n_payload_json n) of
          Inl e \<Rightarrow> (Inl e, en5)
        | Inr emb \<Rightarrow> sbind (commit_atom X (remember_atom X clk n emb en) en5)
            (\<lambda>_ en6. (Inr (''atom-'' @ dec_text (en_id_gen en)), en6)))"
    using q assms(2) unfolding engine_remember_def en4_def en3_def en2_def
    by (simp add: on_gate_def new_id_def remember_atom_def Let_def flip: stamped_def split: sum.split)
  moreover have "einv en5" using f4(1) f5 by (simp add: einv_def)
  ultimately show ?thesis using f4 f5 by (intro that [of en5]) simp_all
qed

end

end
