(* ===== verification/Engine_Laws.thy ===== *)
theory Engine_Laws
  imports Contracts
begin

text \<open>
  What the engine's operations do to the logs of any components that keep the contracts:
  remembering, ingesting from peers, archiving and garbage collection; and how asking ranks.
\<close>

context engine_contract
begin

section \<open>Remembering\<close>

lemma remember_stores:
  fixes clk n emb en
  defines "a \<equiv> remember_atom X clk n emb en"
  assumes "einv en" "fst (ga_remember (ee_gate X) n (en_gate en)) = Inr ()"
    and "em_embed (ee_embed X) (n_payload_json n) = Inr emb"
    and "okw (a_world a)" "room (en_storage en) (a_world a) 1"
  shows "\<exists>r en'. engine_remember X clk n en = (r, en') \<and> einv en'
    \<and> en_id_gen en' = (en_id_gen en + 1) mod 2 ^ 64
    \<and> (\<forall>w. okw w \<longrightarrow> elog en' w = (if w = a_world a \<and> accepts en a then log_put a (elog en w) else elog en w))
    \<and> (if accepts en a \<and> is_ok (parse_ts (ee_time X) (a_timestamp a)) then r = Inr (a_id a) else \<exists>e. r = Inl e)"
proof -
  obtain g' where g': "ga_remember (ee_gate X) n (en_gate en) = (Inr (), g')"
    using assms(3) by (cases "ga_remember (ee_gate X) n (en_gate en)") auto
  obtain en5 where en5: "einv en5" "en_storage en5 = en_storage en" "fits (en_vector en5) = fits (en_vector en)"
      "en_id_gen en5 = (en_id_gen en + 1) mod 2 ^ 64"
    and rem: "engine_remember X clk n en =
       (case em_embed (ee_embed X) (n_payload_json n) of
          Inl e \<Rightarrow> (Inl e, en5)
        | Inr emb \<Rightarrow> sbind (commit_atom X (remember_atom X clk n emb en) en5)
            (\<lambda>_ en6. (Inr (''atom-'' @ dec_text (en_id_gen en)), en6)))"
    by (rule remember_prepared [OF assms(2) g', of clk])
  have acc: "accepts en5 a = accepts en a" by (simp add: accepts_def en5)
  have "room (en_storage en5) (a_world a) 1" using assms(6) by (simp add: en5)
  then obtain r en' where c: "commit_atom X a en5 = (r, en')" "commits a en5 en'"
    "r = Inr () \<longleftrightarrow> accepts en5 a \<and> is_ok (parse_ts (ee_time X) (a_timestamp a))"
    using commit_atom_effect [OF en5(1) assms(5)] by blast
  have "elog en5 w = elog en w" for w by (simp add: elog_def en5)
  moreover have "engine_remember X clk n en = sbind (r, en') (\<lambda>_ en6. (Inr (a_id a), en6))"
    using rem c(1) assms(4) by (simp add: a_def remember_atom_fields)
  ultimately show ?thesis
    using c(2,3) acc en5(4) by (cases r) (auto simp: commits_def)
qed

text \<open>Every outcome: at most the target world changes, and only if the gatekeeper agreed.\<close>

lemma remember_log:
  assumes "einv en" "okw (target_world clk n en)" "room (en_storage en) (target_world clk n en) 1"
  shows "\<exists>r en'. engine_remember X clk n en = (r, en') \<and> einv en'
    \<and> en_id_gen en' \<in> {en_id_gen en, (en_id_gen en + 1) mod 2 ^ 64}
    \<and> (\<forall>w. okw w \<longrightarrow> elog en' w = elog en w
         \<or> en_id_gen en' = (en_id_gen en + 1) mod 2 ^ 64
           \<and> w = target_world clk n en \<and> fst (ga_remember (ee_gate X) n (en_gate en)) = Inr ()
           \<and> (\<exists>emb. elog en' w = log_put (remember_atom X clk n emb en) (elog en w)))"
proof (cases "ga_remember (ee_gate X) n (en_gate en)")
  case (Pair rg g')
  show ?thesis
  proof (cases rg)
    case (Inl e)
    then show ?thesis
      using assms(1) remember_refused [of X n en e g' clk] Pair by (auto simp: einv_def elog_def)
  next
    case (Inr u)
    show ?thesis
    proof (cases "em_embed (ee_embed X) (n_payload_json n)")
      case (Inl e)
      obtain en5 where en5: "einv en5" "en_storage en5 = en_storage en"
          "en_id_gen en5 = (en_id_gen en + 1) mod 2 ^ 64"
        and rem: "engine_remember X clk n en =
         (case em_embed (ee_embed X) (n_payload_json n) of
            Inl e \<Rightarrow> (Inl e, en5)
          | Inr emb \<Rightarrow> sbind (commit_atom X (remember_atom X clk n emb en) en5)
              (\<lambda>_ en6. (Inr (''atom-'' @ dec_text (en_id_gen en)), en6)))"
        using remember_prepared [OF assms(1), of n g' clk] Pair Inr by auto
      have "engine_remember X clk n en = (Inl e, en5)" using rem Inl by simp
      then show ?thesis using en5 by (simp add: elog_def)
    next
      case (Inr emb)
      then show ?thesis
        using remember_stores [OF assms(1) _ Inr, of clk] assms(2,3) Pair \<open>rg = Inr u\<close>
        by (auto simp: remember_atom_fields)
    qed
  qed
qed

section \<open>Ingesting\<close>

lemma room_one: "room s w (Suc k) \<longrightarrow> room s w 1"
proof (induction k)
  case (Suc k)
  then show ?case using room_mono [of s w "Suc k"] by blast
qed simp

end

text \<open>The first atom of each id that is not known yet.\<close>

fun fresh_atoms :: "(atom_id \<Rightarrow> bool) \<Rightarrow> atom list \<Rightarrow> atom list" where
  "fresh_atoms K [] = []"
| "fresh_atoms K (a # as) =
     (if K (a_id a) then fresh_atoms K as else a # fresh_atoms (\<lambda>i. i = a_id a \<or> K i) as)"

lemma fresh_atoms_none: "(\<And>a. a \<in> set as \<Longrightarrow> K (a_id a)) \<Longrightarrow> fresh_atoms K as = []"
  by (induction as) auto

lemma fresh_atoms_new: "a \<in> set (fresh_atoms K as) \<Longrightarrow> \<not> K (a_id a)"
  by (induction K as rule: fresh_atoms.induct) (simp_all split: if_splits, blast)

lemma fresh_atoms_distinct: "distinct (map a_id (fresh_atoms K as))"
proof (induction K as rule: fresh_atoms.induct)
  case (2 K a as)
  then show ?case using fresh_atoms_new [where K = "\<lambda>i. i = a_id a \<or> K i"] by force
qed simp

context engine_contract
begin

lemma ingest_loop_effect:
  assumes "einv en" "\<forall>a \<in> set as. okw (a_world a) \<and> room (en_storage en) (a_world a) (length as)"
    and "ingest_loop X as out en = (r, en')"
  shows "einv en' \<and> (\<forall>ids. r = Inr ids \<longrightarrow>
      ids = out @ map a_id (fresh_atoms (known (en_storage en)) as)
    \<and> (\<forall>w. okw w \<longrightarrow> elog en' w =
         fold log_put (filter (\<lambda>a. a_world a = w) (fresh_atoms (known (en_storage en)) as)) (elog en w))
    \<and> (\<forall>i. known (en_storage en') i \<longleftrightarrow> known (en_storage en) i \<or> i \<in> a_id ` set as))"
  using assms
proof (induction as arbitrary: out en)
  case (Cons a as)
  have inv: "inv (en_storage en)" using Cons.prems(1) by (simp add: einv_def)
  have room: "\<forall>b \<in> set (a # as). okw (a_world b) \<and> room (en_storage en) (a_world b) (Suc (length as))"
    using Cons.prems(2) by simp
  obtain found where found: "st_get_by_ids (ee_storage X) (en_storage en) [a_id a] = Inr found"
    "found = [] \<longleftrightarrow> \<not> known (en_storage en) (a_id a)"
    using get_law [OF inv] by blast
  show ?case
  proof (cases "known (en_storage en) (a_id a)")
    case True
    then have "ingest_loop X as out en = (r, en')"
      using Cons.prems(3) found by (cases found) auto
    moreover have "\<forall>b \<in> set as. okw (a_world b) \<and> room (en_storage en) (a_world b) (length as)"
      using room room_mono by auto
    ultimately have IH: "einv en' \<and> (\<forall>ids. r = Inr ids \<longrightarrow>
        ids = out @ map a_id (fresh_atoms (known (en_storage en)) as)
      \<and> (\<forall>w. okw w \<longrightarrow> elog en' w =
           fold log_put (filter (\<lambda>a. a_world a = w) (fresh_atoms (known (en_storage en)) as)) (elog en w))
      \<and> (\<forall>i. known (en_storage en') i \<longleftrightarrow> known (en_storage en) i \<or> i \<in> a_id ` set as))"
      using Cons.IH [OF Cons.prems(1)] by blast
    then show ?thesis using True by auto
  next
    case False
    have "room (en_storage en) (a_world a) (Suc (length as))" using room by simp
    then have one: "room (en_storage en) (a_world a) 1"
      using room_one by blast
    obtain r1 en1 where c: "commit_atom X a en = (r1, en1)" "commits a en en1"
      "r1 = Inr () \<longleftrightarrow> accepts en a \<and> is_ok (parse_ts (ee_time X) (a_timestamp a))"
      using commit_atom_effect [OF Cons.prems(1) _ one] room by auto
    have step: "(r, en') = sbind (r1, en1) (\<lambda>_ en1. ingest_loop X as (out @ [a_id a]) en1)"
      using Cons.prems(3) found False c(1) by simp
    show ?thesis
    proof (cases r1)
      case (Inl e)
      then show ?thesis using step c(2) by (simp add: commits_def)
    next
      case (Inr u)
      then have acc: "accepts en a" using c(3) by simp
      have known1: "known (en_storage en1) = (\<lambda>i. i = a_id a \<or> known (en_storage en) i)"
        using c(2) acc by (auto simp: commits_def fun_eq_iff)
      have room1: "\<forall>b \<in> set as. okw (a_world b) \<and> room (en_storage en1) (a_world b) (length as)"
      proof
        fix b assume "b \<in> set as"
        then have b: "okw (a_world b)" "room (en_storage en) (a_world b) (Suc (length as))" using room by simp_all
        then have "room (en_storage en) (a_world b) (if a_world b = a_world a then Suc (length as) else length as)"
          using room_mono [OF b(2)] by (cases "a_world b = a_world a") simp_all
        then show "okw (a_world b) \<and> room (en_storage en1) (a_world b) (length as)"
          using c(2) b(1) unfolding commits_def by blast
      qed
      have "ingest_loop X as (out @ [a_id a]) en1 = (r, en')" using step Inr by simp
      then have "einv en' \<and> (\<forall>ids. r = Inr ids \<longrightarrow>
          ids = (out @ [a_id a]) @ map a_id (fresh_atoms (known (en_storage en1)) as)
        \<and> (\<forall>w. okw w \<longrightarrow> elog en' w =
             fold log_put (filter (\<lambda>a. a_world a = w) (fresh_atoms (known (en_storage en1)) as)) (elog en1 w))
        \<and> (\<forall>i. known (en_storage en') i \<longleftrightarrow> known (en_storage en1) i \<or> i \<in> a_id ` set as))"
        using c(2) by (intro Cons.IH room1) (simp add: commits_def)
      then show ?thesis
        using False c(2) acc by (auto simp: known1 commits_def)
    qed
  qed
qed auto

lemma ingest_known:
  "inv (en_storage en) \<Longrightarrow> \<forall>a \<in> set as. known (en_storage en) (a_id a) \<Longrightarrow> ingest_loop X as out en = (Inr out, en)"
proof (induction as arbitrary: out)
  case (Cons a as)
  obtain found where "st_get_by_ids (ee_storage X) (en_storage en) [a_id a] = Inr found" "found \<noteq> []"
    using get_law [OF Cons.prems(1), of "a_id a"] Cons.prems(2) by auto
  then show ?case using Cons by (cases found) auto
qed simp

end

section \<open>World status\<close>

lemma latest_status_newest:
  assumes "\<forall>b \<in> set as. status_of_labels (a_labels b) \<noteq> None \<longrightarrow>
      ts_or_epoch api b < t \<or> ts_or_epoch api b = t \<and> status_of_labels (a_labels b) = Some s"
    and "case best of None \<Rightarrow> True | Some (t', s') \<Rightarrow> t' < t \<or> t' = t \<and> s' = s"
    and "best = Some (t, s) \<or> (\<exists>a \<in> set as. status_of_labels (a_labels a) = Some s \<and> ts_or_epoch api a = t)"
  shows "latest_status api best as = Some (t, s)"
  using assms
proof (induction as arbitrary: best)
  case (Cons b as)
  let ?best = "case status_of_labels (a_labels b) of
          None \<Rightarrow> best
        | Some s \<Rightarrow> if (case best of None \<Rightarrow> True | Some (t, _) \<Rightarrow> t < ts_or_epoch api b)
                    then Some (ts_or_epoch api b, s) else best"
  have "case ?best of None \<Rightarrow> True | Some (t', s') \<Rightarrow> t' < t \<or> t' = t \<and> s' = s"
    using Cons.prems(1,2) by (auto split: option.split prod.split)
  moreover have "?best = Some (t, s) \<or> (\<exists>a \<in> set as. status_of_labels (a_labels a) = Some s \<and> ts_or_epoch api a = t)"
    using Cons.prems by (auto split: option.splits prod.splits)
  ultimately show ?case using Cons.IH [of ?best] Cons.prems(1) by simp
qed simp

lemma drop_archived_filter:
  "drop_archived X s ws = Inr (filter (\<lambda>w. world_archived X s w \<noteq> Inr True) ws)"
proof (induction ws)
  case (Cons w ws)
  obtain b where "world_archived X s w = Inr b" by (auto simp: world_archived_def world_status_def)
  then show ?case using Cons by (cases b) simp_all
qed simp

lemma worlds_filtered_spec:
  "st_worlds (ee_storage X) (en_storage en) = Inr ws \<Longrightarrow>
   worlds_filtered X all en = Inr (filter (\<lambda>w. all \<or> world_archived X (en_storage en) w \<noteq> Inr True) (sort ws))"
  by (simp add: worlds_filtered_def drop_archived_filter)

lemma world_meta_atom_fields:
  "a_world (world_meta_atom X i now act) = fst (action_parts act)"
  "a_id (world_meta_atom X i now act) = i" "a_timestamp (world_meta_atom X i now act) = now"
  "a_vector (world_meta_atom X i now act) = None"
  "a_labels (world_meta_atom X i now act) =
     ''world_meta'' # (''world_status:'' @ fst (snd (action_parts act))) # snd (snd (snd (action_parts act)))"
  by (simp_all add: world_meta_atom_def fold_add_label builder_defs split: prod.split)

lemma world_meta_status:
  "status_of_labels (a_labels (world_meta_atom X i now act)) = Some (fst (snd (action_parts act)))"
proof -
  have "strip_prefix ''world_status:'' ''world_meta'' = None" by simp
  moreover have "strip_prefix ''world_status:'' (''world_status:'' @ s) = Some s" for s by simp
  ultimately show ?thesis by (simp add: world_meta_atom_fields del: strip_prefix.simps)
qed

context engine_contract
begin

lemma world_status_log:
  assumes "einv en" "okw w"
  shows "world_status X (en_storage en) w =
    Inr (map_option snd (latest_status (ee_time X) None
      (filter (\<lambda>a. ''world_meta'' \<in> set (a_labels a)) (elog en w))))"
  using scan_law [of "en_storage en" w "default_filter\<lparr>f_world := Some w, f_labels := [''world_meta'']\<rparr>"] assms
  by (simp add: world_status_def ok_or_empty_def einv_def elog_def scan_spec_def matches_filter_def default_filter_def)

text \<open>Archiving or resuming, whether the status was current already or is written now.\<close>

lemma manage_world_status:
  assumes "einv en" "fst (ga_action (ee_gate X) act (en_gate en)) = Inr ()"
    and act: "action_parts act = (w, status, None, [])" and "okw w" "room (en_storage en) w 1"
    and now: "parse_ts (ee_time X) (now_timestamp (ee_time X) (oc_utc clk 0)) = Inr t"
    and later: "\<forall>a \<in> set (elog en w). ''world_meta'' \<in> set (a_labels a) \<longrightarrow>
      status_of_labels (a_labels a) \<noteq> None \<longrightarrow> ts_or_epoch (ee_time X) a < t"
  shows "\<exists>en'. manage_world X clk act en = (Inr (), en') \<and> einv en'
    \<and> world_status X (en_storage en') w = Inr (Some status)
    \<and> (\<forall>w'. okw w' \<longrightarrow> w' \<noteq> w \<longrightarrow> elog en' w' = elog en w')"
proof -
  obtain g' where g': "ga_action (ee_gate X) act (en_gate en) = (Inr (), g')"
    using assms(2) by (cases "ga_action (ee_gate X) act (en_gate en)") auto
  let ?en1 = "en\<lparr>en_gate := g'\<rparr>"
  have e1: "einv ?en1" "elog ?en1 = elog en" "en_storage ?en1 = en_storage en"
    using assms(1) by (simp_all add: einv_def elog_def fun_eq_iff)
  obtain cur where cur: "world_status X (en_storage en) w = Inr cur" by (simp add: world_status_def)
  show ?thesis
  proof (cases "cur = Some status")
    case True
    then have "manage_world X clk act en = (Inr (), ?en1)"
      using g' cur act by (simp add: manage_world_def on_gate_def)
    then show ?thesis using e1 cur True by simp
  next
    case False
    let ?now = "now_timestamp (ee_time X) (oc_utc clk 0)"
    let ?a = "world_meta_atom X (''atom-'' @ dec_text (en_id_gen en)) ?now act"
    let ?en2 = "?en1\<lparr>en_id_gen := (en_id_gen en + 1) mod 2 ^ 64\<rparr>"
    have e2: "einv ?en2" "elog ?en2 = elog en" "en_storage ?en2 = en_storage en"
      using assms(1) by (simp_all add: einv_def elog_def fun_eq_iff)
    have aw: "a_world ?a = w" using act by (simp add: world_meta_atom_fields)
    have acc: "accepts ?en2 ?a" by (simp add: accepts_def world_meta_atom_fields)
    obtain r en' where c: "commit_atom X ?a ?en2 = (r, en')" "commits ?a ?en2 en'"
      "r = Inr () \<longleftrightarrow> accepts ?en2 ?a \<and> is_ok (parse_ts (ee_time X) (a_timestamp ?a))"
      using commit_atom_effect [OF e2(1), of ?a] aw assms(4,5) e2(3) by auto
    have r: "r = Inr ()" using c(3) acc now by (simp add: world_meta_atom_fields)
    have log': "elog en' w' = (if w' = w then log_put ?a (elog en w) else elog en w')" if "okw w'" for w'
      using c(2) acc that aw unfolding commits_def e2 by simp
    have st: "status_of_labels (a_labels ?a) = Some status" using act by (simp add: world_meta_status)
    have ts: "ts_or_epoch (ee_time X) ?a = t" using now by (simp add: ts_or_epoch_def world_meta_atom_fields)
    have meta: "''world_meta'' \<in> set (a_labels ?a)" by (simp add: world_meta_atom_fields)
    have "latest_status (ee_time X) None
        (filter (\<lambda>a. ''world_meta'' \<in> set (a_labels a)) (log_put ?a (elog en w))) = Some (t, status)"
    proof (rule latest_status_newest)
      have old: "ts_or_epoch (ee_time X) b < t" if "b \<in> set (log_put ?a (elog en w))" "b \<noteq> ?a"
        "''world_meta'' \<in> set (a_labels b)" "status_of_labels (a_labels b) \<noteq> None" for b
        using later that set_log_put [of ?a "elog en w"] by blast
      show "\<forall>b \<in> set (filter (\<lambda>a. ''world_meta'' \<in> set (a_labels a)) (log_put ?a (elog en w))).
          status_of_labels (a_labels b) \<noteq> None \<longrightarrow>
          ts_or_epoch (ee_time X) b < t \<or> ts_or_epoch (ee_time X) b = t \<and> status_of_labels (a_labels b) = Some status"
      proof (intro ballI impI)
        fix b assume "b \<in> set (filter (\<lambda>a. ''world_meta'' \<in> set (a_labels a)) (log_put ?a (elog en w)))"
          "status_of_labels (a_labels b) \<noteq> None"
        then show "ts_or_epoch (ee_time X) b < t
            \<or> ts_or_epoch (ee_time X) b = t \<and> status_of_labels (a_labels b) = Some status"
          using old [of b] st ts by (cases "b = ?a") simp_all
      qed
      show "None = Some (t, status) \<or>
          (\<exists>a \<in> set (filter (\<lambda>a. ''world_meta'' \<in> set (a_labels a)) (log_put ?a (elog en w))).
             status_of_labels (a_labels a) = Some status \<and> ts_or_epoch (ee_time X) a = t)"
        using st ts meta by (intro disjI2 bexI [of _ ?a]) simp_all
    qed simp
    then have "world_status X (en_storage en') w = Inr (Some status)"
      using world_status_log [of en' w] c(2) assms(4) log' by (simp add: commits_def)
    moreover have "manage_world X clk act en = (Inr (), en')"
      using g' cur False act c(1) r by (simp add: manage_world_def on_gate_def new_id_def Let_def)
    ultimately show ?thesis using c(2) log' by (auto simp: commits_def)
  qed
qed

end

text \<open>Any outcome of a world action: at most the log of its world grows.\<close>

context engine_contract
begin

lemma manage_world_log:
  fixes act en
  defines "w \<equiv> fst (action_parts act)"
  assumes "einv en" "okw w" "room (en_storage en) w 1"
  shows "\<exists>r en'. manage_world X clk act en = (r, en') \<and> einv en'
    \<and> en_id_gen en' \<in> {en_id_gen en, (en_id_gen en + 1) mod 2 ^ 64}
    \<and> (\<forall>w'. okw w' \<longrightarrow> elog en' w' = elog en w'
         \<or> en_id_gen en' = (en_id_gen en + 1) mod 2 ^ 64 \<and> w' = w
           \<and> (\<exists>now. elog en' w' = log_put (world_meta_atom X (''atom-'' @ dec_text (en_id_gen en)) now act) (elog en w')))"
proof -
  obtain rg g' where g': "ga_action (ee_gate X) act (en_gate en) = (rg, g')" by fastforce
  let ?en1 = "en\<lparr>en_gate := g'\<rparr>"
  have e1: "einv ?en1" "elog ?en1 = elog en" "en_id_gen ?en1 = en_id_gen en" "en_storage ?en1 = en_storage en"
    using assms(2) by (simp_all add: einv_def elog_def fun_eq_iff)
  obtain cur where cur: "world_status X (en_storage en) w = Inr cur" by (simp add: world_status_def)
  obtain status desc labels where act: "action_parts act = (w, status, desc, labels)"
    unfolding w_def by (cases "action_parts act") auto
  show ?thesis
  proof (cases "rg = Inr () \<and> \<not> (cur = Some status \<and> desc = None \<and> labels = [])")
    case False
    then have "\<exists>r. manage_world X clk act en = (r, ?en1)"
      using g' cur act by (cases rg) (auto simp: manage_world_def on_gate_def)
    then show ?thesis using e1 by auto
  next
    case True
    let ?now = "now_timestamp (ee_time X) (oc_utc clk 0)"
    let ?a = "world_meta_atom X (''atom-'' @ dec_text (en_id_gen en)) ?now act"
    let ?en2 = "?en1\<lparr>en_id_gen := (en_id_gen en + 1) mod 2 ^ 64\<rparr>"
    have e2: "einv ?en2" "elog ?en2 = elog en" "en_storage ?en2 = en_storage en"
      using assms(2) by (simp_all add: einv_def elog_def fun_eq_iff)
    have aw: "a_world ?a = w" by (simp add: world_meta_atom_fields w_def)
    have acc: "accepts ?en2 ?a" by (simp add: accepts_def world_meta_atom_fields)
    have "okw (a_world ?a)" "room (en_storage ?en2) (a_world ?a) 1"
      unfolding aw e2(3) by (rule assms(3), rule assms(4))
    then obtain r en' where c: "commit_atom X ?a ?en2 = (r, en')" "commits ?a ?en2 en'"
      and "r = Inr () \<longleftrightarrow> accepts ?en2 ?a \<and> is_ok (parse_ts (ee_time X) (a_timestamp ?a))"
      by (rule commit_atom_effect [OF e2(1)])
    have "manage_world X clk act en = (r, en')"
      using g' cur True act c(1) by (auto simp: manage_world_def on_gate_def new_id_def Let_def)
    moreover have "einv en'" "en_id_gen en' = (en_id_gen en + 1) mod 2 ^ 64"
      using c(2) by (simp_all add: commits_def)
    moreover have "elog en' w' = (if w' = w then log_put ?a (elog en w) else elog en w')" if "okw w'" for w'
      using c(2) acc that aw unfolding commits_def e2 by simp
    ultimately show ?thesis
      by (intro exI [of _ r] exI [of _ en'] conjI allI impI) (simp_all, blast)
  qed
qed

text \<open>Asking changes neither a log nor the counter.\<close>

lemma ask_keeps:
  assumes "einv en" "engine_ask X clk q en = (r, en')"
  shows "einv en' \<and> en_storage en' = en_storage en \<and> en_id_gen en' = en_id_gen en"
proof -
  obtain rg g' where g': "ga_ask (ee_gate X) q (en_gate en) = (rg, g')" by fastforce
  have e1: "einv (en\<lparr>en_gate := g'\<rparr>)" using assms(1) by (simp add: einv_def)
  show ?thesis
  proof (cases rg)
    case (Inl e)
    then show ?thesis using assms g' e1 by (auto simp: engine_ask_def on_gate_def)
  next
    case (Inr u)
    have ens: "einv (ensure_index_entry X t w (en\<lparr>en_gate := g'\<rparr>))" for t w
      using e1 by (simp add: ensure_fields)
    show ?thesis
      using assms(2) g' Inr rebuild_fields [OF ens] e1
      by (auto simp: engine_ask_def on_gate_def ensure_fields Let_def split: sum.splits)
  qed
qed

lemma observe_keeps:
  "einv en \<Longrightarrow> engine_observe X a en = (r, en') \<Longrightarrow>
   einv en' \<and> en_storage en' = en_storage en \<and> en_id_gen en' = en_id_gen en"
  using publish_law [of "en_stream en" a] by (auto simp: engine_observe_def on_stream_def einv_def)

end

end
