(* ===== verification/Gc_Laws.thy ===== *)
theory Gc_Laws
  imports Contracts
begin

text \<open>
  Garbage collection and world status over any components that keep the contracts. A pass over a
  world deletes exactly its victims; since policy atoms are never victims, no world's policy
  changes during a run, so the order in which the worlds are visited does not matter.
\<close>

section \<open>Victims\<close>

definition gc_victim ::
  "('s, 'v, 't, 'g) engine_env \<Rightarrow> gc_policy \<Rightarrow> atom list \<Rightarrow> atom \<Rightarrow> bool" where
  "gc_victim X p as a \<longleftrightarrow> \<not> gc_exempt (referenced_ids as) a
     \<and> (atom_expired X p (gc_now (ee_time X) 0 as) a = Some True \<or> low_importance p a)"

definition no_panic :: "('s, 'v, 't, 'g) engine_env \<Rightarrow> gc_policy \<Rightarrow> bool" where
  "no_panic X p \<longleftrightarrow> (\<forall>d. gp_retention_days p = Some d \<longrightarrow> d \<noteq> 0 \<longrightarrow> ee_days X (days_i64 d) \<noteq> None)"

lemma atom_expired_Some: "no_panic X p \<Longrightarrow> \<exists>b. atom_expired X p now a = Some b"
  by (auto simp: atom_expired_def no_panic_def split: option.split sum.split)

lemma doomed_ids_filter:
  assumes "no_panic X p"
  shows "doomed_ids X p now refd as = Some (map a_id (filter (\<lambda>a. \<not> gc_exempt refd a
    \<and> (atom_expired X p now a = Some True \<or> low_importance p a)) as))"
proof (induction as)
  case (Cons a as)
  obtain b where "atom_expired X p now a = Some b" using atom_expired_Some [OF assms] by blast
  then show ?case using Cons by simp
qed simp

lemma parsed_times_set: "set (parsed_times api as) = {t. \<exists>a \<in> set as. parse_ts api (a_timestamp a) = Inr t}"
  by (induction as) (auto split: sum.splits)

lemma gc_now_Max:
  "gc_now api c as = (if parsed_times api as = [] then c else Max (set (parsed_times api as)))"
  by (cases "parsed_times api as") (simp_all add: gc_now_def del: list.set flip: Max.set_eq_fold)

lemma gc_now_cong: "set as = set bs \<Longrightarrow> gc_now api c as = gc_now api c bs"
proof -
  assume "set as = set bs"
  then have "set (parsed_times api as) = set (parsed_times api bs)" by (simp add: parsed_times_set)
  then show ?thesis unfolding gc_now_Max by (metis set_empty)
qed

text \<open>The clock only matters in a world without a timestamp that parses, where nothing expires.\<close>

lemma expired_clock:
  assumes "a \<in> set as"
  shows "atom_expired X p (gc_now (ee_time X) c as) a = atom_expired X p (gc_now (ee_time X) 0 as) a"
proof (cases "parse_ts (ee_time X) (a_timestamp a)")
  case (Inr t)
  then have "parsed_times (ee_time X) as \<noteq> []" using parsed_times_set [of "ee_time X" as] assms by auto
  then show ?thesis by (simp add: gc_now_Max)
qed (simp add: atom_expired_def split: option.split)

lemma doomed_ids_victims:
  assumes "no_panic X p"
  shows "doomed_ids X p (gc_now (ee_time X) c (sort_key f as)) (referenced_ids as) (sort_key f as)
    = Some (map a_id (filter (gc_victim X p as) (sort_key f as)))"
proof -
  have "filter (\<lambda>a. \<not> gc_exempt (referenced_ids as) a
      \<and> (atom_expired X p (gc_now (ee_time X) c (sort_key f as)) a = Some True \<or> low_importance p a)) (sort_key f as)
    = filter (gc_victim X p as) (sort_key f as)"
  proof (rule filter_cong [OF refl])
    fix a assume "a \<in> set (sort_key f as)"
    then have "atom_expired X p (gc_now (ee_time X) c as) a = atom_expired X p (gc_now (ee_time X) 0 as) a"
      by (intro expired_clock) simp
    moreover have "gc_now (ee_time X) c (sort_key f as) = gc_now (ee_time X) c as"
      by (rule gc_now_cong) simp
    ultimately show "(\<not> gc_exempt (referenced_ids as) a
      \<and> (atom_expired X p (gc_now (ee_time X) c (sort_key f as)) a = Some True \<or> low_importance p a))
      = gc_victim X p as a"
      by (simp add: gc_victim_def)
  qed
  then show ?thesis using doomed_ids_filter [OF assms] by simp
qed

section \<open>Policies\<close>

lemma policy_label_other:
  assumes "\<not> starts_with l ''policy:''"
  shows "policy_label l acc = acc"
proof -
  have "strip_prefix (''policy:'' @ p) l = None" for p
    using assms by (cases "strip_prefix (''policy:'' @ p) l") (auto simp: str_simps starts_with_def)
  from this [of "''retention_days=''"] this [of "''retention_min_days=''"] this [of "''min_importance=''"]
    this [of "''replication_allow=''"] this [of "''replication_deny=''"]
  show ?thesis by (cases acc) (simp add: policy_label_def)
qed

lemma fold_policy_other:
  "(\<forall>l \<in> set ls. \<not> starts_with l ''policy:'') \<Longrightarrow> fold policy_label ls acc = acc"
  by (induction ls) (simp_all add: policy_label_other)

lemma fold_policy_filter:
  "(\<And>a. a \<in> set as \<Longrightarrow> \<not> P a \<Longrightarrow> \<not> is_policy_atom a) \<Longrightarrow>
   fold policy_label (concat (map a_labels (filter P as))) acc = fold policy_label (concat (map a_labels as)) acc"
proof (induction as arbitrary: acc)
  case (Cons a as)
  have "fold policy_label (a_labels a) acc = acc" if "\<not> P a"
    using Cons.prems [of a] that by (intro fold_policy_other) (auto simp: is_policy_atom_def)
  then show ?case using Cons by simp
qed simp

lemma policy_of_filter:
  assumes "\<And>a. a \<in> set as \<Longrightarrow> \<not> P a \<Longrightarrow> \<not> is_policy_atom a" "\<And>b. b \<in> set bs \<Longrightarrow> \<not> Q b \<Longrightarrow> \<not> is_policy_atom b"
  shows "policy_of_atoms (filter P as @ filter Q bs) = policy_of_atoms (as @ bs)"
  using fold_policy_filter [of as P] fold_policy_filter [of bs Q] assms by (simp add: policy_of_atoms_def)

section \<open>Runs\<close>

text \<open>Worlds whose policy worlds are covered too; tenant policies play no part among them.\<close>

locale gc_contract = engine_contract X inv okw room log known vinv fits tinv
  for X :: "('s, 'v, 't, 'g) engine_env" and inv okw room log known vinv fits tinv +
  assumes policy_okw: "okw w \<Longrightarrow> okw (''policy:'' @ w)"
    and no_tenant_policy: "okw w \<Longrightarrow> tenant_policy_world w = None"
begin

definition epolicy :: "('s, 'v, 't, 'g) engine \<Rightarrow> world_key \<Rightarrow> gc_policy" where
  "epolicy en w = policy_of_atoms (elog en w @ elog en (''policy:'' @ w))"

definition evictim :: "('s, 'v, 't, 'g) engine \<Rightarrow> world_key \<Rightarrow> atom \<Rightarrow> bool" where
  "evictim en w = gc_victim X (epolicy en w) (elog en w)"

lemma parse_policy_elog:
  assumes "einv en" "okw w"
  shows "parse_policy X (en_storage en) (elog en w) w = epolicy en w"
proof -
  have inv: "inv (en_storage en)" using assms(1) by (simp add: einv_def)
  have "filter (\<lambda>a. a_world a = w) (elog en w) = elog en w"
    using log_world [OF inv assms(2)] by (auto simp: elog_def filter_id_conv)
  then show ?thesis
    using scan_law [OF inv policy_okw [OF assms(2)], of default_filter] no_tenant_policy [OF assms(2)]
    by (simp add: parse_policy_def ok_or_empty_def epolicy_def elog_def)
qed

lemma gc_world_effect:
  assumes "einv en" "okw w" "no_panic X (epolicy en w)"
  shows "\<exists>en'. gc_world X c w en = (Some (Inr (length (filter (evictim en w) (elog en w)))), en') \<and> einv en'
    \<and> (\<forall>w'. okw w' \<longrightarrow> elog en' w' = (if w' = w then filter (\<lambda>a. \<not> evictim en w a) (elog en w) else elog en w'))"
proof -
  have inv: "inv (en_storage en)" using assms(1) by (simp add: einv_def)
  have scan: "st_scan (ee_storage X) (en_storage en) w default_filter = Inr (elog en w)"
    using scan_law [OF inv assms(2), of default_filter] by (simp add: elog_def)
  let ?ids = "map a_id (filter (evictim en w) (sort_key (ts_or_epoch (ee_time X)) (elog en w)))"
  have doomed: "doomed_ids X (parse_policy X (en_storage en) (elog en w) w)
      (gc_now (ee_time X) c (sort_key (ts_or_epoch (ee_time X)) (elog en w)))
      (referenced_ids (elog en w)) (sort_key (ts_or_epoch (ee_time X)) (elog en w)) = Some ?ids"
    using doomed_ids_victims [OF assms(3)] parse_policy_elog [OF assms(1,2)] by (simp add: evictim_def)
  have ids: "a_id a \<in> set ?ids \<longleftrightarrow> evictim en w a" if "a \<in> set (elog en w)" for a
    using that log_functional [OF inv assms(2)] by (auto simp: elog_def image_iff)
  have "filter (\<lambda>a. a_id a \<in> set ?ids) (elog en w) = filter (evictim en w) (elog en w)"
    "filter (\<lambda>a. a_id a \<notin> set ?ids) (elog en w) = filter (\<lambda>a. \<not> evictim en w a) (elog en w)"
    using ids by (intro filter_cong; simp)+
  then obtain s' where s': "st_delete (ee_storage X) w ?ids (en_storage en)
      = (Inr (length (filter (evictim en w) (elog en w))), s')" "inv s'"
    "\<forall>w'. okw w' \<longrightarrow> log s' w' = (if w' = w then filter (\<lambda>a. \<not> evictim en w a) (elog en w) else elog en w')"
    using delete_law [OF inv assms(2), of ?ids] by (auto simp: elog_def)
  show ?thesis
  proof (cases "?ids = []")
    case True
    then have none: "\<forall>a \<in> set (elog en w). \<not> evictim en w a" by (simp add: filter_empty_conv)
    have "gc_world X c w en = (Some (Inr 0), en)"
      using doomed True by (simp add: gc_world_def scan Let_def)
    moreover have "filter (evictim en w) (elog en w) = []" "filter (\<lambda>a. \<not> evictim en w a) (elog en w) = elog en w"
      using none by (auto simp: filter_empty_conv filter_id_conv)
    ultimately show ?thesis using assms(1) by auto
  next
    case False
    then obtain i rest where i: "?ids = i # rest" by (cases ?ids) auto
    have "gc_world X c w en = (Some (Inr (length (filter (evictim en w) (elog en w)))), en\<lparr>en_storage := s'\<rparr>)"
      using doomed s'(1) unfolding i by (simp add: gc_world_def scan Let_def on_storage_def)
    then show ?thesis using s'(2,3) assms(1) by (auto simp: einv_def elog_def)
  qed
qed

text \<open>The worlds of \<open>D\<close> have been visited.\<close>

definition collected :: "('s, 'v, 't, 'g) engine \<Rightarrow> world_key set \<Rightarrow> ('s, 'v, 't, 'g) engine \<Rightarrow> bool" where
  "collected en0 D en \<longleftrightarrow> (\<forall>w. okw w \<longrightarrow>
     elog en w = (if w \<in> D then filter (\<lambda>a. \<not> evictim en0 w a) (elog en0 w) else elog en0 w))"

lemma victim_no_policy: "evictim en w a \<Longrightarrow> \<not> is_policy_atom a"
  by (simp add: evictim_def gc_victim_def gc_exempt_def)

lemma collected_policy:
  assumes "collected en0 D en" "okw w" "w \<notin> D"
  shows "epolicy en w = epolicy en0 w"
proof -
  have own: "elog en w = filter (\<lambda>_. True) (elog en0 w)"
    using assms by (simp add: collected_def)
  have pol: "elog en (''policy:'' @ w) =
      filter (\<lambda>a. ''policy:'' @ w \<in> D \<longrightarrow> \<not> evictim en0 (''policy:'' @ w) a) (elog en0 (''policy:'' @ w))"
    using assms(1) policy_okw [OF assms(2)] by (simp add: collected_def)
  show ?thesis
    unfolding epolicy_def own pol by (rule policy_of_filter) (auto dest: victim_no_policy)
qed

lemma collected_victims:
  "collected en0 D en \<Longrightarrow> okw w \<Longrightarrow> w \<notin> D \<Longrightarrow> evictim en w = evictim en0 w \<and> elog en w = elog en0 w"
  using collected_policy by (simp add: evictim_def) (simp add: collected_def)

lemma gc_worlds_effect:
  assumes "\<forall>w. okw w \<longrightarrow> no_panic X (epolicy en0 w)"
  shows "einv en \<Longrightarrow> collected en0 D en \<Longrightarrow> distinct ws \<Longrightarrow> set ws \<inter> D = {} \<Longrightarrow> \<forall>w \<in> set ws. okw w \<Longrightarrow>
    \<exists>en'. gc_worlds X utc k ws n en =
        (Some (Inr (n + (\<Sum>w\<leftarrow>ws. length (filter (evictim en0 w) (elog en0 w))))), en')
      \<and> einv en' \<and> collected en0 (D \<union> set ws) en'"
proof (induction ws arbitrary: en D k n)
  case (Cons w ws)
  have w: "okw w" "w \<notin> D" "w \<notin> set ws" using Cons.prems by auto
  note same = collected_victims [OF Cons.prems(2) w(1,2)]
  have "no_panic X (epolicy en w)" using assms w collected_policy [OF Cons.prems(2) w(1,2)] by simp
  then obtain en1 where en1: "gc_world X (utc k) w en =
      (Some (Inr (length (filter (evictim en0 w) (elog en0 w)))), en1)" "einv en1"
    "\<forall>w'. okw w' \<longrightarrow> elog en1 w' = (if w' = w then filter (\<lambda>a. \<not> evictim en0 w a) (elog en0 w) else elog en w')"
    using gc_world_effect [OF Cons.prems(1) w(1), of "utc k"] unfolding same [THEN conjunct1] same [THEN conjunct2] by blast
  have c1: "collected en0 (insert w D) en1"
    using Cons.prems(2) en1(3) by (simp add: collected_def)
  have rest: "distinct ws" "set ws \<inter> insert w D = {}" "\<forall>w \<in> set ws. okw w"
    using Cons.prems(3,4,5) w(3) by auto
  let ?m = "n + length (filter (evictim en0 w) (elog en0 w))"
  obtain en' where "gc_worlds X utc (k + 1) ws ?m en1 =
      (Some (Inr (?m + (\<Sum>w\<leftarrow>ws. length (filter (evictim en0 w) (elog en0 w))))), en')"
    "einv en'" "collected en0 (insert w D \<union> set ws) en'"
    using Cons.IH [OF en1(2) c1 rest, of "k + 1" ?m] by (elim exE conjE)
  then show ?case using en1(1) by (intro exI [of _ en']) (simp add: add.assoc)
qed simp

lemma gc_once_effect:
  assumes "einv en" "\<forall>w. okw w \<longrightarrow> no_panic X (epolicy en w)"
  shows "\<exists>n en'. gc_once X utc en = (Some (Inr n), en') \<and> einv en'
    \<and> (\<forall>w. okw w \<longrightarrow> elog en' w = filter (\<lambda>a. \<not> evictim en w a) (elog en w))"
proof -
  have inv: "inv (en_storage en)" using assms(1) by (simp add: einv_def)
  obtain ws where ws: "st_worlds (ee_storage X) (en_storage en) = Inr ws" "distinct ws" "\<forall>w \<in> set ws. okw w"
    "\<forall>w. okw w \<longrightarrow> log (en_storage en) w \<noteq> [] \<longrightarrow> w \<in> set ws"
    using worlds_law [OF inv] by blast
  have "collected en {} en" by (simp add: collected_def)
  then obtain en' where en': "gc_worlds X utc 0 ws 0 en =
      (Some (Inr (0 + (\<Sum>w\<leftarrow>ws. length (filter (evictim en w) (elog en w))))), en')"
    "einv en'" "collected en ({} \<union> set ws) en'"
    using gc_worlds_effect [OF assms(2,1), of "{}" ws utc 0 0] ws(2,3) by auto
  have "elog en' w = filter (\<lambda>a. \<not> evictim en w a) (elog en w)" if "okw w" for w
    using en'(3) ws(4) that by (auto simp: collected_def elog_def)
  then show ?thesis using en'(1,2) ws(1) by (auto simp: gc_once_def)
qed

end

end
