(* ===== verification/Sled_Instance.thy ===== *)
theory Sled_Instance
  imports Sled_Log
begin

text \<open>
  A concrete environment for the sled store, on which the properties are exercised: the tree is an
  association list read through its sorted, duplicate-free form, the codecs write escaped fields,
  the checksum adds up the bytes and the cipher prefixes key and nonce. It satisfies
  \<open>sled_env_ok\<close>, so the hypotheses of the store's theorems can hold.
\<close>

section \<open>The tree\<close>

type_synonym alist_db = "(string \<times> string) list"

definition canon :: "alist_db \<Rightarrow> alist_db" where
  "canon d = sort_key fst (AList.clearjunk d)"

definition alist_scan :: "alist_db \<Rightarrow> string \<Rightarrow> (string, string \<times> string) result list" where
  "alist_scan d p = map Inr (filter (\<lambda>e. starts_with (fst e) p) (canon d))"

lemma distinct_canon: "distinct (map fst (canon d))"
  by (simp add: canon_def distinct_map inj_on_def)
    (metis distinct_clearjunk distinct_map inj_onD prod.collapse)

lemma sorted_canon: "sorted_wrt (<) (map fst (canon d))"
  using distinct_canon [of d] by (simp add: strict_sorted_iff canon_def)

lemma map_of_canon: "map_of (canon d) = map_of d"
proof
  fix k
  have "map_of (canon d) k = Some v \<longleftrightarrow> map_of (AList.clearjunk d) k = Some v" for v
    using distinct_canon [of d] distinct_clearjunk [of d] by (simp add: canon_def)
  then have "map_of (canon d) k = map_of (AList.clearjunk d) k" by (metis option.exhaust)
  then show "map_of (canon d) k = map_of d k" by (simp add: map_of_clearjunk)
qed

section \<open>The codec\<close>

definition put_text :: "string \<Rightarrow> string" where
  "put_text s = concat (map (\<lambda>c. [CHR ''.'', c]) s) @ '';''"

definition put_group :: "string list \<Rightarrow> string" where
  "put_group ss = concat (map put_text ss) @ ''|''"

definition put_groups :: "string list list \<Rightarrow> string" where
  "put_groups gs = concat (map put_group gs)"

fun get_groups :: "string \<Rightarrow> string list \<Rightarrow> string list list \<Rightarrow> string \<Rightarrow> string list list option" where
  "get_groups t g gs [] = Some gs"
| "get_groups t g gs [c] = (if c = CHR ''|'' then Some (gs @ [g]) else None)"
| "get_groups t g gs (c # d # r) =
     (if c = CHR ''.'' then get_groups (t @ [d]) g gs r
      else if c = CHR '';'' then get_groups [] (g @ [t]) gs (d # r)
      else if c = CHR ''|'' then get_groups [] [] (gs @ [g]) (d # r)
      else None)"

lemma get_semi: "r \<noteq> [] \<Longrightarrow> get_groups t g gs (CHR '';'' # r) = get_groups [] (g @ [t]) gs r"
  by (cases r) simp_all

lemma get_bar: "get_groups [] g gs (CHR ''|'' # r) = get_groups [] [] (gs @ [g]) r"
  by (cases r) simp_all

lemma get_text: "r \<noteq> [] \<Longrightarrow> get_groups t g gs (put_text s @ r) = get_groups [] (g @ [t @ s]) gs r"
proof (induction s arbitrary: t)
  case Nil
  then show ?case by (simp add: put_text_def get_semi)
next
  case (Cons c s)
  then show ?case using Cons.IH [of "t @ [c]"] by (simp add: put_text_def)
qed

lemma get_group: "get_groups [] g gs (put_group ss @ r) = get_groups [] [] (gs @ [g @ ss]) r"
proof (induction ss arbitrary: g)
  case Nil
  then show ?case by (simp add: put_group_def get_bar)
next
  case (Cons s ss)
  then show ?case using Cons.IH [of "g @ [s]"] by (simp add: put_group_def get_text)
qed

lemma get_put_groups: "get_groups [] [] [] (put_groups gs) = Some gs"
proof -
  have "get_groups [] [] hs (put_groups gs) = Some (hs @ gs)" for hs
  proof (induction gs arbitrary: hs)
    case (Cons g gs)
    then show ?case using Cons.IH [of "hs @ [g]"] by (simp add: put_groups_def get_group)
  qed (simp add: put_groups_def)
  then show ?thesis by simp
qed

definition word_text :: "'a::len word \<Rightarrow> string" where
  "word_text x = dec_text (unat x)"

definition text_nat :: "string \<Rightarrow> nat" where
  "text_nat s = (case digits_val 0 s of None \<Rightarrow> 0 | Some n \<Rightarrow> n)"

lemma text_nat_dec_text [simp]: "text_nat (dec_text n) = n"
  by (simp add: text_nat_def digits_val_dec_text_gen)

lemma text_word [simp]: "word_of_nat (text_nat (word_text x)) = x"
  by (simp add: word_text_def)

fun kind_text :: "atom_kind \<Rightarrow> string" where
  "kind_text Observation = ''o''" | "kind_text Reflection = ''r''" | "kind_text Plan = ''p''"
| "kind_text Action = ''a''" | "kind_text Message = ''m''"

definition text_kind :: "string \<Rightarrow> atom_kind" where
  "text_kind s = (if s = ''o'' then Observation else if s = ''r'' then Reflection
     else if s = ''p'' then Plan else if s = ''a'' then Action else Message)"

fun link_kind_text :: "link_kind \<Rightarrow> string" where
  "link_kind_text Supersedes = ''s''" | "link_kind_text References = ''r''"
| "link_kind_text Confirms = ''c''" | "link_kind_text Contradicts = ''x''"

definition text_link_kind :: "string \<Rightarrow> link_kind" where
  "text_link_kind s = (if s = ''s'' then Supersedes else if s = ''r'' then References
     else if s = ''c'' then Confirms else Contradicts)"

lemma text_kinds [simp]: "text_kind (kind_text k) = k" "text_link_kind (link_kind_text l) = l"
  by (cases k; simp add: text_kind_def) (cases l; simp add: text_link_kind_def)

definition atom_groups :: "atom \<Rightarrow> string list list" where
  "atom_groups a =
     [[a_id a, a_world a, a_worker a, kind_text (a_kind a), a_timestamp a,
       word_text (imp_get (a_importance a)), a_payload_json a],
      (case a_vector a of None \<Rightarrow> [] | Some v \<Rightarrow> ''v'' # map word_text v),
      a_flags a, a_labels a, map l_target (a_links a), map (link_kind_text \<circ> l_kind) (a_links a)]"

definition groups_atom :: "string list list \<Rightarrow> atom option" where
  "groups_atom gs =
     (case gs of
        [[i, w, wk, k, ts, imp, pl], v, fls, lbs, ts', ks] \<Rightarrow>
          Some \<lparr>a_id = i, a_world = w, a_worker = wk, a_kind = text_kind k, a_timestamp = ts,
            a_importance = Importance (word_of_nat (text_nat imp)), a_payload_json = pl,
            a_vector = (case v of [] \<Rightarrow> None | _ # xs \<Rightarrow> Some (map (\<lambda>x. word_of_nat (text_nat x)) xs)),
            a_flags = fls, a_labels = lbs,
            a_links = map2 (\<lambda>t k. \<lparr>l_target = t, l_kind = text_link_kind k\<rparr>) ts' ks\<rparr>
      | _ \<Rightarrow> None)"

lemma map2_same: "map2 (\<lambda>t k. \<lparr>l_target = t, l_kind = text_link_kind k\<rparr>) (map l_target ls)
    (map (\<lambda>x. link_kind_text (l_kind x)) ls) = ls"
  by (induction ls) auto

lemma groups_atom_groups: "groups_atom (atom_groups a) = Some a"
  by (cases a; cases "a_vector a"; cases "a_importance a")
    (auto simp: groups_atom_def atom_groups_def map2_same comp_def intro!: map_idI)

definition or_bad :: "'a option \<Rightarrow> (string, 'a) result" where
  "or_bad r = (case r of None \<Rightarrow> Inl ''invalid data'' | Some x \<Rightarrow> Inr x)"

definition alist_env :: "alist_db sled_env" where
  "alist_env =
     \<lparr>sl_get = (\<lambda>d k. Inr (map_of d k)),
      sl_insert = (\<lambda>k v d. (Inr (), (k, v) # d)),
      sl_remove = (\<lambda>k d. (Inr (), AList.delete k d)),
      sl_scan = alist_scan,
      sl_flush = (\<lambda>d. (Inr (), d)),
      enc_atom = (\<lambda>a. Inr (put_groups (atom_groups a))),
      dec_atom = (\<lambda>s. or_bad (Option.bind (get_groups [] [] [] s) groups_atom)),
      enc_frame = (\<lambda>f. Inr (put_groups [[lf_atom_id f, word_text (lf_checksum f), dec_text (lf_len f)]])),
      dec_frame = (\<lambda>s. or_bad (case get_groups [] [] [] s of
          Some [[i, c, l]] \<Rightarrow> Some \<lparr>lf_atom_id = i, lf_checksum = word_of_nat (text_nat c), lf_len = text_nat l\<rparr>
        | _ \<Rightarrow> None)),
      enc_index = (\<lambda>x. Inr (put_groups [[ie_world x, dec_text (ie_seq x)]])),
      dec_index = (\<lambda>s. or_bad (case get_groups [] [] [] s of
          Some [[w, n]] \<Rightarrow> Some \<lparr>ie_world = w, ie_seq = text_nat n\<rparr> | _ \<Rightarrow> None)),
      enc_blob = (\<lambda>b. Inr (put_groups [[eb_key_id b, eb_nonce b, eb_cipher b]])),
      dec_blob = (\<lambda>s. or_bad (case get_groups [] [] [] s of
          Some [[i, n, c]] \<Rightarrow> Some \<lparr>eb_key_id = i, eb_nonce = n, eb_cipher = c\<rparr> | _ \<Rightarrow> None)),
      crc32 = (\<lambda>s. word_of_nat (sum_list (map of_char s))),
      sha256 = (\<lambda>s. take 32 (s @ replicate 32 (CHR ''0''))),
      aes_encrypt = (\<lambda>k n p. Inr (k @ n @ p)),
      aes_decrypt = (\<lambda>k n c. or_bad (strip_prefix (k @ n) c)),
      os_nonce = (\<lambda>d p. replicate 12 (CHR ''0''))\<rparr>"

lemma alist_entries: "entries alist_env d = canon d"
proof -
  have "concat (map (\<lambda>r. case r of Inl (_::string) \<Rightarrow> [] | Inr e \<Rightarrow> [e]) (map Inr xs)) = xs"
    for xs :: alist_db
    by (induction xs) auto
  then show ?thesis by (simp add: entries_def alist_env_def alist_scan_def)
qed

lemma put_groups_magic: "\<not> starts_with (put_groups (atom_groups a)) ENC_MAGIC"
  by (cases "a_id a") (simp_all add: put_groups_def put_group_def put_text_def atom_groups_def ENC_MAGIC_def)

lemma alist_env_ok: "sled_env_ok alist_env"
proof -
  have "map_of (AList.delete k d) = (map_of d)(k := None)" for k and d :: alist_db
    by (simp add: delete_conv')
  then have "tree_ok alist_env"
    unfolding tree_ok_def alist_entries
    by (simp add: sorted_canon map_of_canon) (simp add: alist_env_def alist_scan_def map_of_canon alist_entries)
  moreover have "strip_prefix (k @ n) (k @ n @ p) = Some p" for k n p :: string
    by (simp add: strip_prefix_Some)
  then have "codecs_ok alist_env"
    unfolding codecs_ok_def
    by (simp add: alist_env_def get_put_groups groups_atom_groups or_bad_def put_groups_magic)
  ultimately show ?thesis by (simp add: sled_env_ok_def)
qed

definition plain_store :: "alist_db \<Rightarrow> alist_db sled_storage" where
  "plain_store d =
     \<lparr>ss_db = d, ss_flush_on_write = True, ss_encryption_enabled = False, ss_key_id = None,
      ss_key_provider = dummy_key_bytes Map.empty\<rparr>"

definition sample_atom :: "atom_id \<Rightarrow> world_key \<Rightarrow> string \<Rightarrow> atom" where
  "sample_atom i w p =
     \<lparr>a_id = i, a_world = w, a_worker = ''w1'', a_kind = Observation,
      a_timestamp = ''2024-01-01T00:00:00Z'', a_importance = Importance f32_one,
      a_payload_json = p, a_vector = None, a_flags = [], a_labels = [''k''], a_links = []\<rparr>"

lemma sample_atom_fields [simp]:
  "a_id (sample_atom i w p) = i" "a_world (sample_atom i w p) = w"
  by (simp_all add: sample_atom_def)

lemma kv_alist: "kv alist_env st = map_of (ss_db st)"
  by (simp add: kv_def alist_entries map_of_canon)

lemma empty_store_kv [simp]: "kv alist_env (plain_store []) = Map.empty"
  by (simp add: kv_alist plain_store_def)

lemma empty_store_ok: "store_ok alist_env (plain_store [])"
  by (simp add: store_ok_def) (simp add: keys_ok_def plain_store_def)

lemma empty_store_items [simp]: "log_items alist_env (plain_store []) w = []"
  by (simp add: log_items_def alist_entries canon_def plain_store_def)

lemma empty_store_log [simp]:
  "log_atoms alist_env (plain_store []) w = []" "log_end alist_env (plain_store []) w = 0"
  by (simp_all add: log_atoms_items log_end_def)

text \<open>A store whose world \<open>w\<close> holds two atoms, built by the model's own append.\<close>

definition two_atoms :: "alist_db sled_storage" where
  "two_atoms = snd (append_atoms alist_env ''w''
     [sample_atom ''a1'' ''w'' ''{}'', sample_atom ''a2'' ''w'' ''[]''] (plain_store []))"

lemma two_atoms_facts:
  "store_ok alist_env two_atoms"
  "log_atoms alist_env two_atoms ''w'' = [sample_atom ''a1'' ''w'' ''{}'', sample_atom ''a2'' ''w'' ''[]'']"
  using append_atoms_ok [OF alist_env_ok empty_store_ok, of "''w''"
      "[sample_atom ''a1'' ''w'' ''{}'', sample_atom ''a2'' ''w'' ''[]'']"]
  by (auto simp: two_atoms_def log_room_def log_put_def)

lemmas two_atoms_ok = two_atoms_facts(1)
lemmas two_atoms_log = two_atoms_facts(2)

text \<open>A store with encryption on and a key of 32 bytes.\<close>

definition sealed_store :: "alist_db sled_storage" where
  "sealed_store =
     \<lparr>ss_db = [], ss_flush_on_write = True, ss_encryption_enabled = True, ss_key_id = Some ''k1'',
      ss_key_provider = dummy_key_bytes (dummy_with_key ''k1'' (replicate 32 (CHR ''x'')) Map.empty)\<rparr>"

text \<open>A log frame that does not decode and names no body.\<close>

definition broken_store :: "alist_db sled_storage" where
  "broken_store = plain_store [(log_key ''w'' 0, ''?'')]"

end
