(* ===== verification/Sled_Ops.thy ===== *)
theory Sled_Ops
  imports Sled_Instance
begin

text \<open>
  The operations of the sled store as functions on the logs of \<open>Sled_Log\<close>: appending refines
  "put at the end", scanning is filtering, deleting removes exactly the named entries, repair
  keeps the longest sound prefix and reopening a clean store changes no log. Two theorems show
  limits of the design: a batch is not atomic, and an id that is used twice loses data.
\<close>

section \<open>Properties of appending and reading\<close>

lemma get_by_id_indexed:
  assumes "tree_ok E" "store_ok E st" "slash_free w" "kv E st (atom_index_key i) = Some idx"
    and "decode_index E idx = Inr \<lparr>ie_world = w, ie_seq = n\<rparr>" "body E st w i = Some a"
  shows "get_by_id E st i = Inr (Some a)"
  using assms by (simp add: get_by_id_def atom_from_store_ok)

text \<open>
  C7: What \<open>append\<close> promises. In a store that satisfies the invariant, appending an atom whose
  world name has no slash succeeds as long as the world has a sequence number left, keeps the
  invariant, and adds the atom at the end of its world's log; earlier entries with the same id
  now read as the new body, and every other world's log is as before.
\<close>

theorem sled_append_refines:
  assumes "sled_env_ok E" and "store_ok E st" and "slash_free (a_world a)"
    and "log_room E st (a_world a) 1"
  shows "\<exists>st'. sled_append E a st = (Inr (), st') \<and> store_ok E st'
    \<and> (\<forall>w. slash_free w \<longrightarrow> log_atoms E st' w =
         (if w = a_world a then log_put a (log_atoms E st w) else log_atoms E st w))"
  using append_atoms_ok [OF assms(1-3), of "[a]"] assms(4) by (auto simp: sled_append_def)

theorem sled_append_refines_witness:
  "\<exists>st'. sled_append alist_env (sample_atom ''a1'' ''w'' ''{}'') (plain_store []) = (Inr (), st')
    \<and> store_ok alist_env st'
    \<and> (\<forall>w. slash_free w \<longrightarrow> log_atoms alist_env st' w =
         (if w = a_world (sample_atom ''a1'' ''w'' ''{}'')
          then log_put (sample_atom ''a1'' ''w'' ''{}'') (log_atoms alist_env (plain_store []) w)
          else log_atoms alist_env (plain_store []) w))"
  by (rule sled_append_refines [OF alist_env_ok empty_store_ok]) (simp_all add: log_room_def)


text \<open>
  Reading one's own writes. After a successful append the atom is found by its id, and it is
  the last atom of an unfiltered scan of its world.
\<close>

theorem sled_append_readable:
  assumes "sled_env_ok E" and "store_ok E st" and "slash_free (a_world a)"
    and "log_room E st (a_world a) 1"
  shows "\<exists>st' xs. sled_append E a st = (Inr (), st')
    \<and> get_by_ids E st' [a_id a] = Inr [a]
    \<and> sled_scan E st' (a_world a) default_filter = Inr (xs @ [a])"
proof -
  let ?w = "a_world a"
  have t: "tree_ok E" using assms(1) by (simp add: sled_env_ok_def)
  have n: "log_end E st ?w \<le> u64_max" using assms(4) by (simp add: log_room_def u64_max_def)
  then have seq: "next_seq E st ?w = log_end E st ?w"
    by (simp add: next_seq_log_end [OF t assms(2,3)] u64_max_def)
  obtain st1 idx where st1: "append_one E ?w (log_end E st ?w) a st = (Inr (), st1)" "store_ok E st1"
    "log_atoms E st1 ?w = log_put a (log_atoms E st ?w)" "body E st1 ?w (a_id a) = Some a"
    and idx: "kv E st1 (atom_index_key (a_id a)) = Some idx"
    "decode_index E idx = Inr \<lparr>ie_world = ?w, ie_seq = log_end E st ?w\<rparr>"
    using append_one_ok [OF assms(1-3) order_refl n] assms(3) by auto
  obtain st2 where st2: "flush_if_needed E st1 = (Inr (), st2)" "kv E st2 = kv E st1" "same_config st1 st2"
    using flush_ok [OF t] by blast
  have ok2: "store_ok E st2" by (rule store_ok_kv [OF st2(3,2) st1(2)])
  have "body E st2 ?w (a_id a) = Some a" using st1(4) st2 by (simp add: body_same)
  then have "get_by_ids E st2 [a_id a] = Inr [a]"
    using get_by_id_indexed [OF t ok2 assms(3)] idx st2(2) by simp
  moreover have "sled_scan E st2 ?w default_filter = Inr (log_atoms E st2 ?w)"
    by (subst sled_scan_spec [OF t ok2 assms(3)])
      (simp add: scan_spec_def default_filter_def matches_filter_def)
  moreover have "sled_append E a st = (Inr (), st2)"
    using st1(1) st2(1) seq by (simp add: sled_append_def append_atoms_def)
  ultimately show ?thesis
    using log_atoms_kv(2) [OF t st2(3,2)] st1(3) by (auto simp: log_put_def)
qed

theorem sled_append_readable_witness:
  "\<exists>st' xs. sled_append alist_env (sample_atom ''a1'' ''w'' ''{}'') (plain_store []) = (Inr (), st')
    \<and> get_by_ids alist_env st' [a_id (sample_atom ''a1'' ''w'' ''{}'')] = Inr [sample_atom ''a1'' ''w'' ''{}'']
    \<and> sled_scan alist_env st' (a_world (sample_atom ''a1'' ''w'' ''{}'')) default_filter
        = Inr (xs @ [sample_atom ''a1'' ''w'' ''{}''])"
  by (rule sled_append_readable [OF alist_env_ok empty_store_ok]) (simp_all add: log_room_def)


text \<open>
  C16: A scan returns, in append order, exactly the atoms of the world's log that match the filter,
  cut to the limit; a limit of zero still yields one atom, because the loop tests the limit after
  it has pushed, and a filter for another world yields none.
\<close>

theorem sled_scan_exact:
  assumes "sled_env_ok E" and "store_ok E st" and "slash_free w"
  shows "sled_scan E st w f =
    Inr (if f_world f \<noteq> None \<and> f_world f \<noteq> Some w then []
         else case f_limit f of
                None \<Rightarrow> filter (\<lambda>a. matches_filter a f) (log_atoms E st w)
              | Some l \<Rightarrow> take (max 1 l) (filter (\<lambda>a. matches_filter a f) (log_atoms E st w)))"
  using sled_scan_spec [of E st w f] assms
  by (auto simp: sled_env_ok_def scan_spec_def Let_def)

theorem sled_scan_exact_witness:
  "sled_scan alist_env two_atoms ''w'' (default_filter\<lparr>f_limit := Some 0\<rparr>)
     = Inr [sample_atom ''a1'' ''w'' ''{}'']"
  using sled_scan_exact [OF alist_env_ok two_atoms_ok, of "''w''" "default_filter\<lparr>f_limit := Some 0\<rparr>"]
  by (simp add: default_filter_def matches_filter_def two_atoms_log)


lemma append_loop_mismatch:
  assumes "append_loop E w n as ids st = (Inr ids', st')" "a_world b \<noteq> w"
  shows "append_loop E w n (as @ b # bs) ids st =
    (Inl (InvalidInput (''atom world '' @ a_world b @ '' does not match target world '' @ w)), st')"
  using assms(1)
proof (induction as arbitrary: n ids st)
  case (Cons a as)
  show ?case
  proof (cases "append_one E w n a st")
    case (Pair r s)
    then show ?thesis
      using Cons.prems Cons.IH by (cases r) (auto split: if_splits)
  qed
qed (use assms(2) in simp)

text \<open>
  A batch is not atomic. \<open>append_atoms\<close> stops at the first atom of another world with an
  error that names both worlds, and everything before that atom stays in the log.
\<close>

theorem append_atoms_partial:
  assumes "sled_env_ok E" and "store_ok E st" and "slash_free w" and "\<forall>a \<in> set as. a_world a = w"
    and "log_room E st w (length as)" and "a_world b \<noteq> w"
  shows "\<exists>st'. append_atoms E w (as @ b # bs) st =
      (Inl (InvalidInput (''atom world '' @ a_world b @ '' does not match target world '' @ w)), st')
    \<and> store_ok E st' \<and> log_atoms E st' w = fold log_put as (log_atoms E st w)"
proof -
  have t: "tree_ok E" using assms(1) by (simp add: sled_env_ok_def)
  obtain st' where "append_loop E w (next_seq E st w) as [] st = (Inr ([] @ map a_id as), st')"
    "store_ok E st'" "log_atoms E st' w = fold log_put as (log_atoms E st w)"
    using append_loop_ok [OF assms(1-5) next_seq_log_end [OF t assms(2,3)], of "[]"] by blast
  then show ?thesis
    using append_loop_mismatch [of E w _ as "[]" st _ st' b bs] assms(6)
    by (simp add: append_atoms_def)
qed

theorem append_atoms_partial_witness:
  "\<exists>st'. append_atoms alist_env ''w'' ([sample_atom ''a1'' ''w'' ''{}''] @ sample_atom ''b1'' ''v'' ''{}'' # [])
        (plain_store []) =
      (Inl (InvalidInput (''atom world '' @ a_world (sample_atom ''b1'' ''v'' ''{}'')
         @ '' does not match target world '' @ ''w'')), st')
    \<and> store_ok alist_env st'
    \<and> log_atoms alist_env st' ''w''
        = fold log_put [sample_atom ''a1'' ''w'' ''{}''] (log_atoms alist_env (plain_store []) ''w'')"
  by (rule append_atoms_partial [OF alist_env_ok empty_store_ok]) (simp_all add: log_room_def)


text \<open>
  C17: Bodies survive encryption. Whatever nonce is drawn, decoding the bytes that \<open>encode_atom\<close>
  writes gives the atom back, with encryption on (bytes marked \<open>ENC1\<close>) and off.
\<close>

theorem atom_encryption_roundtrip:
  assumes "sled_env_ok E" and "keys_ok st"
  shows "\<exists>bytes. encode_atom E st a = Inr bytes \<and> decode_atom E st bytes = Inr a
    \<and> (starts_with bytes ENC_MAGIC \<longleftrightarrow> ss_encryption_enabled st)"
proof -
  have c: "codecs_ok E" using assms(1) by (simp add: sled_env_ok_def)
  obtain bytes where b: "encode_atom E st a = Inr bytes" "decode_atom E st bytes = Inr a"
    using decode_encode_atom [OF c assms(2)] by blast
  obtain plain where "enc_atom E a = Inr plain" "\<not> starts_with plain ENC_MAGIC"
    using c unfolding codecs_ok_def by blast
  then have "starts_with bytes ENC_MAGIC \<longleftrightarrow> ss_encryption_enabled st"
    using b(1) by (auto simp: encode_atom_def encrypt_bytes_def Let_def res_simps split: if_splits option.splits)
  then show ?thesis using b by blast
qed

theorem atom_encryption_roundtrip_witness:
  "\<exists>bytes. encode_atom alist_env sealed_store (sample_atom ''a1'' ''w'' ''{}'') = Inr bytes
    \<and> decode_atom alist_env sealed_store bytes = Inr (sample_atom ''a1'' ''w'' ''{}'')
    \<and> (starts_with bytes ENC_MAGIC \<longleftrightarrow> ss_encryption_enabled sealed_store)"
  by (rule atom_encryption_roundtrip [OF alist_env_ok])
    (simp add: keys_ok_def sealed_store_def dummy_key_bytes_def dummy_with_key_def)


section \<open>Deleting\<close>

lemma sorted_alist_remove_set:
  fixes xs ys :: "('k::linorder \<times> 'v) list"
  assumes "sorted_wrt (<) (map fst xs)" "sorted_wrt (<) (map fst ys)"
    and "\<And>k. map_of ys k = (if k \<in> R then None else map_of xs k)"
  shows "ys = filter (\<lambda>e. fst e \<notin> R) xs"
  using assms
  by (intro sorted_alist_unique sorted_alist_filter)
    (auto simp: map_of_filter_key [where P = "\<lambda>x. x \<notin> R"] fun_eq_iff)

lemma removed_items:
  assumes "tree_ok E" "\<And>k. kv E st' k = (if k \<in> R then None else kv E st k)"
  shows "log_items E st' w = filter (\<lambda>e. fst e \<notin> R) (log_items E st w)"
proof -
  have "entries E (ss_db st') = filter (\<lambda>e. fst e \<notin> R) (entries E (ss_db st))"
    using assms by (intro sorted_alist_remove_set) (auto simp: tree_ok_def kv_def)
  then show ?thesis by (simp add: log_items_def conj_commute)
qed

lemma fold_remove:
  assumes "tree_ok E"
  shows "kv E (fold (db_remove E) ks st) k = (if k \<in> set ks then None else kv E st k)
    \<and> same_config st (fold (db_remove E) ks st)"
  using assms by (induction ks arbitrary: st) (auto intro: same_config_trans [OF same_config_remove])

lemma delete_bodies_kv:
  assumes "tree_ok E"
  shows "kv E (delete_bodies E w ids st) k =
      (if k \<in> atom_key w ` set ids \<union> atom_index_key ` set ids then None else kv E st k)
    \<and> same_config st (delete_bodies E w ids st)"
proof -
  have "delete_bodies E w ids st =
      fold (db_remove E) (concat (map (\<lambda>i. [atom_key w i, atom_index_key i]) ids)) st"
    unfolding delete_bodies_def by (induction ids arbitrary: st) simp_all
  then show ?thesis
    using fold_remove [OF assms, of "concat (map (\<lambda>i. [atom_key w i, atom_index_key i]) ids)" st k]
    by auto
qed

definition names_any :: "'db sled_env \<Rightarrow> atom_id list \<Rightarrow> string \<times> string \<Rightarrow> bool" where
  "names_any E ids e \<longleftrightarrow> (\<exists>f. frame_of E (snd e) = Some f \<and> lf_atom_id f \<in> set ids)"

lemma delete_loop_items:
  "delete_loop E ids (map Inr items) n st =
     (Inr (n + length (filter (names_any E ids) items)),
      fold (db_remove E) (map fst (filter (names_any E ids) items)) st)"
proof (induction items arbitrary: n st)
  case (Cons e items)
  then show ?case
    by (cases e; cases "decode_frame E (snd e)") (auto simp: names_any_def frame_of_def)
qed simp

lemma deleted_count:
  "(\<And>e. e \<in> set items \<Longrightarrow> \<exists>f a. frame_of E (snd e) = Some f \<and> body E st w (lf_atom_id f) = Some a
      \<and> a_id a = lf_atom_id f) \<Longrightarrow>
   length (filter (names_any E ids) items)
     = length (filter (\<lambda>a. a_id a \<in> set ids) (items_atoms E st w items))"
proof (induction items)
  case (Cons e items)
  obtain f a where "frame_of E (snd e) = Some f" "body E st w (lf_atom_id f) = Some a"
    "a_id a = lf_atom_id f"
    using Cons.prems [of e] by auto
  then show ?case using Cons by (simp add: names_any_def)
qed simp

lemma kept_atoms:
  "(\<And>e. e \<in> set items \<Longrightarrow> \<exists>f a. frame_of E (snd e) = Some f \<and> body E st w (lf_atom_id f) = Some a
      \<and> a_id a = lf_atom_id f) \<Longrightarrow>
   (\<And>i. body E st' w i = (if w = w \<and> i \<in> set ids then None else body E st w i)) \<Longrightarrow>
   items_atoms E st' w (filter (\<lambda>e. \<not> names_any E ids e) items)
     = filter (\<lambda>a. a_id a \<notin> set ids) (items_atoms E st w items)"
proof (induction items)
  case (Cons e items)
  obtain f a where "frame_of E (snd e) = Some f" "body E st w (lf_atom_id f) = Some a"
    "a_id a = lf_atom_id f"
    using Cons.prems(1) [of e] by auto
  then show ?case using Cons by (simp add: names_any_def)
qed simp

lemma delete_atoms_ok:
  assumes t: "tree_ok E" and st: "store_ok E st" and w: "slash_free w"
  obtains st' where "delete_atoms E w ids st =
      (Inr (length (filter (\<lambda>a. a_id a \<in> set ids) (log_atoms E st w))), st')"
    "store_ok E st'" "same_config st st'"
    "log_atoms E st' w = filter (\<lambda>a. a_id a \<notin> set ids) (log_atoms E st w)"
    "\<And>w'. slash_free w' \<Longrightarrow> w' \<noteq> w \<Longrightarrow> log_atoms E st' w' = log_atoms E st w'"
proof -
  let ?st1 = "delete_bodies E w ids st"
  let ?dead = "filter (names_any E ids) (log_items E st w)"
  let ?st' = "fold (db_remove E) (map fst ?dead) ?st1"
  let ?R = "atom_key w ` set ids \<union> atom_index_key ` set ids \<union> fst ` set ?dead"
  note kv1 = delete_bodies_kv [OF t, of w ids st]
  have kv': "kv E ?st' k = (if k \<in> ?R then None else kv E st k)" for k
    using fold_remove [OF t, of "map fst ?dead" ?st1 k] kv1 [of k] by auto
  have same: "same_config st ?st'"
    using fold_remove [OF t, of "map fst ?dead" ?st1] kv1 same_config_trans by blast
  note dec = same_config_decode [OF same]
  have items1: "log_items E ?st1 w = log_items E st w"
    using kv1 atom_key_not_log_prefix [OF w w] by (intro log_items_same [OF t]) auto
  have scan: "sl_scan E (ss_db ?st1) (log_prefix w) = map Inr (log_items E ?st1 w)"
    using t by (simp add: tree_ok_def log_items_def)
  have del: "delete_atoms E w ids st = (Inr (length ?dead), ?st')"
    by (simp add: delete_atoms_def Let_def scan delete_loop_items items1)
  have dist: "distinct (map fst (log_items E st w))"
    using log_items_sorted [OF t] strict_sorted_iff by blast
  have dead_log: "k \<noteq> atom_key w' i" "k \<noteq> atom_index_key i" "\<exists>n. n \<le> u64_max \<and> k = log_key w n"
    if "k \<in> fst ` set ?dead" "slash_free w'" for k w' i
  proof -
    from that(1) obtain e where "e \<in> set ?dead" and e: "k = fst e" by blast
    then have "e \<in> set (log_items E st w)" by simp
    then obtain n where "n \<le> u64_max" "k = log_key w n"
      using log_item_ok [OF t st w] e by metis
    then show "k \<noteq> atom_key w' i" "k \<noteq> atom_index_key i" "\<exists>n. n \<le> u64_max \<and> k = log_key w n"
      using atom_key_neq_log_key [OF that(2) w] by (metis, metis index_key_apart(2), blast)
  qed
  have items': "log_items E ?st' w = filter (\<lambda>e. \<not> names_any E ids e) (log_items E st w)"
  proof -
    have "fst e \<in> ?R \<longleftrightarrow> names_any E ids e" if e: "e \<in> set (log_items E st w)" for e
    proof -
      obtain n where "fst e = log_key w n" using log_item_ok [OF t st w e] by blast
      then have "fst e \<notin> atom_key w ` set ids \<union> atom_index_key ` set ids"
        using atom_key_neq_log_key [OF w w] index_key_apart(2) by (auto, metis+)
      moreover have "fst e \<in> fst ` set ?dead \<longleftrightarrow> names_any E ids e"
        using dist e by (auto simp: distinct_map inj_on_def)
      ultimately show ?thesis by blast
    qed
    then show ?thesis
      unfolding removed_items [OF t kv'] by (intro filter_cong) auto
  qed
  have bod: "body E ?st' w' i = (if w' = w \<and> i \<in> set ids then None else body E st w' i)"
    if "slash_free w'" for w' i
  proof -
    have "atom_key w' i \<in> ?R \<longleftrightarrow> w' = w \<and> i \<in> set ids"
      using dead_log(1) [OF _ that] atom_key_eq [OF that w] index_key_apart(1) by (auto, metis+)
    then show ?thesis by (auto simp: body_def kv' dec split: option.split)
  qed
  have frames: "\<exists>f a. frame_of E (snd e) = Some f \<and> body E st w (lf_atom_id f) = Some a \<and> a_id a = lf_atom_id f"
    if "e \<in> set (log_items E st w)" for e
    using log_item_ok [OF t st w that] body_fields [OF st w] by blast
  have count: "length ?dead = length (filter (\<lambda>a. a_id a \<in> set ids) (log_atoms E st w))"
    unfolding log_atoms_items by (rule deleted_count) (rule frames)
  have log': "log_atoms E ?st' w = filter (\<lambda>a. a_id a \<notin> set ids) (log_atoms E st w)"
    unfolding log_atoms_items items' by (rule kept_atoms) (use frames bod [OF w] in blast)+
  have other: "log_atoms E ?st' w' = log_atoms E st w'" if "slash_free w'" "w' \<noteq> w" for w'
  proof -
    have "kv E ?st' k = kv E st k" if "starts_with k (log_prefix w')" for k
    proof -
      have "k \<notin> ?R"
      proof
        assume "k \<in> ?R"
        then consider i where "k = atom_key w i" | i where "k = atom_index_key i" | "k \<in> fst ` set ?dead"
          by blast
        then show False
        proof cases
          case 1
          then show False using that atom_key_not_log_prefix [OF \<open>slash_free w'\<close> w] by simp
        next
          case 2
          then show False using that by simp
        next
          case 3
          then obtain n where "k = log_key w n" using dead_log(3) [OF _ w] by blast
          then show False using that log_prefix_world [OF \<open>slash_free w'\<close> w] \<open>w' \<noteq> w\<close> by simp
        qed
      qed
      then show ?thesis by (simp add: kv')
    qed
    then have "log_items E ?st' w' = log_items E st w'" by (intro log_items_same [OF t])
    then show ?thesis using that by (simp add: log_atoms_items items_atoms_def bod)
  qed
  have store: "store_ok E ?st'"
    unfolding store_ok_def
  proof (intro conjI allI impI)
    show "keys_ok ?st'" using st same_config_keys [OF same] by (simp add: store_ok_def)
    fix k v assume k: "kv E ?st' k = Some v" and pre: "starts_with k ''world/''"
    then have old: "kv E st k = Some v" "k \<notin> ?R" by (auto simp: kv' split: if_splits)
    then have "atom_entry_ok E st k v \<or> log_entry_ok E st k v" using st pre by (simp add: store_ok_def)
    then show "atom_entry_ok E ?st' k v \<or> log_entry_ok E ?st' k v"
    proof
      assume "log_entry_ok E st k v"
      then obtain w' n f where f: "slash_free w'" "n \<le> u64_max" "k = log_key w' n"
        "frame_of E v = Some f" "kv E st (atom_key w' (lf_atom_id f)) \<noteq> None"
        unfolding log_entry_ok_def by blast
      have "\<not> (w' = w \<and> lf_atom_id f \<in> set ids)"
      proof
        assume a: "w' = w \<and> lf_atom_id f \<in> set ids"
        then have "(k, v) \<in> set ?dead"
          using old(1) f by (auto simp: log_items_kv [OF t] names_any_def)
        then show False using old(2) by force
      qed
      moreover have "body E st w' (lf_atom_id f) \<noteq> None" using body_ok [OF st f(1)] f(5) by fastforce
      ultimately have "body E ?st' w' (lf_atom_id f) \<noteq> None" by (simp add: bod [OF f(1)] del: not_None_eq)
      then have "kv E ?st' (atom_key w' (lf_atom_id f)) \<noteq> None"
        by (auto simp: body_def split: option.splits)
      then show ?thesis using f by (auto simp: log_entry_ok_def)
    qed (auto simp: atom_entry_ok_def dec)
  qed
  show ?thesis using that [OF _ store same log'] other del count by simp
qed

text \<open>
  C11: Deletion. \<open>delete_atoms\<close> removes from a world's log exactly the entries whose id is
  listed, returns their number, leaves every other log as it was and keeps the invariant, so that
  no frame is left without its body.
\<close>

theorem delete_atoms_exact:
  assumes "sled_env_ok E" and "store_ok E st" and "slash_free w"
  shows "\<exists>st'. delete_atoms E w ids st =
      (Inr (length (filter (\<lambda>a. a_id a \<in> set ids) (log_atoms E st w))), st')
    \<and> store_ok E st'
    \<and> log_atoms E st' w = filter (\<lambda>a. a_id a \<notin> set ids) (log_atoms E st w)
    \<and> (\<forall>w'. slash_free w' \<longrightarrow> w' \<noteq> w \<longrightarrow> log_atoms E st' w' = log_atoms E st w')"
proof -
  have t: "tree_ok E" using assms(1) by (simp add: sled_env_ok_def)
  show ?thesis by (rule delete_atoms_ok [OF t assms(2,3), of ids]) blast
qed

theorem delete_atoms_exact_witness:
  "\<exists>st'. delete_atoms alist_env ''w'' [''a1''] two_atoms = (Inr 1, st')
    \<and> log_atoms alist_env st' ''w'' = [sample_atom ''a2'' ''w'' ''[]'']"
  using delete_atoms_exact [OF alist_env_ok two_atoms_ok, of "''w''" "[''a1'']"]
  by (auto simp: two_atoms_log)


section \<open>Repair\<close>

text \<open>The frame names a stored body with the checksum it records.\<close>

definition frame_good :: "'db sled_env \<Rightarrow> 'db sled_storage \<Rightarrow> world_key \<Rightarrow> string \<times> string \<Rightarrow> bool" where
  "frame_good E st w e =
     (case frame_of E (snd e) of
        None \<Rightarrow> False
      | Some f \<Rightarrow> (case kv E st (atom_key w (lf_atom_id f)) of
                    None \<Rightarrow> False | Some b \<Rightarrow> crc32 E b = lf_checksum f))"

text \<open>All keys under the log prefix are keys that \<open>log_key\<close> writes.\<close>

definition log_keyed :: "world_key \<Rightarrow> (string \<times> string) list \<Rightarrow> bool" where
  "log_keyed w items \<longleftrightarrow> (\<forall>e \<in> set items. \<exists>n \<le> u64_max. fst e = log_key w n)"

definition log_clean :: "'db sled_env \<Rightarrow> 'db sled_storage \<Rightarrow> world_key \<Rightarrow> bool" where
  "log_clean E st w \<longleftrightarrow> (\<forall>e \<in> set (log_items E st w). frame_good E st w e)"

lemma log_keyed_store: "tree_ok E \<Longrightarrow> store_ok E st \<Longrightarrow> slash_free w \<Longrightarrow> log_keyed w (log_items E st w)"
  using log_item_ok unfolding log_keyed_def by metis

lemma find_bad_items:
  assumes "tree_ok E" "log_keyed w items"
  shows "find_bad E st w (map Inr items) =
    Inr (case dropWhile (frame_good E st w) items of
           [] \<Rightarrow> None | e # _ \<Rightarrow> seq_from_log_key (fst e))"
  using assms(2)
proof (induction items)
  case (Cons e items)
  obtain n where n: "n \<le> u64_max" "fst e = log_key w n" using Cons.prems by (auto simp: log_keyed_def)
  have get: "sl_get E (ss_db st) k = Inr (kv E st k)" for k using assms(1) by (simp add: tree_ok_def kv_def)
  have IH: "find_bad E st w (map Inr items) =
    Inr (case dropWhile (frame_good E st w) items of [] \<Rightarrow> None | e # _ \<Rightarrow> seq_from_log_key (fst e))"
    using Cons by (simp add: log_keyed_def)
  have "find_bad E st w (Inr e # map Inr items) =
      (if frame_good E st w e then find_bad E st w (map Inr items) else Inr (Some n))"
    using n by (cases e; cases "decode_frame E (snd e)")
      (auto simp: frame_good_def frame_of_def get split: option.split)
  then show ?case using n IH by simp
qed simp

lemma keys_from_items:
  assumes "log_keyed w items"
  shows "keys_from bad (map Inr items) =
    Inr (map fst (filter (\<lambda>e. bad \<le> the (seq_from_log_key (fst e))) items))"
  using assms
proof (induction items)
  case (Cons e items)
  then obtain n where "n \<le> u64_max" "fst e = log_key w n" by (auto simp: log_keyed_def)
  then show ?case using Cons by (cases e) (auto simp: log_keyed_def)
qed simp

lemma from_first_bad:
  assumes "log_keyed w (xs @ e # ys)" "sorted_wrt (<) (map fst (xs @ e # ys))"
    and "seq_from_log_key (fst e) = Some bad"
  shows "filter (\<lambda>e. bad \<le> the (seq_from_log_key (fst e))) (xs @ e # ys) = e # ys"
proof -
  have less: "the (seq_from_log_key (fst x)) < the (seq_from_log_key (fst y))"
    if "x \<in> set (xs @ e # ys)" "y \<in> set (xs @ e # ys)" "fst x < fst y" for x y
  proof -
    obtain n m where "n \<le> u64_max" "fst x = log_key w n" "m \<le> u64_max" "fst y = log_key w m"
      using assms(1) \<open>x \<in> _\<close> \<open>y \<in> _\<close> unfolding log_keyed_def by meson
    then show ?thesis using that(3) log_key_less [of n m w] by simp
  qed
  have "\<not> bad \<le> the (seq_from_log_key (fst x))" if "x \<in> set xs" for x
    using less [of x e] that assms(2,3) by (auto simp: sorted_wrt_append)
  moreover have "bad \<le> the (seq_from_log_key (fst y))" if "y \<in> set ys" for y
    using less [of e y] that assms(2,3) by (auto simp: sorted_wrt_append)
  ultimately show ?thesis using assms(3) by (simp add: filter_False filter_True)
qed

lemma repair_world_log_ok:
  assumes "tree_ok E" "log_keyed w (log_items E st w)"
  shows "\<exists>st'. repair_world_log E w st = (Inr (), st') \<and> same_config st st'
    \<and> (\<forall>k. kv E st' k =
         (if k \<in> fst ` set (dropWhile (frame_good E st w) (log_items E st w)) then None else kv E st k))
    \<and> (log_clean E st w \<longrightarrow> st' = st)"
proof -
  have scan: "sl_scan E (ss_db st) (log_prefix w) = map Inr (log_items E st w)"
    using assms(1) by (simp add: tree_ok_def log_items_def)
  show ?thesis
  proof (cases "dropWhile (frame_good E st w) (log_items E st w)")
    case Nil
    then show ?thesis
      by (simp add: repair_world_log_def scan find_bad_items [OF assms] del: dropWhile_eq_Nil_conv)
  next
    case (Cons e ys)
    let ?xs = "takeWhile (frame_good E st w) (log_items E st w)"
    have split: "?xs @ e # ys = log_items E st w" by (simp add: Cons [symmetric])
    have e: "e \<in> set (log_items E st w)" by (subst split [symmetric]) simp
    then obtain bad where bad: "seq_from_log_key (fst e) = Some bad"
      using assms(2) by (auto simp: log_keyed_def)
    have keys: "filter (\<lambda>e. bad \<le> the (seq_from_log_key (fst e))) (log_items E st w) = e # ys"
      using from_first_bad [of w ?xs e ys bad] assms(2) log_items_sorted [OF assms(1), of st w] bad
      unfolding split by blast
    have "repair_world_log E w st = (Inr (), fold (db_remove E) (map fst (e # ys)) st)"
      using Cons bad keys
      by (simp add: repair_world_log_def scan find_bad_items [OF assms] keys_from_items [OF assms(2)])
    moreover have "\<not> frame_good E st w e" using Cons by (metis hd_dropWhile list.discI list.sel(1))
    then have "\<not> log_clean E st w" using e by (auto simp: log_clean_def)
    ultimately show ?thesis
      using Cons fold_remove [OF assms(1), of "map fst (e # ys)" st] by auto
  qed
qed

lemma repaired_items:
  assumes "tree_ok E"
    and "\<And>k. kv E st' k =
         (if k \<in> fst ` set (dropWhile (frame_good E st w) (log_items E st w)) then None else kv E st k)"
  shows "log_items E st' w = takeWhile (frame_good E st w) (log_items E st w)"
proof -
  let ?good = "frame_good E st w" and ?items = "log_items E st w"
  have "distinct (map fst ?items)" using log_items_sorted [OF assms(1)] strict_sorted_iff by blast
  then have "distinct (map fst (takeWhile ?good ?items @ dropWhile ?good ?items))" by simp
  then have disj: "fst ` set (takeWhile ?good ?items) \<inter> fst ` set (dropWhile ?good ?items) = {}"
    by (simp only: map_append distinct_append) simp
  have "log_items E st' w = filter (\<lambda>e. fst e \<notin> fst ` set (dropWhile ?good ?items))
      (takeWhile ?good ?items @ dropWhile ?good ?items)"
    unfolding removed_items [OF assms] by simp
  also have "\<dots> = takeWhile ?good ?items"
    using disj by (simp only: filter_append) (simp add: filter_True filter_False disjoint_iff)
  finally show ?thesis .
qed

lemma broken_keyed: "log_keyed ''w'' (log_items alist_env broken_store ''w'')"
proof -
  have "log_items alist_env broken_store ''w'' = [(log_key ''w'' 0, ''?'')]"
    by (simp add: log_items_def alist_entries canon_def broken_store_def plain_store_def)
  then show ?thesis by (auto simp: log_keyed_def)
qed

text \<open>
  Repair keeps the longest sound prefix. On a tree of any content whose log keys are numbers,
  repairing a world's log succeeds, leaves exactly the frames before the first one that does not
  decode, has no body or a body of another checksum, touches no other key, and is idempotent.
\<close>

theorem repair_keeps_sound_prefix:
  assumes "sled_env_ok E" and "log_keyed w (log_items E st w)" and "slash_free w"
  shows "\<exists>st'. repair_world_log E w st = (Inr (), st')
    \<and> log_items E st' w = takeWhile (frame_good E st w) (log_items E st w)
    \<and> (\<forall>k. \<not> starts_with k (log_prefix w) \<longrightarrow> kv E st' k = kv E st k)
    \<and> repair_world_log E w st' = (Inr (), st')"
proof -
  have t: "tree_ok E" using assms(1) by (simp add: sled_env_ok_def)
  obtain st' where st': "repair_world_log E w st = (Inr (), st')" "same_config st st'"
    and kv': "\<And>k. kv E st' k =
      (if k \<in> fst ` set (dropWhile (frame_good E st w) (log_items E st w)) then None else kv E st k)"
    using repair_world_log_ok [OF t assms(2)] by blast
  have items: "log_items E st' w = takeWhile (frame_good E st w) (log_items E st w)"
    by (rule repaired_items [OF t kv'])
  have log: "starts_with k (log_prefix w)"
    if k: "k \<in> fst ` set (dropWhile (frame_good E st w) (log_items E st w))" for k
  proof -
    obtain e where "e \<in> set (log_items E st w)" "k = fst e"
      using k set_dropWhileD by fastforce
    then show ?thesis by (simp add: log_items_kv [OF t])
  qed
  have kv_out: "kv E st' k = kv E st k" if "\<not> starts_with k (log_prefix w)" for k
    using log that by (auto simp: kv')
  then have "frame_good E st' w e = frame_good E st w e" for e
    using atom_key_not_log_prefix [OF assms(3,3)] by (simp add: frame_good_def split: option.split)
  then have clean: "log_clean E st' w"
    unfolding log_clean_def items by (auto dest: set_takeWhileD)
  have "log_keyed w (log_items E st' w)"
    using assms(2) unfolding items log_keyed_def by (auto dest: set_takeWhileD)
  then show ?thesis
    using repair_world_log_ok [OF t, of w st'] clean st'(1) items kv_out by auto
qed

theorem repair_keeps_sound_prefix_witness:
  "\<exists>st'. repair_world_log alist_env ''w'' broken_store = (Inr (), st')
    \<and> log_items alist_env st' ''w''
        = takeWhile (frame_good alist_env broken_store ''w'') (log_items alist_env broken_store ''w'')
    \<and> (\<forall>k. \<not> starts_with k (log_prefix ''w'') \<longrightarrow> kv alist_env st' k = kv alist_env broken_store k)
    \<and> repair_world_log alist_env ''w'' st' = (Inr (), st')"
  by (rule repair_keeps_sound_prefix [OF alist_env_ok broken_keyed]) simp


section \<open>Worlds and reopening\<close>

definition world_names :: "'db sled_env \<Rightarrow> 'db sled_storage \<Rightarrow> world_key set" where
  "world_names E st =
     {w. \<exists>k v. kv E st k = Some v \<and> starts_with k ''world/'' \<and> world_from_key k = Some w}"

lemma scan_worlds:
  assumes "tree_ok E"
  shows "sl_scan E (ss_db st) p = map Inr (filter (\<lambda>e. starts_with (fst e) p) (entries E (ss_db st)))"
    "(k, v) \<in> set (entries E (ss_db st)) \<longleftrightarrow> kv E st k = Some v"
proof -
  show "sl_scan E (ss_db st) p = map Inr (filter (\<lambda>e. starts_with (fst e) p) (entries E (ss_db st)))"
    using assms by (simp add: tree_ok_def)
  have "distinct (map fst (entries E (ss_db st)))"
    using assms strict_sorted_iff unfolding tree_ok_def by blast
  then show "(k, v) \<in> set (entries E (ss_db st)) \<longleftrightarrow> kv E st k = Some v" by (simp add: kv_def)
qed

lemma worlds_loop_items:
  "distinct ws \<Longrightarrow> \<exists>ws'. worlds_loop (map Inr items) ws = Inr ws' \<and> distinct ws'
     \<and> set ws' = set ws \<union> {w. \<exists>e \<in> set items. world_from_key (fst e) = Some w}"
proof (induction items arbitrary: ws)
  case (Cons e items)
  show ?case
    using Cons.IH [of "case world_from_key (fst e) of None \<Rightarrow> ws | Some w \<Rightarrow> List.insert w ws"] Cons.prems
    by (cases e; cases "world_from_key (fst e)") auto
qed simp

lemma sled_worlds_names:
  assumes "tree_ok E"
  obtains ws where "sled_worlds E st = Inr ws" "distinct ws" "set ws = world_names E st"
proof -
  let ?items = "filter (\<lambda>e. starts_with (fst e) ''world/'') (entries E (ss_db st))"
  obtain ws where "worlds_loop (map Inr ?items) [] = Inr ws" "distinct ws"
    "set ws = {w. \<exists>e \<in> set ?items. world_from_key (fst e) = Some w}"
    using worlds_loop_items [of "[]" ?items] by auto
  moreover have "{w. \<exists>e \<in> set ?items. world_from_key (fst e) = Some w} = world_names E st"
    by (auto simp: world_names_def scan_worlds(2) [OF assms])
  ultimately show ?thesis
    using that by (simp add: sled_worlds_def scan_worlds(1) [OF assms] del: filter_True)
qed

lemma world_names_slash_free:
  assumes "store_ok E st" "w \<in> world_names E st"
  shows "slash_free w"
proof -
  obtain k v where k: "kv E st k = Some v" "starts_with k ''world/''" "world_from_key k = Some w"
    using assms(2) by (auto simp: world_names_def)
  then have "atom_entry_ok E st k v \<or> log_entry_ok E st k v" using assms(1) by (simp add: store_ok_def)
  then show ?thesis
    using k(3) by (auto simp: atom_entry_ok_def log_entry_ok_def world_from_atom_key
        world_from_log_key takeWhile_slash_free)
qed

text \<open>Steps that write under \<open>idx/atom/\<close> only.\<close>

definition index_only :: "'db sled_env \<Rightarrow> 'db sled_storage \<Rightarrow> 'db sled_storage \<Rightarrow> bool" where
  "index_only E st st' \<longleftrightarrow> same_config st st' \<and>
     (\<forall>k. \<not> starts_with k ''idx/atom/'' \<longrightarrow> kv E st' k = kv E st k)"

lemma index_only_refl [simp]: "index_only E st st"
  by (simp add: index_only_def)

lemma index_only_trans: "index_only E a b \<Longrightarrow> index_only E b c \<Longrightarrow> index_only E a c"
  by (auto simp: index_only_def intro: same_config_trans)

lemma index_prefix [simp]: "starts_with (atom_index_key i) ''idx/atom/''"
  by (simp add: atom_index_key_def)

lemma record_index_only:
  assumes "tree_ok E"
  shows "index_only E st (snd (record_index E w i n st))"
proof (cases "index_entry E w n")
  case (Inr v)
  obtain st' where "db_insert E (atom_index_key i) v st = (Inr (), st')"
    "kv E st' = (kv E st)(atom_index_key i \<mapsto> v)" "same_config st st'"
    using db_insert_ok [OF assms] by blast
  then show ?thesis using Inr by (auto simp: record_index_def index_only_def)
qed (simp add: record_index_def)

lemma rebuild_log_only:
  assumes "tree_ok E"
  shows "index_only E st (snd (rebuild_log E w items n st))"
proof (induction items arbitrary: n st)
  case (Cons r items)
  show ?case
  proof (cases r)
    case (Inr e)
    obtain k v where e: "e = (k, v)" by (cases e)
    show ?thesis
    proof (cases "seq_from_log_key k")
      case (Some m)
      show ?thesis
      proof (cases "decode_frame E v")
        case (Inr f)
        obtain q s where s: "record_index E w (lf_atom_id f) m st = (q, s)" by fastforce
        then have "index_only E st s" using record_index_only [OF assms, of st w "lf_atom_id f" m] by simp
        then show ?thesis
          using \<open>r = Inr e\<close> e Some Inr s Cons.IH [of s "n + 1"]
          by (cases q) (auto intro: index_only_trans)
      qed (use \<open>r = Inr e\<close> e Some Cons.IH in simp)
    qed (use Inr e Cons.IH in simp)
  qed simp
qed simp

lemma rebuild_worlds_only:
  assumes "tree_ok E"
  shows "index_only E st (snd (rebuild_worlds E ws n st))"
proof (induction ws arbitrary: n st)
  case (Cons w ws)
  obtain q s where s: "rebuild_log E w (sl_scan E (ss_db st) (log_prefix w)) n st = (q, s)" by fastforce
  then have "index_only E st s"
    using rebuild_log_only [OF assms, of st w "sl_scan E (ss_db st) (log_prefix w)" n] by simp
  then show ?case using s Cons.IH by (cases q) (auto intro: index_only_trans)
qed simp

lemma scan_keys_items: "scan_keys (map Inr items) = Inr (map fst items)"
  by (induction items) auto

lemma rebuild_index_only:
  assumes "tree_ok E"
  shows "index_only E st (snd (rebuild_index E st))"
proof -
  let ?ks = "map fst (filter (\<lambda>e. starts_with (fst e) ''idx/atom/'') (entries E (ss_db st)))"
  let ?st1 = "fold (db_remove E) ?ks st"
  have clear: "clear_index E st = (Inr (), ?st1)"
    by (simp add: clear_index_def scan_worlds(1) [OF assms] scan_keys_items)
  have "index_only E st ?st1"
    using fold_remove [OF assms, of ?ks st] by (auto simp: index_only_def)
  then show ?thesis
    using rebuild_worlds_only [OF assms, of ?st1]
    by (auto simp: rebuild_index_def clear intro: index_only_trans split: sum.split)
qed

lemma index_only_log:
  assumes "tree_ok E" "index_only E st st'"
  shows "log_items E st' w = log_items E st w" "log_atoms E st' w = log_atoms E st w"
proof -
  have out: "\<not> starts_with k ''idx/atom/''" if "starts_with k (log_prefix w)" for k
    using that by (auto simp: log_prefix_def starts_with_iff)
  show items: "log_items E st' w = log_items E st w"
    using assms out by (intro log_items_same) (auto simp: index_only_def)
  have "body E st' w i = body E st w i" for i
    using assms(2) by (intro body_same) (auto simp: index_only_def atom_key_def)
  then show "log_atoms E st' w = log_atoms E st w"
    by (simp add: log_atoms_items items items_atoms_def)
qed

lemma repair_worlds_clean:
  assumes "tree_ok E" "store_ok E st" "\<forall>w \<in> set ws. slash_free w \<and> log_clean E st w"
  shows "repair_worlds E ws st = (Inr (), st)"
  using assms(3)
proof (induction ws)
  case (Cons w ws)
  then have "repair_world_log E w st = (Inr (), st)"
    using repair_world_log_ok [OF assms(1), of w st] log_keyed_store [OF assms(1,2)] by auto
  then show ?case using Cons by simp
qed simp

text \<open>Every world's log passes the checks of repair.\<close>

definition store_clean :: "'db sled_env \<Rightarrow> 'db sled_storage \<Rightarrow> bool" where
  "store_clean E st \<longleftrightarrow> (\<forall>w. slash_free w \<longrightarrow> log_clean E st w)"

lemma repair_logs_clean:
  assumes "tree_ok E" "store_ok E st" "store_clean E st"
  shows "repair_logs E st = (Inr (), st)"
proof -
  obtain ws where ws: "sled_worlds E st = Inr ws" "set ws = world_names E st"
    using sled_worlds_names [OF assms(1)] by metis
  then have "repair_worlds E ws st = (Inr (), st)"
    using assms world_names_slash_free [OF assms(2)] by (intro repair_worlds_clean) (auto simp: store_clean_def)
  then show ?thesis using ws(1) by (simp add: repair_logs_def sled_worlds_def)
qed

lemma reopen_logs:
  assumes "tree_ok E" and "store_ok E st" and "store_clean E st"
  shows "\<exists>st'. sled_open E \<lparr>sc_flush_on_write = ss_flush_on_write st,
        sc_encryption_enabled = ss_encryption_enabled st, sc_key_id = ss_key_id st\<rparr>
      (ss_key_provider st) (Inr (ss_db st)) = Inr st' \<and> index_only E st st'"
proof -
  have "\<not> (ss_encryption_enabled st \<and> ss_key_id st = None)"
    using assms(2) by (auto simp: store_ok_def keys_ok_def)
  then have "sled_open E \<lparr>sc_flush_on_write = ss_flush_on_write st,
        sc_encryption_enabled = ss_encryption_enabled st, sc_key_id = ss_key_id st\<rparr>
      (ss_key_provider st) (Inr (ss_db st)) = Inr (snd (rebuild_index E st))"
    using repair_logs_clean [OF assms] by (cases st) (simp add: sled_open_def)
  then show ?thesis using rebuild_index_only [OF assms(1)] by blast
qed

text \<open>
  C8: Durability. Reopening a clean store that satisfies the invariant succeeds and every world
  reads the same log as before: repair removes nothing and the index rebuild touches no log.
\<close>

theorem reopen_preserves_logs:
  assumes "sled_env_ok E" and "store_ok E st" and "store_clean E st"
  shows "\<exists>st'. sled_open E \<lparr>sc_flush_on_write = ss_flush_on_write st,
        sc_encryption_enabled = ss_encryption_enabled st, sc_key_id = ss_key_id st\<rparr>
      (ss_key_provider st) (Inr (ss_db st)) = Inr st'
    \<and> (\<forall>w. log_atoms E st' w = log_atoms E st w)"
  using reopen_logs [of E st] index_only_log(2) assms unfolding sled_env_ok_def by metis

text \<open>
  \<open>worlds()\<close> lists each world with a stored body or log entry once: after appending to a
  world without a slash in its name, exactly the previous worlds and that one.
\<close>

theorem worlds_after_append:
  assumes "sled_env_ok E" and "store_ok E st" and "slash_free (a_world a)"
    and "log_room E st (a_world a) 1"
  shows "\<exists>st' ws ws'. sled_append E a st = (Inr (), st') \<and> sled_worlds E st = Inr ws
    \<and> sled_worlds E st' = Inr ws' \<and> distinct ws' \<and> set ws' = insert (a_world a) (set ws)"
proof -
  let ?w = "a_world a"
  have t: "tree_ok E" using assms(1) by (simp add: sled_env_ok_def)
  have n: "log_end E st ?w \<le> u64_max" using assms(4) by (simp add: log_room_def u64_max_def)
  then have seq: "next_seq E st ?w = log_end E st ?w"
    by (simp add: next_seq_log_end [OF t assms(2,3)] u64_max_def)
  obtain st1 b fb ix where st1: "append_one E ?w (log_end E st ?w) a st = (Inr (), st1)"
    and "encode_atom E st a = Inr b" "decode_atom E st b = Inr a"
    and "decode_frame E fb = Inr \<lparr>lf_atom_id = a_id a, lf_checksum = crc32 E b, lf_len = length b\<rparr>"
    and "decode_index E ix = Inr \<lparr>ie_world = ?w, ie_seq = log_end E st ?w\<rparr>"
    and kv1: "kv E st1 = (kv E st)(atom_key ?w (a_id a) \<mapsto> b, log_key ?w (log_end E st ?w) \<mapsto> fb,
      atom_index_key (a_id a) \<mapsto> ix)"
    and "same_config st st1"
    by (rule append_one_kv [OF assms(1,2)])
  obtain st2 where st2: "flush_if_needed E st1 = (Inr (), st2)" "kv E st2 = kv E st1" "same_config st1 st2"
    using flush_ok [OF t] by blast
  have app: "sled_append E a st = (Inr (), st2)"
    using st1 st2(1) seq by (simp add: sled_append_def append_atoms_def)
  have w: "world_from_key (atom_key ?w (a_id a)) = Some ?w" "world_from_key (log_key ?w n) = Some ?w" for n
    using assms(3) by (simp_all add: world_from_atom_key world_from_log_key takeWhile_slash_free)
  have "world_names E st2 = insert ?w (world_names E st)"
  proof (rule set_eqI)
    fix x
    show "x \<in> world_names E st2 \<longleftrightarrow> x \<in> insert ?w (world_names E st)"
    proof
      assume "x \<in> world_names E st2"
      then obtain k v where k: "kv E st2 k = Some v" "starts_with k ''world/''" "world_from_key k = Some x"
        by (auto simp: world_names_def)
      have "k \<noteq> atom_index_key (a_id a)" using k(2) index_not_world by metis
      then have "k = atom_key ?w (a_id a) \<or> k = log_key ?w (log_end E st ?w) \<or> kv E st k = Some v"
        using k(1) by (simp add: st2(2) kv1 split: if_splits)
      then show "x \<in> insert ?w (world_names E st)" using k(2,3) w by (auto simp: world_names_def)
    next
      assume "x \<in> insert ?w (world_names E st)"
      then consider "x = ?w" | k v where "kv E st k = Some v" "starts_with k ''world/''" "world_from_key k = Some x"
        by (auto simp: world_names_def)
      then show "x \<in> world_names E st2"
      proof cases
        case 1
        have "kv E st2 (log_key ?w (log_end E st ?w)) = Some fb"
          by (simp add: st2(2) kv1 index_key_apart(2) [THEN not_sym])
        then show ?thesis using 1 w(2) unfolding world_names_def by fastforce
      next
        case 2
        then have "\<exists>v. kv E st2 k = Some v" by (simp add: st2(2) kv1)
        then show ?thesis using 2 unfolding world_names_def by blast
      qed
    qed
  qed
  then show ?thesis
    using app sled_worlds_names [OF t, of st] sled_worlds_names [OF t, of st2] by metis
qed

theorem worlds_after_append_witness:
  "\<exists>st' ws ws'. sled_append alist_env (sample_atom ''a1'' ''w'' ''{}'') (plain_store []) = (Inr (), st')
    \<and> sled_worlds alist_env (plain_store []) = Inr ws \<and> sled_worlds alist_env st' = Inr ws' \<and> distinct ws'
    \<and> set ws' = insert (a_world (sample_atom ''a1'' ''w'' ''{}'')) (set ws)"
  by (rule worlds_after_append [OF alist_env_ok empty_store_ok]) (simp_all add: log_room_def)


section \<open>Identifiers that are used twice\<close>

text \<open>The tree after one successful append, with the bytes that were written.\<close>

lemma sled_append_kv:
  assumes "sled_env_ok E" "store_ok E st" "slash_free (a_world a)" "log_room E st (a_world a) 1"
  obtains st' b fb ix where "sled_append E a st = (Inr (), st')" "same_config st st'" "store_ok E st'"
    "encode_atom E st a = Inr b"
    "frame_of E fb = Some \<lparr>lf_atom_id = a_id a, lf_checksum = crc32 E b, lf_len = length b\<rparr>"
    "kv E st' = (kv E st)(atom_key (a_world a) (a_id a) \<mapsto> b,
       log_key (a_world a) (log_end E st (a_world a)) \<mapsto> fb, atom_index_key (a_id a) \<mapsto> ix)"
    "log_items E st' (a_world a) = log_items E st (a_world a)
       @ [(log_key (a_world a) (log_end E st (a_world a)), fb)]"
    "\<forall>w. slash_free w \<longrightarrow> w \<noteq> a_world a \<longrightarrow> log_items E st' w = log_items E st w"
    "\<forall>w. slash_free w \<longrightarrow> log_atoms E st' w =
         (if w = a_world a then log_put a (log_atoms E st w) else log_atoms E st w)"
proof -
  let ?w = "a_world a" and ?n = "log_end E st (a_world a)"
  have t: "tree_ok E" using assms(1) by (simp add: sled_env_ok_def)
  have n: "?n \<le> u64_max" using assms(4) by (simp add: log_room_def u64_max_def)
  then have seq: "next_seq E st ?w = ?n"
    by (simp add: next_seq_log_end [OF t assms(2,3)] u64_max_def)
  obtain st1 b fb ix where st1: "append_one E ?w ?n a st = (Inr (), st1)"
    and b: "encode_atom E st a = Inr b" "decode_atom E st b = Inr a"
    and fb: "decode_frame E fb = Inr \<lparr>lf_atom_id = a_id a, lf_checksum = crc32 E b, lf_len = length b\<rparr>"
    and "decode_index E ix = Inr \<lparr>ie_world = ?w, ie_seq = ?n\<rparr>"
    and kv1: "kv E st1 = (kv E st)(atom_key ?w (a_id a) \<mapsto> b, log_key ?w ?n \<mapsto> fb,
      atom_index_key (a_id a) \<mapsto> ix)"
    and same1: "same_config st st1"
    by (rule append_one_kv [OF assms(1,2)])
  obtain st2 where st2: "flush_if_needed E st1 = (Inr (), st2)" "kv E st2 = kv E st1" "same_config st1 st2"
    using flush_ok [OF t] by blast
  have app: "sled_append E a st = (Inr (), st2)"
    using st1 st2(1) seq by (simp add: sled_append_def append_atoms_def)
  then have ok: "store_ok E st2" and logs: "\<forall>w. slash_free w \<longrightarrow> log_atoms E st2 w =
         (if w = ?w then log_put a (log_atoms E st w) else log_atoms E st w)"
    using append_atoms_ok [OF assms(1-3), of "[a]"] assms(4) by (auto simp: sled_append_def)
  note kv2 = kv1 [folded st2(2)]
  have items: "log_items E st2 ?w = log_items E st ?w @ [(log_key ?w ?n, fb)]"
    using t assms n atom_key_not_log_prefix [OF assms(3,3)]
    by (intro log_items_snoc) (auto simp: kv2)
  have other: "\<forall>w. slash_free w \<longrightarrow> w \<noteq> ?w \<longrightarrow> log_items E st2 w = log_items E st w"
  proof (intro allI impI)
    fix w assume w: "slash_free w" "w \<noteq> ?w"
    then show "log_items E st2 w = log_items E st w"
      using atom_key_not_log_prefix [OF w(1) assms(3)] log_prefix_world [OF w(1) assms(3)]
      by (intro log_items_same [OF t]) (auto simp: kv2)
  qed
  have frame: "frame_of E fb = Some \<lparr>lf_atom_id = a_id a, lf_checksum = crc32 E b, lf_len = length b\<rparr>"
    by (simp add: frame_of_def fb)
  show ?thesis
    by (rule that [OF app same_config_trans [OF same1 st2(3)] ok b(1) frame kv2 items other logs])
qed

lemma frame_good_same:
  assumes "\<And>f. frame_of E (snd e) = Some f \<Longrightarrow>
     kv E st' (atom_key w (lf_atom_id f)) = kv E st (atom_key w (lf_atom_id f))"
  shows "frame_good E st' w e = frame_good E st w e"
  using assms by (simp add: frame_good_def split: option.split)

text \<open>A write under an id its world has not used keeps the store clean and extends the log.\<close>

lemma fresh_append_clean:
  assumes "sled_env_ok E" and "store_ok E st" and "store_clean E st" and "slash_free (a_world a)"
    and "log_room E st (a_world a) 1" and "kv E st (atom_key (a_world a) (a_id a)) = None"
    and app0: "sled_append E a st = (Inr (), st')"
  shows "store_clean E st'"
proof -
  let ?w = "a_world a"
  have t: "tree_ok E" using assms(1) by (simp add: sled_env_ok_def)
  obtain s1 b fb ix where app: "sled_append E a st = (Inr (), s1)" and same: "same_config st s1"
    and ok: "store_ok E s1" and "encode_atom E st a = Inr b"
    and fb: "frame_of E fb = Some \<lparr>lf_atom_id = a_id a, lf_checksum = crc32 E b, lf_len = length b\<rparr>"
    and kv': "kv E s1 = (kv E st)(atom_key ?w (a_id a) \<mapsto> b, log_key ?w (log_end E st ?w) \<mapsto> fb,
      atom_index_key (a_id a) \<mapsto> ix)"
    and items: "log_items E s1 ?w = log_items E st ?w @ [(log_key ?w (log_end E st ?w), fb)]"
    and other: "\<forall>w. slash_free w \<longrightarrow> w \<noteq> ?w \<longrightarrow> log_items E s1 w = log_items E st w"
    and logs: "\<forall>w. slash_free w \<longrightarrow> log_atoms E s1 w =
         (if w = ?w then log_put a (log_atoms E st w) else log_atoms E st w)"
    by (rule sled_append_kv [OF assms(1,2,4,5)])
  have eq: "s1 = st'" using app app0 by simp
  have old: "frame_good E s1 w e" if w: "slash_free w" and e: "e \<in> set (log_items E st w)" for w e
  proof -
    obtain f c where f: "frame_of E (snd e) = Some f" "kv E st (atom_key w (lf_atom_id f)) = Some c"
      using log_item_ok [OF t assms(2) w e] by (auto simp: body_def split: option.splits)
    have "\<not> (w = ?w \<and> lf_atom_id f = a_id a)" using f(2) assms(6) by auto
    then have "kv E s1 (atom_key w (lf_atom_id f)) = kv E st (atom_key w (lf_atom_id f))"
      using atom_key_eq [OF w assms(4)] atom_key_neq_log_key [OF w assms(4)]
      by (auto simp: kv' index_key_apart(1) [THEN not_sym])
    then show ?thesis
      using f(1) assms(3) w e frame_good_same [of E e s1 w st] by (auto simp: store_clean_def log_clean_def)
  qed
  have new: "frame_good E s1 ?w (log_key ?w (log_end E st ?w), fb)"
    using atom_key_neq_log_key [OF assms(4,4)]
    by (simp add: frame_good_def fb kv' index_key_apart(1) [THEN not_sym])
  have "store_clean E s1"
    unfolding store_clean_def log_clean_def
  proof (intro allI impI ballI)
    fix w e assume "slash_free w" "e \<in> set (log_items E s1 w)"
    then show "frame_good E s1 w e"
      using old [of w e] new items other by (cases "w = ?w") auto
  qed
  then show ?thesis by (simp add: eq)
qed

text \<open>
  A write under a fresh id survives a restart: from a clean store, appending an atom whose id
  its world has not used and reopening the tree gives the old log with the atom at its end.
\<close>

theorem fresh_append_survives_reopen:
  assumes "sled_env_ok E" and "store_ok E st" and "store_clean E st" and "slash_free (a_world a)"
    and "log_room E st (a_world a) 1" and "kv E st (atom_key (a_world a) (a_id a)) = None"
  shows "\<exists>st' st''. sled_append E a st = (Inr (), st')
    \<and> sled_open E \<lparr>sc_flush_on_write = ss_flush_on_write st',
        sc_encryption_enabled = ss_encryption_enabled st', sc_key_id = ss_key_id st'\<rparr>
        (ss_key_provider st') (Inr (ss_db st')) = Inr st''
    \<and> log_atoms E st'' (a_world a) = log_atoms E st (a_world a) @ [a]"
proof -
  let ?w = "a_world a"
  have t: "tree_ok E" using assms(1) by (simp add: sled_env_ok_def)
  obtain st' b fb ix where app: "sled_append E a st = (Inr (), st')" and same: "same_config st st'"
    and ok: "store_ok E st'" and "encode_atom E st a = Inr b"
    and fb: "frame_of E fb = Some \<lparr>lf_atom_id = a_id a, lf_checksum = crc32 E b, lf_len = length b\<rparr>"
    and kv': "kv E st' = (kv E st)(atom_key ?w (a_id a) \<mapsto> b, log_key ?w (log_end E st ?w) \<mapsto> fb,
      atom_index_key (a_id a) \<mapsto> ix)"
    and items: "log_items E st' ?w = log_items E st ?w @ [(log_key ?w (log_end E st ?w), fb)]"
    and other: "\<forall>w. slash_free w \<longrightarrow> w \<noteq> ?w \<longrightarrow> log_items E st' w = log_items E st w"
    and logs: "\<forall>w. slash_free w \<longrightarrow> log_atoms E st' w =
         (if w = ?w then log_put a (log_atoms E st w) else log_atoms E st w)"
    by (rule sled_append_kv [OF assms(1,2,4,5)])
  have "store_clean E st'" by (rule fresh_append_clean [OF assms app])
  moreover have "log_atoms E st' ?w = log_atoms E st ?w @ [a]"
  proof -
    have "a_id x \<noteq> a_id a" if "x \<in> set (log_atoms E st ?w)" for x
    proof -
      from that obtain i where i: "body E st ?w i = Some x"
        by (auto simp: log_atoms_items items_atoms_def List.map_filter_def bind_eq_Some_conv)
      then have "kv E st (atom_key ?w i) \<noteq> None" by (auto simp: body_def split: option.splits)
      then show ?thesis using body_fields [OF assms(2,4) i] assms(6) by auto
    qed
    then have "map (\<lambda>x. if a_id x = a_id a then a else x) (log_atoms E st ?w) = log_atoms E st ?w"
      by (intro map_idI) simp
    then show ?thesis using logs assms(4) by (simp add: log_put_def)
  qed
  ultimately show ?thesis using app reopen_logs [OF t ok] index_only_log(2) [OF t] by metis
qed

theorem fresh_append_survives_reopen_witness:
  "\<exists>st' st''. sled_append alist_env (sample_atom ''a1'' ''w'' ''{}'') (plain_store []) = (Inr (), st')
    \<and> sled_open alist_env \<lparr>sc_flush_on_write = ss_flush_on_write st',
        sc_encryption_enabled = ss_encryption_enabled st', sc_key_id = ss_key_id st'\<rparr>
        (ss_key_provider st') (Inr (ss_db st')) = Inr st''
    \<and> log_atoms alist_env st'' (a_world (sample_atom ''a1'' ''w'' ''{}''))
        = log_atoms alist_env (plain_store []) (a_world (sample_atom ''a1'' ''w'' ''{}''))
          @ [sample_atom ''a1'' ''w'' ''{}'']"
  by (rule fresh_append_survives_reopen [OF alist_env_ok empty_store_ok])
    (simp_all add: log_room_def store_clean_def log_clean_def)


text \<open>
  C9: A write under an id that the world has used already destroys data at the next open. The
  body of the first frame with that id is replaced, its checksum no longer fits, and repair cuts
  the log there: every entry from that frame on is lost, the new one included.
\<close>

theorem id_reuse_truncates_log:
  assumes "sled_env_ok E" and "store_ok E st" and "log_clean E st (a_world a)" and "slash_free (a_world a)"
    and "log_room E st (a_world a) 1" and "a_id a \<in> a_id ` set (log_atoms E st (a_world a))"
    and "kv E st (atom_key (a_world a) (a_id a)) = Some old" and "encode_atom E st a = Inr new"
    and "crc32 E new \<noteq> crc32 E old"
  shows "\<exists>st' st''. sled_append E a st = (Inr (), st')
    \<and> repair_world_log E (a_world a) st' = (Inr (), st'')
    \<and> log_atoms E st'' (a_world a) = takeWhile (\<lambda>x. a_id x \<noteq> a_id a) (log_atoms E st (a_world a))"
proof -
  let ?w = "a_world a" and ?k = "log_key (a_world a) (log_end E st (a_world a))"
  have t: "tree_ok E" using assms(1) by (simp add: sled_env_ok_def)
  obtain st' b fb ix where app: "sled_append E a st = (Inr (), st')" and same: "same_config st st'"
    and ok: "store_ok E st'" and b: "encode_atom E st a = Inr b"
    and fb: "frame_of E fb = Some \<lparr>lf_atom_id = a_id a, lf_checksum = crc32 E b, lf_len = length b\<rparr>"
    and kv': "kv E st' = (kv E st)(atom_key ?w (a_id a) \<mapsto> b, ?k \<mapsto> fb, atom_index_key (a_id a) \<mapsto> ix)"
    and items: "log_items E st' ?w = log_items E st ?w @ [(?k, fb)]"
    and "\<forall>w. slash_free w \<longrightarrow> w \<noteq> ?w \<longrightarrow> log_items E st' w = log_items E st w"
    and "\<forall>w. slash_free w \<longrightarrow> log_atoms E st' w =
         (if w = ?w then log_put a (log_atoms E st w) else log_atoms E st w)"
    by (rule sled_append_kv [OF assms(1,2,4,5)])
  have keys: "kv E st' (atom_key ?w i) = (if i = a_id a then Some new else kv E st (atom_key ?w i))" for i
    using atom_key_eq [OF assms(4,4)] atom_key_neq_log_key [OF assms(4,4)] b assms(8)
    by (simp add: kv' index_key_apart(1) [THEN not_sym])
  let ?id = "\<lambda>e. map_option lf_atom_id (frame_of E (snd e))"
  have good: "frame_good E st' ?w e \<longleftrightarrow> ?id e \<noteq> Some (a_id a)" if e: "e \<in> set (log_items E st ?w)" for e
  proof -
    have "frame_good E st ?w e" using assms(3) e by (simp add: log_clean_def)
    then show ?thesis using assms(7,9) by (auto simp: frame_good_def keys split: option.splits)
  qed
  have some: "\<exists>f x. frame_of E (snd e) = Some f \<and> body E st ?w (lf_atom_id f) = Some x \<and> a_id x = lf_atom_id f"
    if "e \<in> set (log_items E st ?w)" for e
    using log_item_ok [OF t assms(2,4) that] body_fields [OF assms(2,4)] by blast
  obtain e0 where e0: "e0 \<in> set (log_items E st ?w)" "?id e0 = Some (a_id a)"
  proof -
    obtain x where x: "x \<in> set (items_atoms E st ?w (log_items E st ?w))" "a_id x = a_id a"
      using assms(6) by (auto simp: log_atoms_items)
    then obtain e f where "e \<in> set (log_items E st ?w)" "frame_of E (snd e) = Some f"
      "body E st ?w (lf_atom_id f) = Some x"
      by (auto simp: items_atoms_def List.map_filter_def bind_eq_Some_conv)
    then show thesis using that [of e] x(2) body_fields [OF assms(2,4)] by force
  qed
  have "\<not> frame_good E st' ?w e0" using good [OF e0(1)] e0(2) by simp
  then have cut: "takeWhile (frame_good E st' ?w) (log_items E st' ?w)
      = takeWhile (\<lambda>e. ?id e \<noteq> Some (a_id a)) (log_items E st ?w)"
    unfolding items using takeWhile_append1 [OF e0(1)] good by (simp cong: takeWhile_cong)
  obtain st'' where st'': "repair_world_log E ?w st' = (Inr (), st'')" "same_config st' st''"
    and kv'': "\<And>k. kv E st'' k =
      (if k \<in> fst ` set (dropWhile (frame_good E st' ?w) (log_items E st' ?w)) then None else kv E st' k)"
    using repair_world_log_ok [OF t log_keyed_store [OF t ok assms(4)]] by blast
  have items'': "log_items E st'' ?w = takeWhile (\<lambda>e. ?id e \<noteq> Some (a_id a)) (log_items E st ?w)"
    using repaired_items [OF t kv''] cut by simp
  have bod: "body E st'' ?w i = body E st ?w i" if "i \<noteq> a_id a" for i
  proof -
    have "atom_key ?w i \<notin> fst ` set (dropWhile (frame_good E st' ?w) (log_items E st' ?w))"
    proof
      assume "atom_key ?w i \<in> fst ` set (dropWhile (frame_good E st' ?w) (log_items E st' ?w))"
      then obtain e where "e \<in> set (log_items E st' ?w)" "fst e = atom_key ?w i"
        using set_dropWhileD by fastforce
      then show False using log_items_kv [OF t] atom_key_not_log_prefix [OF assms(4,4)] by metis
    qed
    then have "kv E st'' (atom_key ?w i) = kv E st (atom_key ?w i)" using that by (simp add: kv'' keys)
    then show ?thesis using same_config_trans [OF same st''(2)] by (intro body_same)
  qed
  have "items_atoms E st'' ?w (takeWhile (\<lambda>e. ?id e \<noteq> Some (a_id a)) xs)
      = takeWhile (\<lambda>x. a_id x \<noteq> a_id a) (items_atoms E st ?w xs)"
    if "set xs \<subseteq> set (log_items E st ?w)" for xs
    using that
  proof (induction xs)
    case (Cons e xs)
    obtain f x where "frame_of E (snd e) = Some f" "body E st ?w (lf_atom_id f) = Some x"
      "a_id x = lf_atom_id f"
      using some [of e] Cons.prems by auto
    then show ?case using Cons bod [of "lf_atom_id f"] by auto
  qed simp
  then have "log_atoms E st'' ?w = takeWhile (\<lambda>x. a_id x \<noteq> a_id a) (log_atoms E st ?w)"
    by (simp add: log_atoms_items items'')
  then show ?thesis using app st''(1) by blast
qed

definition one_atom :: "alist_db sled_storage" where
  "one_atom = snd (sled_append alist_env (sample_atom ''a1'' ''w'' ''{}'') (plain_store []))"

lemma one_atom_append:
  "sled_append alist_env (sample_atom ''a1'' ''w'' ''{}'') (plain_store []) = (Inr (), one_atom)"
  "store_ok alist_env one_atom" "log_atoms alist_env one_atom ''w'' = [sample_atom ''a1'' ''w'' ''{}'']"
  "log_end alist_env one_atom ''w'' = 1"
  using append_atoms_ok [OF alist_env_ok empty_store_ok, of "''w''" "[sample_atom ''a1'' ''w'' ''{}'']"]
  by (auto simp: one_atom_def sled_append_def log_room_def log_put_def)

lemma one_atom_store_clean: "store_clean alist_env one_atom"
  using fresh_append_clean [OF alist_env_ok empty_store_ok, of "sample_atom ''a1'' ''w'' ''{}''" one_atom]
  by (simp add: one_atom_append store_clean_def log_clean_def log_room_def)

lemma one_atom_clean: "log_clean alist_env one_atom ''w''"
  using one_atom_store_clean by (simp add: store_clean_def)

text \<open>Another atom in a second world: a store with frames, bodies and two worlds to repair.\<close>

definition two_worlds :: "alist_db sled_storage" where
  "two_worlds = snd (sled_append alist_env (sample_atom ''a2'' ''v'' ''[]'') one_atom)"

lemma two_worlds_facts:
  "store_ok alist_env two_worlds" "store_clean alist_env two_worlds"
  "log_atoms alist_env two_worlds ''w'' = [sample_atom ''a1'' ''w'' ''{}'']"
  "log_atoms alist_env two_worlds ''v'' = [sample_atom ''a2'' ''v'' ''[]'']"
proof -
  let ?a = "sample_atom ''a2'' ''v'' ''[]''"
  have v: "log_end alist_env one_atom ''v'' = 0 \<and> log_atoms alist_env one_atom ''v'' = []"
    using append_atoms_ok [OF alist_env_ok empty_store_ok, of "''w''" "[sample_atom ''a1'' ''w'' ''{}'']"]
    by (auto simp: one_atom_def sled_append_def log_room_def)
  have "log_room alist_env one_atom ''v'' 1" using v by (simp add: log_room_def)
  then have app: "sled_append alist_env ?a one_atom = (Inr (), two_worlds)" "store_ok alist_env two_worlds"
    "log_atoms alist_env two_worlds ''v'' = [?a]"
    "log_atoms alist_env two_worlds ''w'' = log_atoms alist_env one_atom ''w''"
    using append_atoms_ok [OF alist_env_ok one_atom_append(2), of "''v''" "[?a]"] v
    by (auto simp: two_worlds_def sled_append_def log_put_def)
  have "kv alist_env one_atom (atom_key ''v'' ''a2'') = None"
  proof -
    let ?b = "sample_atom ''a1'' ''w'' ''{}''"
    have free: "slash_free (a_world ?b)" "slash_free ''v''" and room: "log_room alist_env (plain_store []) (a_world ?b) 1"
      by (simp_all add: log_room_def)
    obtain st' b fb ix where st': "sled_append alist_env ?b (plain_store []) = (Inr (), st')"
      and kv: "kv alist_env st' = (kv alist_env (plain_store []))(atom_key (a_world ?b) (a_id ?b) \<mapsto> b,
        log_key (a_world ?b) (log_end alist_env (plain_store []) (a_world ?b)) \<mapsto> fb, atom_index_key (a_id ?b) \<mapsto> ix)"
      by (rule sled_append_kv [OF alist_env_ok empty_store_ok free(1) room])
    have "atom_key ''v'' ''a2'' \<noteq> atom_key (a_world ?b) (a_id ?b)"
      using atom_key_eq [OF free(2,1)] by simp
    then show ?thesis
      using st' one_atom_append(1) kv atom_key_neq_log_key [OF free(2,1)] index_key_apart(1) [THEN not_sym] by auto
  qed
  then show "store_clean alist_env two_worlds"
    using fresh_append_clean [OF alist_env_ok one_atom_append(2) one_atom_store_clean, of ?a two_worlds] app(1) v
    by (simp add: log_room_def)
  show "store_ok alist_env two_worlds" "log_atoms alist_env two_worlds ''v'' = [?a]"
    "log_atoms alist_env two_worlds ''w'' = [sample_atom ''a1'' ''w'' ''{}'']"
    using app one_atom_append(3) by simp_all
qed

theorem reopen_preserves_logs_witness:
  "\<exists>st'. sled_open alist_env \<lparr>sc_flush_on_write = ss_flush_on_write two_worlds,
        sc_encryption_enabled = ss_encryption_enabled two_worlds, sc_key_id = ss_key_id two_worlds\<rparr>
      (ss_key_provider two_worlds) (Inr (ss_db two_worlds)) = Inr st'
    \<and> log_atoms alist_env st' ''w'' = [sample_atom ''a1'' ''w'' ''{}'']
    \<and> log_atoms alist_env st' ''v'' = [sample_atom ''a2'' ''v'' ''[]'']"
  using reopen_preserves_logs [OF alist_env_ok two_worlds_facts(1,2)] by (auto simp: two_worlds_facts)

lemma sample_encoding:
  "\<not> ss_encryption_enabled st \<Longrightarrow> encode_atom alist_env st a = Inr (put_groups (atom_groups a))"
  by (simp add: encode_atom_def alist_env_def)

lemma one_atom_tree:
  "kv alist_env one_atom (atom_key ''w'' ''a1'')
     = Some (put_groups (atom_groups (sample_atom ''a1'' ''w'' ''{}'')))
   \<and> \<not> ss_encryption_enabled one_atom"
proof -
  let ?a = "sample_atom ''a1'' ''w'' ''{}''"
  let ?k = "log_key (a_world ?a) (log_end alist_env (plain_store []) (a_world ?a))"
  have free: "slash_free (a_world ?a)" and room: "log_room alist_env (plain_store []) (a_world ?a) 1"
    by (simp_all add: log_room_def)
  obtain st' b fb ix where app: "sled_append alist_env ?a (plain_store []) = (Inr (), st')"
    and same: "same_config (plain_store []) st'" and "store_ok alist_env st'"
    and b: "encode_atom alist_env (plain_store []) ?a = Inr b"
    and "frame_of alist_env fb = Some \<lparr>lf_atom_id = a_id ?a, lf_checksum = crc32 alist_env b, lf_len = length b\<rparr>"
    and kv': "kv alist_env st' = (kv alist_env (plain_store []))(atom_key (a_world ?a) (a_id ?a) \<mapsto> b,
       ?k \<mapsto> fb, atom_index_key (a_id ?a) \<mapsto> ix)"
    and "log_items alist_env st' (a_world ?a) = log_items alist_env (plain_store []) (a_world ?a) @ [(?k, fb)]"
    and "\<forall>w. slash_free w \<longrightarrow> w \<noteq> a_world ?a \<longrightarrow>
       log_items alist_env st' w = log_items alist_env (plain_store []) w"
    and "\<forall>w. slash_free w \<longrightarrow> log_atoms alist_env st' w = (if w = a_world ?a
       then log_put ?a (log_atoms alist_env (plain_store []) w) else log_atoms alist_env (plain_store []) w)"
    by (rule sled_append_kv [OF alist_env_ok empty_store_ok free room])
  have st': "st' = one_atom" using app one_atom_append(1) by simp
  have "b = put_groups (atom_groups ?a)"
    using b sample_encoding [of "plain_store []" ?a] by (simp add: plain_store_def)
  then have "kv alist_env st' (atom_key ''w'' ''a1'') = Some (put_groups (atom_groups ?a))"
    using atom_key_neq_log_key [of "''w''" "''w''"]
    by (simp add: kv' index_key_apart(1) [THEN not_sym])
  moreover have "\<not> ss_encryption_enabled st'" using same_config_fields [OF same] by (simp add: plain_store_def)
  ultimately show ?thesis by (simp add: st')
qed

theorem id_reuse_truncates_log_witness:
  "\<exists>st' st''. sled_append alist_env (sample_atom ''a1'' ''w'' ''[]'') one_atom = (Inr (), st')
    \<and> repair_world_log alist_env ''w'' st' = (Inr (), st'')
    \<and> log_atoms alist_env st'' ''w'' = []"
proof -
  let ?old = "put_groups (atom_groups (sample_atom ''a1'' ''w'' ''{}''))"
  let ?new = "put_groups (atom_groups (sample_atom ''a1'' ''w'' ''[]''))"
  have crc: "crc32 alist_env ?new \<noteq> crc32 alist_env ?old"
    by (simp add: alist_env_def put_groups_def put_group_def put_text_def atom_groups_def sample_atom_def)
  have enc: "encode_atom alist_env one_atom (sample_atom ''a1'' ''w'' ''[]'') = Inr ?new"
    using one_atom_tree by (intro sample_encoding) simp
  show ?thesis
    using id_reuse_truncates_log [OF alist_env_ok one_atom_append(2), of "sample_atom ''a1'' ''w'' ''[]''" ?old ?new]
    by (simp add: one_atom_clean one_atom_append log_room_def one_atom_tree enc crc)
qed

end
