(* ===== verification/Sled_Provider.thy ===== *)
theory Sled_Provider
  imports Contracts Sled_Ops
begin

text \<open>
  The sled store as the engine's storage component. Its invariant is \<open>store_ok\<close> together with
  \<open>index_ok\<close>: the id index names only worlds whose keys are read back. Under it a lookup by id
  finds an atom exactly when some world holds a body for the id.
\<close>

definition sled_api :: "'db sled_env \<Rightarrow> time_api \<Rightarrow> 'db sled_storage storage_api" where
  "sled_api E api =
     \<lparr>st_append = sled_append E, st_get_by_ids = get_by_ids E, st_scan = sled_scan E, st_stats = sled_stats E,
      st_list_ids = list_ids_in_window E api, st_delete = delete_atoms E, st_worlds = sled_worlds E\<rparr>"

definition index_ok :: "'db sled_env \<Rightarrow> 'db sled_storage \<Rightarrow> bool" where
  "index_ok E st \<longleftrightarrow> (\<forall>i v e. kv E st (atom_index_key i) = Some v \<longrightarrow> decode_index E v = Inr e
     \<longrightarrow> slash_free (ie_world e))"

definition sled_inv :: "'db sled_env \<Rightarrow> 'db sled_storage \<Rightarrow> bool" where
  "sled_inv E st \<longleftrightarrow> sled_env_ok E \<and> store_ok E st \<and> index_ok E st"

definition stored_id :: "'db sled_env \<Rightarrow> 'db sled_storage \<Rightarrow> atom_id \<Rightarrow> bool" where
  "stored_id E st i \<longleftrightarrow> (\<exists>w. slash_free w \<and> body E st w i \<noteq> None)"

section \<open>Lookup by id\<close>

lemma second_piece: "slash_free w \<Longrightarrow> split_on (CHR ''/'') (''world/'' @ w @ CHR ''/'' # s) ! 1 = w
    \<and> 1 < length (split_on (CHR ''/'') (''world/'' @ w @ CHR ''/'' # s))"
proof -
  assume w: "slash_free w"
  have 1: "split_on (CHR ''/'') (''world/'' @ r) = ''world'' # split_on (CHR ''/'') r" for r
    using split_on_sep [of "CHR ''/''" "''world''" r] by simp
  have "hd (split_on (CHR ''/'') (w @ CHR ''/'' # s)) = w"
    unfolding hd_split_on using w by (induction w) auto
  then show ?thesis
    unfolding 1 by (cases "split_on (CHR ''/'') (w @ CHR ''/'' # s)") auto
qed

text \<open>What the fallback reads for a key of a sound store.\<close>

lemma world_key_piece:
  assumes "store_ok E st" "kv E st k = Some v" "starts_with k ''world/''"
  obtains w where "slash_free w" "split_on (CHR ''/'') k ! 1 = w" "1 < length (split_on (CHR ''/'') k)"
proof -
  have "atom_entry_ok E st k v \<or> log_entry_ok E st k v" using assms by (simp add: store_ok_def)
  then obtain w s where "slash_free w" "k = ''world/'' @ w @ CHR ''/'' # s"
    by (auto simp: atom_entry_ok_def log_entry_ok_def atom_key_def log_key_def)
  then show ?thesis using second_piece [of w s] that by simp
qed

lemma legacy_lookup_items:
  assumes "tree_ok E" "store_ok E st"
    and "\<forall>e \<in> set items. kv E st (fst e) = Some (snd e) \<and> starts_with (fst e) ''world/''"
  shows "\<exists>r. legacy_lookup E st i (map Inr items) = Inr r
    \<and> (r \<noteq> None \<longleftrightarrow> (\<exists>e \<in> set items. ends_with (fst e) (''/atoms/'' @ i)
         \<and> body E st (split_on (CHR ''/'') (fst e) ! 1) i \<noteq> None))"
  using assms(3)
proof (induction items)
  case (Cons e items)
  obtain k v where e: "e = (k, v)" by (cases e)
  obtain w where w: "slash_free w" "split_on (CHR ''/'') k ! 1 = w" "1 < length (split_on (CHR ''/'') k)"
    using world_key_piece [OF assms(2), of k v] Cons.prems e by auto
  have read: "atom_from_store E st i w = Inr (body E st w i)"
    by (rule atom_from_store_ok [OF assms(1,2) w(1)])
  obtain r where r: "legacy_lookup E st i (map Inr items) = Inr r"
    "r \<noteq> None \<longleftrightarrow> (\<exists>e \<in> set items. ends_with (fst e) (''/atoms/'' @ i)
         \<and> body E st (split_on (CHR ''/'') (fst e) ! 1) i \<noteq> None)"
    using Cons by auto
  show ?case using r w(2,3) read unfolding e by (cases "body E st w i") (auto simp: Let_def)
qed simp

lemma get_by_id_stored:
  assumes "sled_inv E st"
  shows "\<exists>r. get_by_id E st i = Inr r \<and> (r \<noteq> None \<longleftrightarrow> stored_id E st i)"
proof -
  have t: "tree_ok E" and ok: "store_ok E st" and ix: "index_ok E st"
    using assms by (auto simp: sled_inv_def sled_env_ok_def)
  let ?items = "filter (\<lambda>e. starts_with (fst e) ''world/'') (entries E (ss_db st))"
  have mem: "e \<in> set ?items \<longleftrightarrow> kv E st (fst e) = Some (snd e) \<and> starts_with (fst e) ''world/''" for e
    using scan_worlds(2) [OF t, of "fst e" "snd e" st] by auto
  obtain r where r: "legacy_lookup E st i (map Inr ?items) = Inr r"
    "r \<noteq> None \<longleftrightarrow> (\<exists>e \<in> set ?items. ends_with (fst e) (''/atoms/'' @ i)
         \<and> body E st (split_on (CHR ''/'') (fst e) ! 1) i \<noteq> None)"
    using legacy_lookup_items [OF t ok, of ?items i] mem by blast
  have "r \<noteq> None \<longleftrightarrow> stored_id E st i"
  proof
    assume "r \<noteq> None"
    then obtain e where e: "e \<in> set ?items" "body E st (split_on (CHR ''/'') (fst e) ! 1) i \<noteq> None"
      using r(2) by blast
    obtain w where "slash_free w" "split_on (CHR ''/'') (fst e) ! 1 = w"
      using world_key_piece [OF ok, of "fst e" "snd e"] e(1) mem by auto
    then show "stored_id E st i" using e(2) by (auto simp: stored_id_def)
  next
    assume "stored_id E st i"
    then obtain w where w: "slash_free w" "body E st w i \<noteq> None" by (auto simp: stored_id_def)
    then obtain b where b: "kv E st (atom_key w i) = Some b" by (auto simp: body_def split: option.splits)
    have "split_on (CHR ''/'') (atom_key w i) ! 1 = w"
      using second_piece [OF w(1), of "''atoms/'' @ i"] by (simp add: atom_key_def)
    moreover have "ends_with (atom_key w i) (''/atoms/'' @ i)"
      by (simp add: atom_key_def ends_with_def starts_with_iff)
    ultimately show "r \<noteq> None"
      using r(2) mem [of "(atom_key w i, b)"] b w(2) by force
  qed
  moreover have "sl_scan E (ss_db st) ''world/'' = map Inr ?items" by (rule scan_worlds(1) [OF t])
  moreover have "atom_from_store E st i (ie_world e) = Inr (body E st (ie_world e) i)"
    "body E st (ie_world e) i \<noteq> None \<Longrightarrow> stored_id E st i"
    if "kv E st (atom_index_key i) = Some v" "decode_index E v = Inr e" for v e
    using that ix atom_from_store_ok [OF t ok] by (auto simp: index_ok_def stored_id_def)
  ultimately show ?thesis
    using r(1) t unfolding get_by_id_def
    by (cases "kv E st (atom_index_key i)")
      (auto split: sum.split option.split simp del: split_paired_Ex)
qed

section \<open>Appending and deleting\<close>

lemma sled_append_bodies:
  assumes "sled_inv E st" "slash_free (a_world a)" "log_room E st (a_world a) 1"
  obtains st' where "sled_append E a st = (Inr (), st')" "index_ok E st'"
    "\<forall>w i. slash_free w \<longrightarrow> body E st' w i = (if w = a_world a \<and> i = a_id a then Some a else body E st w i)"
proof -
  have env: "sled_env_ok E" and t: "tree_ok E" and ok: "store_ok E st" and ix: "index_ok E st"
    using assms(1) by (auto simp: sled_inv_def sled_env_ok_def)
  let ?w = "a_world a"
  have n: "log_end E st ?w \<le> u64_max" using assms(3) by (simp add: log_room_def u64_max_def)
  then have seq: "next_seq E st ?w = log_end E st ?w"
    using next_seq_log_end [OF t ok assms(2)] by (simp add: u64_max_def)
  obtain st1 where st1: "append_one E ?w (log_end E st ?w) a st = (Inr (), st1)"
    and bodies: "\<forall>w i. slash_free w \<longrightarrow> body E st1 w i = (if w = ?w \<and> i = a_id a then Some a else body E st w i)"
    using append_one_ok [OF env ok assms(2) order_refl n] by blast
  obtain st1' bytes fb idx where "append_one E ?w (log_end E st ?w) a st = (Inr (), st1')"
    "encode_atom E st a = Inr bytes" "decode_atom E st bytes = Inr a"
    "decode_frame E fb = Inr \<lparr>lf_atom_id = a_id a, lf_checksum = crc32 E bytes, lf_len = length bytes\<rparr>"
    and idx: "decode_index E idx = Inr \<lparr>ie_world = ?w, ie_seq = log_end E st ?w\<rparr>"
    and kv1: "kv E st1' = (kv E st)(atom_key ?w (a_id a) \<mapsto> bytes, log_key ?w (log_end E st ?w) \<mapsto> fb,
                          atom_index_key (a_id a) \<mapsto> idx)"
    and "same_config st st1'"
    by (rule append_one_kv [OF env ok, where w = ?w and n = "log_end E st ?w" and a = a])
  then have same: "st1' = st1" using st1 by simp
  obtain st2 where st2: "flush_if_needed E st1 = (Inr (), st2)" "kv E st2 = kv E st1" "same_config st1 st2"
    using flush_ok [OF t] by blast
  have "sled_append E a st = (Inr (), st2)"
    using st1 st2(1) seq by (simp add: sled_append_def append_atoms_def)
  moreover have "index_ok E st2"
    using ix idx assms(2) unfolding index_ok_def st2(2) kv1 [unfolded same]
    by (auto split: if_splits)
  moreover have "body E st2 w i = body E st1 w i" for w i using st2 by (intro body_same) simp_all
  ultimately show ?thesis using bodies by (intro that [of st2]) simp_all
qed

lemma delete_loop_kv:
  "tree_ok E \<Longrightarrow> kv E (snd (delete_loop E ids items n st)) k = Some v \<Longrightarrow> kv E st k = Some v"
proof (induction E ids items n st rule: delete_loop.induct)
  case (3 E ids k' v' items n st)
  then show ?case by (auto split: sum.splits if_splits)
qed simp_all

lemma delete_index_ok:
  assumes "tree_ok E" "index_ok E st"
  shows "index_ok E (snd (delete_atoms E w ids st))"
proof -
  have "kv E st k = Some v" if "kv E (snd (delete_atoms E w ids st)) k = Some v" for k v
    using delete_loop_kv [OF assms(1) that [unfolded delete_atoms_def Let_def]]
      delete_bodies_kv [OF assms(1), of w ids st k] by (simp split: if_splits)
  then show ?thesis using assms(2) unfolding index_ok_def by blast
qed

section \<open>The contract\<close>

lemma sled_append_law:
  assumes "sled_inv E st" "slash_free (a_world a)" "log_room E st (a_world a) 1"
  shows "\<exists>st'. sled_append E a st = (Inr (), st') \<and> sled_inv E st'
    \<and> (\<forall>w. slash_free w \<longrightarrow>
         log_atoms E st' w = (if w = a_world a then log_put a (log_atoms E st w) else log_atoms E st w))
    \<and> (\<forall>w k. slash_free w \<longrightarrow> log_room E st w (if w = a_world a then Suc k else k) \<longrightarrow> log_room E st' w k)"
proof -
  have env: "sled_env_ok E" and ok: "store_ok E st" using assms(1) by (auto simp: sled_inv_def)
  obtain st' where st': "append_atoms E (a_world a) [a] st = (Inr [a_id a], st')" "store_ok E st'"
    "log_end E st' (a_world a) = log_end E st (a_world a) + 1"
    "log_atoms E st' (a_world a) = log_put a (log_atoms E st (a_world a))"
    "\<forall>w. slash_free w \<longrightarrow> w \<noteq> a_world a \<longrightarrow> log_atoms E st' w = log_atoms E st w \<and> log_end E st' w = log_end E st w"
    using append_atoms_ok [OF env ok assms(2), of "[a]"] assms(3) by auto
  have app: "sled_append E a st = (Inr (), st')" using st'(1) by (simp add: sled_append_def)
  then have "index_ok E st'" using sled_append_bodies [OF assms] by (metis prod.inject)
  then show ?thesis
    using app env st'(2-5) by (intro exI [of _ st']) (auto simp: sled_inv_def log_room_def)
qed

lemma sled_delete_law:
  assumes "sled_inv E st" "slash_free w"
  shows "\<exists>st'. delete_atoms E w ids st = (Inr (length (filter (\<lambda>a. a_id a \<in> set ids) (log_atoms E st w))), st')
    \<and> sled_inv E st'
    \<and> (\<forall>w'. slash_free w' \<longrightarrow> log_atoms E st' w' =
         (if w' = w then filter (\<lambda>a. a_id a \<notin> set ids) (log_atoms E st w) else log_atoms E st w'))"
proof -
  have env: "sled_env_ok E" and t: "tree_ok E" and ok: "store_ok E st" and ix: "index_ok E st"
    using assms(1) by (auto simp: sled_inv_def sled_env_ok_def)
  obtain st' where st': "delete_atoms E w ids st =
      (Inr (length (filter (\<lambda>a. a_id a \<in> set ids) (log_atoms E st w))), st')"
    "store_ok E st'" "same_config st st'"
    "log_atoms E st' w = filter (\<lambda>a. a_id a \<notin> set ids) (log_atoms E st w)"
    "\<And>w'. slash_free w' \<Longrightarrow> w' \<noteq> w \<Longrightarrow> log_atoms E st' w' = log_atoms E st w'"
    using delete_atoms_ok [OF t ok assms(2), of ids] by blast
  have "index_ok E st'" using delete_index_ok [OF t ix, of w ids] st'(1) by simp
  then show ?thesis using st' env by (intro exI [of _ st']) (auto simp: sled_inv_def)
qed

lemma items_atoms_mem:
  "a \<in> set (items_atoms E st w items) \<Longrightarrow> \<exists>i. body E st w i = Some a"
  by (induction items) (auto split: option.splits)

lemma log_atoms_body:
  assumes "store_ok E st" "slash_free w" "a \<in> set (log_atoms E st w)"
  shows "body E st w (a_id a) = Some a \<and> a_world a = w"
  using items_atoms_mem [of a E st w] assms body_fields [OF assms(1,2)]
  by (fastforce simp: log_atoms_items)

lemma sled_worlds_law:
  assumes "sled_inv E st"
  shows "\<exists>ws. sled_worlds E st = Inr ws \<and> distinct ws \<and> (\<forall>w \<in> set ws. slash_free w)
    \<and> (\<forall>w. slash_free w \<longrightarrow> log_atoms E st w \<noteq> [] \<longrightarrow> w \<in> set ws)"
proof -
  have t: "tree_ok E" and ok: "store_ok E st" using assms by (auto simp: sled_inv_def sled_env_ok_def)
  obtain ws where ws: "sled_worlds E st = Inr ws" "distinct ws" "set ws = world_names E st"
    using sled_worlds_names [OF t] .
  have "w \<in> world_names E st" if w: "slash_free w" "log_atoms E st w \<noteq> []" for w
  proof -
    obtain e where e: "e \<in> set (log_items E st w)" using w(2) by (cases "log_items E st w") (auto simp: log_atoms_items)
    then obtain n where "fst e = log_key w n" using log_item_ok [OF t ok w(1)] by blast
    then show ?thesis
      using e w(1) unfolding log_items_kv [OF t] world_names_def
      by (cases e) (auto simp: world_from_log_key takeWhile_slash_free)
  qed
  then show ?thesis using ws world_names_slash_free [OF ok] by auto
qed

lemma sled_scan_law:
  "sled_inv E st \<Longrightarrow> slash_free w \<Longrightarrow>
   sled_scan E st w f = Inr (if f_world f \<in> {None, Some w} then scan_spec f (log_atoms E st w) else [])"
  using sled_scan_spec [of E st w f] by (simp add: sled_inv_def sled_env_ok_def)

lemma sled_get_law:
  assumes "sled_inv E st"
  shows "\<exists>as. get_by_ids E st [i] = Inr as \<and> (as = [] \<longleftrightarrow> \<not> stored_id E st i)"
proof -
  obtain r where "get_by_id E st i = Inr r" "r \<noteq> None \<longleftrightarrow> stored_id E st i"
    using get_by_id_stored [OF assms] by blast
  then show ?thesis by (cases r) simp_all
qed

lemma sled_known_append:
  assumes "sled_inv E st" "slash_free (a_world a)" "log_room E st (a_world a) 1"
  shows "stored_id E (snd (sled_append E a st)) i \<longleftrightarrow> i = a_id a \<or> stored_id E st i"
  by (rule sled_append_bodies [OF assms]) (use assms(2) in \<open>auto simp: stored_id_def\<close>)

lemma sled_log_world: "sled_inv E st \<Longrightarrow> slash_free w \<Longrightarrow> a \<in> set (log_atoms E st w) \<Longrightarrow> a_world a = w"
  using log_atoms_body [of E st w a] by (simp add: sled_inv_def)

lemma sled_log_functional:
  assumes "sled_inv E st" "slash_free w" "a \<in> set (log_atoms E st w)" "b \<in> set (log_atoms E st w)" "a_id a = a_id b"
  shows "a = b"
proof -
  have ok: "store_ok E st" using assms(1) by (simp add: sled_inv_def)
  have "Some a = body E st w (a_id a)" using log_atoms_body [OF ok assms(2,3)] by (rule conjunct1 [THEN sym])
  also have "\<dots> = body E st w (a_id b)" unfolding assms(5) ..
  also have "\<dots> = Some b" using log_atoms_body [OF ok assms(2,4)] by (rule conjunct1)
  finally show ?thesis by (rule option.inject [THEN iffD1])
qed

lemma log_room_mono: "log_room E st w (Suc k) \<Longrightarrow> log_room E st w k"
  by (simp add: log_room_def)

lemma sled_api_simps [simp]:
  "st_append (sled_api E api) = sled_append E" "st_get_by_ids (sled_api E api) = get_by_ids E"
  "st_scan (sled_api E api) = sled_scan E" "st_delete (sled_api E api) = delete_atoms E"
  "st_worlds (sled_api E api) = sled_worlds E" "st_stats (sled_api E api) = sled_stats E"
  "st_list_ids (sled_api E api) = list_ids_in_window E api"
  by (simp_all add: sled_api_def)

interpretation sled: indexed_store "sled_api E api" "sled_inv E" slash_free "log_room E" "log_atoms E" "stored_id E"
  for E :: "'db sled_env" and api :: time_api
  by (unfold_locales, unfold sled_api_simps)
    (fact sled_append_law sled_scan_law sled_delete_law sled_worlds_law sled_log_world sled_log_functional
      log_room_mono sled_get_law sled_known_append)+

end
