(* ===== verification/Vector_Hnsw.thy ===== *)
theory Vector_Hnsw
  imports Engine_Types
begin

text \<open>
  \<open>HnswVectorEngine\<close> of \<open>crates/dwbase-vector-hnsw/src/lib.rs\<close>: one approximate index per world
  with the metadata of its points. The index structure of the \<open>hnsw_rs\<close> crate is the parameter
  \<open>hnsw_api\<close>; nothing is assumed of what it finds. The metadata table is an association list,
  whose order stands for the iteration order of the \<open>HashMap\<close>.
\<close>

record vector_metadata =
  vm_kind :: "atom_kind option"
  vm_labels :: "string list"
  vm_flags :: "string list"

definition default_metadata :: vector_metadata where
  "default_metadata = \<lparr>vm_kind = None, vm_labels = [], vm_flags = []\<rparr>"

text \<open>The error text of a dimension mismatch.\<close>

definition dim_mismatch :: "nat \<Rightarrow> nat \<Rightarrow> dw_error" where
  "dim_mismatch expected got =
     Vector (''dimension mismatch: expected '' @ dec_text expected @ '', got '' @ dec_text got)"

record 'h hnsw_api =
  hn_new :: 'h
  hn_insert :: "f32 list \<Rightarrow> nat \<Rightarrow> 'h \<Rightarrow> 'h"
  hn_search :: "'h \<Rightarrow> f32 list \<Rightarrow> nat \<Rightarrow> nat \<Rightarrow> nat list"

record 'h world_index =
  wi_hnsw :: 'h
  wi_dim :: nat
  wi_meta :: "(nat \<times> (atom_id \<times> vector_metadata)) list"
  wi_next_point :: nat

definition world_index_new :: "'h hnsw_api \<Rightarrow> nat \<Rightarrow> 'h world_index" where
  "world_index_new H dim =
     \<lparr>wi_hnsw = hn_new H, wi_dim = dim, wi_meta = [], wi_next_point = 0\<rparr>"

type_synonym 'h vector_worlds = "world_key \<rightharpoonup> 'h world_index"

definition metadata_matches :: "vector_metadata \<Rightarrow> atom_filter \<Rightarrow> bool" where
  "metadata_matches meta f =
     (if f_kinds f \<noteq> [] \<and> (case vm_kind meta of None \<Rightarrow> True | Some k \<Rightarrow> k \<notin> set (f_kinds f)) then False
      else if f_labels f \<noteq> [] \<and> \<not> (\<forall>l \<in> set (f_labels f). l \<in> set (vm_labels meta)) then False
      else if f_flags f \<noteq> [] \<and> \<not> (\<forall>l \<in> set (f_flags f). l \<in> set (vm_flags meta)) then False
      else True)"

definition upsert_with_metadata ::
  "'h hnsw_api \<Rightarrow> world_key \<Rightarrow> atom_id \<Rightarrow> f32 list \<Rightarrow> vector_metadata \<Rightarrow> 'h vector_worlds
   \<Rightarrow> (dw_error, unit) result \<times> 'h vector_worlds" where
  "upsert_with_metadata H w i v meta ws =
     (let dim = length v
      in case ws w of
           Some wi \<Rightarrow>
             if wi_dim wi \<noteq> dim then (Inl (dim_mismatch (wi_dim wi) dim), ws)
             else let p = wi_next_point wi
                  in (Inr (), ws(w \<mapsto> wi\<lparr>wi_next_point := p + 1, wi_hnsw := hn_insert H v p (wi_hnsw wi),
                        wi_meta := AList.update p (i, meta) (wi_meta wi)\<rparr>))
         | None \<Rightarrow>
             let wi = world_index_new H dim; p = wi_next_point wi
             in (Inr (), ws(w \<mapsto> wi\<lparr>wi_next_point := p + 1, wi_hnsw := hn_insert H v p (wi_hnsw wi),
                   wi_meta := AList.update p (i, meta) (wi_meta wi)\<rparr>)))"

definition vector_upsert ::
  "'h hnsw_api \<Rightarrow> world_key \<Rightarrow> atom_id \<Rightarrow> f32 list \<Rightarrow> 'h vector_worlds
   \<Rightarrow> (dw_error, unit) result \<times> 'h vector_worlds" where
  "vector_upsert H w i v ws = upsert_with_metadata H w i v default_metadata ws"

fun ann_hits :: "'h world_index \<Rightarrow> atom_filter \<Rightarrow> nat list \<Rightarrow> atom_id list" where
  "ann_hits wi f [] = []"
| "ann_hits wi f (p # ps) =
     (case map_of (wi_meta wi) p of
        Some (i, meta) \<Rightarrow> if metadata_matches meta f then i # ann_hits wi f ps else ann_hits wi f ps
      | None \<Rightarrow> ann_hits wi f ps)"

text \<open>The fallback loop: the first \<open>k\<close> matching points in iteration order, at least one.\<close>

fun fallback_hits ::
  "atom_filter \<Rightarrow> nat \<Rightarrow> (nat \<times> (atom_id \<times> vector_metadata)) list \<Rightarrow> atom_id list \<Rightarrow> atom_id list" where
  "fallback_hits f k [] out = out"
| "fallback_hits f k ((p, (i, meta)) # rest) out =
     (if metadata_matches meta f then
        (if k \<le> length (out @ [i]) then out @ [i] else fallback_hits f k rest (out @ [i]))
      else fallback_hits f k rest out)"

definition vector_search ::
  "'h hnsw_api \<Rightarrow> 'h vector_worlds \<Rightarrow> world_key \<Rightarrow> f32 list \<Rightarrow> nat \<Rightarrow> atom_filter
   \<Rightarrow> (dw_error, atom_id list) result" where
  "vector_search H ws w query k f =
     (if (case f_world f of None \<Rightarrow> False | Some fw \<Rightarrow> fw \<noteq> w) then Inr []
      else case ws w of
             None \<Rightarrow> Inr []
           | Some wi \<Rightarrow>
               if wi_dim wi \<noteq> length query then Inl (dim_mismatch (wi_dim wi) (length query))
               else let out = ann_hits wi f (hn_search H (wi_hnsw wi) query k 200)
                    in Inr (if out = [] then fallback_hits f k (wi_meta wi) [] else out))"

definition vector_rebuild :: "world_key \<Rightarrow> 'h vector_worlds \<Rightarrow> (dw_error, unit) result \<times> 'h vector_worlds" where
  "vector_rebuild w ws = (Inr (), ws)"

section \<open>Invariant\<close>

text \<open>Point numbers are distinct and below the counter; metadata comes from \<open>upsert\<close>.\<close>

definition vector_inv :: "'h vector_worlds \<Rightarrow> bool" where
  "vector_inv ws \<longleftrightarrow> (\<forall>w wi. ws w = Some wi \<longrightarrow>
     distinct (map fst (wi_meta wi)) \<and> (\<forall>p \<in> fst ` set (wi_meta wi). p < wi_next_point wi))"

text \<open>The ids ever upserted into a world, in point order.\<close>

definition indexed_ids :: "'h vector_worlds \<Rightarrow> world_key \<Rightarrow> atom_id list" where
  "indexed_ids ws w = (case ws w of None \<Rightarrow> [] | Some wi \<Rightarrow> map (fst \<circ> snd) (wi_meta wi))"

lemma update_fresh: "k \<notin> fst ` set m \<Longrightarrow> AList.update k v m = m @ [(k, v)]"
  by (induction m) auto

lemma upsert_with_metadata_ok:
  assumes "vector_inv ws" "upsert_with_metadata H w i v meta ws = (r, ws')"
  shows "vector_inv ws' \<and> (\<forall>w'. indexed_ids ws' w' = indexed_ids ws w' @ (if r = Inr () \<and> w' = w then [i] else []))
    \<and> (r = Inr () \<longleftrightarrow> (case ws w of None \<Rightarrow> True | Some wi \<Rightarrow> wi_dim wi = length v))
    \<and> (r \<noteq> Inr () \<longrightarrow> ws' = ws)"
proof (cases "ws w")
  case None
  then show ?thesis
    using assms by (auto simp: upsert_with_metadata_def Let_def world_index_new_def vector_inv_def indexed_ids_def
        split: if_splits) fastforce+
next
  case (Some wi)
  have d: "distinct (map fst (wi_meta wi))" "\<forall>p \<in> fst ` set (wi_meta wi). p < wi_next_point wi"
    using assms(1) Some by (auto simp: vector_inv_def)
  then have fresh: "wi_next_point wi \<notin> fst ` set (wi_meta wi)" by blast
  show ?thesis
  proof (cases "wi_dim wi = length v")
    case True
    let ?wi = "wi\<lparr>wi_next_point := wi_next_point wi + 1, wi_hnsw := hn_insert H v (wi_next_point wi) (wi_hnsw wi),
                        wi_meta := wi_meta wi @ [(wi_next_point wi, (i, meta))]\<rparr>"
    have r: "r = Inr ()" "ws' = ws(w \<mapsto> ?wi)"
      using assms(2) Some True fresh by (auto simp: upsert_with_metadata_def Let_def update_fresh)
    have "vector_inv ws'"
      using assms(1) d fresh unfolding r vector_inv_def by (auto simp: less_Suc_eq split: if_splits)
    then show ?thesis using Some True r by (auto simp: indexed_ids_def)
  next
    case False
    then show ?thesis using assms Some by (auto simp: upsert_with_metadata_def Let_def)
  qed
qed

lemma ann_hits_set: "set (ann_hits wi f ps) \<subseteq> (fst \<circ> snd) ` set (wi_meta wi)"
  by (induction ps) (auto dest!: map_of_SomeD split: option.splits prod.splits, force+)

lemma fallback_hits_set: "set (fallback_hits f k m out) \<subseteq> set out \<union> (fst \<circ> snd) ` set m"
  by (induction f k m out rule: fallback_hits.induct) auto

section \<open>Properties\<close>

text \<open>
  \<open>upsert\<close> only ever adds. It succeeds exactly when the vector has the dimension of the world's
  first one, and then puts the id behind the ids already indexed, also when the id is among them,
  so a second upsert of an id leaves its old point in place; a failed one changes nothing.
\<close>

theorem vector_upsert_adds:
  assumes "vector_inv ws"
  shows "case vector_upsert H w i v ws of (r, ws') \<Rightarrow>
    vector_inv ws'
    \<and> (r = Inr () \<longleftrightarrow> (case ws w of None \<Rightarrow> True | Some wi \<Rightarrow> wi_dim wi = length v))
    \<and> indexed_ids ws' w = indexed_ids ws w @ (if r = Inr () then [i] else [])
    \<and> (if r = Inr () then True else ws' = ws)"
proof -
  obtain r ws' where u: "vector_upsert H w i v ws = (r, ws')" by fastforce
  show ?thesis
    using upsert_with_metadata_ok [OF assms u [unfolded vector_upsert_def]] by (simp add: u)
qed

definition null_hnsw :: "unit hnsw_api" where
  "null_hnsw = \<lparr>hn_new = (), hn_insert = (\<lambda>v p h. h), hn_search = (\<lambda>h q k ef. [])\<rparr>"

theorem vector_upsert_adds_witness:
  "case vector_upsert null_hnsw ''w'' ''a'' [0] (snd (vector_upsert null_hnsw ''w'' ''a'' [f32_one] Map.empty)) of (r, ws') \<Rightarrow>
     r = Inr () \<and> indexed_ids ws' ''w'' = [''a'', ''a'']"
proof -
  have "vector_inv (snd (vector_upsert null_hnsw ''w'' ''a'' [f32_one] Map.empty))"
    by (simp add: vector_inv_def vector_upsert_def upsert_with_metadata_def Let_def world_index_new_def)
  then show ?thesis
    using vector_upsert_adds [where ws = "snd (vector_upsert null_hnsw ''w'' ''a'' [f32_one] Map.empty)"
        and H = null_hnsw and w = "''w''" and i = "''a''" and v = "[0]"]
    by (auto simp: vector_upsert_def upsert_with_metadata_def Let_def world_index_new_def indexed_ids_def)
qed

text \<open>All points carry the metadata of \<open>upsert\<close>.\<close>

definition plain_points :: "'h vector_worlds \<Rightarrow> bool" where
  "plain_points ws \<longleftrightarrow> (\<forall>w wi. ws w = Some wi \<longrightarrow> (\<forall>(p, i, meta) \<in> set (wi_meta wi). meta = default_metadata))"

lemma update_set: "set (AList.update k v m) \<subseteq> insert (k, v) (set m)"
  by (induction m) auto

lemma plain_points_upsert: "plain_points ws \<Longrightarrow> plain_points (snd (vector_upsert H w i v ws))"
  using update_set unfolding plain_points_def vector_upsert_def upsert_with_metadata_def Let_def
  by (fastforce simp: world_index_new_def split: option.splits if_splits)

fun upsert_run :: "'h hnsw_api \<Rightarrow> (world_key \<times> atom_id \<times> f32 list) list \<Rightarrow> 'h vector_worlds \<Rightarrow> 'h vector_worlds" where
  "upsert_run H [] ws = ws"
| "upsert_run H ((w, i, v) # us) ws = upsert_run H us (snd (vector_upsert H w i v ws))"

lemma plain_points_run: "plain_points ws \<Longrightarrow> plain_points (upsert_run H us ws)"
  by (induction H us ws rule: upsert_run.induct) (auto intro: plain_points_upsert)

definition filters_metadata :: "atom_filter \<Rightarrow> bool" where
  "filters_metadata f \<longleftrightarrow> f_kinds f \<noteq> [] \<or> f_labels f \<noteq> [] \<or> f_flags f \<noteq> []"

lemma default_never_matches: "filters_metadata f \<Longrightarrow> \<not> metadata_matches default_metadata f"
  by (cases "f_labels f"; cases "f_flags f") (auto simp: filters_metadata_def metadata_matches_def default_metadata_def)

lemma fallback_none: "(\<forall>(p, i, meta) \<in> set m. \<not> metadata_matches meta f) \<Longrightarrow> fallback_hits f k m out = out"
  by (induction f k m out rule: fallback_hits.induct) auto

lemma ann_none: "(\<forall>(p, i, meta) \<in> set (wi_meta wi). \<not> metadata_matches meta f) \<Longrightarrow> ann_hits wi f ps = []"
  by (induction ps) (auto dest!: map_of_SomeD split: option.splits)

text \<open>
  C21: A search that filters by kind, label or flag finds nothing. The engine indexes through
  \<open>upsert\<close>, which stores empty metadata, so after any sequence of upserts, and whatever the
  approximate index returns, such a search yields the empty list (or a dimension error).
\<close>

theorem filtered_search_empty:
  assumes "filters_metadata f"
  shows "case vector_search H (upsert_run H us Map.empty) w q k f of Inl e \<Rightarrow> True | Inr ids \<Rightarrow> ids = []"
proof (cases "upsert_run H us Map.empty w")
  case None
  then show ?thesis by (simp add: vector_search_def)
next
  case (Some wi)
  have "plain_points (upsert_run H us Map.empty)" by (rule plain_points_run) (simp add: plain_points_def)
  then have "\<forall>(p, i, meta) \<in> set (wi_meta wi). \<not> metadata_matches meta f"
    using Some default_never_matches [OF assms] unfolding plain_points_def by fastforce
  then show ?thesis using Some by (simp add: vector_search_def fallback_none ann_none)
qed

theorem filtered_search_empty_witness:
  "case vector_search null_hnsw (upsert_run null_hnsw [(''w'', ''a'', [0])] Map.empty) ''w'' [0] 10
     (default_filter\<lparr>f_kinds := [Plan]\<rparr>) of Inl e \<Rightarrow> True | Inr ids \<Rightarrow> ids = []"
  by (rule filtered_search_empty) (simp add: filters_metadata_def)

text \<open>
  A search only returns ids that were upserted into the world it asks about, and an error only
  for a query of the wrong dimension: ids of other worlds never leak through the index.
\<close>

theorem vector_search_sound:
  "case vector_search H ws w q k f of
     Inr ids \<Rightarrow> set ids \<subseteq> set (indexed_ids ws w)
   | Inl e \<Rightarrow> (case ws w of None \<Rightarrow> False | Some wi \<Rightarrow> wi_dim wi \<noteq> length q \<and> e = dim_mismatch (wi_dim wi) (length q))"
proof (cases "ws w")
  case (Some wi)
  then show ?thesis
    using ann_hits_set [of wi f "hn_search H (wi_hnsw wi) q k 200"] fallback_hits_set [of f k "wi_meta wi" "[]"]
    by (auto simp: vector_search_def indexed_ids_def Let_def)
qed (simp add: vector_search_def)

end
