(* ===== verification/Stream_Local.thy ===== *)
theory Stream_Local
  imports Engine_Types
begin

text \<open>
  \<open>LocalStreamEngine\<close> of \<open>crates/dwbase-stream-local/src/lib.rs\<close>. Each subscriber owns both ends of
  an unbounded channel; a channel is its queue and, for either end, whether it is still alive,
  so that the error branches of \<open>send\<close> and \<open>try_recv\<close> are part of the model. Handles are
  \<open>usize\<close>. The main theorem is the contract of a subscription: what a handle has been given
  and what it still has queued is exactly what was published to it, in order.
\<close>

record channel =
  ch_queue :: "atom list"
  ch_sender_alive :: bool
  ch_receiver_alive :: bool

definition channel_new :: channel where
  "channel_new = \<lparr>ch_queue = [], ch_sender_alive = True, ch_receiver_alive = True\<rparr>"

definition chan_send :: "atom \<Rightarrow> channel \<Rightarrow> bool \<times> channel" where
  "chan_send a c =
     (if ch_receiver_alive c then (True, c\<lparr>ch_queue := ch_queue c @ [a]\<rparr>) else (False, c))"

datatype try_recv_error = Empty | Disconnected

definition try_recv :: "channel \<Rightarrow> (try_recv_error, atom) result \<times> channel" where
  "try_recv c =
     (case ch_queue c of
        a # q \<Rightarrow> (Inr a, c\<lparr>ch_queue := q\<rparr>)
      | [] \<Rightarrow> (Inl (if ch_sender_alive c then Empty else Disconnected), c))"

record subscriber =
  sub_filter :: atom_filter
  sub_channel :: channel

record local_stream =
  ls_next_id :: nat
  ls_subscribers :: "(nat \<times> subscriber) list"

definition stream_new :: local_stream where
  "stream_new = \<lparr>ls_next_id = 1, ls_subscribers = []\<rparr>"

definition stream_matches :: "atom \<Rightarrow> atom_filter \<Rightarrow> bool" where
  "stream_matches a f =
     (if (case f_world f of None \<Rightarrow> False | Some w \<Rightarrow> a_world a \<noteq> w) then False
      else if f_kinds f \<noteq> [] \<and> a_kind a \<notin> set (f_kinds f) then False
      else if f_labels f \<noteq> [] \<and> \<not> (\<forall>l \<in> set (f_labels f). l \<in> set (a_labels a)) then False
      else if f_flags f \<noteq> [] \<and> \<not> (\<forall>l \<in> set (f_flags f). l \<in> set (a_flags a)) then False
      else if (case f_since f of None \<Rightarrow> False | Some s \<Rightarrow> a_timestamp a < s) then False
      else if (case f_until f of None \<Rightarrow> False | Some u \<Rightarrow> u < a_timestamp a) then False
      else True)"

text \<open>The loop over the subscribers: the map with the sends done, and the ids whose send failed.\<close>

fun publish_loop :: "atom \<Rightarrow> (nat \<times> subscriber) list \<Rightarrow> (nat \<times> subscriber) list \<times> nat list" where
  "publish_loop a [] = ([], [])"
| "publish_loop a ((i, s) # subs) =
     (let (subs', dead) = publish_loop a subs
      in if stream_matches a (sub_filter s) then
           (let (ok, c) = chan_send a (sub_channel s)
            in ((i, s\<lparr>sub_channel := c\<rparr>) # subs', if ok then dead else i # dead))
         else ((i, s) # subs', dead))"

definition stream_publish :: "atom \<Rightarrow> local_stream \<Rightarrow> (dw_error, unit) result \<times> local_stream" where
  "stream_publish a st =
     (let (subs, dead) = publish_loop a (ls_subscribers st)
      in (Inr (), st\<lparr>ls_subscribers := fold AList.delete dead subs\<rparr>))"

definition stream_subscribe ::
  "world_key \<Rightarrow> atom_filter \<Rightarrow> local_stream \<Rightarrow> (dw_error, nat) result \<times> local_stream" where
  "stream_subscribe w f st =
     (let i = ls_next_id st;
          s = \<lparr>sub_filter = f\<lparr>f_world := Some w\<rparr>, sub_channel = channel_new\<rparr>
      in (Inr i, st\<lparr>ls_next_id := (i + 1) mod 2 ^ 64,
                    ls_subscribers := AList.update i s (ls_subscribers st)\<rparr>))"

definition stream_poll ::
  "nat \<Rightarrow> local_stream \<Rightarrow> (dw_error, atom option) result \<times> local_stream" where
  "stream_poll h st =
     (case map_of (ls_subscribers st) h of
        Some s \<Rightarrow>
          (case try_recv (sub_channel s) of
             (Inr a, c) \<Rightarrow>
               (Inr (Some a), st\<lparr>ls_subscribers := AList.update h (s\<lparr>sub_channel := c\<rparr>) (ls_subscribers st)\<rparr>)
           | (Inl Empty, _) \<Rightarrow> (Inr None, st)
           | (Inl Disconnected, _) \<Rightarrow>
               (Inr None, st\<lparr>ls_subscribers := AList.delete h (ls_subscribers st)\<rparr>))
      | None \<Rightarrow> (Inl (Stream (''unknown handle '' @ dec_text h)), st))"

definition stream_stop :: "nat \<Rightarrow> local_stream \<Rightarrow> (dw_error, unit) result \<times> local_stream" where
  "stream_stop h st = (Inr (), st\<lparr>ls_subscribers := AList.delete h (ls_subscribers st)\<rparr>)"

section \<open>Invariant\<close>

text \<open>Handles are distinct and below the counter, and both ends of every channel live.\<close>

definition stream_inv :: "local_stream \<Rightarrow> bool" where
  "stream_inv st \<longleftrightarrow> distinct (map fst (ls_subscribers st)) \<and>
     (\<forall>(i, s) \<in> set (ls_subscribers st). i < ls_next_id st
        \<and> ch_sender_alive (sub_channel s) \<and> ch_receiver_alive (sub_channel s))"

lemma stream_inv_new [inv_intros]: "stream_inv stream_new"
  by (simp add: stream_inv_def stream_new_def)

lemma publish_loop_alive:
  assumes "\<forall>(i, s) \<in> set subs. ch_receiver_alive (sub_channel s)"
  shows "publish_loop a subs =
    (map (\<lambda>(i, s). (i, if stream_matches a (sub_filter s)
        then s\<lparr>sub_channel := (sub_channel s)\<lparr>ch_queue := ch_queue (sub_channel s) @ [a]\<rparr>\<rparr> else s)) subs, [])"
  using assms by (induction subs) (auto simp: chan_send_def)

definition deliver :: "atom \<Rightarrow> subscriber \<Rightarrow> subscriber" where
  "deliver a s = (if stream_matches a (sub_filter s)
     then s\<lparr>sub_channel := (sub_channel s)\<lparr>ch_queue := ch_queue (sub_channel s) @ [a]\<rparr>\<rparr> else s)"

lemma stream_publish_alive:
  assumes "stream_inv st"
  shows "stream_publish a st =
    (Inr (), st\<lparr>ls_subscribers := map (\<lambda>(i, s). (i, deliver a s)) (ls_subscribers st)\<rparr>)"
proof -
  have "publish_loop a (ls_subscribers st) = (map (\<lambda>(i, s). (i, deliver a s)) (ls_subscribers st), [])"
    using assms by (subst publish_loop_alive) (auto simp: stream_inv_def deliver_def)
  then show ?thesis by (simp add: stream_publish_def)
qed

lemma fst_deliver: "map fst (map (\<lambda>(i, s). (i, deliver a s)) subs) = map fst subs"
  by (induction subs) auto

lemma map_of_deliver:
  "map_of (map (\<lambda>(i, s). (i, deliver a s)) subs) h = map_option (deliver a) (map_of subs h)"
  by (induction subs) auto

lemma stream_inv_publish [inv_intros]: "stream_inv st \<Longrightarrow> stream_inv (snd (stream_publish a st))"
  by (subst stream_publish_alive, assumption) (auto simp: stream_inv_def fst_deliver deliver_def comp_def case_prod_beta)

text \<open>The invariant, read through the map.\<close>

lemma stream_inv_map:
  "stream_inv st \<longleftrightarrow> distinct (map fst (ls_subscribers st)) \<and>
     (\<forall>i s. map_of (ls_subscribers st) i = Some s \<longrightarrow> i < ls_next_id st
        \<and> ch_sender_alive (sub_channel s) \<and> ch_receiver_alive (sub_channel s))"
  unfolding stream_inv_def by (auto dest: map_of_SomeD)

lemma stream_inv_subscribe [inv_intros]:
  "stream_inv st \<Longrightarrow> ls_next_id st + 1 < 2 ^ 64 \<Longrightarrow> stream_inv (snd (stream_subscribe w f st))"
  unfolding stream_inv_map
  by (auto simp: stream_subscribe_def Let_def update_conv' distinct_update channel_new_def less_Suc_eq
      split: if_splits)

lemma stream_inv_stop [inv_intros]: "stream_inv st \<Longrightarrow> stream_inv (snd (stream_stop h st))"
  unfolding stream_inv_map
  by (auto simp: stream_stop_def delete_conv' distinct_delete split: if_splits)

lemma stream_poll_alive:
  assumes "stream_inv st" "map_of (ls_subscribers st) h = Some s"
  shows "stream_poll h st = (case ch_queue (sub_channel s) of
      [] \<Rightarrow> (Inr None, st)
    | a # q \<Rightarrow> (Inr (Some a), st\<lparr>ls_subscribers := AList.update h
        (s\<lparr>sub_channel := (sub_channel s)\<lparr>ch_queue := q\<rparr>\<rparr>) (ls_subscribers st)\<rparr>))"
  using assms by (auto simp: stream_inv_map stream_poll_def try_recv_def split: list.split)

lemma stream_inv_poll [inv_intros]: "stream_inv st \<Longrightarrow> stream_inv (snd (stream_poll h st))"
proof -
  assume inv: "stream_inv st"
  show ?thesis
  proof (cases "map_of (ls_subscribers st) h")
    case None
    then show ?thesis using inv by (simp add: stream_poll_def)
  next
    case (Some s)
    show ?thesis
      using inv Some unfolding stream_poll_alive [OF inv Some]
      by (cases "ch_queue (sub_channel s)")
        (auto simp: stream_inv_map update_conv' distinct_update split: if_splits)
  qed
qed

section \<open>What a subscription delivers\<close>

datatype stream_op =
    Publish atom
  | Poll nat
  | Subscribe world_key atom_filter
  | Stop nat

text \<open>Run operations in order; the second component collects what handle \<open>h\<close> was given.\<close>

fun stream_run :: "nat \<Rightarrow> stream_op list \<Rightarrow> local_stream \<Rightarrow> atom list \<Rightarrow> local_stream \<times> atom list" where
  "stream_run h [] st out = (st, out)"
| "stream_run h (Publish a # ops) st out = stream_run h ops (snd (stream_publish a st)) out"
| "stream_run h (Poll i # ops) st out =
     (case stream_poll i st of
        (Inr (Some a), st') \<Rightarrow> stream_run h ops st' (if i = h then out @ [a] else out)
      | (_, st') \<Rightarrow> stream_run h ops st' out)"
| "stream_run h (Subscribe w f # ops) st out = stream_run h ops (snd (stream_subscribe w f st)) out"
| "stream_run h (Stop i # ops) st out = stream_run h ops (snd (stream_stop i st)) out"

fun published :: "stream_op list \<Rightarrow> atom list" where
  "published [] = []"
| "published (Publish a # ops) = a # published ops"
| "published (_ # ops) = published ops"

definition pending :: "local_stream \<Rightarrow> nat \<Rightarrow> atom list" where
  "pending st h = (case map_of (ls_subscribers st) h of None \<Rightarrow> [] | Some s \<Rightarrow> ch_queue (sub_channel s))"

lemma stream_run_delivery:
  assumes "stream_inv st" "map_of (ls_subscribers st) h = Some s" "Stop h \<notin> set ops"
    and "ls_next_id st + length ops < 2 ^ 64" "stream_run h ops st out = (st', out')"
  shows "stream_inv st' \<and> out' @ pending st' h =
    out @ ch_queue (sub_channel s) @ filter (\<lambda>a. stream_matches a (sub_filter s)) (published ops)"
  using assms
proof (induction ops arbitrary: st s out)
  case Nil
  then show ?case by (simp add: pending_def)
next
  case (Cons op ops)
  have stop: "Stop h \<notin> set ops" using Cons.prems(3) by simp
  show ?case
  proof (cases op)
    case (Publish a)
    have "map_of (ls_subscribers (snd (stream_publish a st))) h = Some (deliver a s)"
      using Cons.prems(1,2) by (simp add: stream_publish_alive map_of_deliver)
    moreover have "ls_next_id (snd (stream_publish a st)) = ls_next_id st"
      using Cons.prems(1) by (simp add: stream_publish_alive)
    ultimately show ?thesis
      using Cons.IH [OF stream_inv_publish [OF Cons.prems(1)], of a "deliver a s" out] Cons.prems stop Publish
      by (auto simp: deliver_def)
  next
    case (Subscribe w f)
    have "h \<noteq> ls_next_id st" using Cons.prems(1,2) unfolding stream_inv_map by (metis less_irrefl)
    then have "map_of (ls_subscribers (snd (stream_subscribe w f st))) h = Some s"
      using Cons.prems(2) by (simp add: stream_subscribe_def Let_def update_conv')
    moreover have "ls_next_id (snd (stream_subscribe w f st)) = Suc (ls_next_id st)"
      using Cons.prems(4) by (simp add: stream_subscribe_def Let_def)
    moreover have "stream_inv (snd (stream_subscribe w f st))"
      using Cons.prems(1,4) by (intro inv_intros) simp_all
    ultimately show ?thesis
      using Cons.IH [of "snd (stream_subscribe w f st)" s out] Cons.prems stop Subscribe by simp
  next
    case (Stop i)
    then have "h \<noteq> i" using Cons.prems(3) by auto
    then have "map_of (ls_subscribers (snd (stream_stop i st))) h = Some s"
      using Cons.prems(2) by (simp add: stream_stop_def delete_conv')
    moreover have "ls_next_id (snd (stream_stop i st)) = ls_next_id st" by (simp add: stream_stop_def)
    ultimately show ?thesis
      using Cons.IH [OF stream_inv_stop [OF Cons.prems(1)], of i s out] Cons.prems stop Stop by simp
  next
    case (Poll i)
    obtain r st1 where p: "stream_poll i st = (r, st1)" by fastforce
    have inv1: "stream_inv st1" using stream_inv_poll [OF Cons.prems(1), of i] p by simp
    have next1: "ls_next_id st1 = ls_next_id st"
      using p by (auto simp: stream_poll_def split: option.splits prod.splits sum.splits try_recv_error.splits)
    show ?thesis
    proof (cases "i = h")
      case False
      have "map_of (ls_subscribers st1) h = Some s"
        using p False Cons.prems(2)
        by (auto simp: stream_poll_def update_conv' delete_conv'
            split: option.splits prod.splits sum.splits try_recv_error.splits)
      then show ?thesis
        using Cons.IH [OF inv1, of s out] Cons.prems stop Poll p False next1
        by (cases r; cases "projr r") (auto split: sum.splits option.splits)
    next
      case True
      show ?thesis
      proof (cases "ch_queue (sub_channel s)")
        case Nil
        then have "r = Inr None" "st1 = st"
          using p True stream_poll_alive [OF Cons.prems(1,2)] by simp_all
        then show ?thesis using Cons.IH [OF Cons.prems(1,2), of out] Cons.prems stop Poll p by simp
      next
        case (Cons a q)
        let ?s = "s\<lparr>sub_channel := (sub_channel s)\<lparr>ch_queue := q\<rparr>\<rparr>"
        have r: "r = Inr (Some a)" "map_of (ls_subscribers st1) h = Some ?s"
          using p True stream_poll_alive [OF Cons.prems(1,2)] Cons by (auto simp: update_conv')
        show ?thesis
          using Cons.IH [OF inv1 r(2), of "out @ [a]"] Cons.prems stop Poll p r True next1 Cons by simp
      qed
    qed
  qed
qed

text \<open>
  C12: In-order, exactly-once delivery. Take a fresh subscription and any sequence of operations of
  all clients that does not stop it. What its handle was given by polls, followed by what is still
  queued for it, is the list of the published atoms that match its filter and world, in the order
  of publication: nothing is lost, duplicated, reordered or leaked from another subscription.
\<close>

theorem subscription_delivers:
  assumes "stream_inv st" and "ls_next_id st + length ops + 1 < 2 ^ 64"
    and "stream_subscribe w f st = (Inr h, st1)" and "Stop h \<notin> set ops"
    and "stream_run h ops st1 [] = (st', given)"
  shows "given @ pending st' h = filter (\<lambda>a. stream_matches a (f\<lparr>f_world := Some w\<rparr>)) (published ops)"
proof -
  let ?s = "\<lparr>sub_filter = f\<lparr>f_world := Some w\<rparr>, sub_channel = channel_new\<rparr>"
  have h: "h = ls_next_id st" and st1: "st1 = snd (stream_subscribe w f st)"
    using assms(3) by (auto simp: stream_subscribe_def Let_def)
  have inv: "stream_inv st1" unfolding st1 using assms(1,2) by (intro inv_intros) simp_all
  have sub: "map_of (ls_subscribers st1) h = Some ?s"
    by (simp add: st1 h stream_subscribe_def Let_def update_conv')
  have "ls_next_id st1 = Suc (ls_next_id st)"
    using assms(2) by (simp add: st1 stream_subscribe_def Let_def)
  then show ?thesis
    using stream_run_delivery [OF inv sub assms(4) _ assms(5)] assms(2) by (simp add: channel_new_def)
qed

text \<open>
  Publishing never fails and never drops a subscriber: in every state that satisfies the
  invariant the send of a live channel succeeds, so the removal branch of \<open>publish\<close> is not taken.
\<close>

theorem publish_keeps_subscribers:
  assumes "stream_inv st"
  shows "fst (stream_publish a st) = Inr ()
    \<and> map fst (ls_subscribers (snd (stream_publish a st))) = map fst (ls_subscribers st)
    \<and> stream_inv (snd (stream_publish a st))"
  using assms stream_inv_publish [OF assms, of a]
  by (simp add: stream_publish_alive case_prod_beta)

definition stream_sample :: "atom_id \<Rightarrow> world_key \<Rightarrow> atom" where
  "stream_sample i w = builder_build (atom_builder_new i w ''k'' Plan ''t'' (Importance 0) ''{}'')"

theorem subscription_delivers_witness:
  "[stream_sample ''a'' ''w''] @ pending
     (fst (stream_run 1 [Publish (stream_sample ''a'' ''w''), Publish (stream_sample ''b'' ''v''), Poll 1,
        Publish (stream_sample ''c'' ''w'')] (snd (stream_subscribe ''w'' default_filter stream_new)) [])) 1
   = filter (\<lambda>a. stream_matches a (default_filter\<lparr>f_world := Some ''w''\<rparr>))
       (published [Publish (stream_sample ''a'' ''w''), Publish (stream_sample ''b'' ''v''), Poll 1,
        Publish (stream_sample ''c'' ''w'')])"
  by (rule subscription_delivers [OF stream_inv_new, of _ "''w''" default_filter 1
        "snd (stream_subscribe ''w'' default_filter stream_new)"])
    (simp_all add: stream_new_def stream_subscribe_def Let_def prod_eq_iff stream_publish_def chan_send_def
      stream_matches_def stream_sample_def builder_defs default_filter_def stream_poll_def try_recv_def
      channel_new_def)

theorem publish_keeps_subscribers_witness:
  "fst (stream_publish (stream_sample ''a'' ''w'') stream_new) = Inr ()
    \<and> map fst (ls_subscribers (snd (stream_publish (stream_sample ''a'' ''w'') stream_new)))
        = map fst (ls_subscribers stream_new)
    \<and> stream_inv (snd (stream_publish (stream_sample ''a'' ''w'') stream_new))"
  by (rule publish_keeps_subscribers) (rule stream_inv_new)

end
