(* ===== verification/Gatekeeper.thy ===== *)
theory Gatekeeper
  imports Engine_Types Float_Text
begin

text \<open>
  The gatekeeper of \<open>crates/dwbase-security/src/lib.rs\<close>: capability checks per world, kind, label
  and importance, and token buckets per worker (\<open>remember\<close>) and for all questions (\<open>ask\<close>). An
  \<open>Instant\<close> is a number of nanoseconds on the monotonic clock; \<open>duration_since\<close> is the
  saturating difference, the subtraction of naturals. The rates and tokens are \<open>f64\<close> bit patterns.
\<close>

record rate_limits =
  remember_per_sec :: "f64 option"
  ask_per_min :: "f64 option"

datatype offline_policy = Allow | Deny

record capabilities =
  read_worlds :: "world_key list"
  write_worlds :: "world_key list"
  labels_write :: "string list"
  kinds_write :: "atom_kind list"
  importance_cap :: "f32 option"
  cap_rate_limits :: rate_limits
  cap_offline_policy :: offline_policy

record trust_store =
  worker_scores :: "string \<rightharpoonup> f32"
  node_scores :: "string \<rightharpoonup> f32"

definition get_worker :: "trust_store \<Rightarrow> string \<Rightarrow> f32 option" where
  "get_worker t w = worker_scores t w"

datatype security_error = Capability string | RateLimited string

fun from_security_error :: "security_error \<Rightarrow> dw_error" where
  "from_security_error (Capability s) = CapabilityDenied (''capability denied: '' @ s)"
| "from_security_error (RateLimited s) = CapabilityDenied (''rate limited: '' @ s)"

section \<open>Token bucket\<close>

record token_bucket =
  tb_capacity :: f64
  tb_tokens :: f64
  tb_last_refill :: nat
  tb_refill_per_sec :: f64

definition f64_one :: f64 where
  "f64_one = 0x3FF0000000000000"

text \<open>\<open>Duration::as_secs_f64\<close> of a duration in nanoseconds.\<close>

definition as_secs_f64 :: "nat \<Rightarrow> f64" where
  "as_secs_f64 d =
     f64_add (f64_of_nat (d div 1000000000))
       (f64_div (f64_of_nat (d mod 1000000000)) (f64_of_nat 1000000000))"

definition bucket_new :: "f64 \<Rightarrow> nat \<Rightarrow> token_bucket" where
  "bucket_new rate now =
     (let capacity = f64_max rate f64_one
      in \<lparr>tb_capacity = capacity, tb_tokens = capacity, tb_last_refill = now,
          tb_refill_per_sec = rate\<rparr>)"

definition bucket_allow :: "nat \<Rightarrow> token_bucket \<Rightarrow> bool \<times> token_bucket" where
  "bucket_allow now b =
     (let elapsed = as_secs_f64 (now - tb_last_refill b);
          tokens = f64_min (f64_add (tb_tokens b) (f64_mul elapsed (tb_refill_per_sec b))) (tb_capacity b);
          b1 = b\<lparr>tb_tokens := tokens, tb_last_refill := now\<rparr>
      in if f64_le f64_one tokens then (True, b1\<lparr>tb_tokens := f64_sub tokens f64_one\<rparr>)
         else (False, b1))"

section \<open>Gatekeeper\<close>

record local_gatekeeper =
  gk_caps :: capabilities
  gk_trust :: trust_store
  gk_remember_buckets :: "string \<rightharpoonup> token_bucket"
  gk_ask_buckets :: "string \<rightharpoonup> token_bucket"

definition gatekeeper_new :: "capabilities \<Rightarrow> trust_store \<Rightarrow> local_gatekeeper" where
  "gatekeeper_new c t =
     \<lparr>gk_caps = c, gk_trust = t, gk_remember_buckets = Map.empty, gk_ask_buckets = Map.empty\<rparr>"

definition deny :: "string \<Rightarrow> (dw_error, unit) result" where
  "deny s = Inl (from_security_error (Capability s))"

definition ensure_world_can_write :: "local_gatekeeper \<Rightarrow> world_key \<Rightarrow> (dw_error, unit) result" where
  "ensure_world_can_write g w =
     (if write_worlds (gk_caps g) \<noteq> [] \<and> w \<notin> set (write_worlds (gk_caps g))
      then deny (''write not allowed for world '' @ w) else Inr ())"

definition ensure_world_can_read :: "local_gatekeeper \<Rightarrow> world_key \<Rightarrow> (dw_error, unit) result" where
  "ensure_world_can_read g w =
     (if read_worlds (gk_caps g) \<noteq> [] \<and> w \<notin> set (read_worlds (gk_caps g))
      then deny (''read not allowed for world '' @ w) else Inr ())"

definition check_importance :: "local_gatekeeper \<Rightarrow> importance \<Rightarrow> (dw_error, unit) result" where
  "check_importance g i =
     (case importance_cap (gk_caps g) of
        None \<Rightarrow> Inr ()
      | Some cap \<Rightarrow>
          if f32_lt cap (imp_get i)
          then deny (''importance '' @ show_f32 (imp_get i) @ '' exceeds cap '' @ show_f32 cap)
          else Inr ())"

definition check_labels :: "local_gatekeeper \<Rightarrow> string list \<Rightarrow> (dw_error, unit) result" where
  "check_labels g labels =
     (if labels_write (gk_caps g) = [] then Inr ()
      else if list_all (\<lambda>l. l \<in> set (labels_write (gk_caps g))) labels then Inr ()
      else deny ''label not permitted'')"

fun kind_debug :: "atom_kind \<Rightarrow> string" where
  "kind_debug Observation = ''Observation''"
| "kind_debug Reflection = ''Reflection''"
| "kind_debug Plan = ''Plan''"
| "kind_debug Action = ''Action''"
| "kind_debug Message = ''Message''"

definition check_kind :: "local_gatekeeper \<Rightarrow> atom_kind \<Rightarrow> (dw_error, unit) result" where
  "check_kind g k =
     (if kinds_write (gk_caps g) = [] \<or> k \<in> set (kinds_write (gk_caps g)) then Inr ()
      else deny (''kind '' @ kind_debug k @ '' not permitted''))"

definition rate_limit ::
  "nat \<Rightarrow> string \<Rightarrow> f64 option \<Rightarrow> (string \<rightharpoonup> token_bucket) \<Rightarrow> (dw_error, unit) result \<times> (string \<rightharpoonup> token_bucket)" where
  "rate_limit now key rate buckets =
     (case rate of
        None \<Rightarrow> (Inr (), buckets)
      | Some r \<Rightarrow>
          let b = (case buckets key of Some b \<Rightarrow> b | None \<Rightarrow> bucket_new r now);
              (ok, b') = bucket_allow now b
          in (if ok then Inr ()
              else Inl (from_security_error (RateLimited (''rate limited for key '' @ key))),
              buckets(key \<mapsto> b')))"

definition check_remember ::
  "nat \<Rightarrow> new_atom \<Rightarrow> local_gatekeeper \<Rightarrow> (dw_error, unit) result \<times> local_gatekeeper" where
  "check_remember now a g =
     sbind (ensure_world_can_write g (n_world a), g) (\<lambda>_ g.
     sbind (check_kind g (n_kind a), g) (\<lambda>_ g.
     sbind (check_labels g (n_labels a), g) (\<lambda>_ g.
     sbind (check_importance g (n_importance a), g) (\<lambda>_ g.
     case rate_limit now (n_worker a) (remember_per_sec (cap_rate_limits (gk_caps g))) (gk_remember_buckets g) of
       (r, bs) \<Rightarrow> (r, g\<lparr>gk_remember_buckets := bs\<rparr>)))))"

definition check_ask ::
  "nat \<Rightarrow> question \<Rightarrow> local_gatekeeper \<Rightarrow> (dw_error, unit) result \<times> local_gatekeeper" where
  "check_ask now q g =
     sbind (ensure_world_can_read g (q_world q), g) (\<lambda>_ g.
     case rate_limit now ''ask-global''
            (map_option (\<lambda>v. f64_div v (f64_of_nat 60)) (ask_per_min (cap_rate_limits (gk_caps g))))
            (gk_ask_buckets g) of
       (r, bs) \<Rightarrow> (r, g\<lparr>gk_ask_buckets := bs\<rparr>))"

fun check_world_action :: "world_action \<Rightarrow> local_gatekeeper \<Rightarrow> (dw_error, unit) result" where
  "check_world_action (Create meta) g = ensure_world_can_write g (wm_world meta)"
| "check_world_action (Archive w) g = ensure_world_can_write g w"
| "check_world_action (Resume w) g = ensure_world_can_write g w"

section \<open>Capability checks\<close>

text \<open>The static part of a write permission.\<close>

definition write_permitted :: "capabilities \<Rightarrow> new_atom \<Rightarrow> bool" where
  "write_permitted c a \<longleftrightarrow>
     (write_worlds c = [] \<or> n_world a \<in> set (write_worlds c))
   \<and> (kinds_write c = [] \<or> n_kind a \<in> set (kinds_write c))
   \<and> (labels_write c = [] \<or> set (n_labels a) \<subseteq> set (labels_write c))
   \<and> (\<forall>cap. importance_cap c = Some cap \<longrightarrow> \<not> f32_lt cap (imp_get (n_importance a)))"

lemmas gate_defs =
  ensure_world_can_write_def ensure_world_can_read_def check_kind_def check_labels_def
  check_importance_def deny_def

text \<open>The bucket that a worker's next write is charged to.\<close>

definition bucket_for :: "nat \<Rightarrow> f64 \<Rightarrow> (string \<rightharpoonup> token_bucket) \<Rightarrow> string \<Rightarrow> token_bucket" where
  "bucket_for now rate bs key = (case bs key of Some b \<Rightarrow> b | None \<Rightarrow> bucket_new rate now)"

text \<open>
  C13: \<open>check_remember\<close> accepts exactly the writes that every capability permits and that the
  worker's bucket admits. A write that a capability forbids is refused before the bucket is
  touched, so it costs no token and the gatekeeper's state does not change; every other call
  charges the bucket of that worker alone.
\<close>

theorem check_remember_exact:
  "if write_permitted (gk_caps g) a then
     check_remember now a g =
       (case remember_per_sec (cap_rate_limits (gk_caps g)) of
          None \<Rightarrow> (Inr (), g)
        | Some r \<Rightarrow>
            let (ok, b) = bucket_allow now (bucket_for now r (gk_remember_buckets g) (n_worker a))
            in (if ok then Inr ()
                else Inl (CapabilityDenied (''rate limited: rate limited for key '' @ n_worker a)),
                g\<lparr>gk_remember_buckets := (gk_remember_buckets g)(n_worker a \<mapsto> b)\<rparr>))
   else \<exists>m. check_remember now a g = (Inl (CapabilityDenied (''capability denied: '' @ m)), g)"
proof (cases "write_permitted (gk_caps g) a")
  case True
  then have "ensure_world_can_write g (n_world a) = Inr ()" "check_kind g (n_kind a) = Inr ()"
    "check_labels g (n_labels a) = Inr ()" "check_importance g (n_importance a) = Inr ()"
    by (auto simp: gate_defs write_permitted_def list_all_iff split: option.split)
  then show ?thesis
    using True by (simp add: check_remember_def rate_limit_def bucket_for_def Let_def
        split: option.split prod.split)
next
  case False
  then show ?thesis
    by (auto simp: check_remember_def gate_defs write_permitted_def list_all_iff split: option.splits)
qed

section \<open>Bucket invariant\<close>

definition bucket_inv :: "token_bucket \<Rightarrow> bool" where
  "bucket_inv b \<longleftrightarrow> \<not> f64_is_nan (tb_tokens b) \<and> f64_le f64_one (tb_capacity b)
     \<and> f64_le (tb_tokens b) (tb_capacity b)"

definition gatekeeper_inv :: "local_gatekeeper \<Rightarrow> bool" where
  "gatekeeper_inv g \<longleftrightarrow>
     (\<forall>b \<in> ran (gk_remember_buckets g) \<union> ran (gk_ask_buckets g). bucket_inv b)"

lemma f64_one_facts [simp]:
  "\<not> f64_is_nan f64_one" "\<not> fl_sign f64_one" "fl_mag f64_one = 0x3FF0000000000000"
  "fl_finite 52 f64_one" "fl_key f64_one = 0x3FF0000000000000"
  by (simp_all add: f64_one_def fl_finite_def fl_eval)

lemma bucket_inv_new: "bucket_inv (bucket_new r now)"
  using fl_max_ge [of 52 f64_one r]
  by (simp add: bucket_inv_def bucket_new_def fl_le_def Let_def)

lemma fl_sub_one_le:
  assumes "f64_le f64_one x"
  shows "\<not> f64_is_nan (f64_sub x f64_one) \<and> fl_key (f64_sub x f64_one) \<le> fl_key x"
proof (cases "fl_is_inf 52 x")
  case True
  then have "f64_sub x f64_one = x"
    using assms fl_finite_iff [of 52 f64_one] by (simp add: fl_sub_def fl_add_def fl_le_def)
  then show ?thesis using assms by (simp add: fl_le_def)
next
  case False
  then have "fl_finite 52 x" using assms by (simp add: fl_finite_iff fl_le_def)
  then show ?thesis by (simp add: fl_sub_le fl_sub_not_nan)
qed

lemma bucket_inv_allow: "bucket_inv b \<Longrightarrow> bucket_inv (snd (bucket_allow now b))"
proof -
  assume b: "bucket_inv b"
  define x where "x = f64_min (f64_add (tb_tokens b)
      (f64_mul (as_secs_f64 (now - tb_last_refill b)) (tb_refill_per_sec b))) (tb_capacity b)"
  have cap: "\<not> f64_is_nan (tb_capacity b)" using b by (simp add: bucket_inv_def fl_le_def)
  have x: "\<not> f64_is_nan x" "fl_key x \<le> fl_key (tb_capacity b)"
    using fl_min_le [OF cap] unfolding x_def by simp_all
  have "snd (bucket_allow now b) = b\<lparr>tb_tokens := if f64_le f64_one x then f64_sub x f64_one else x,
      tb_last_refill := now\<rparr>"
    by (simp add: bucket_allow_def x_def Let_def)
  then show ?thesis
    using b x cap fl_sub_one_le [of x] by (auto simp: bucket_inv_def fl_le_def)
qed

lemma rate_limit_inv:
  assumes "\<forall>b \<in> ran bs. bucket_inv b"
  shows "\<forall>b \<in> ran (snd (rate_limit now k r bs)). bucket_inv b"
proof (cases r)
  case (Some rate)
  have "bucket_inv (bucket_for now rate bs k)"
    using assms bucket_inv_new by (auto simp: bucket_for_def ranI split: option.split)
  then have "bucket_inv (snd (bucket_allow now (bucket_for now rate bs k)))" by (rule bucket_inv_allow)
  moreover have "snd (rate_limit now k r bs) = bs(k \<mapsto> snd (bucket_allow now (bucket_for now rate bs k)))"
    by (simp add: rate_limit_def bucket_for_def Some Let_def split: prod.split)
  ultimately show ?thesis using assms by (auto simp: ran_def)
qed (use assms in \<open>simp add: rate_limit_def\<close>)

text \<open>
  Whatever rates are configured, infinities and NaN included, the token count of every bucket
  is a number that never exceeds the bucket's capacity, which is at least one: each check keeps
  this, accepting or refusing.
\<close>

theorem gatekeeper_inv_checks:
  assumes "gatekeeper_inv g"
  shows "gatekeeper_inv (snd (check_remember now a g)) \<and> gatekeeper_inv (snd (check_ask now q g))"
proof
  have r: "\<forall>b \<in> ran (gk_remember_buckets g). bucket_inv b"
    and a: "\<forall>b \<in> ran (gk_ask_buckets g). bucket_inv b"
    using assms by (auto simp: gatekeeper_inv_def)
  have "snd (check_remember now a g) = g \<or> snd (check_remember now a g) =
      g\<lparr>gk_remember_buckets := snd (rate_limit now (n_worker a)
        (remember_per_sec (cap_rate_limits (gk_caps g))) (gk_remember_buckets g))\<rparr>"
    by (auto simp: check_remember_def gate_defs split: option.split prod.split)
  then show "gatekeeper_inv (snd (check_remember now a g))"
    using assms rate_limit_inv [OF r] by (auto simp: gatekeeper_inv_def)
  have "snd (check_ask now q g) = g \<or> snd (check_ask now q g) =
      g\<lparr>gk_ask_buckets := snd (rate_limit now ''ask-global''
            (map_option (\<lambda>v. f64_div v (f64_of_nat 60)) (ask_per_min (cap_rate_limits (gk_caps g))))
            (gk_ask_buckets g))\<rparr>"
    by (auto simp: check_ask_def gate_defs split: option.split prod.split)
  then show "gatekeeper_inv (snd (check_ask now q g))"
    using assms rate_limit_inv [OF a] by (auto simp: gatekeeper_inv_def)
qed

definition open_caps :: capabilities where
  "open_caps =
     \<lparr>read_worlds = [], write_worlds = [], labels_write = [], kinds_write = [], importance_cap = None,
      cap_rate_limits = \<lparr>remember_per_sec = Some f64_one, ask_per_min = Some f64_one\<rparr>,
      cap_offline_policy = Allow\<rparr>"

theorem gatekeeper_inv_checks_witness:
  "gatekeeper_inv (snd (check_remember 0
      \<lparr>n_world = ''w'', n_worker = ''k'', n_kind = Plan, n_timestamp = [], n_importance = Importance 0,
       n_payload_json = ''{}'', n_vector = None, n_flags = [], n_labels = [], n_links = []\<rparr>
      (gatekeeper_new open_caps \<lparr>worker_scores = Map.empty, node_scores = Map.empty\<rparr>)))
   \<and> gatekeeper_inv (snd (check_ask 0 \<lparr>q_world = ''w'', q_text = [], q_filter = None\<rparr>
      (gatekeeper_new open_caps \<lparr>worker_scores = Map.empty, node_scores = Map.empty\<rparr>)))"
  by (rule gatekeeper_inv_checks) (simp add: gatekeeper_inv_def gatekeeper_new_def)

section \<open>Bursts\<close>

lemma mag_val_repr: "t < 2 ^ Suc m \<Longrightarrow> \<exists>k. mag_val m k = t * 2 ^ s"
proof (induction s arbitrary: t)
  case 0
  then show ?case using mag_val_small [of t m] by (intro exI [of _ t]) simp
next
  case (Suc s)
  show ?case
  proof (cases "2 ^ m \<le> t")
    case True
    then show ?thesis using mag_val_split [of t m "Suc s"] Suc.prems by (metis less_imp_le)
  next
    case False
    then have "2 * t < 2 ^ Suc m" by simp
    then show ?thesis using Suc.IH [of "2 * t"] by (simp add: mult.assoc mult.left_commute)
  qed
qed

lemma fl_eq_mk: "\<not> fl_sign x \<Longrightarrow> x = fl_mk False (fl_mag x)"
proof -
  assume "\<not> fl_sign (x :: 'a word)"
  then have "fl_mag x = unat x" by (simp add: fl_mag_def fl_sign_def)
  then show ?thesis by (simp add: fl_mk_def)
qed

lemma fl_add_zero:
  assumes "\<not> fl_sign x" "fl_finite m x" "fl_mag y = 0" "fl_finite m y"
  shows "fl_add m x y = x"
proof -
  have v: "fl_val m x + fl_val m y = int (mag_val m (fl_mag x))"
    using assms by (simp add: fl_val_def)
  have "min (inf_mag m TYPE('a)) (fl_mag x) = fl_mag x" using assms(2) by (simp add: fl_finite_def)
  moreover have "mag_val m (fl_mag x) = 0 \<longleftrightarrow> fl_mag x = 0" using mag_val_eq_iff [of m "fl_mag x" 0] by simp
  ultimately show ?thesis
    using assms(1,2,4) fl_eq_mk [OF assms(1)] unfolding fl_add_def v
    by (auto simp: fl_finite_iff fl_of_units_def Let_def)
qed

lemma fl_sub_exact:
  assumes "\<not> fl_sign x" "\<not> fl_sign y" "fl_finite m x" "fl_finite m y"
    and "mag_val m (fl_mag x) = mag_val m (fl_mag y) + mag_val m k"
  shows "fl_sub m x y = fl_mk False k"
proof -
  have v: "fl_val m x + fl_val m (fl_neg y) = int (mag_val m k)"
    using assms(1,2,5) by (simp add: fl_val_def)
  have "k \<le> fl_mag x" using assms(5) mag_val_le_iff [of m k "fl_mag x"] by simp
  then have "min (inf_mag m TYPE('a)) k = k" using assms(3) by (simp add: fl_finite_def)
  moreover have "mag_val m k = 0 \<longleftrightarrow> k = 0" using mag_val_eq_iff [of m k 0] by simp
  ultimately show ?thesis
    using assms(1,2,3,4) unfolding fl_sub_def fl_add_def v
    by (auto simp: fl_finite_iff fl_of_units_def Let_def)
qed

text \<open>The whole part of a non-negative \<open>f64\<close>; one is \<open>2 ^ 1074\<close> of the smallest units.\<close>

definition f64_floor :: "f64 \<Rightarrow> nat" where
  "f64_floor x = (if fl_sign x then 0 else mag_val 52 (fl_mag x) div 2 ^ 1074)"

lemma mag_val_one: "mag_val 52 0x3FF0000000000000 = 2 ^ 1074"
proof -
  have "(0x3FF0000000000000 :: nat) = 1022 * 2 ^ 52 + 2 ^ 52" by simp
  then show ?thesis using mag_val_split [of "2 ^ 52" 52 1022] by simp
qed

lemma f64_le_one_iff:
  assumes "\<not> fl_sign x" "fl_finite 52 x"
  shows "f64_le f64_one x \<longleftrightarrow> 2 ^ 1074 \<le> mag_val 52 (fl_mag x)"
proof -
  have "f64_le f64_one x \<longleftrightarrow> 0x3FF0000000000000 \<le> fl_mag x"
    using assms by (simp add: fl_le_def fl_finite_iff fl_key_def)
  then show ?thesis by (metis mag_val_le_iff mag_val_one)
qed

lemma sub_one_exact:
  assumes x: "\<not> fl_sign x" "fl_finite 52 x" and ge: "2 ^ 1074 \<le> mag_val 52 (fl_mag x)"
    and lt: "mag_val 52 (fl_mag x) < 2 ^ 53 * 2 ^ 1074"
  shows "\<exists>k. f64_sub x f64_one = fl_mk False k \<and> mag_val 52 k = mag_val 52 (fl_mag x) - 2 ^ 1074
    \<and> k \<le> fl_mag x"
proof -
  obtain s t where k: "fl_mag x = s * 2 ^ 52 + t" "t < 2 ^ Suc 52" "s = 0 \<or> 2 ^ 52 \<le> t"
    by (rule mag_split)
  have v: "mag_val 52 (fl_mag x) = t * 2 ^ s" using k mag_val_split [of t 52 s] by simp
  have s: "s \<le> 1074"
  proof (rule ccontr)
    assume "\<not> s \<le> 1074"
    then have "1075 \<le> s" "2 ^ 52 \<le> t" using k(3) by auto
    then have "2 ^ 52 * 2 ^ 1075 \<le> t * (2 ^ s :: nat)" by (intro mult_le_mono power_increasing) simp_all
    moreover have "(2::nat) ^ 53 * 2 ^ 1074 = 2 ^ 52 * 2 ^ 1075" by (simp add: power_add [symmetric])
    ultimately show False using lt v by linarith
  qed
  have one: "(2::nat) ^ 1074 = 2 ^ (1074 - s) * 2 ^ s" using s by (simp add: power_add [symmetric])
  have "t - 2 ^ (1074 - s) < 2 ^ Suc 52" using k(2) by simp
  then obtain k' where k': "mag_val 52 k' = (t - 2 ^ (1074 - s)) * 2 ^ s" using mag_val_repr by blast
  then have eq: "mag_val 52 k' = mag_val 52 (fl_mag x) - 2 ^ 1074"
    unfolding v one by (simp only: diff_mult_distrib)
  have "f64_sub x f64_one = fl_mk False k'"
    by (rule fl_sub_exact) (use x ge in \<open>simp_all add: eq mag_val_one\<close>)
  moreover have "k' \<le> fl_mag x" using eq mag_val_le_iff [of 52 k' "fl_mag x"] by simp
  ultimately show ?thesis using eq by blast
qed

lemma as_secs_0: "as_secs_f64 0 = 0"
proof -
  have z: "f64_of_nat 0 = 0" by (simp add: fl_eval)
  have q: "f64_of_nat 1000000000 = 0x41CDCD6500000000" by (simp add: fl_eval)
  show ?thesis by (simp add: as_secs_f64_def z q) (simp add: fl_eval)
qed

lemma mul_zero_finite: "fl_finite 52 (r :: f64) \<Longrightarrow> fl_mag (f64_mul 0 r) = 0 \<and> fl_finite 52 (f64_mul 0 r)"
proof -
  assume r: "fl_finite 52 r"
  have "\<not> f64_is_nan 0" "\<not> fl_is_inf 52 (0 :: f64)" "fl_mag (0 :: f64) = 0"
    by (simp_all add: fl_eval)
  then have "f64_mul 0 r = fl_of_units 52 (fl_sign (0::f64) \<noteq> fl_sign r) 0 (2 ^ fl_scale 52 TYPE(64))"
    using r by (simp add: fl_mul_def fl_finite_iff Let_def)
  then show ?thesis by (simp add: fl_of_units_def fl_finite_def) (simp add: fl_eval)
qed

text \<open>How many of \<open>n\<close> calls at one instant a bucket admits.\<close>

fun burst_grants :: "nat \<Rightarrow> nat \<Rightarrow> token_bucket \<Rightarrow> nat" where
  "burst_grants 0 now b = 0"
| "burst_grants (Suc n) now b =
     (let (ok, b') = bucket_allow now b in (if ok then 1 else 0) + burst_grants n now b')"

lemma burst_grants_tokens:
  assumes "tb_last_refill b = now" "fl_finite 52 (tb_refill_per_sec b)"
    and "\<not> f64_is_nan (tb_capacity b)" "fl_key (tb_tokens b) \<le> fl_key (tb_capacity b)"
    and "\<not> fl_sign (tb_tokens b)" "fl_finite 52 (tb_tokens b)"
    and "mag_val 52 (fl_mag (tb_tokens b)) < 2 ^ 53 * 2 ^ 1074"
  shows "burst_grants n now b = min n (f64_floor (tb_tokens b))"
  using assms
proof (induction n arbitrary: b)
  case (Suc n)
  let ?x = "tb_tokens b"
  have "f64_add ?x (f64_mul (as_secs_f64 (now - tb_last_refill b)) (tb_refill_per_sec b)) = ?x"
    using Suc.prems mul_zero_finite [OF Suc.prems(2)] by (simp add: as_secs_0 fl_add_zero)
  moreover have "f64_min ?x (tb_capacity b) = ?x"
    using Suc.prems by (auto simp: fl_min_def fl_finite_iff)
  ultimately have step: "bucket_allow now b =
      (if f64_le f64_one ?x then (True, b\<lparr>tb_tokens := f64_sub ?x f64_one, tb_last_refill := now\<rparr>)
       else (False, b\<lparr>tb_last_refill := now\<rparr>))"
    by (simp add: bucket_allow_def Let_def)
  have same: "b\<lparr>tb_last_refill := now\<rparr> = b" using Suc.prems(1) by (cases b) simp
  show ?case
  proof (cases "f64_le f64_one ?x")
    case False
    then have "mag_val 52 (fl_mag ?x) < 2 ^ 1074" using f64_le_one_iff Suc.prems(5,6) by simp
    then have z: "f64_floor ?x = 0" by (simp add: f64_floor_def)
    then show ?thesis using False Suc.IH [OF Suc.prems] by (simp add: step same)
  next
    case True
    then have ge: "2 ^ 1074 \<le> mag_val 52 (fl_mag ?x)" using f64_le_one_iff Suc.prems(5,6) by blast
    obtain k where k: "f64_sub ?x f64_one = fl_mk False k"
      "mag_val 52 k = mag_val 52 (fl_mag ?x) - 2 ^ 1074" "k \<le> fl_mag ?x"
      using sub_one_exact [OF Suc.prems(5,6) ge Suc.prems(7)] by blast
    have top: "k < fl_top TYPE(64)" using k(3) fl_mag_less [of ?x] by simp
    let ?b = "b\<lparr>tb_tokens := f64_sub ?x f64_one, tb_last_refill := now\<rparr>"
    have "burst_grants n now ?b = min n (f64_floor (tb_tokens ?b))"
    proof (rule Suc.IH)
      have "fl_key (f64_sub ?x f64_one) \<le> fl_key ?x"
        using Suc.prems(5) k(3) top by (simp add: k(1) fl_key_def)
      then show "fl_key (tb_tokens ?b) \<le> fl_key (tb_capacity ?b)" using Suc.prems(4) by simp
      show "fl_finite 52 (tb_tokens ?b)" using Suc.prems(6) k(3) top by (simp add: k(1) fl_finite_def)
      show "mag_val 52 (fl_mag (tb_tokens ?b)) < 2 ^ 53 * 2 ^ 1074"
        using Suc.prems(7) top by (simp add: k(1,2))
    qed (use Suc.prems top in \<open>simp_all add: k(1)\<close>)
    moreover have "f64_floor ?x = Suc (f64_floor (f64_sub ?x f64_one))"
      using Suc.prems(5) top ge by (simp add: f64_floor_def k(1,2) le_div_geq)
    ultimately show ?thesis using True by (simp add: step)
  qed
qed simp

text \<open>
  C14: The burst bound. For every finite rate below \<open>2 ^ 53\<close>, a fresh bucket admits of \<open>n\<close> calls
  at the same instant exactly \<open>n\<close> or its capacity rounded down, whichever is less, and never
  fewer than one: the floating-point tokens count without error.
\<close>

theorem burst_bound:
  assumes "fl_finite 52 rate" and "f64_lt rate 0x4340000000000000"
  shows "burst_grants n now (bucket_new rate now) = min n (max 1 (f64_floor rate))"
proof -
  let ?c = "f64_max rate f64_one"
  have c: "?c = (if fl_key rate < 0x3FF0000000000000 then f64_one else rate)"
    using assms(1) by (simp add: fl_max_def fl_finite_iff)
  have val: "mag_val 52 0x4340000000000000 = 2 ^ 53 * 2 ^ 1074"
  proof -
    have "(0x4340000000000000 :: nat) = 1075 * 2 ^ 52 + 2 ^ 52" by simp
    then show ?thesis using mag_val_split [of "2 ^ 52" 52 1075] by (simp add: power_add [symmetric])
  qed
  have lt: "fl_key rate < 0x4340000000000000"
    using assms(2) by (simp add: fl_lt_def) (simp add: fl_eval)
  have facts: "\<not> fl_sign ?c" "fl_finite 52 ?c" "fl_mag ?c < 0x4340000000000000"
    using assms(1) lt by (auto simp: c fl_key_def split: if_splits)
  have small: "mag_val 52 (fl_mag ?c) < 2 ^ 53 * 2 ^ 1074"
    using facts(3) by (metis val mag_val_less_iff)
  have floor_one: "f64_floor f64_one = 1" by (simp add: f64_floor_def mag_val_one)
  have "f64_floor ?c = max 1 (f64_floor rate)"
  proof (cases "fl_key rate < 0x3FF0000000000000")
    case True
    then have "fl_sign rate \<or> mag_val 52 (fl_mag rate) < 2 ^ 1074"
      by (metis fl_key_def mag_val_less_iff mag_val_one of_nat_less_iff of_nat_numeral)
    then have "f64_floor rate = 0" by (auto simp: f64_floor_def)
    then show ?thesis using True by (simp add: c floor_one)
  next
    case False
    then have "\<not> fl_sign rate" "0x3FF0000000000000 \<le> fl_mag rate" by (auto simp: fl_key_def split: if_splits)
    then have "2 ^ 1074 \<le> mag_val 52 (fl_mag rate)" by (metis mag_val_le_iff mag_val_one)
    then have "1 \<le> f64_floor rate"
      using \<open>\<not> fl_sign rate\<close> by (simp add: f64_floor_def Suc_le_eq div_greater_zero_iff)
    then show ?thesis using False by (simp add: c)
  qed
  then show ?thesis
    using burst_grants_tokens [of "bucket_new rate now" now n] facts small assms(1)
    by (simp add: bucket_new_def Let_def fl_finite_iff)
qed

theorem burst_bound_witness:
  "burst_grants 5 7 (bucket_new 0x4008000000000000 7) = 3"
proof -
  have "f64_floor 0x4008000000000000 = 3" by (simp add: f64_floor_def) (simp add: fl_eval)
  then show ?thesis
    using burst_bound [of "0x4008000000000000" 5 7] by (simp add: fl_finite_def) (simp add: fl_eval)
qed

end
