(* ===== verification/Node_Engine.thy ===== *)
theory Node_Engine
  imports Engine_Laws Gc_Laws Sled_Provider Vector_Hnsw Stream_Local Gatekeeper
begin

text \<open>
  The engine as \<open>crates/dwbase-node/src/main.rs\<close> and the command line assemble it: sled storage,
  the HNSW vector index, local streams and the local gatekeeper, with any embedder. Each component
  keeps its contract, so the engine's lemmas hold of the assembly (\<open>node\<close>).
\<close>

section \<open>Vectors\<close>

definition hnsw_vector_api :: "'h hnsw_api \<Rightarrow> 'h vector_worlds vector_api" where
  "hnsw_vector_api H =
     \<lparr>ve_upsert = vector_upsert H, ve_search = vector_search H, ve_rebuild = vector_rebuild\<rparr>"

definition dim_fits :: "'h vector_worlds \<Rightarrow> world_key \<Rightarrow> nat \<Rightarrow> bool" where
  "dim_fits ws w k = (case ws w of None \<Rightarrow> True | Some wi \<Rightarrow> wi_dim wi = k)"

lemma vector_upsert_fits:
  assumes "dim_fits ws w (length x)"
  shows "\<exists>ws'. vector_upsert H w i x ws = (Inr (), ws')
    \<and> (\<forall>w' k. dim_fits ws' w' k = (if w' = w then k = length x else dim_fits ws w' k))"
  using assms
  by (cases "ws w")
    (auto simp: vector_upsert_def upsert_with_metadata_def dim_fits_def world_index_new_def Let_def)

lemma vector_upsert_misfit:
  "\<not> dim_fits ws w (length x) \<Longrightarrow> \<exists>e. vector_upsert H w i x ws = (Inl e, ws)"
  by (auto simp: vector_upsert_def upsert_with_metadata_def dim_fits_def split: option.splits)

lemma hnsw_upsert_law:
  assumes "vector_inv ws" "dim_fits ws w (length x)"
  shows "\<exists>ws'. vector_upsert H w i x ws = (Inr (), ws') \<and> vector_inv ws'
    \<and> (\<forall>w' k. dim_fits ws' w' k = (if w' = w then k = length x else dim_fits ws w' k))"
proof -
  obtain ws' where ws': "vector_upsert H w i x ws = (Inr (), ws')"
    "\<forall>w' k. dim_fits ws' w' k = (if w' = w then k = length x else dim_fits ws w' k)"
    using vector_upsert_fits [OF assms(2)] by blast
  then have "vector_inv ws'"
    using upsert_with_metadata_ok [OF assms(1) ws'(1) [unfolded vector_upsert_def]] by simp
  then show ?thesis using ws' by blast
qed

lemma hnsw_upsert_refused:
  "vector_inv ws \<Longrightarrow> \<not> dim_fits ws w (length x) \<Longrightarrow> \<exists>e. vector_upsert H w i x ws = (Inl e, ws)"
  by (rule vector_upsert_misfit)

lemma hnsw_rebuild_law:
  "vector_inv ws \<Longrightarrow> vector_inv (snd (vector_rebuild w ws)) \<and> dim_fits (snd (vector_rebuild w ws)) = dim_fits ws"
  by (simp add: vector_rebuild_def)

lemma hnsw_api_simps [simp]:
  "ve_upsert (hnsw_vector_api H) = vector_upsert H" "ve_search (hnsw_vector_api H) = vector_search H"
  "ve_rebuild (hnsw_vector_api H) = vector_rebuild"
  by (simp_all add: hnsw_vector_api_def)

interpretation hnsw: vector_contract "hnsw_vector_api H" vector_inv dim_fits
  for H :: "'h hnsw_api"
  by (unfold_locales, unfold hnsw_api_simps) (fact hnsw_upsert_law hnsw_upsert_refused hnsw_rebuild_law)+

section \<open>Streams and the gatekeeper\<close>

definition local_stream_api :: "local_stream stream_api" where
  "local_stream_api = \<lparr>sr_publish = stream_publish\<rparr>"

lemma stream_publish_law: "stream_inv st \<Longrightarrow> \<exists>st'. stream_publish a st = (Inr (), st') \<and> stream_inv st'"
  using stream_inv_publish [of st a] by (simp add: stream_publish_def split: prod.splits)

interpretation streams: stream_contract local_stream_api stream_inv
  by unfold_locales (simp add: local_stream_api_def stream_publish_law)

text \<open>The gatekeeper reads the monotonic clock: \<open>now\<close>.\<close>

definition local_gate_api :: "nat \<Rightarrow> local_gatekeeper gate_api" where
  "local_gate_api now =
     \<lparr>ga_remember = check_remember now, ga_ask = check_ask now,
      ga_action = (\<lambda>a g. (check_world_action a g, g))\<rparr>"

definition gate_permits :: "local_gatekeeper \<Rightarrow> new_atom \<Rightarrow> bool" where
  "gate_permits g n = write_permitted (gk_caps g) n"

lemma check_remember_caps: "gk_caps (snd (check_remember now n g)) = gk_caps g"
  by (auto simp: check_remember_def gate_defs split: option.split prod.split)

lemma check_remember_permits: "check_remember now n g = (Inr (), g') \<Longrightarrow> gate_permits g n"
  by (auto simp: check_remember_def gate_defs gate_permits_def write_permitted_def list_all_iff
      split: if_splits option.splits)

interpretation gate: gate_contract "local_gate_api now" gate_permits for now :: nat
  by unfold_locales
    (auto simp: local_gate_api_def check_remember_caps gate_permits_def fun_eq_iff
      dest: check_remember_permits)

section \<open>The assembly\<close>

text \<open>What the assembly takes from outside: the libraries, the embedder and the reading of the clock.\<close>

record ('db, 'h) platform =
  pf_sled :: "'db sled_env"
  pf_hnsw :: "'h hnsw_api"
  pf_time :: time_api
  pf_days :: "int \<Rightarrow> int option"
  pf_json :: "json \<Rightarrow> string"
  pf_hash :: "string \<Rightarrow> nat"
  pf_embed :: embed_api

type_synonym ('db, 'h) node_state = "('db sled_storage, 'h vector_worlds, local_stream, local_gatekeeper) engine"

definition node_env ::
  "('db, 'h) platform \<Rightarrow> nat \<Rightarrow> ('db sled_storage, 'h vector_worlds, local_stream, local_gatekeeper) engine_env" where
  "node_env P now =
     \<lparr>ee_time = pf_time P, ee_days = pf_days P, ee_json = pf_json P, ee_hash = pf_hash P,
      ee_storage = sled_api (pf_sled P) (pf_time P), ee_vector = hnsw_vector_api (pf_hnsw P),
      ee_stream = local_stream_api, ee_gate = local_gate_api now, ee_embed = pf_embed P\<rparr>"

lemma node_env_simps [simp]:
  "ee_time (node_env P now) = pf_time P" "ee_days (node_env P now) = pf_days P"
  "ee_json (node_env P now) = pf_json P" "ee_hash (node_env P now) = pf_hash P"
  "ee_storage (node_env P now) = sled_api (pf_sled P) (pf_time P)"
  "ee_vector (node_env P now) = hnsw_vector_api (pf_hnsw P)"
  "ee_stream (node_env P now) = local_stream_api" "ee_gate (node_env P now) = local_gate_api now"
  "ee_embed (node_env P now) = pf_embed P"
  by (simp_all add: node_env_def)

lemma slash_free_policy: "slash_free w \<Longrightarrow> slash_free (''policy:'' @ w)"
  by simp

lemma split_once_none: "c \<notin> set s \<Longrightarrow> split_once c s = None"
  by (induction s) auto

lemma slash_free_no_tenant:
  assumes "slash_free w"
  shows "tenant_policy_world w = None"
proof (cases "strip_prefix ''tenant:'' w")
  case (Some rest)
  then have "w = ''tenant:'' @ rest" by (simp add: str_simps)
  then show ?thesis using assms by (simp add: tenant_policy_world_def slash_free_def split_once_none)
qed (simp add: tenant_policy_world_def)

interpretation node: gc_contract "node_env P now" "sled_inv (pf_sled P)" slash_free "log_room (pf_sled P)"
    "log_atoms (pf_sled P)" "stored_id (pf_sled P)" vector_inv dim_fits stream_inv
  for P :: "('db, 'h) platform" and now :: nat
  by (intro gc_contract.intro engine_contract.intro gc_contract_axioms.intro, unfold node_env_simps)
    (fact sled.indexed_store_axioms hnsw.vector_contract_axioms streams.stream_contract_axioms
      slash_free_policy slash_free_no_tenant)+

end
