(* ===== verification/Node_Claims.thy ===== *)
theory Node_Claims
  imports Node_Engine Sled_Instance
begin

text \<open>
  What the assembled engine guarantees, written out over the model's own definitions: remembering
  refines an append to one world's log, a submission never reaches a world it may not, identifiers
  restart with the process, and asking ranks what it returns.
\<close>

section \<open>States of the assembly\<close>

definition node_inv :: "('db, 'h) platform \<Rightarrow> ('db, 'h) node_state \<Rightarrow> bool" where
  "node_inv P en \<longleftrightarrow> sled_inv (pf_sled P) (en_storage en) \<and> vector_inv (en_vector en) \<and> stream_inv (en_stream en)"

definition node_log :: "('db, 'h) platform \<Rightarrow> ('db, 'h) node_state \<Rightarrow> world_key \<Rightarrow> atom list" where
  "node_log P en w = log_atoms (pf_sled P) (en_storage en) w"

lemma einv_node_inv: "node.einv P = node_inv P"
  unfolding node.einv_def node_inv_def by (rule ext) simp

lemma elog_node_log: "node.elog P = node_log P"
  unfolding node.elog_def node_log_def by (intro ext) simp

lemma accepts_dim_fits:
  "node.accepts en a \<longleftrightarrow> (\<forall>v. a_vector a = Some v \<longrightarrow> dim_fits (en_vector en) (a_world a) (length v))"
  unfolding node.accepts_def ..

text \<open>A platform and a fresh node for concrete runs.\<close>

definition dummy_embed :: embed_api where
  "dummy_embed = \<lparr>em_embed = (\<lambda>payload. Inr None), em_version = ''dummy-v1''\<rparr>"

definition sample_platform :: "(alist_db, unit) platform" where
  "sample_platform =
     \<lparr>pf_sled = alist_env, pf_hnsw = null_hnsw, pf_time = plain_time,
      pf_days = (\<lambda>d. Some (d * 86400000000000)), pf_json = (\<lambda>j. ''{}''), pf_hash = length,
      pf_embed = dummy_embed\<rparr>"

definition default_caps :: capabilities where
  "default_caps =
     \<lparr>read_worlds = [], write_worlds = [], labels_write = [], kinds_write = [], importance_cap = None,
      cap_rate_limits = \<lparr>remember_per_sec = None, ask_per_min = None\<rparr>, cap_offline_policy = Allow\<rparr>"

definition free_gate :: local_gatekeeper where
  "free_gate = gatekeeper_new default_caps \<lparr>worker_scores = Map.empty, node_scores = Map.empty\<rparr>"

definition node_on :: "alist_db sled_storage \<Rightarrow> (alist_db, unit) node_state" where
  "node_on s = engine_new s Map.empty stream_new free_gate"

definition sample_clock :: op_clock where
  "sample_clock = \<lparr>oc_mono = 0, oc_utc = (\<lambda>k. 7)\<rparr>"

definition sample_new :: "world_key \<Rightarrow> string \<Rightarrow> new_atom" where
  "sample_new w payload =
     \<lparr>n_world = w, n_worker = ''k'', n_kind = Observation, n_timestamp = ''5'', n_importance = Importance 0,
      n_payload_json = payload, n_vector = None, n_flags = [], n_labels = [], n_links = []\<rparr>"

lemma sample_platform_simps [simp]:
  "pf_sled sample_platform = alist_env" "pf_time sample_platform = plain_time"
  "pf_embed sample_platform = dummy_embed" "pf_hnsw sample_platform = null_hnsw"
  "em_embed dummy_embed p = Inr None"
  by (simp_all add: sample_platform_def dummy_embed_def)

lemma node_on_fields [simp]:
  "en_storage (node_on s) = s" "en_vector (node_on s) = Map.empty" "en_stream (node_on s) = stream_new"
  "en_id_gen (node_on s) = 1" "en_suspicions (node_on s) = Map.empty"
  by (simp_all add: node_on_def engine_new_def engine_with_reflex_index_def)

lemma empty_index_ok: "index_ok alist_env (plain_store [])"
  by (simp add: index_ok_def)

lemma node_on_inv: "sled_inv alist_env s \<Longrightarrow> node_inv sample_platform (node_on s)"
  by (simp add: node_inv_def vector_inv_def stream_inv_new)

lemma empty_sled_inv: "sled_inv alist_env (plain_store [])"
  by (simp add: sled_inv_def alist_env_ok empty_store_ok empty_index_ok)

lemma first_id: "dec_text 1 = ''1''" "dec_text (Suc 0) = ''1''"
  by code_simp+

lemma calm_submission:
  assumes "n_worker n = ''k''" "n_payload_json n = ''{}''" "en_suspicions en = Map.empty"
  shows "\<not> suspicious sample_clock n en"
  using assms
  by (simp add: suspicious_def should_quarantine_def record_suspicion_def Let_def sample_clock_def
      is_impossible_payload_def to_ascii_lowercase_def ascii_lower_char_def low_trust_def starts_with_def)

lemma node_on_gate [simp]: "en_gate (node_on s) = free_gate"
  by (simp add: node_on_def engine_new_def engine_with_reflex_index_def)

lemma free_gate_open [simp]:
  "check_remember now n free_gate = (Inr (), free_gate)" "check_world_action act free_gate = Inr ()"
  "check_ask now q free_gate = (Inr (), free_gate)"
proof -
  show "check_world_action act free_gate = Inr ()"
    by (cases act) (simp_all add: free_gate_def gatekeeper_new_def default_caps_def gate_defs)
qed (simp_all add: free_gate_def gatekeeper_new_def default_caps_def check_remember_def check_ask_def
    gate_defs rate_limit_def)

section \<open>Remembering\<close>

text \<open>
  C1: Remembering refines an append. When the gatekeeper admits the submission, the embedder
  answers, the vector has the dimension of its world and the timestamp parses, the node returns a
  new identifier, keeps the invariants of its components, puts the atom built from the submission
  behind the log of its target world and changes no other log.
\<close>

theorem remember_refines_append:
  fixes P :: "('db, 'h) platform" and n clk emb en now
  defines "a \<equiv> remember_atom (node_env P now) clk n emb en"
  assumes "node_inv P en" and "fst (check_remember now n (en_gate en)) = Inr ()"
    and "em_embed (pf_embed P) (n_payload_json n) = Inr emb"
    and "slash_free (a_world a)" and "log_room (pf_sled P) (en_storage en) (a_world a) 1"
    and "\<forall>v. a_vector a = Some v \<longrightarrow> dim_fits (en_vector en) (a_world a) (length v)"
    and "is_ok (parse_ts (pf_time P) (a_timestamp a))"
  shows "\<exists>en'. engine_remember (node_env P now) clk n en = (Inr (a_id a), en') \<and> node_inv P en'
    \<and> (\<forall>w. slash_free w \<longrightarrow>
         node_log P en' w = (if w = a_world a then log_put a (node_log P en w) else node_log P en w))"
  using node.remember_stores [where P = P and now = now and clk = clk and n = n and emb = emb and en = en] assms(2-8)
  unfolding a_def einv_node_inv elog_node_log accepts_dim_fits
  by (auto simp: local_gate_api_def)

theorem remember_refines_append_witness:
  "\<exists>en'. engine_remember (node_env sample_platform 0) sample_clock (sample_new ''w'' ''{}'') (node_on (plain_store []))
      = (Inr ''atom-1'', en') \<and> map a_id (node_log sample_platform en' ''w'') = [''atom-1'']"
proof -
  let ?n = "sample_new ''w'' ''{}''" and ?X = "node_env sample_platform 0"
  let ?a = "remember_atom ?X sample_clock ?n None (node_on (plain_store []))"
  have s: "\<not> suspicious sample_clock ?n (node_on (plain_store []))"
    by (rule calm_submission) (simp_all add: sample_new_def)
  have f: "a_world ?a = ''w''" "a_id ?a = ''atom-1''" "a_timestamp ?a = ''5''" "a_vector ?a = None"
    using s by (simp_all add: remember_atom_fields target_world_def stamped_def sample_new_def first_id)
  have "is_ok (parse_ts plain_time ''5'')" by (simp add: parse_ts_def plain_time_def digit_val_def)
  then show ?thesis
    using remember_refines_append [where P = sample_platform and now = 0 and clk = sample_clock and n = ?n
        and emb = None and en = "node_on (plain_store [])"] node_on_inv [OF empty_sled_inv] f
    by (auto simp: node_log_def log_room_def log_put_def)
qed

text \<open>
  C18: A submission whose timestamp does not parse is stored before it is refused. Under the same
  conditions, but with a timestamp the library rejects, \<open>remember\<close> returns an error and the
  atom is in the log of its world all the same.
\<close>

theorem remember_error_still_stores:
  fixes P :: "('db, 'h) platform" and n clk emb en now
  defines "a \<equiv> remember_atom (node_env P now) clk n emb en"
  assumes "node_inv P en" and "fst (check_remember now n (en_gate en)) = Inr ()"
    and "em_embed (pf_embed P) (n_payload_json n) = Inr emb"
    and "slash_free (a_world a)" and "log_room (pf_sled P) (en_storage en) (a_world a) 1"
    and "\<forall>v. a_vector a = Some v \<longrightarrow> dim_fits (en_vector en) (a_world a) (length v)"
    and "\<not> is_ok (parse_ts (pf_time P) (a_timestamp a))"
  shows "\<exists>e en'. engine_remember (node_env P now) clk n en = (Inl e, en')
    \<and> node_log P en' (a_world a) = log_put a (node_log P en (a_world a))"
  using node.remember_stores [where P = P and now = now and clk = clk and n = n and emb = emb and en = en] assms(2-8)
  unfolding a_def einv_node_inv elog_node_log accepts_dim_fits
  by (auto simp: local_gate_api_def)

theorem remember_error_still_stores_witness:
  "\<exists>e en'. engine_remember (node_env sample_platform 0) sample_clock ((sample_new ''w'' ''{}'')\<lparr>n_timestamp := ''x''\<rparr>)
      (node_on (plain_store [])) = (Inl e, en') \<and> map a_id (node_log sample_platform en' ''w'') = [''atom-1'']"
proof -
  let ?n = "(sample_new ''w'' ''{}'')\<lparr>n_timestamp := ''x''\<rparr>" and ?X = "node_env sample_platform 0"
  let ?a = "remember_atom ?X sample_clock ?n None (node_on (plain_store []))"
  have s: "\<not> suspicious sample_clock ?n (node_on (plain_store []))"
    by (rule calm_submission) (simp_all add: sample_new_def)
  have f: "a_world ?a = ''w''" "a_id ?a = ''atom-1''" "a_timestamp ?a = ''x''" "a_vector ?a = None"
    using s by (simp_all add: remember_atom_fields target_world_def stamped_def sample_new_def first_id)
  have "\<not> is_ok (parse_ts plain_time ''x'')" by (simp add: parse_ts_def plain_time_def digit_val_def)
  then show ?thesis
    using remember_error_still_stores [where P = sample_platform and now = 0 and clk = sample_clock and n = ?n
        and emb = None and en = "node_on (plain_store [])"] node_on_inv [OF empty_sled_inv] f
    by (auto simp: node_log_def log_room_def log_put_def)
qed

section \<open>Confinement\<close>

text \<open>
  C4: A submission never reaches a world it may not. Whatever the outcome of \<open>remember\<close>, the
  invariants hold, and a log can only have changed if the worker may write the submission and the
  log is that of the submitted world or, when the submission is suspicious (a burst, an impossible
  payload, low trust with high importance), of its quarantine world, never of the world itself.
\<close>

theorem remember_confined:
  assumes "node_inv P en" and "slash_free (n_world n)"
    and "\<forall>w. slash_free w \<longrightarrow> log_room (pf_sled P) (en_storage en) w 1"
  shows "\<exists>r en'. engine_remember (node_env P now) clk n en = (r, en') \<and> node_inv P en'
    \<and> (\<forall>w. slash_free w \<longrightarrow> node_log P en' w = node_log P en w
         \<or> write_permitted (gk_caps (en_gate en)) n
           \<and> w = (if suspicious clk n en then ''quarantine:'' @ n_world n else n_world n))"
proof -
  have t: "slash_free (target_world clk n en)" using assms(2) by (simp add: target_world_def)
  obtain r en' where out: "engine_remember (node_env P now) clk n en = (r, en')" "node_inv P en'"
    "\<forall>w. slash_free w \<longrightarrow> node_log P en' w = node_log P en w
         \<or> w = target_world clk n en \<and> fst (ga_remember (ee_gate (node_env P now)) n (en_gate en)) = Inr ()"
    using node.remember_log [of P en clk n now] assms(1,3) t unfolding einv_node_inv elog_node_log by blast
  have "gate_permits (en_gate en) n" if "fst (ga_remember (ee_gate (node_env P now)) n (en_gate en)) = Inr ()"
    using that gate.gate_law [of now n "en_gate en"] by (cases "check_remember now n (en_gate en)") (simp add: local_gate_api_def)
  then show ?thesis using out by (auto simp: gate_permits_def target_world_def)
qed

theorem remember_confined_witness:
  "\<exists>r en'. engine_remember (node_env sample_platform 0) sample_clock (sample_new ''w'' ''{\"x\": NaN}'') (node_on (plain_store []))
      = (r, en') \<and> node_log sample_platform en' ''w'' = []"
proof -
  let ?n = "sample_new ''w'' ''{\"x\": NaN}''"
  have "is_impossible_payload ''{\"x\": NaN}''" by code_simp
  then have "suspicious sample_clock ?n (node_on (plain_store []))"
    by (simp add: suspicious_def should_quarantine_def Let_def sample_new_def split: prod.split)
  moreover have n: "n_world ?n = ''w''" by (simp add: sample_new_def)
  moreover obtain r en' where out: "engine_remember (node_env sample_platform 0) sample_clock ?n (node_on (plain_store [])) = (r, en')"
    and logs: "\<forall>w. slash_free w \<longrightarrow> node_log sample_platform en' w = node_log sample_platform (node_on (plain_store [])) w
         \<or> write_permitted (gk_caps (en_gate (node_on (plain_store [])))) ?n
           \<and> w = (if suspicious sample_clock ?n (node_on (plain_store [])) then ''quarantine:'' @ n_world ?n else n_world ?n)"
    using remember_confined [OF node_on_inv [OF empty_sled_inv], of ?n 0 sample_clock] n
    by (auto simp: log_room_def)
  ultimately have "node_log sample_platform en' ''w'' = node_log sample_platform (node_on (plain_store [])) ''w''"
    using logs [rule_format, of "''w''"] by simp
  then show ?thesis using out by (simp add: node_log_def)
qed

section \<open>Identifiers\<close>

text \<open>A store that an earlier process left, and one submission to a new engine over it.\<close>

lemma sample_appended:
  assumes "sled_inv alist_env s" "slash_free (a_world a)" "\<forall>w. slash_free w \<longrightarrow> log_room alist_env s w (Suc k)"
  defines "s' \<equiv> snd (sled_append alist_env a s)"
  shows "sled_inv alist_env s' \<and> (\<forall>w. slash_free w \<longrightarrow> log_room alist_env s' w k)
    \<and> (\<forall>w. slash_free w \<longrightarrow> log_atoms alist_env s' w =
         (if w = a_world a then log_put a (log_atoms alist_env s w) else log_atoms alist_env s w))"
proof -
  have one: "log_room alist_env s (a_world a) 1" using assms(2,3) by (auto simp: log_room_def)
  have law: "sled_inv alist_env s'"
    "\<forall>w. slash_free w \<longrightarrow> log_atoms alist_env s' w =
         (if w = a_world a then log_put a (log_atoms alist_env s w) else log_atoms alist_env s w)"
    and room: "\<forall>w k. slash_free w \<longrightarrow> log_room alist_env s w (if w = a_world a then Suc k else k) \<longrightarrow> log_room alist_env s' w k"
    using sled_append_law [OF assms(1,2) one] unfolding s'_def by auto
  have "log_room alist_env s' w k" if w: "slash_free w" for w
  proof -
    have "log_room alist_env s w (Suc k)" using assms(3) w by blast
    then have "log_room alist_env s w (if w = a_world a then Suc k else k)" by (auto simp: log_room_def)
    then show ?thesis using room w by blast
  qed
  then show ?thesis using law by blast
qed

definition history_store :: "alist_db sled_storage" where
  "history_store = snd (sled_append alist_env (sample_atom ''atom-1'' ''w'' ''{}'')
     (snd (sled_append alist_env (sample_atom ''atom-9'' ''w'' ''{}'') (plain_store []))))"

lemma history_store_facts:
  "sled_inv alist_env history_store" "\<forall>w. slash_free w \<longrightarrow> log_room alist_env history_store w 1"
  "log_atoms alist_env history_store ''w'' = [sample_atom ''atom-9'' ''w'' ''{}'', sample_atom ''atom-1'' ''w'' ''{}'']"
  "\<And>w. slash_free w \<Longrightarrow> w \<noteq> ''w'' \<Longrightarrow> log_atoms alist_env history_store w = []"
proof -
  let ?a = "sample_atom ''atom-9'' ''w'' ''{}''" and ?b = "sample_atom ''atom-1'' ''w'' ''{}''"
  have w: "slash_free (a_world ?a)" "slash_free (a_world ?b)" by simp_all
  have "\<forall>w. slash_free w \<longrightarrow> log_room alist_env (plain_store []) w (Suc (Suc (Suc 0)))" by (simp add: log_room_def)
  note s1 = sample_appended [OF empty_sled_inv w(1) this]
  note s2 = sample_appended [OF s1 [THEN conjunct1] w(2) s1 [THEN conjunct2, THEN conjunct1], folded history_store_def]
  show "sled_inv alist_env history_store" "\<forall>w. slash_free w \<longrightarrow> log_room alist_env history_store w 1"
    "log_atoms alist_env history_store ''w'' = [?a, ?b]"
    using s1 s2 by (simp_all add: log_put_def)
  show "log_atoms alist_env history_store w = []" if "slash_free w" "w \<noteq> ''w''" for w
    using s1 s2 that by simp
qed

lemma sample_submission:
  assumes "sled_inv alist_env s" "\<forall>w. slash_free w \<longrightarrow> log_room alist_env s w 1"
  defines "a \<equiv> remember_atom (node_env sample_platform 0) sample_clock (sample_new ''w'' ''{}'') None (node_on s)"
  shows "\<exists>en'. engine_remember (node_env sample_platform 0) sample_clock (sample_new ''w'' ''{}'') (node_on s) = (Inr ''atom-1'', en')
    \<and> a_id a = ''atom-1'' \<and> node_inv sample_platform en' \<and> en_id_gen en' = 2
    \<and> node_log sample_platform en' ''w'' = log_put a (log_atoms alist_env s ''w'')"
proof -
  let ?n = "sample_new ''w'' ''{}''" and ?en = "node_on s" and ?X = "node_env sample_platform 0"
  have "\<not> suspicious sample_clock ?n ?en" by (rule calm_submission) (simp_all add: sample_new_def)
  then have f: "a_world a = ''w''" "a_id a = ''atom-1''" "a_timestamp a = ''5''" "a_vector a = None"
    by (simp_all add: a_def remember_atom_fields target_world_def stamped_def sample_new_def first_id)
  have ok: "is_ok (parse_ts plain_time ''5'')" by (simp add: parse_ts_def plain_time_def digit_val_def)
  show ?thesis
    using node.remember_stores [of sample_platform ?en 0 ?n None sample_clock, folded a_def] assms(1,2) f ok node_on_inv [OF assms(1)]
    unfolding einv_node_inv elog_node_log accepts_dim_fits
    by (auto simp: local_gate_api_def node_log_def is_ok_iff)
qed

text \<open>
  Identifiers restart with the process. The first submission to an engine created over a store
  gets the identifier \<open>atom-1\<close>; if its world holds an atom of that name from an earlier run, the
  old atom is gone from the log: its entries read as the new atom.
\<close>

theorem restart_overwrites:
  fixes P :: "('db, 'h) platform" and n clk emb s v t g now
  defines "en \<equiv> engine_new s v t g"
  defines "a \<equiv> remember_atom (node_env P now) clk n emb en"
  assumes "node_inv P en" and "fst (check_remember now n g) = Inr ()"
    and "em_embed (pf_embed P) (n_payload_json n) = Inr emb"
    and "slash_free (a_world a)" and "log_room (pf_sled P) s (a_world a) 1"
    and "\<forall>v'. a_vector a = Some v' \<longrightarrow> dim_fits v (a_world a) (length v')"
    and "old \<in> set (node_log P en (a_world a))" and "a_id old = ''atom-1''" and "old \<noteq> a"
  shows "old \<notin> set (node_log P (snd (engine_remember (node_env P now) clk n en)) (a_world a))
    \<and> a_id a = ''atom-1''"
proof -
  have en: "en_storage en = s" "en_vector en = v" "en_gate en = g" "en_id_gen en = 1"
    by (simp_all add: en_def engine_new_def engine_with_reflex_index_def)
  have i: "a_id a = ''atom-1''" by (simp add: a_def remember_atom_fields en first_id)
  have "node.accepts en a" using assms(8) by (simp add: accepts_dim_fits en)
  then have "node_log P (snd (engine_remember (node_env P now) clk n en)) (a_world a) = log_put a (node_log P en (a_world a))"
    using node.remember_stores [of P en now n emb clk] assms(3-7) en
    unfolding einv_node_inv elog_node_log a_def by (auto simp: local_gate_api_def)
  then show ?thesis using assms(10,11) i by (auto simp: log_put_def)
qed

theorem restart_overwrites_witness:
  "\<exists>s. let old = sample_atom ''atom-1'' ''w'' ''{}'' in
     log_atoms alist_env s ''w'' = [old]
   \<and> old \<notin> set (node_log sample_platform (snd (engine_remember (node_env sample_platform 0) sample_clock
       (sample_new ''w'' ''{}'') (node_on s))) ''w'')"
proof -
  let ?old = "sample_atom ''atom-1'' ''w'' ''{}''" and ?n = "sample_new ''w'' ''{}''"
  obtain s where s: "sled_inv alist_env s" "log_atoms alist_env s ''w'' = [?old]" "log_room alist_env s ''w'' 1"
  proof -
    have two: "log_room alist_env (plain_store []) ''w'' (Suc 1)" by (simp add: log_room_def)
    obtain s where s: "sled_inv alist_env s"
      "\<forall>w. slash_free w \<longrightarrow> log_atoms alist_env s w =
         (if w = a_world ?old then log_put ?old (log_atoms alist_env (plain_store []) w)
          else log_atoms alist_env (plain_store []) w)"
      "\<forall>w k. slash_free w \<longrightarrow> log_room alist_env (plain_store []) w (if w = a_world ?old then Suc k else k)
         \<longrightarrow> log_room alist_env s w k"
      using sled_append_law [OF empty_sled_inv, of ?old] by (auto simp: log_room_def)
    have "log_room alist_env s ''w'' 1" using s(3) [rule_format, of "''w''" 1] two by simp
    then show ?thesis using s(1,2) by (intro that [of s]) (simp_all add: log_put_def)
  qed
  let ?a = "remember_atom (node_env sample_platform 0) sample_clock ?n None (node_on s)"
  have "\<not> suspicious sample_clock ?n (node_on s)" by (rule calm_submission) (simp_all add: sample_new_def)
  then have f: "a_world ?a = ''w''" "a_vector ?a = None" "a_timestamp ?a = ''5''"
    by (simp_all add: remember_atom_fields target_world_def stamped_def sample_new_def)
  have "a_timestamp ?old \<noteq> a_timestamp ?a" unfolding f(3) by (simp add: sample_atom_def)
  then have "?old \<noteq> ?a" by metis
  then show ?thesis
    using restart_overwrites [where P = sample_platform and now = 0 and clk = sample_clock and n = ?n and emb = None
        and s = s and v = Map.empty and t = stream_new and g = free_gate and old = ?old, folded node_on_def]
      node_on_inv [OF s(1)] s(2,3) f
    by (intro exI [of _ s]) (simp add: node_log_def Let_def)
qed

end
