(* ===== verification/Node_Runs.thy ===== *)
theory Node_Runs
  imports Node_Claims "HOL-Library.Sublist" "HOL-Library.Product_Lexorder"
begin

text \<open>
  Runs of the assembled engine: a step relation for the operations a node starts itself, the
  append-only property of its logs, the ranking of answers, and the burst counter.
\<close>

section \<open>Runs\<close>

text \<open>
  A step is one call with any arguments and clocks. Identifiers have not run out, world names hold
  no slash, and every log has room for one more entry.
\<close>

inductive node_step :: "('db, 'h) platform \<Rightarrow> ('db, 'h) node_state \<Rightarrow> ('db, 'h) node_state \<Rightarrow> bool"
  for P :: "('db, 'h) platform" where
  step_remember: "en_id_gen en + 1 < 2 ^ 64 \<Longrightarrow> slash_free (n_world n) \<Longrightarrow>
    \<forall>w. slash_free w \<longrightarrow> log_room (pf_sled P) (en_storage en) w 1 \<Longrightarrow>
    engine_remember (node_env P now) clk n en = (r, en') \<Longrightarrow> node_step P en en'"
| step_ask: "engine_ask (node_env P now) clk q en = (ra, en') \<Longrightarrow> node_step P en en'"
| step_observe: "engine_observe (node_env P now) a en = (ro, en') \<Longrightarrow> node_step P en en'"
| step_manage: "en_id_gen en + 1 < 2 ^ 64 \<Longrightarrow> slash_free (fst (action_parts act)) \<Longrightarrow>
    \<forall>w. slash_free w \<longrightarrow> log_room (pf_sled P) (en_storage en) w 1 \<Longrightarrow>
    manage_world (node_env P now) clk act en = (rm, en') \<Longrightarrow> node_step P en en'"

text \<open>
  Identifiers that an engine gives out while its counter runs from \<open>m\<close> to \<open>n\<close>, and how a log may
  change meanwhile: entries keep their places and identifiers, an entry reads as another atom only if
  its identifier was given out again, and the entries added have identifiers given out.
\<close>

definition issued :: "nat \<Rightarrow> nat \<Rightarrow> atom_id \<Rightarrow> bool" where
  "issued m n i \<longleftrightarrow> (\<exists>k. m \<le> k \<and> k < n \<and> i = ''atom-'' @ dec_text k)"

definition log_grows :: "nat \<Rightarrow> nat \<Rightarrow> atom list \<Rightarrow> atom list \<Rightarrow> bool" where
  "log_grows m n xs ys \<longleftrightarrow> length xs \<le> length ys
     \<and> (\<forall>i < length xs. a_id (ys ! i) = a_id (xs ! i) \<and> (ys ! i = xs ! i \<or> issued m n (a_id (xs ! i))))
     \<and> (\<forall>i < length ys. length xs \<le> i \<longrightarrow> issued m n (a_id (ys ! i)))"

text \<open>No log holds an identifier that is still to be given out.\<close>

definition own_ids :: "('db, 'h) platform \<Rightarrow> ('db, 'h) node_state \<Rightarrow> bool" where
  "own_ids P en \<longleftrightarrow> (\<forall>w. slash_free w \<longrightarrow>
     (\<forall>a \<in> set (node_log P en w). \<exists>k < en_id_gen en. a_id a = ''atom-'' @ dec_text k))"

lemma dec_text_inj: "dec_text m = dec_text n \<longleftrightarrow> m = n"
proof
  assume eq: "dec_text m = dec_text n"
  have "Some m = digits_val 0 (dec_text m)" by (simp add: digits_val_dec_text_gen)
  also have "\<dots> = digits_val 0 (dec_text n)" unfolding eq ..
  also have "\<dots> = Some n" by (simp add: digits_val_dec_text_gen)
  finally show "m = n" by simp
qed simp

lemma issued_mono: "issued m n i \<Longrightarrow> m' \<le> m \<Longrightarrow> n \<le> n' \<Longrightarrow> issued m' n' i"
proof -
  assume le: "m' \<le> m" "n \<le> n'" and "issued m n i"
  then obtain k where "m \<le> k" "k < n" "i = ''atom-'' @ dec_text k" unfolding issued_def by blast
  then show "issued m' n' i" unfolding issued_def by (intro exI [of _ k] conjI) (use le in simp_all)
qed

lemma issued_new: "issued m (Suc m) (''atom-'' @ dec_text m)"
  unfolding issued_def by (intro exI [of _ m]) simp

lemma issued_own: "issued m n (''atom-'' @ dec_text k) \<longleftrightarrow> m \<le> k \<and> k < n"
  unfolding issued_def by (auto simp: dec_text_inj)

lemma log_grows_refl [simp]: "log_grows m n xs xs"
  by (simp add: log_grows_def)

lemma log_grows_put:
  assumes "a_id a = ''atom-'' @ dec_text m"
  shows "log_grows m (Suc m) xs (log_put a xs)"
proof -
  have put: "log_put a xs ! i = (if a_id (xs ! i) = a_id a then a else xs ! i)" if "i < length xs" for i
    using that by (simp add: log_put_def nth_append)
  have "log_put a xs ! i = a" if "i < length (log_put a xs)" "length xs \<le> i" for i
  proof -
    have "i = length xs" using that by (simp add: log_put_def)
    then show ?thesis by (simp add: log_put_def nth_append)
  qed
  moreover have "issued m (Suc m) (a_id a)" unfolding assms by (rule issued_new)
  ultimately show ?thesis unfolding log_grows_def using put by (auto simp: log_put_def)
qed

lemma log_grows_trans:
  assumes "log_grows m n xs ys" "log_grows n p ys zs" "m \<le> n" "n \<le> p"
  shows "log_grows m p xs zs"
proof -
  have up: "issued m p i" if "issued m n i \<or> issued n p i" for i
    using that issued_mono [of m n i m p] issued_mono [of n p i m p] assms(3,4) by blast
  have len: "length xs \<le> length ys" "length ys \<le> length zs"
    using assms(1,2) by (simp_all add: log_grows_def)
  have old: "a_id (zs ! i) = a_id (xs ! i) \<and> (zs ! i = xs ! i \<or> issued m p (a_id (xs ! i)))" if "i < length xs" for i
  proof -
    have x: "a_id (ys ! i) = a_id (xs ! i)" "ys ! i = xs ! i \<or> issued m n (a_id (xs ! i))"
      using assms(1) that by (simp_all add: log_grows_def)
    have z: "a_id (zs ! i) = a_id (ys ! i)" "zs ! i = ys ! i \<or> issued n p (a_id (ys ! i))"
      using assms(2) that len(1) by (simp_all add: log_grows_def)
    show ?thesis using x z up by metis
  qed
  have new: "issued m p (a_id (zs ! i))" if "i < length zs" "length xs \<le> i" for i
  proof (cases "i < length ys")
    case True
    then have "issued m n (a_id (ys ! i))" "a_id (zs ! i) = a_id (ys ! i)"
      using assms(1,2) that by (simp_all add: log_grows_def)
    then show ?thesis using up by simp
  next
    case False
    then have "issued n p (a_id (zs ! i))" using assms(2) that by (simp add: log_grows_def)
    then show ?thesis using up by blast
  qed
  show ?thesis unfolding log_grows_def using len old new by simp
qed

lemma log_grows_prefix:
  assumes "log_grows m n xs ys" "\<And>a. a \<in> set xs \<Longrightarrow> \<not> issued m n (a_id a)"
  shows "prefix xs ys"
proof -
  have "ys ! i = xs ! i" if "i < length xs" for i
    using assms(1) assms(2) [OF nth_mem [OF that]] that by (auto simp: log_grows_def)
  moreover have "length xs \<le> length ys" using assms(1) by (simp add: log_grows_def)
  ultimately have "take (length xs) ys = xs" by (intro nth_equalityI) auto
  then show ?thesis by (metis take_is_prefix)
qed

text \<open>With own identifiers only, a log that grows is extended at its end, and its identifiers stay own.\<close>

lemma own_ids_grow:
  assumes own: "own_ids P en" and le: "en_id_gen en \<le> en_id_gen en'"
    and grows: "\<forall>w. slash_free w \<longrightarrow> log_grows (en_id_gen en) (en_id_gen en') (node_log P en w) (node_log P en' w)"
  shows "own_ids P en' \<and> (\<forall>w. slash_free w \<longrightarrow> prefix (node_log P en w) (node_log P en' w))"
proof -
  have one: "prefix (node_log P en w) (node_log P en' w)
      \<and> (\<forall>a \<in> set (node_log P en' w). \<exists>k < en_id_gen en'. a_id a = ''atom-'' @ dec_text k)"
    if w: "slash_free w" for w
  proof -
    have old: "\<exists>k < en_id_gen en. a_id a = ''atom-'' @ dec_text k" if "a \<in> set (node_log P en w)" for a
      using own w that by (simp add: own_ids_def)
    note g = grows [rule_format, OF w]
    have p: "prefix (node_log P en w) (node_log P en' w)"
    proof (rule log_grows_prefix [OF g])
      fix a assume "a \<in> set (node_log P en w)"
      then obtain k where "k < en_id_gen en" "a_id a = ''atom-'' @ dec_text k" using old by blast
      then show "\<not> issued (en_id_gen en) (en_id_gen en') (a_id a)" by (simp only: issued_own not_le de_Morgan_conj simp_thms)
    qed
    have "\<exists>k < en_id_gen en'. a_id a = ''atom-'' @ dec_text k" if a: "a \<in> set (node_log P en' w)" for a
    proof -
      obtain i where i: "i < length (node_log P en' w)" "a = node_log P en' w ! i"
        using a unfolding in_set_conv_nth by blast
      show ?thesis
      proof (cases "i < length (node_log P en w)")
        case True
        then have "a_id a = a_id (node_log P en w ! i)" using g i(2) by (simp add: log_grows_def)
        moreover obtain k where "k < en_id_gen en" "a_id (node_log P en w ! i) = ''atom-'' @ dec_text k"
          using old [OF nth_mem [OF True]] by (elim exE conjE)
        ultimately show ?thesis using le by (intro exI [of _ k]) simp
      next
        case False
        then have "issued (en_id_gen en) (en_id_gen en') (a_id a)" using g i by (simp add: log_grows_def)
        then show ?thesis unfolding issued_def by blast
      qed
    qed
    then show ?thesis using p by blast
  qed
  then show ?thesis unfolding own_ids_def by blast
qed

text \<open>What an operation does that issues at most one identifier.\<close>

lemma one_new_id:
  assumes "en_id_gen en + 1 < 2 ^ 64"
    and "en_id_gen en' \<in> {en_id_gen en, (en_id_gen en + 1) mod 2 ^ 64}"
    and "\<forall>w. slash_free w \<longrightarrow> node_log P en' w = node_log P en w
       \<or> en_id_gen en' = (en_id_gen en + 1) mod 2 ^ 64
         \<and> (\<exists>a. a_id a = ''atom-'' @ dec_text (en_id_gen en) \<and> node_log P en' w = log_put a (node_log P en w))"
  shows "en_id_gen en \<le> en_id_gen en'
    \<and> (\<forall>w. slash_free w \<longrightarrow> log_grows (en_id_gen en) (en_id_gen en') (node_log P en w) (node_log P en' w))"
proof -
  have next_id: "(en_id_gen en + 1) mod 2 ^ 64 = Suc (en_id_gen en)" using assms(1) by simp
  have "log_grows (en_id_gen en) (en_id_gen en') (node_log P en w) (node_log P en' w)" if "slash_free w" for w
    using assms(3) [rule_format, OF that] log_grows_put [where xs = "node_log P en w"] unfolding next_id by auto
  then show ?thesis using assms(2) next_id by auto
qed

lemma node_step_grows:
  assumes "node_step P en en'" "node_inv P en"
  shows "node_inv P en' \<and> en_id_gen en \<le> en_id_gen en'
    \<and> (\<forall>w. slash_free w \<longrightarrow> log_grows (en_id_gen en) (en_id_gen en') (node_log P en w) (node_log P en' w))"
  using assms
proof (cases rule: node_step.cases)
  case (step_remember n now clk r)
  have t: "slash_free (target_world clk n en)" using step_remember(2) by (simp add: target_world_def)
  have "node_inv P en' \<and> en_id_gen en' \<in> {en_id_gen en, (en_id_gen en + 1) mod 2 ^ 64}
    \<and> (\<forall>w. slash_free w \<longrightarrow> node_log P en' w = node_log P en w
       \<or> en_id_gen en' = (en_id_gen en + 1) mod 2 ^ 64
         \<and> (\<exists>emb. node_log P en' w = log_put (remember_atom (node_env P now) clk n emb en) (node_log P en w)))"
    using node.remember_log [of P en clk n now] assms(2) t step_remember(3,4)
    unfolding einv_node_inv elog_node_log by auto
  then show ?thesis
    using one_new_id [OF step_remember(1), of en'] remember_atom_fields(1) by blast
next
  case (step_ask now clk q ra)
  then have "node_inv P en' \<and> en_storage en' = en_storage en \<and> en_id_gen en' = en_id_gen en"
    using node.ask_keeps [of P en now clk q ra en'] assms(2) unfolding einv_node_inv by blast
  then show ?thesis by (simp add: node_log_def)
next
  case (step_observe now a ro)
  then have "node_inv P en' \<and> en_storage en' = en_storage en \<and> en_id_gen en' = en_id_gen en"
    using node.observe_keeps [of P en now a ro en'] assms(2) unfolding einv_node_inv by blast
  then show ?thesis by (simp add: node_log_def)
next
  case (step_manage act now clk rm)
  have "node_inv P en' \<and> en_id_gen en' \<in> {en_id_gen en, (en_id_gen en + 1) mod 2 ^ 64}
    \<and> (\<forall>w. slash_free w \<longrightarrow> node_log P en' w = node_log P en w
       \<or> en_id_gen en' = (en_id_gen en + 1) mod 2 ^ 64
         \<and> (\<exists>t. node_log P en' w = log_put (world_meta_atom (node_env P now) (''atom-'' @ dec_text (en_id_gen en)) t act)
              (node_log P en w)))"
    using node.manage_world_log [of P en act now clk] assms(2) step_manage(2,3,4)
    unfolding einv_node_inv elog_node_log by auto
  then show ?thesis
    using one_new_id [OF step_manage(1), of en'] world_meta_atom_fields(2) by blast
qed

lemma node_run_grows:
  assumes "rtranclp (node_step P) en en'" and "node_inv P en"
  shows "node_inv P en' \<and> en_id_gen en \<le> en_id_gen en'
    \<and> (\<forall>w. slash_free w \<longrightarrow> log_grows (en_id_gen en) (en_id_gen en') (node_log P en w) (node_log P en' w))"
  using assms
proof (induction rule: rtranclp_induct)
  case (step en1 en2)
  then show ?case using node_step_grows [OF step.hyps(2)] log_grows_trans order_trans by blast
qed simp

text \<open>
  C3: What a run does to the logs. Over any store, also one that an earlier process of the node
  filled, every run of submissions, questions, observations and world actions keeps the invariants;
  no entry of a log is lost, moved or given another identifier, what is added stands at the end under
  identifiers issued in the run, and an old entry reads as another atom only if its identifier was
  issued again, which a restarted counter does. If no log holds an identifier still to come, which a
  new engine over an empty store makes true and every run keeps, each log is only extended at its end.
\<close>

theorem logs_append_only:
  assumes "rtranclp (node_step P) en en'" and "node_inv P en"
  shows "node_inv P en' \<and> en_id_gen en \<le> en_id_gen en'
    \<and> (\<forall>w. slash_free w \<longrightarrow> log_grows (en_id_gen en) (en_id_gen en') (node_log P en w) (node_log P en' w))
    \<and> (own_ids P en \<longrightarrow> own_ids P en' \<and> (\<forall>w. slash_free w \<longrightarrow> prefix (node_log P en w) (node_log P en' w)))"
  using node_run_grows [OF assms] own_ids_grow by blast

text \<open>
  A restarted node: its world holds \<open>atom-9\<close> and \<open>atom-1\<close> of an earlier process. One submission
  keeps the entry of \<open>atom-9\<close>, replaces what the entry of \<open>atom-1\<close> reads and adds one.
\<close>

theorem logs_append_only_witness:
  "\<exists>en'. let old = sample_atom ''atom-9'' ''w'' ''{}'' in
     node_log sample_platform (node_on history_store) ''w'' = [old, sample_atom ''atom-1'' ''w'' ''{}'']
   \<and> rtranclp (node_step sample_platform) (node_on history_store) en' \<and> length (node_log sample_platform en' ''w'') = 3
   \<and> node_log sample_platform en' ''w'' ! 0 = old
   \<and> map a_id (node_log sample_platform en' ''w'') = [''atom-9'', ''atom-1'', ''atom-1'']"
proof -
  let ?old = "[sample_atom ''atom-9'' ''w'' ''{}'', sample_atom ''atom-1'' ''w'' ''{}'']"
  let ?n = "sample_new ''w'' ''{}''" and ?X = "node_env sample_platform 0"
  note s = history_store_facts(1,3,2)
  let ?en = "node_on history_store"
  note sub = sample_submission [OF s(1,3)]
  obtain r en' where out: "engine_remember ?X sample_clock ?n ?en = (r, en')"
    and log: "node_log sample_platform en' ''w'' = log_put (remember_atom ?X sample_clock ?n None ?en) ?old"
    and i: "a_id (remember_atom ?X sample_clock ?n None ?en) = ''atom-1''" and gen: "en_id_gen en' = 2"
    using sub s(2) by (auto simp: node_log_def)
  have step: "node_step sample_platform ?en en'"
    by (rule step_remember [OF _ _ _ out]) (use s(3) in \<open>simp_all add: sample_new_def\<close>)
  then have run: "rtranclp (node_step sample_platform) ?en en'" by blast
  have start: "node_log sample_platform ?en ''w'' = ?old" using s(2) by (simp add: node_log_def)
  have ids: "map a_id (node_log sample_platform en' ''w'') = [''atom-9'', ''atom-1'', ''atom-1'']"
    by (simp add: log log_put_def i)
  then have len: "length (node_log sample_platform en' ''w'') = 3" by (metis length_map length_Cons list.size(3) numeral_3_eq_3)
  have w: "slash_free ''w''" by simp
  from logs_append_only [OF run node_on_inv [OF s(1)]]
  have "log_grows 1 2 ?old (node_log sample_platform en' ''w'')"
    using w unfolding gen start [symmetric] node_on_fields by blast
  then have "node_log sample_platform en' ''w'' ! 0 = ?old ! 0 \<or> issued 1 2 (a_id (?old ! 0))"
    unfolding log_grows_def by (metis length_Cons zero_less_Suc)
  moreover have "\<not> issued 1 2 ''atom-9''"
  proof
    assume "issued 1 2 ''atom-9''"
    then obtain k where "1 \<le> k" "k < 2" "''atom-9'' = ''atom-'' @ dec_text k" unfolding issued_def by blast
    then have "dec_text k = ''9''" "k = 1" by simp_all
    then show False using first_id(1) by simp
  qed
  ultimately have "node_log sample_platform en' ''w'' ! 0 = sample_atom ''atom-9'' ''w'' ''{}''" by simp
  then show ?thesis using start run len ids by (intro exI [of _ en']) (simp only: Let_def simp_thms)
qed

section \<open>Answers\<close>

text \<open>What atoms are ranked by, largest first: score, time, importance, trust hint.\<close>

definition rank_key :: "time_api \<Rightarrow> (string \<Rightarrow> nat) \<Rightarrow> conflict_index \<Rightarrow> atom \<Rightarrow> int \<times> int \<times> int \<times> int" where
  "rank_key api h c a =
     (fl_key (rank_score c a), ts_or_epoch api a, fl_key (imp_get (a_importance a)), fl_key (trust_hint h a))"

definition rankable :: "(string \<Rightarrow> nat) \<Rightarrow> conflict_index \<Rightarrow> atom \<Rightarrow> bool" where
  "rankable h c a \<longleftrightarrow> \<not> f32_is_nan (rank_score c a) \<and> \<not> f32_is_nan (imp_get (a_importance a))
     \<and> \<not> f32_is_nan (trust_hint h a)"

lemma f32_cmp_key: "\<not> f32_is_nan x \<Longrightarrow> \<not> f32_is_nan y \<Longrightarrow> f32_cmp x y = cmp_lin (fl_key x) (fl_key y)"
  by (simp add: f32_cmp_def cmp_lin_def fl_lt_def)

lemma then_with_cmp_lin: "then_with (cmp_lin a b) (cmp_lin c d) = cmp_lin (a, c) (b, d)"
  by (auto simp: cmp_lin_def less_prod_def)

lemma rank_cmp_key:
  "rankable h c a \<Longrightarrow> rankable h c b \<Longrightarrow> rank_cmp api h c a b = cmp_lin (rank_key api h c b) (rank_key api h c a)"
  by (simp add: rank_cmp_def rankable_def f32_cmp_key then_with_cmp_lin rank_key_def)

lemma cmp_lin_Greater: "cmp_lin x y \<noteq> Greater \<longleftrightarrow> x \<le> y"
  by (auto simp: cmp_lin_def)

lemma rank_preorder: "preorder_on_cmp {a. rankable h c a} (rank_cmp api h c)"
  unfolding preorder_on_cmp_def
  by (intro conjI ballI impI) (auto simp: rank_cmp_key cmp_lin_Greater cmp_lin_def split: if_splits)

lemma dedup_ids_distinct:
  "distinct (map a_id (dedup_ids seen as)) \<and> a_id ` set (dedup_ids seen as) = a_id ` set as - set seen"
  by (induction seen as rule: dedup_ids.induct) auto

lemma dedup_ids_subset: "set (dedup_ids seen as) \<subseteq> set as"
  by (induction seen as rule: dedup_ids.induct) auto

lemma ask_atoms:
  assumes "engine_ask X clk q en = (Inr ans, en')"
  obtains cs where "ans_supporting_atoms ans =
      sort_by (rank_cmp (ee_time X) (ee_hash X) (en_conflict en')) (dedup_ids [] cs)"
proof -
  obtain rg g' where g: "ga_ask (ee_gate X) q (en_gate en) = (rg, g')" by fastforce
  then show ?thesis
    using assms that
    by (cases rg) (auto simp: engine_ask_def on_gate_def Let_def res_simps split: sum.splits)
qed

text \<open>
  C19: Answers are ranked by score first, and free of duplicates. The atoms that support an answer have
  distinct identifiers and, unless a score, importance or trust hint among them is not a number,
  stand in descending order of score, then timestamp, then importance, then trust hint. The score is
  the importance corrected by the links that supersede, contradict or confirm an atom, so an old
  important atom precedes a new one. The documents promise another order, timestamp first and no use
  of trust: the README, \<open>docs/cli.md\<close>, \<open>docs/overview.md\<close>, \<open>docs/developer/engine.md\<close> and
  \<open>architecture.md\<close>, and the READMEs of the examples \<open>basic_memory\<close> and \<open>worlds_and_forks\<close>. This is
  what the code does.
\<close>

theorem ask_answer_ranked:
  assumes "engine_ask X clk q en = (Inr ans, en')"
  shows "distinct (map a_id (ans_supporting_atoms ans))
    \<and> ((\<forall>a \<in> set (ans_supporting_atoms ans). rankable (ee_hash X) (en_conflict en') a) \<longrightarrow>
        sorted_wrt (\<lambda>a b. rank_key (ee_time X) (ee_hash X) (en_conflict en') b
                      \<le> rank_key (ee_time X) (ee_hash X) (en_conflict en') a) (ans_supporting_atoms ans))"
proof -
  obtain cs where cs: "ans_supporting_atoms ans =
      sort_by (rank_cmp (ee_time X) (ee_hash X) (en_conflict en')) (dedup_ids [] cs)"
    by (rule ask_atoms [OF assms])
  let ?cmp = "rank_cmp (ee_time X) (ee_hash X) (en_conflict en')" and ?as = "dedup_ids [] cs"
  let ?key = "rank_key (ee_time X) (ee_hash X) (en_conflict en')"
  have "mset (map a_id (sort_by ?cmp ?as)) = mset (map a_id ?as)" by simp
  then have "distinct (map a_id (sort_by ?cmp ?as))"
    using dedup_ids_distinct [of "[]" cs] mset_eq_imp_distinct_iff by blast
  moreover have "sorted_wrt (\<lambda>a b. ?key b \<le> ?key a) (sort_by ?cmp ?as)"
    if r: "\<forall>a \<in> set (sort_by ?cmp ?as). rankable (ee_hash X) (en_conflict en') a"
  proof -
    have "sorted_wrt (\<lambda>a b. ?cmp a b \<noteq> Greater) (sort_by ?cmp ?as)"
      by (rule sorted_sort_by [OF rank_preorder]) (use r in auto)
    then show ?thesis
      by (rule sorted_wrt_mono_rel [rotated]) (use r in \<open>simp add: rank_cmp_key cmp_lin_Greater\<close>)
  qed
  ultimately show ?thesis unfolding cs by blast
qed

text \<open>An old important atom stands before a new one of importance zero, which the store holds first.\<close>

definition faint :: atom where
  "faint = (sample_atom ''a2'' ''w'' ''{}'')\<lparr>a_timestamp := ''9'', a_importance := Importance 0\<rparr>"

definition bright :: atom where
  "bright = (sample_atom ''a1'' ''w'' ''{}'')\<lparr>a_timestamp := ''1''\<rparr>"

definition uneven_atoms :: "alist_db sled_storage" where
  "uneven_atoms = snd (append_atoms alist_env ''w'' [faint, bright] (plain_store []))"

lemma uneven_fields [simp]:
  "a_id faint = ''a2''" "a_id bright = ''a1''" "a_world faint = ''w''" "a_world bright = ''w''"
  "a_timestamp faint = ''9''" "a_timestamp bright = ''1''" "faint \<noteq> bright" "bright \<noteq> faint"
  by (simp_all add: faint_def bright_def sample_atom_def)

lemma uneven_log: "store_ok alist_env uneven_atoms" "log_atoms alist_env uneven_atoms ''w'' = [faint, bright]"
  using append_atoms_ok [OF alist_env_ok empty_store_ok, of "''w''" "[faint, bright]"]
  by (auto simp: uneven_atoms_def log_room_def log_put_def)

lemma uneven_keys:
  assumes "a \<in> {faint, bright}"
  shows "rankable length conflict_new a"
    "rank_key plain_time length conflict_new faint < rank_key plain_time length conflict_new bright"
proof -
  have score: "rank_score conflict_new a = imp_get (a_importance a)" for a
    by (simp add: rank_score_def conflict_new_def superseded_by_def contradiction_count_def confirmation_count_def Let_def)
  have imp: "imp_get (a_importance faint) = 0" "imp_get (a_importance bright) = f32_one"
    by (simp_all add: faint_def bright_def sample_atom_def)
  show "rank_key plain_time length conflict_new faint < rank_key plain_time length conflict_new bright"
    by (simp add: rank_key_def score imp)
  have "\<not> f32_is_nan (trust_hint length a)"
    using assms by (auto simp: trust_hint_def faint_def bright_def sample_atom_def) (simp_all add: fl_eval)
  then show "rankable length conflict_new a"
    using assms by (auto simp: rankable_def score imp f32_one_def fl_eval)
qed

theorem ask_answer_ranked_witness:
  "\<exists>ans en'. engine_ask (node_env sample_platform 0) sample_clock \<lparr>q_world = ''w'', q_text = [], q_filter = None\<rparr>
      (node_on uneven_atoms) = (Inr ans, en') \<and> ans_supporting_atoms ans = [bright, faint]
    \<and> ts_or_epoch plain_time bright < ts_or_epoch plain_time faint"
proof -
  let ?q = "\<lparr>q_world = ''w'', q_text = [], q_filter = None\<rparr>" and ?X = "node_env sample_platform 0"
  have scan: "sled_scan alist_env uneven_atoms ''w'' (default_filter\<lparr>f_world := Some ''w''\<rparr>) = Inr [faint, bright]"
    using sled_scan_spec [of alist_env uneven_atoms "''w''" "default_filter\<lparr>f_world := Some ''w''\<rparr>"] alist_env_ok
    by (simp add: uneven_log sled_env_ok_def scan_spec_def default_filter_def matches_filter_def)
  have reflex: "reflex_index_filter plain_time (en_reflex (node_on uneven_atoms)) (filter_from_question ?q) = Inr []"
    by (simp add: node_on_def engine_new_def engine_with_reflex_index_def reflex_new_def reflex_index_filter_def
        filter_from_question_def reflex_views_def)
  have "\<exists>ans en'. engine_ask ?X sample_clock ?q (node_on uneven_atoms) = (Inr ans, en')
      \<and> set (ans_supporting_atoms ans) = {faint, bright} \<and> en_conflict en' = conflict_new"
    by (simp add: engine_ask_def on_gate_def local_gate_api_def reflex ask_candidates_def question_filter_def scan
        ensure_index_entry_def maybe_rebuild_index_def Let_def in_quarantine_def starts_with_def)
      (simp add: node_on_def engine_new_def engine_with_reflex_index_def fresh_metadata_def scan insert_commute)
  then obtain ans en' where out: "engine_ask ?X sample_clock ?q (node_on uneven_atoms) = (Inr ans, en')"
    and atoms: "set (ans_supporting_atoms ans) = {faint, bright}" and c: "en_conflict en' = conflict_new"
    by (elim exE conjE)
  let ?as = "ans_supporting_atoms ans" and ?key = "rank_key plain_time length conflict_new"
  have hash: "pf_hash sample_platform = length" by (simp add: sample_platform_def)
  have able: "\<forall>a \<in> set ?as. rankable length conflict_new a" using atoms uneven_keys(1) by blast
  from ask_answer_ranked [OF out] have d: "distinct (map a_id ?as)" and r: "sorted_wrt (\<lambda>a b. ?key b \<le> ?key a) ?as"
    using able by (simp_all add: c hash)
  have "length ?as = card (set ?as)" using distinct_card [of ?as] d by (simp add: distinct_map)
  then obtain x y where xy: "?as = [x, y]" unfolding atoms by (auto simp: length_Suc_conv)
  have less: "?key faint < ?key bright" by (rule uneven_keys(2) [of faint]) simp
  have "?as = [bright, faint]"
    using atoms r less unfolding xy by (auto simp: doubleton_eq_iff)
  moreover have "ts_or_epoch plain_time bright < ts_or_epoch plain_time faint"
    by (simp add: ts_or_epoch_def parse_ts_def plain_time_def digit_val_def)
  ultimately show ?thesis using out by blast
qed

section \<open>Bursts\<close>

fun suspicion_run :: "worker_key \<Rightarrow> nat list \<Rightarrow> ('s, 'v, 't, 'g) engine \<Rightarrow> ('s, 'v, 't, 'g) engine" where
  "suspicion_run w [] en = en"
| "suspicion_run w (t # ts) en = suspicion_run w ts (snd (record_suspicion w t en))"

definition recent :: "nat \<Rightarrow> nat list \<Rightarrow> nat list" where
  "recent now ts = filter (\<lambda>t. now - t \<le> 1000000000) ts"

definition calls_of :: "('s, 'v, 't, 'g) engine \<Rightarrow> worker_key \<Rightarrow> nat list" where
  "calls_of en w = (case en_suspicions en w of None \<Rightarrow> [] | Some ts \<Rightarrow> ts)"

lemma drop_old_recent: "sorted ts \<Longrightarrow> drop_old now ts = recent now ts"
proof (induction ts)
  case (Cons t ts)
  then show ?case by (auto simp: recent_def intro!: filter_True [symmetric])
qed (simp add: recent_def)

lemma recent_recent: "t \<le> now \<Longrightarrow> recent now (recent t ts) = recent now ts"
  by (auto simp: recent_def intro: filter_cong)

lemma record_suspicion_recent:
  "sorted (calls_of en w @ [now]) \<Longrightarrow>
   fst (record_suspicion w now en) = length (recent now (calls_of en w @ [now]))
   \<and> calls_of (snd (record_suspicion w now en)) w = recent now (calls_of en w @ [now])"
  by (simp add: record_suspicion_def calls_of_def drop_old_recent Let_def)


lemma suspicion_run_recent:
  "sorted (calls_of en w @ ts) \<Longrightarrow>
   sorted (calls_of (suspicion_run w ts en) w) \<and> set (calls_of (suspicion_run w ts en) w) \<subseteq> set (calls_of en w @ ts)
   \<and> (\<forall>now. (\<forall>t \<in> set ts. t \<le> now) \<longrightarrow>
        recent now (calls_of (suspicion_run w ts en) w) = recent now (calls_of en w @ ts))"
proof (induction ts arbitrary: en)
  case (Cons t ts)
  let ?en1 = "snd (record_suspicion w t en)"
  have s: "sorted (calls_of en w @ [t])" using Cons.prems by (auto simp: sorted_append)
  have c1: "calls_of ?en1 w = recent t (calls_of en w @ [t])" using record_suspicion_recent [OF s] by blast
  have sub: "set (calls_of ?en1 w) \<subseteq> set (calls_of en w @ [t])" unfolding c1 by (auto simp: recent_def)
  have s1: "sorted (calls_of ?en1 w @ ts)"
    using Cons.prems s sub unfolding c1 by (auto simp: sorted_append recent_def sorted_wrt_filter)
  have "recent now (calls_of ?en1 w @ ts) = recent now (calls_of en w @ t # ts)" if "\<forall>u \<in> set (t # ts). u \<le> now" for now
    using recent_recent [of t now "calls_of en w @ [t]"] that unfolding c1 by (simp add: recent_def)
  then show ?case using Cons.IH [OF s1] sub by auto
qed simp

lemma burst_count:
  assumes "sorted (ts @ [now])" and "calls_of en w = []"
  shows "fst (record_suspicion w now (suspicion_run w ts en)) = length (recent now (ts @ [now]))"
proof -
  let ?run = "suspicion_run w ts en"
  have ts: "sorted (calls_of en w @ ts)" "\<forall>t \<in> set ts. t \<le> now"
    using assms by (auto simp: sorted_append)
  note run = suspicion_run_recent [OF ts(1)]
  have s: "sorted (calls_of ?run w @ [now])"
    using run ts(2) assms(2) by (auto simp: sorted_append)
  have "recent now (calls_of ?run w @ [now]) = recent now (ts @ [now])"
    using run ts(2) assms(2) by (simp add: recent_def)
  then show ?thesis using record_suspicion_recent [OF s] by simp
qed

text \<open>
  C20: Bursts are quarantined. After any calls for a worker at times that do not decrease, a
  submission at time \<open>now\<close> counts exactly the calls of the last second, itself included, and is
  suspicious when they are more than five; the calls of other workers do not count.
\<close>

theorem burst_is_suspicious:
  assumes "sorted (ts @ [now])" and "en_suspicions en (n_worker n) = None"
  shows "fst (record_suspicion (n_worker n) now (suspicion_run (n_worker n) ts en)) =
      length (filter (\<lambda>t. now - t \<le> 1000000000) (ts @ [now]))
    \<and> (5 < length (filter (\<lambda>t. now - t \<le> 1000000000) (ts @ [now])) \<longrightarrow>
        fst (should_quarantine n now (suspicion_run (n_worker n) ts en)))"
proof -
  let ?w = "n_worker n" and ?run = "suspicion_run (n_worker n) ts en"
  have "calls_of en ?w = []" using assms(2) by (simp add: calls_of_def)
  note count = burst_count [OF assms(1) this]
  then have "5 < length (recent now (ts @ [now])) \<longrightarrow> fst (should_quarantine n now ?run)"
    by (cases "record_suspicion ?w now ?run") (simp add: should_quarantine_def Let_def)
  then show ?thesis using count unfolding recent_def by blast
qed

theorem burst_is_suspicious_witness:
  "fst (should_quarantine (sample_new ''w'' ''{}'') 1000000000
     (suspicion_run ''k'' [0, 0, 0, 1, 2] (node_on (plain_store []))))"
  using burst_is_suspicious [where ts = "[0, 0, 0, 1, 2]" and now = 1000000000 and n = "sample_new ''w'' ''{}''"
      and en = "node_on (plain_store [])"]
  by (simp add: sample_new_def)

end
