(* ===== verification/Node_Upkeep.thy ===== *)
theory Node_Upkeep
  imports Node_Claims
begin

text \<open>
  Upkeep of the assembled engine: garbage collection, archiving of worlds, and ingesting atoms from
  peers, written out over the model's own definitions.
\<close>

section \<open>Stores for concrete runs\<close>

lemma append_run:
  assumes "sled_inv alist_env s" "slash_free w" "\<forall>a \<in> set as. a_world a = w" "log_room alist_env s w (length as + k)"
  shows "\<exists>s'. sled_inv alist_env s' \<and> log_room alist_env s' w k \<and> log_atoms alist_env s' w = fold log_put as (log_atoms alist_env s w)
    \<and> (\<forall>w'. slash_free w' \<longrightarrow> w' \<noteq> w \<longrightarrow> log_atoms alist_env s' w' = log_atoms alist_env s w'
         \<and> (\<forall>k. log_room alist_env s w' k \<longrightarrow> log_room alist_env s' w' k))"
  using assms
proof (induction as arbitrary: s)
  case (Cons a as)
  have a: "a_world a = w" using Cons.prems(3) by simp
  have room: "log_room alist_env s (a_world a) 1" using Cons.prems(4) a by (simp add: log_room_def)
  have free: "slash_free (a_world a)" using a Cons.prems(2) by simp
  obtain s1 where s1: "sled_inv alist_env s1"
    "\<forall>w. slash_free w \<longrightarrow> log_atoms alist_env s1 w =
       (if w = a_world a then log_put a (log_atoms alist_env s w) else log_atoms alist_env s w)"
    "\<forall>w k. slash_free w \<longrightarrow> log_room alist_env s w (if w = a_world a then Suc k else k) \<longrightarrow> log_room alist_env s1 w k"
    using sled_append_law [OF Cons.prems(1) free room] by blast
  have r1: "log_room alist_env s1 w (length as + k)"
    using s1(3) [rule_format, OF Cons.prems(2), of "length as + k"] Cons.prems(4) a by simp
  have "\<forall>b \<in> set as. a_world b = w" using Cons.prems(3) by simp
  from Cons.IH [OF s1(1) Cons.prems(2) this r1] obtain s' where s': "sled_inv alist_env s'" "log_room alist_env s' w k"
    "log_atoms alist_env s' w = fold log_put as (log_atoms alist_env s1 w)"
    "\<forall>w'. slash_free w' \<longrightarrow> w' \<noteq> w \<longrightarrow> log_atoms alist_env s' w' = log_atoms alist_env s1 w'
         \<and> (\<forall>k. log_room alist_env s1 w' k \<longrightarrow> log_room alist_env s' w' k)" by blast
  have "log_atoms alist_env s1 w = log_put a (log_atoms alist_env s w)" using s1(2) a Cons.prems(2) by simp
  moreover have "log_atoms alist_env s1 w' = log_atoms alist_env s w'"
    "log_room alist_env s w' k \<Longrightarrow> log_room alist_env s1 w' k" if "slash_free w'" "w' \<noteq> w" for w' k
    using s1(2,3) a that by auto
  ultimately show ?case using s' by (intro exI [of _ s']) simp
qed auto

lemma append_run_empty:
  assumes "slash_free w" "\<forall>a \<in> set as. a_world a = w" "length as < 2 ^ 64"
  obtains s where "sled_inv alist_env s" "log_room alist_env s w 1" "log_atoms alist_env s w = fold log_put as []"
    "\<forall>w'. slash_free w' \<longrightarrow> w' \<noteq> w \<longrightarrow> log_atoms alist_env s w' = []"
proof -
  have "log_room alist_env (plain_store []) w (length as + 1)" using assms(3) by (simp add: log_room_def)
  from append_run [OF empty_sled_inv assms(1,2) this] that show ?thesis by auto
qed

lemma append_run_exact:
  assumes "\<forall>a \<in> set as. a_world a = ''w''" "length as < 2 ^ 64" "fold log_put as [] = as"
  shows "\<exists>s. sled_inv alist_env s \<and> log_room alist_env s ''w'' 1 \<and> log_atoms alist_env s ''w'' = as
    \<and> (\<forall>w'. slash_free w' \<longrightarrow> w' \<noteq> ''w'' \<longrightarrow> log_atoms alist_env s w' = [])"
proof -
  have "slash_free ''w''" by simp
  then obtain s where "sled_inv alist_env s" "log_room alist_env s ''w'' 1" "log_atoms alist_env s ''w'' = fold log_put as []"
    "\<forall>w'. slash_free w' \<longrightarrow> w' \<noteq> ''w'' \<longrightarrow> log_atoms alist_env s w' = []"
    by (rule append_run_empty [OF _ assms(1,2)])
  then show ?thesis unfolding assms(3) by blast
qed

section \<open>Garbage collection\<close>

definition node_policy :: "('db, 'h) platform \<Rightarrow> ('db, 'h) node_state \<Rightarrow> world_key \<Rightarrow> gc_policy" where
  "node_policy P en w = policy_of_atoms (node_log P en w @ node_log P en (''policy:'' @ w))"

lemma epolicy_node_policy: "node.epolicy P = node_policy P"
  unfolding node.epolicy_def node_policy_def elog_node_log by (intro ext) simp

lemma evictim_gc_victim:
  "node.evictim P now en w = gc_victim (node_env P now) (node_policy P en w) (node_log P en w)"
  unfolding node.evictim_def epolicy_node_policy elog_node_log ..

text \<open>
  C2: Garbage collection deletes exactly the victims. A run succeeds, keeps the invariants, and
  leaves of every world's log exactly the atoms that are not victims of the policy in force when
  the run began: atoms that are policy or world records or that another atom of the world links to
  are never deleted, and of the others exactly those that have expired or are below the minimum
  importance. The order in which the store lists the worlds does not matter.
\<close>

theorem gc_deletes_victims:
  fixes P :: "('db, 'h) platform" and en
  assumes "node_inv P en"
    and "\<forall>w. slash_free w \<longrightarrow> no_panic (node_env P now) (node_policy P en w)"
  shows "\<exists>n en'. gc_once (node_env P now) utc en = (Some (Inr n), en') \<and> node_inv P en'
    \<and> (\<forall>w. slash_free w \<longrightarrow> node_log P en' w = filter (\<lambda>a.
         is_policy_atom a \<or> a_id a \<in> set (referenced_ids (node_log P en w))
         \<or> (\<exists>l \<in> set (a_labels a). starts_with l ''world_meta'')
         \<or> atom_expired (node_env P now) (node_policy P en w) (gc_now (pf_time P) 0 (node_log P en w)) a \<noteq> Some True
           \<and> \<not> low_importance (node_policy P en w) a) (node_log P en w))"
proof -
  have eq: "(\<lambda>a. \<not> gc_victim (node_env P now) p as a) = (\<lambda>a.
         is_policy_atom a \<or> a_id a \<in> set (referenced_ids as)
         \<or> (\<exists>l \<in> set (a_labels a). starts_with l ''world_meta'')
         \<or> atom_expired (node_env P now) p (gc_now (pf_time P) 0 as) a \<noteq> Some True \<and> \<not> low_importance p a)"
    for p as by (rule ext) (auto simp: gc_victim_def gc_exempt_def)
  show ?thesis
    using node.gc_once_effect [of P en now utc] assms
    unfolding einv_node_inv epolicy_node_policy elog_node_log evictim_gc_victim eq by blast
qed

lemma sample_no_panic: "no_panic (node_env sample_platform now) p"
  by (simp add: no_panic_def sample_platform_def)

text \<open>A world whose older atom is beyond the default retention of 365 days.\<close>

definition aged_atoms :: "atom list" where
  "aged_atoms = [reflex_sample ''a'' ''0'', reflex_sample ''b'' ''40000000000000000'']"

lemma aged_facts:
  "\<forall>a \<in> set aged_atoms. a_world a = ''w''" "length aged_atoms < 2 ^ 64" "fold log_put aged_atoms [] = aged_atoms"
  by (simp_all add: aged_atoms_def reflex_sample_def builder_defs log_put_def)

theorem gc_deletes_victims_witness:
  "\<exists>s n en'. log_atoms alist_env s ''w'' = aged_atoms
    \<and> gc_once (node_env sample_platform 0) (\<lambda>_. 0) (node_on s) = (Some (Inr n), en')
    \<and> map a_id (node_log sample_platform en' ''w'') = [''b'']"
proof -
  obtain s where s: "sled_inv alist_env s" "log_atoms alist_env s ''w'' = aged_atoms"
    "\<forall>w'. slash_free w' \<longrightarrow> w' \<noteq> ''w'' \<longrightarrow> log_atoms alist_env s w' = []"
    using append_run_exact [OF aged_facts] by blast
  have p: "node_policy sample_platform (node_on s) ''w'' = default_policy"
    using s(2,3) by (simp add: node_policy_def node_log_def policy_of_atoms_def aged_atoms_def reflex_sample_def
        builder_defs enforce_min_days_def)
  obtain n en' where "gc_once (node_env sample_platform 0) (\<lambda>_. 0) (node_on s) = (Some (Inr n), en')"
    "node_log sample_platform en' ''w'' = filter (\<lambda>a.
         is_policy_atom a \<or> a_id a \<in> set (referenced_ids aged_atoms)
         \<or> (\<exists>l \<in> set (a_labels a). starts_with l ''world_meta'')
         \<or> atom_expired (node_env sample_platform 0) default_policy (gc_now plain_time 0 aged_atoms) a \<noteq> Some True
           \<and> \<not> low_importance default_policy a) aged_atoms"
    using gc_deletes_victims [of sample_platform "node_on s" 0 "\<lambda>_. 0"] node_on_inv [OF s(1)] sample_no_panic s(2) p
    by (auto simp: node_log_def)
  moreover have "parse_ts plain_time ''0'' = Inr 0" "parse_ts plain_time ''40000000000000000'' = Inr 40000000000000000"
    by (simp_all add: parse_ts_def plain_time_def digit_val_def)
  then have "filter (\<lambda>a.
         is_policy_atom a \<or> a_id a \<in> set (referenced_ids aged_atoms)
         \<or> (\<exists>l \<in> set (a_labels a). starts_with l ''world_meta'')
         \<or> atom_expired (node_env sample_platform 0) default_policy (gc_now plain_time 0 aged_atoms) a \<noteq> Some True
           \<and> \<not> low_importance default_policy a) aged_atoms = [reflex_sample ''b'' ''40000000000000000'']"
    by (simp add: aged_atoms_def reflex_sample_def builder_defs is_policy_atom_def referenced_ids_def gc_now_def
        atom_expired_def default_policy_def low_importance_def days_i64_def sample_platform_def)
  ultimately show ?thesis using s(2) by (intro exI [of _ s] exI [of _ n] exI [of _ en'])
      (simp add: reflex_sample_def builder_defs)
qed

text \<open>
  Very long retentions delete everything. A policy label may ask for any \<open>u64\<close> number of days,
  but the number is cast to \<open>i64\<close>: from \<open>2 ^ 63\<close> on, where \<open>Duration::days\<close> does not panic it is
  negative, and a run deletes every atom of the world whose timestamp parses and that is not exempt,
  the newest included.
\<close>

theorem huge_retention_deletes:
  fixes P :: "('db, 'h) platform" and en
  assumes "node_inv P en"
    and "\<forall>w. slash_free w \<longrightarrow> no_panic (node_env P now) (node_policy P en w)"
    and "\<forall>d s. pf_days P d = Some s \<longrightarrow> s = d * 86400000000000"
    and "slash_free w" and "gp_retention_days (node_policy P en w) = Some days"
    and "2 ^ 63 \<le> days" and "days < 2 ^ 64"
    and "a \<in> set (node_log P (snd (gc_once (node_env P now) utc en)) w)"
  shows "gc_exempt (referenced_ids (node_log P en w)) a \<or> \<not> is_ok (parse_ts (pf_time P) (a_timestamp a))"
proof (rule ccontr)
  assume "\<not> ?thesis"
  then obtain t where t: "\<not> gc_exempt (referenced_ids (node_log P en w)) a" "parse_ts (pf_time P) (a_timestamp a) = Inr t"
    by (cases "parse_ts (pf_time P) (a_timestamp a)") auto
  let ?p = "node_policy P en w" and ?as = "node_log P en w" and ?X = "node_env P now"
  have a: "a \<in> set ?as" "\<not> gc_victim ?X ?p ?as a"
    using node.gc_once_effect [of P en now utc] assms(1,2,4,8)
    unfolding einv_node_inv epolicy_node_policy elog_node_log evictim_gc_victim by auto
  have t_in: "t \<in> set (parsed_times (pf_time P) ?as)" using a(1) t(2) by (auto simp: parsed_times_set)
  then have le: "t \<le> gc_now (pf_time P) 0 ?as" by (auto simp: gc_now_Max)
  have word: "(of_nat days :: 64 word) = word_of_int (int days)" by simp
  have "(int days + 2 ^ 63) mod 2 ^ 64 = int days + 2 ^ 63 - 2 ^ 64"
    using assms(6,7) mod_pos_geq [of "2 ^ 64" "int days + 2 ^ 63"] by simp
  then have "days_i64 days = int days - 2 ^ 64"
    unfolding days_i64_def word sint_sbintrunc' signed_take_bit_eq_take_bit_shift
    by (simp add: take_bit_eq_mod)
  then have neg: "days_i64 days < 0" using assms(7) by simp
  obtain s where s: "ee_days ?X (days_i64 days) = Some s"
    using assms(2,4,5,6) by (fastforce simp: no_panic_def)
  then have "s = days_i64 days * 86400000000000" using assms(3) by simp
  then have "s < 0" using neg by simp
  then have "atom_expired ?X ?p (gc_now (pf_time P) 0 ?as) a = Some True"
    using assms(5,6) t(2) s le by (simp add: atom_expired_def)
  then show False using a(2) t(1) by (simp add: gc_victim_def)
qed

definition cast_atoms :: "atom list" where
  "cast_atoms = [reflex_sample ''a'' ''0'',
     builder_build (builder_add_label ''policy:retention_days=18446744073709551615''
       (atom_builder_new ''p'' ''w'' ''k'' Plan ''5'' (Importance 0) ''{}''))]"

lemma cast_policy: "policy_of_atoms cast_atoms = default_policy\<lparr>gp_retention_days := Some 18446744073709551615\<rparr>"
  by (simp add: cast_atoms_def reflex_sample_def builder_defs policy_of_atoms_def policy_label_def parse_u64_def
      digit_val_def u64_max_def enforce_min_days_def default_policy_def)

theorem huge_retention_deletes_witness:
  "\<exists>s. log_atoms alist_env s ''w'' = cast_atoms
    \<and> reflex_sample ''a'' ''0'' \<notin>
        set (node_log sample_platform (snd (gc_once (node_env sample_platform 0) (\<lambda>_. 0) (node_on s))) ''w'')"
proof -
  have c: "\<forall>a \<in> set cast_atoms. a_world a = ''w''" "length cast_atoms < 2 ^ 64" "fold log_put cast_atoms [] = cast_atoms"
    by (simp_all add: cast_atoms_def reflex_sample_def builder_defs log_put_def)
  obtain s where s: "sled_inv alist_env s" "log_atoms alist_env s ''w'' = cast_atoms"
    "\<forall>w'. slash_free w' \<longrightarrow> w' \<noteq> ''w'' \<longrightarrow> log_atoms alist_env s w' = []"
    using append_run_exact [OF c] by blast
  have "node_policy sample_platform (node_on s) ''w'' = policy_of_atoms cast_atoms"
    using s(2,3) by (simp add: node_policy_def node_log_def)
  then have p: "gp_retention_days (node_policy sample_platform (node_on s) ''w'') = Some 18446744073709551615"
    by (simp add: cast_policy)
  have days: "\<forall>d s. pf_days sample_platform d = Some s \<longrightarrow> s = d * 86400000000000"
    by (simp add: sample_platform_def)
  have "\<not> gc_exempt (referenced_ids cast_atoms) (reflex_sample ''a'' ''0'')"
    by (simp add: cast_atoms_def reflex_sample_def builder_defs gc_exempt_def is_policy_atom_def referenced_ids_def)
  moreover have "is_ok (parse_ts plain_time (a_timestamp (reflex_sample ''a'' ''0'')))"
    by (simp add: parse_ts_def plain_time_def digit_val_def reflex_sample_def builder_defs)
  ultimately have "reflex_sample ''a'' ''0'' \<notin>
      set (node_log sample_platform (snd (gc_once (node_env sample_platform 0) (\<lambda>_. 0) (node_on s))) ''w'')"
    using huge_retention_deletes [OF node_on_inv [OF s(1)] _ days _ p, of 0 "reflex_sample ''a'' ''0''" "\<lambda>_. 0"]
      sample_no_panic s(2) by (auto simp: node_log_def)
  then show ?thesis using s(2) by blast
qed

section \<open>Worlds\<close>

text \<open>
  Archiving hides a world. If the gatekeeper agrees and the clock is ahead of every status record
  of the world, archiving succeeds, the world reads as archived, the listing of worlds is sorted and
  does not contain it, and the logs of the other worlds are as before.
\<close>

theorem archive_hides_world:
  fixes P :: "('db, 'h) platform" and en
  assumes "node_inv P en" and "check_world_action (Archive w) (en_gate en) = Inr ()"
    and "slash_free w" and "log_room (pf_sled P) (en_storage en) w 1"
    and "parse_ts (pf_time P) (now_timestamp (pf_time P) (oc_utc clk 0)) = Inr t"
    and "\<forall>a \<in> set (node_log P en w). ''world_meta'' \<in> set (a_labels a) \<longrightarrow>
      status_of_labels (a_labels a) \<noteq> None \<longrightarrow> ts_or_epoch (pf_time P) a < t"
  shows "\<exists>en' ws. manage_world (node_env P now) clk (Archive w) en = (Inr (), en') \<and> node_inv P en'
    \<and> world_archived (node_env P now) (en_storage en') w = Inr True
    \<and> engine_worlds (node_env P now) en' = Inr ws \<and> sorted ws \<and> w \<notin> set ws
    \<and> (\<forall>w'. slash_free w' \<longrightarrow> w' \<noteq> w \<longrightarrow> node_log P en' w' = node_log P en w')"
proof -
  obtain en' where en': "manage_world (node_env P now) clk (Archive w) en = (Inr (), en')" "node_inv P en'"
    "world_status (node_env P now) (en_storage en') w = Inr (Some ''archived'')"
    "\<forall>w'. slash_free w' \<longrightarrow> w' \<noteq> w \<longrightarrow> node_log P en' w' = node_log P en w'"
    using node.manage_world_status [of P en now "Archive w" w "''archived''" clk t] assms
    unfolding einv_node_inv elog_node_log by (auto simp: local_gate_api_def)
  have arch: "world_archived (node_env P now) (en_storage en') w = Inr True"
    using en'(3) by (simp add: world_archived_def)
  obtain ws where "sled_worlds (pf_sled P) (en_storage en') = Inr ws"
    using sled_worlds_law [of "pf_sled P" "en_storage en'"] en'(2) by (auto simp: node_inv_def)
  then have "engine_worlds (node_env P now) en' =
      Inr (filter (\<lambda>w. world_archived (node_env P now) (en_storage en') w \<noteq> Inr True) (sort ws))"
    using worlds_filtered_spec [of "node_env P now" en' ws False] by (simp add: engine_worlds_def)
  then show ?thesis using en'(1,2,4) arch by (auto intro!: sorted_wrt_filter)
qed

theorem archive_hides_world_witness:
  "\<exists>s en' ws. log_atoms alist_env s ''w'' = aged_atoms
    \<and> manage_world (node_env sample_platform 0) sample_clock (Archive ''w'') (node_on s) = (Inr (), en')
    \<and> engine_worlds (node_env sample_platform 0) en' = Inr ws \<and> ''w'' \<notin> set ws"
proof -
  obtain s where s: "sled_inv alist_env s" "log_atoms alist_env s ''w'' = aged_atoms" "log_room alist_env s ''w'' 1"
    using append_run_exact [OF aged_facts] by blast
  have "parse_ts plain_time (now_timestamp plain_time 7) = Inr 7" by code_simp
  moreover have "\<forall>a \<in> set aged_atoms. ''world_meta'' \<notin> set (a_labels a)"
    by (simp add: aged_atoms_def reflex_sample_def builder_defs)
  ultimately show ?thesis
    using archive_hides_world [OF node_on_inv [OF s(1)], of "''w''" sample_clock 7 0] s(2,3)
    by (auto simp: node_log_def sample_clock_def)
qed

section \<open>Peers\<close>

text \<open>
  C5: Ingesting is idempotent. A successful ingest stores exactly the first atom of each identifier
  the node did not hold, in the order received, reports their identifiers, and leaves every other
  log alone; ingesting the same batch again stores nothing and changes nothing.
\<close>

theorem ingest_idempotent:
  fixes P :: "('db, 'h) platform" and en
  defines "fresh \<equiv> fresh_atoms (stored_id (pf_sled P) (en_storage en))"
  assumes "node_inv P en"
    and "\<forall>a \<in> set as. slash_free (a_world a) \<and> log_room (pf_sled P) (en_storage en) (a_world a) (length as)"
    and "ingest_remote_atoms (node_env P now) as en = (Inr ids, en')"
  shows "node_inv P en' \<and> ids = map a_id (fresh as) \<and> distinct ids
    \<and> (\<forall>w. slash_free w \<longrightarrow>
         node_log P en' w = fold log_put (filter (\<lambda>a. a_world a = w) (fresh as)) (node_log P en w))
    \<and> ingest_remote_atoms (node_env P now) as en' = (Inr [], en')"
proof -
  have run: "ingest_loop (node_env P now) as [] en = (Inr ids, en')"
    using assms(4) by (simp add: ingest_remote_atoms_def)
  note out = node.ingest_loop_effect [where P = P and now = now, unfolded einv_node_inv elog_node_log, OF assms(2,3) run]
  have "sled_inv (pf_sled P) (en_storage en')" using out by (simp add: node_inv_def)
  then have "ingest_loop (node_env P now) as [] en' = (Inr [], en')"
    by (rule node.ingest_known) (use out in auto)
  then show ?thesis
    using out fresh_atoms_distinct unfolding fresh_def by (simp add: ingest_remote_atoms_def)
qed

theorem ingest_idempotent_witness:
  "\<exists>en'. ingest_remote_atoms (node_env sample_platform 0) [reflex_sample ''a'' ''5''] (node_on (plain_store [])) = (Inr [''a''], en')
    \<and> node_log sample_platform en' ''w'' = [reflex_sample ''a'' ''5'']
    \<and> ingest_remote_atoms (node_env sample_platform 0) [reflex_sample ''a'' ''5''] en' = (Inr [], en')"
proof -
  let ?a = "reflex_sample ''a'' ''5''" and ?X = "node_env sample_platform 0" and ?en = "node_on (plain_store [])"
  have f: "a_id ?a = ''a''" "a_world ?a = ''w''" "a_vector ?a = None" "a_timestamp ?a = ''5''"
    by (simp_all add: reflex_sample_def builder_defs)
  have new: "\<not> stored_id alist_env (plain_store []) ''a''" by (simp add: stored_id_def body_def)
  then have "get_by_ids alist_env (plain_store []) [''a''] = Inr []"
    using sled_get_law [OF empty_sled_inv, of "''a''"] by auto
  moreover obtain en' where "commit_atom ?X ?a ?en = (Inr (), en')"
  proof -
    have inv: "node.einv sample_platform ?en" unfolding einv_node_inv by (rule node_on_inv [OF empty_sled_inv])
    have w: "slash_free (a_world ?a)" "log_room (pf_sled sample_platform) (en_storage ?en) (a_world ?a) 1"
      by (simp_all add: f log_room_def)
    obtain r en' where "commit_atom ?X ?a ?en = (r, en')" "node.commits sample_platform ?a ?en en'"
      "r = Inr () \<longleftrightarrow> node.accepts ?en ?a \<and> is_ok (parse_ts (ee_time ?X) (a_timestamp ?a))"
      by (rule node.commit_atom_effect [OF inv w])
    then show ?thesis
      using that by (simp add: accepts_dim_fits f parse_ts_def plain_time_def digit_val_def)
  qed
  ultimately have run: "ingest_remote_atoms ?X [?a] ?en = (Inr [''a''], en')"
    by (simp add: ingest_remote_atoms_def f)
  have room: "\<forall>a \<in> set [?a]. slash_free (a_world a)
      \<and> log_room (pf_sled sample_platform) (en_storage ?en) (a_world a) (length [?a])"
    by (simp add: f log_room_def)
  note out = ingest_idempotent [OF node_on_inv [OF empty_sled_inv] room run]
  have "node_log sample_platform en' ''w'' = fold log_put (filter (\<lambda>a. a_world a = ''w'') [?a]) (node_log sample_platform ?en ''w'')"
    using out new by (simp add: f)
  then have "node_log sample_platform en' ''w'' = [?a]" by (simp add: f node_log_def log_put_def)
  with run out show ?thesis by blast
qed

text \<open>
  Atoms of peers collide. Identifiers are counters of each process, so the first atom of one node
  and the first atom of another have the same one: a node that has remembered an atom of its own
  drops the first atom of any peer, without an error, and its state does not change.
\<close>

theorem peer_atom_dropped:
  fixes P :: "('db, 'h) platform" and n clk emb s v t g now
  defines "en \<equiv> engine_new s v t g"
  defines "a \<equiv> remember_atom (node_env P now) clk n emb en"
  assumes "node_inv P en" and "fst (check_remember now n g) = Inr ()"
    and "em_embed (pf_embed P) (n_payload_json n) = Inr emb"
    and "slash_free (a_world a)" and "log_room (pf_sled P) s (a_world a) 1"
    and "\<forall>v'. a_vector a = Some v' \<longrightarrow> dim_fits v (a_world a) (length v')"
    and "engine_remember (node_env P now) clk n en = (r, en')"
    and "peer_atom = remember_atom X2 clk2 n2 emb2 (engine_new s2 v2 t2 g2)"
  shows "ingest_remote_atoms (node_env P now') [peer_atom] en' = (Inr [], en')"
proof -
  have en: "en_storage en = s" "en_vector en = v" "en_gate en = g" "en_id_gen en = 1"
    by (simp_all add: en_def engine_new_def engine_with_reflex_index_def)
  have i: "a_id peer_atom = a_id a"
    by (simp add: assms(10) a_def remember_atom_fields en_def engine_new_def engine_with_reflex_index_def)
  have "node.accepts en a" using assms(8) by (simp add: accepts_dim_fits en)
  then have out: "node_inv P en'" "node_log P en' (a_world a) = log_put a (node_log P en (a_world a))"
    using node.remember_stores [of P en now n emb clk] assms(3-7,9) en
    unfolding einv_node_inv elog_node_log a_def by (auto simp: local_gate_api_def)
  have inv: "sled_inv (pf_sled P) (en_storage en')" using out(1) by (simp add: node_inv_def)
  have "a \<in> set (log_atoms (pf_sled P) (en_storage en') (a_world a))"
    using out(2) by (simp add: node_log_def)
  then have "stored_id (pf_sled P) (en_storage en') (a_id a)"
    using log_atoms_body [of "pf_sled P" "en_storage en'" "a_world a" a] inv assms(6)
    by (auto simp: stored_id_def sled_inv_def)
  then show ?thesis
    unfolding ingest_remote_atoms_def by (intro node.ingest_known [OF inv]) (simp add: i)
qed

theorem peer_atom_dropped_witness:
  "\<exists>r en'. engine_remember (node_env sample_platform 0) sample_clock (sample_new ''w'' ''{}'') (node_on (plain_store [])) = (r, en')
    \<and> ingest_remote_atoms (node_env sample_platform 0)
        [remember_atom (node_env sample_platform 0) sample_clock (sample_new ''v'' ''{}'') None (node_on (plain_store []))] en'
      = (Inr [], en')"
proof -
  let ?n = "sample_new ''w'' ''{}''" and ?X = "node_env sample_platform 0" and ?en = "node_on (plain_store [])"
  let ?a = "remember_atom ?X sample_clock ?n None ?en"
  obtain r en' where out: "engine_remember ?X sample_clock ?n ?en = (r, en')" by fastforce
  have "\<not> suspicious sample_clock ?n ?en" by (rule calm_submission) (simp_all add: sample_new_def)
  then have f: "a_world ?a = ''w''" "a_vector ?a = None"
    by (simp_all add: remember_atom_fields target_world_def sample_new_def)
  show ?thesis
    using peer_atom_dropped [where P = sample_platform and now = 0 and clk = sample_clock and n = ?n and emb = None
        and s = "plain_store []" and v = Map.empty and t = stream_new and g = free_gate and now' = 0
        and ?s2.0 = "plain_store []" and ?v2.0 = Map.empty and ?t2.0 = stream_new and ?g2.0 = free_gate
        and ?X2.0 = ?X and ?clk2.0 = sample_clock and ?n2.0 = "sample_new ''v'' ''{}''" and ?emb2.0 = None,
        folded node_on_def, OF _ _ _ _ _ _ out refl]
      node_on_inv [OF empty_sled_inv] f out
    by (simp add: log_room_def)
qed

end
