(* ===== verification/Node_Http.thy ===== *)
theory Node_Http
  imports Node_Runs Node_Upkeep
begin

text \<open>
  The HTTP node of \<open>crates/dwbase-node/src/main.rs\<close>: configuration, health and readiness, and the
  handlers over the engine and the list of worlds seen in the process. Requests arrive decoded (the
  \<open>axum\<close> extractors are outside) and a handler is one step: it returns a status code with a body and
  the new state. The file system and the environment are the record \<open>http_host\<close>; tracing spans and
  the metrics feature have no counterpart.
\<close>

section \<open>Errors and texts\<close>

text \<open>\<open>Display\<close> of \<open>DwbaseError\<close>.\<close>

fun dw_error_text :: "dw_error \<Rightarrow> string" where
  "dw_error_text (CapabilityDenied s) = ''capability denied: '' @ s"
| "dw_error_text (InvalidInput s) = ''invalid input: '' @ s"
| "dw_error_text (Storage s) = ''storage error: '' @ s"
| "dw_error_text (Vector s) = ''vector error: '' @ s"
| "dw_error_text (Stream s) = ''stream error: '' @ s"
| "dw_error_text (Internal s) = ''internal error: '' @ s"

datatype api_error = Api_Engine string | Api_Bad_Request string

fun api_error_text :: "api_error \<Rightarrow> string" where
  "api_error_text (Api_Engine s) = s"
| "api_error_text (Api_Bad_Request s) = s"

fun api_status :: "api_error \<Rightarrow> nat" where
  "api_status (Api_Engine _) = 500"
| "api_status (Api_Bad_Request _) = 400"

definition engine_error :: "(dw_error, 'a) result \<Rightarrow> (api_error, 'a) result" where
  "engine_error r = rmap_err (Api_Engine \<circ> dw_error_text) r"

text \<open>\<open>as f32\<close> of an \<open>f64\<close>, \<open>as f64\<close> of an \<open>f32\<close>, and \<open>{:.1}\<close> of an \<open>f32\<close> (ties to even).\<close>

definition f32_of_f64 :: "f64 \<Rightarrow> f32" where
  "f32_of_f64 x =
     (if f64_is_nan x then fl_nan 23
      else fl_of_rat 23 (fl_sign x) (mag_val 52 (fl_mag x)) (2 ^ fl_scale 52 TYPE(64)))"

definition f64_of_f32 :: "f32 \<Rightarrow> f64" where
  "f64_of_f32 x =
     (if f32_is_nan x then fl_nan 52
      else if fl_is_inf 23 x then fl_mk (fl_sign x) (inf_mag 52 TYPE(64))
      else fl_of_rat 52 (fl_sign x) (mag_val 23 (fl_mag x)) (2 ^ fl_scale 23 TYPE(32)))"

definition show_tenths :: "f32 \<Rightarrow> string" where
  "show_tenths x =
     (if f32_is_nan x then ''NaN''
      else (if fl_sign x then ''-'' else [])
        @ (if fl_is_inf 23 x then ''inf''
           else let n = 10 * mag_val 23 (fl_mag x); q = n div f32_den; r = n mod f32_den;
                    t = (if f32_den < 2 * r \<or> 2 * r = f32_den \<and> odd q then q + 1 else q)
                in dec_text (t div 10) @ ''.'' @ dec_text (t mod 10)))"

section \<open>Configuration\<close>

record storage_config =
  stc_encryption_enabled :: bool
  stc_key_id :: "string option"

record security_config =
  sec_read_worlds :: "string list"
  sec_write_worlds :: "string list"
  sec_importance_cap :: "f32 option"
  sec_remember_per_sec :: "f64 option"
  sec_ask_per_min :: "f64 option"

definition to_caps :: "security_config \<Rightarrow> capabilities" where
  "to_caps c =
     \<lparr>read_worlds = sec_read_worlds c, write_worlds = sec_write_worlds c, labels_write = [], kinds_write = [],
      importance_cap = sec_importance_cap c,
      cap_rate_limits = \<lparr>remember_per_sec = sec_remember_per_sec c, ask_per_min = sec_ask_per_min c\<rparr>,
      cap_offline_policy = Allow\<rparr>"

record health_config =
  hc_disk_usage_degraded :: f32
  hc_index_rebuild_warn_seconds :: nat

definition default_disk_threshold :: f32 where
  "default_disk_threshold = f32_lit 9 10"

definition default_index_lag_seconds :: nat where
  "default_index_lag_seconds = 60"

definition default_health_config :: health_config where
  "default_health_config =
     \<lparr>hc_disk_usage_degraded = default_disk_threshold, hc_index_rebuild_warn_seconds = default_index_lag_seconds\<rparr>"

datatype embedder_config = Dummy_Embedder

record node_config =
  nc_listen :: "string option"
  nc_data_dir :: string
  nc_security :: security_config
  nc_embedder :: embedder_config
  nc_health :: health_config
  nc_storage :: storage_config

definition default_node_config :: node_config where
  "default_node_config =
     \<lparr>nc_listen = Some ''127.0.0.1:8080'', nc_data_dir = ''./data'',
      nc_security = \<lparr>sec_read_worlds = [], sec_write_worlds = [], sec_importance_cap = None,
                     sec_remember_per_sec = None, sec_ask_per_min = None\<rparr>,
      nc_embedder = Dummy_Embedder, nc_health = default_health_config,
      nc_storage = \<lparr>stc_encryption_enabled = False, stc_key_id = None\<rparr>\<rparr>"

record ('db, 'h) app_state =
  ap_engine :: "('db, 'h) node_state"
  ap_worlds :: "world_key list"
  ap_data_dir :: string
  ap_health :: health_config

text \<open>The argument after the first \<open>--config\<close>.\<close>

definition config_path :: "string list \<Rightarrow> string" where
  "config_path args =
     (case dropWhile (\<lambda>a. a \<noteq> ''--config'') args of _ # p # _ \<Rightarrow> p | _ \<Rightarrow> ''config.toml'')"

text \<open>\<open>main\<close> up to the router: \<open>opened\<close> is the result of opening the sled database at the data directory.\<close>

definition node_start ::
  "'db sled_env \<Rightarrow> key_provider \<Rightarrow> (dw_error, 'db) result \<Rightarrow> node_config \<Rightarrow> (dw_error, ('db, 'h) app_state) result" where
  "node_start E keys opened cfg =
     (let sled_cfg = sled_config_new\<lparr>sc_encryption_enabled := stc_encryption_enabled (nc_storage cfg),
                                     sc_key_id := stc_key_id (nc_storage cfg)\<rparr>
      in rmap (\<lambda>storage.
           \<lparr>ap_engine = engine_new storage Map.empty stream_new
              (gatekeeper_new (to_caps (nc_security cfg)) \<lparr>worker_scores = Map.empty, node_scores = Map.empty\<rparr>),
            ap_worlds = [], ap_data_dir = nc_data_dir cfg, ap_health = nc_health cfg\<rparr>)
         (sled_open E sled_cfg keys opened))"

definition listen_addr :: "node_config \<Rightarrow> string" where
  "listen_addr cfg = (case nc_listen cfg of Some a \<Rightarrow> a | None \<Rightarrow> ''127.0.0.1:8080'')"

section \<open>Health\<close>

record http_host =
  ho_total_space :: "string \<Rightarrow> nat option"
  ho_available_space :: "string \<Rightarrow> nat option"
  ho_env_var :: "string \<rightharpoonup> string"

record disk_stats =
  du_used_bytes :: nat
  du_total_bytes :: nat
  du_percent_used :: f32

record health_response =
  hr_status :: string
  hr_disk_usage :: "disk_stats option"
  hr_index_rebuild_lag_ms :: "nat option"
  hr_message :: "string option"

definition disk_usage :: "http_host \<Rightarrow> string \<Rightarrow> disk_stats option" where
  "disk_usage H path =
     Option.bind (ho_total_space H path) (\<lambda>total. Option.bind (ho_available_space H path) (\<lambda>avail.
       if total = 0 then None
       else let used = total - avail;
                pct = f32_mul (f32_of_f64 (f64_div (f64_of_nat used) (f64_of_nat total))) (f32_of_nat 100)
            in Some \<lparr>du_used_bytes = used, du_total_bytes = total, du_percent_used = pct\<rparr>))"

definition disk_threshold :: "('db, 'h) app_state \<Rightarrow> f32" where
  "disk_threshold app = f32_mul (hc_disk_usage_degraded (ap_health app)) (f32_of_nat 100)"

definition disk_message :: "disk_stats \<Rightarrow> f32 \<Rightarrow> string" where
  "disk_message u threshold =
     ''disk usage '' @ show_tenths (du_percent_used u) @ ''% >= '' @ show_tenths threshold @ ''%''"

text \<open>The product of the warning limit is computed on \<open>u64\<close> and wraps (a debug build panics).\<close>

definition health_handler ::
  "('db, 'h) platform \<Rightarrow> http_host \<Rightarrow> int \<Rightarrow> ('db, 'h) app_state \<Rightarrow> health_response" where
  "health_handler P H now app =
     (let disk = disk_usage H (ap_data_dir app);
          lag = max_index_rebuild_lag_ms (pf_time P) now (ap_engine app);
          (status, message) =
            (case disk of
               Some u \<Rightarrow> if f32_le (disk_threshold app) (du_percent_used u)
                         then (''degraded'', Some (disk_message u (disk_threshold app))) else (''ready'', None)
             | None \<Rightarrow> (''degraded'', Some ''unable to read disk usage''));
          (status, message) =
            (case lag of
               None \<Rightarrow> (status, message)
             | Some l \<Rightarrow>
                 let warn_ms = (hc_index_rebuild_warn_seconds (ap_health app) * 1000) mod 2 ^ 64
                 in if warn_ms < l
                    then (''degraded'', Some (''index rebuild lag '' @ dec_text l @ ''ms exceeds ''
                            @ dec_text warn_ms @ ''ms threshold''))
                    else (status, message))
      in \<lparr>hr_status = status, hr_disk_usage = disk, hr_index_rebuild_lag_ms = lag, hr_message = message\<rparr>)"

definition require_indexes :: "http_host \<Rightarrow> bool" where
  "require_indexes H =
     (case ho_env_var H ''DWBASE_READY_REQUIRE_INDEX'' of
        Some v \<Rightarrow> v \<noteq> ''0'' \<and> to_ascii_lowercase v \<noteq> ''false''
      | None \<Rightarrow> False)"

definition readyz_handler ::
  "('db, 'h) platform \<Rightarrow> nat \<Rightarrow> http_host \<Rightarrow> int \<Rightarrow> ('db, 'h) app_state \<Rightarrow> nat \<times> health_response" where
  "readyz_handler P tick H now app =
     (let en = ap_engine app;
          disk = disk_usage H (ap_data_dir app);
          lag = max_index_rebuild_lag_ms (pf_time P) now en;
          (status, message) =
            (case disk of
               Some u \<Rightarrow> if f32_le (disk_threshold app) (du_percent_used u)
                         then (''degraded'', Some (disk_message u (disk_threshold app))) else (''ready'', None)
             | None \<Rightarrow> (''ready'', Some ''disk usage unavailable''));
          storage_ok = storage_ready (node_env P tick) en;
          (status, message) = (if storage_ok then (status, message) else (''degraded'', Some ''storage unavailable''));
          all_ready = list_all im_ready (index_status en);
          message = (if \<not> all_ready \<and> message = None then Some ''index not ready yet'' else message);
          lag = (if lag = None \<and> \<not> all_ready then Some 0 else lag);
          code = (if status = ''ready'' \<and> storage_ok \<and> (\<not> require_indexes H \<or> all_ready) then 200 else 503)
      in (code, \<lparr>hr_status = status, hr_disk_usage = disk, hr_index_rebuild_lag_ms = lag, hr_message = message\<rparr>))"

section \<open>Requests\<close>

text \<open>
  The middleware that names a request: \<open>to_str\<close> is the \<open>http\<close> crate's reading of a header value and
  \<open>uuid\<close> a fresh identifier. A header map keeps the first of equal names; \<open>insert\<close> replaces them all.
\<close>

definition correlation_layer ::
  "(string \<Rightarrow> string option) \<Rightarrow> string \<Rightarrow> (string \<times> string) list \<Rightarrow> string \<times> (string \<times> string) list" where
  "correlation_layer to_str uuid headers =
     (let cid = (case Option.bind (map_of headers ''x-request-id'') to_str of Some s \<Rightarrow> s | None \<Rightarrow> uuid)
      in (cid, (''x-request-id'', cid) # filter (\<lambda>(k, _). k \<noteq> ''x-request-id'') headers))"

record manage_request =
  mr_action :: string
  mr_world :: world_key
  mr_description :: "string option"
  mr_labels :: "string list"

record policy_request =
  pr_world :: world_key
  pr_retention_days :: "nat option"
  pr_min_importance :: "f32 option"
  pr_replication_allow :: "string list"
  pr_replication_deny :: "string list"

text \<open>Pushing a world that is not in the list yet.\<close>

definition note_world :: "world_key \<Rightarrow> world_key list \<Rightarrow> world_key list" where
  "note_world w ws = (if w \<in> set ws then ws else ws @ [w])"

definition remember_handler ::
  "('db, 'h) platform \<Rightarrow> nat \<Rightarrow> op_clock \<Rightarrow> new_atom \<Rightarrow> ('db, 'h) app_state
   \<Rightarrow> (api_error, atom_id) result \<times> ('db, 'h) app_state" where
  "remember_handler P tick clk n app =
     (case engine_remember (node_env P tick) clk n (ap_engine app) of
        (Inl e, en) \<Rightarrow> (Inl (Api_Engine (dw_error_text e)), app\<lparr>ap_engine := en\<rparr>)
      | (Inr i, en) \<Rightarrow> (Inr i, app\<lparr>ap_engine := en, ap_worlds := note_world (n_world n) (ap_worlds app)\<rparr>))"

definition ask_handler ::
  "('db, 'h) platform \<Rightarrow> nat \<Rightarrow> op_clock \<Rightarrow> question \<Rightarrow> ('db, 'h) app_state
   \<Rightarrow> (api_error, answer) result \<times> ('db, 'h) app_state" where
  "ask_handler P tick clk q app =
     (case engine_ask (node_env P tick) clk q (ap_engine app) of
        (r, en) \<Rightarrow> (engine_error r, app\<lparr>ap_engine := en\<rparr>))"

definition replay_handler ::
  "('db, 'h) platform \<Rightarrow> nat \<Rightarrow> world_key \<Rightarrow> atom_filter \<Rightarrow> ('db, 'h) app_state \<Rightarrow> (api_error, atom list) result" where
  "replay_handler P tick w f app = engine_error (engine_replay (node_env P tick) w f (ap_engine app))"

definition action_of_request :: "manage_request \<Rightarrow> (api_error, world_action) result" where
  "action_of_request req =
     (if mr_action req = ''create''
      then Inr (Create \<lparr>wm_world = mr_world req, wm_description = mr_description req, wm_labels = mr_labels req\<rparr>)
      else if mr_action req = ''archive'' then Inr (Archive (mr_world req))
      else if mr_action req = ''resume'' then Inr (Resume (mr_world req))
      else Inl (Api_Bad_Request (''unknown action: '' @ mr_action req)))"

definition worlds_after :: "manage_request \<Rightarrow> world_key list \<Rightarrow> world_key list" where
  "worlds_after req ws =
     (if mr_action req \<in> {''create'', ''resume''} then note_world (mr_world req) ws
      else if mr_action req = ''archive'' then filter (\<lambda>w. w \<noteq> mr_world req) ws
      else ws)"

definition manage_world_handler ::
  "('db, 'h) platform \<Rightarrow> nat \<Rightarrow> op_clock \<Rightarrow> manage_request \<Rightarrow> ('db, 'h) app_state
   \<Rightarrow> (api_error, unit) result \<times> ('db, 'h) app_state" where
  "manage_world_handler P tick clk req app =
     (case action_of_request req of
        Inl e \<Rightarrow> (Inl e, app)
      | Inr action \<Rightarrow>
          (case manage_world (node_env P tick) clk action (ap_engine app) of
             (Inl e, en) \<Rightarrow> (Inl (Api_Engine (dw_error_text e)), app\<lparr>ap_engine := en\<rparr>)
           | (Inr _, en) \<Rightarrow> (Inr (), app\<lparr>ap_engine := en, ap_worlds := worlds_after req (ap_worlds app)\<rparr>)))"

section \<open>Policies over HTTP\<close>

definition policy_world_of :: "world_key \<Rightarrow> world_key" where
  "policy_world_of w = (if starts_with w ''policy:'' \<or> ends_with w ''/policy'' then w else ''policy:'' @ w)"

definition policy_labels :: "policy_request \<Rightarrow> string list" where
  "policy_labels req =
     (case pr_retention_days req of None \<Rightarrow> [] | Some d \<Rightarrow> [''policy:retention_days='' @ dec_text d])
     @ (case pr_min_importance req of None \<Rightarrow> [] | Some m \<Rightarrow> [''policy:min_importance='' @ show_f32 m])
     @ map (\<lambda>w. ''policy:replication_allow='' @ w) (pr_replication_allow req)
     @ map (\<lambda>w. ''policy:replication_deny='' @ w) (pr_replication_deny req)"

text \<open>\<open>json!\<close> of an \<open>f32\<close>: the number as \<open>f64\<close>, or null if it is not finite.\<close>

definition json_f32 :: "f32 \<Rightarrow> json" where
  "json_f32 x = (if f32_is_nan x \<or> fl_is_inf 23 x then JNull else JFloat (f64_of_f32 x))"

definition policy_payload :: "policy_request \<Rightarrow> json" where
  "policy_payload req =
     JObj [(''policy_world'', JStr (policy_world_of (pr_world req))), (''target_world'', JStr (pr_world req)),
           (''retention_days'', case pr_retention_days req of None \<Rightarrow> JNull | Some d \<Rightarrow> JInt (int d)),
           (''min_importance'', case pr_min_importance req of None \<Rightarrow> JNull | Some m \<Rightarrow> json_f32 m),
           (''replication_allow'', JArr (map JStr (pr_replication_allow req))),
           (''replication_deny'', JArr (map JStr (pr_replication_deny req)))]"

text \<open>\<open>now\<close> is the handler's own reading of the clock.\<close>

definition policy_submission :: "('db, 'h) platform \<Rightarrow> int \<Rightarrow> policy_request \<Rightarrow> new_atom" where
  "policy_submission P now req =
     \<lparr>n_world = policy_world_of (pr_world req), n_worker = ''policy-cli'', n_kind = Reflection,
      n_timestamp = now_timestamp (pf_time P) now, n_importance = importance_clamped (f32_lit 2 10),
      n_payload_json = pf_json P (policy_payload req), n_vector = None, n_flags = [],
      n_labels = policy_labels req, n_links = []\<rparr>"

definition world_policy_handler ::
  "('db, 'h) platform \<Rightarrow> nat \<Rightarrow> op_clock \<Rightarrow> int \<Rightarrow> policy_request \<Rightarrow> ('db, 'h) app_state
   \<Rightarrow> (api_error, atom_id) result \<times> ('db, 'h) app_state" where
  "world_policy_handler P tick clk now req app =
     (if policy_labels req = []
      then (Inl (Api_Bad_Request ''policy request must set at least one field''), app)
      else case engine_remember (node_env P tick) clk (policy_submission P now req) (ap_engine app) of
             (Inl e, en) \<Rightarrow> (Inl (Api_Engine (dw_error_text e)), app\<lparr>ap_engine := en\<rparr>)
           | (Inr i, en) \<Rightarrow>
               (Inr i, app\<lparr>ap_engine := en,
                           ap_worlds := note_world (policy_world_of (pr_world req)) (ap_worlds app)\<rparr>))"

section \<open>Listings\<close>

fun merge_worlds ::
  "('s, 'v, 't, 'g) engine_env \<Rightarrow> 's \<Rightarrow> world_key list \<Rightarrow> world_key list \<Rightarrow> (dw_error, world_key list) result" where
  "merge_worlds X s worlds [] = Inr worlds"
| "merge_worlds X s worlds (w # extra) =
     (if w \<in> set worlds then merge_worlds X s worlds extra
      else rbind (world_archived X s w) (\<lambda>archived.
           merge_worlds X s (if archived then worlds else worlds @ [w]) extra))"

definition list_worlds_handler ::
  "('db, 'h) platform \<Rightarrow> nat \<Rightarrow> ('db, 'h) app_state \<Rightarrow> (api_error, world_key list) result" where
  "list_worlds_handler P tick app =
     (let X = node_env P tick; en = ap_engine app
      in engine_error (rbind (engine_worlds X en) (\<lambda>ws.
           rmap sort (merge_worlds X (en_storage en) ws (ap_worlds app)))))"

definition inspect_handler ::
  "('db, 'h) platform \<Rightarrow> nat \<Rightarrow> atom_id \<Rightarrow> ('db, 'h) app_state \<Rightarrow> (api_error, atom option) result" where
  "inspect_handler P tick i app =
     engine_error (rmap (\<lambda>as. case as of [] \<Rightarrow> None | a # _ \<Rightarrow> Some a)
       (get_atoms (node_env P tick) [i] (ap_engine app)))"

definition index_status_handler :: "('db, 'h) app_state \<Rightarrow> index_metadata list" where
  "index_status_handler app = index_status (ap_engine app)"

section \<open>The router\<close>

datatype http_request =
    Post_Remember new_atom
  | Post_Ask question
  | Post_Replay world_key atom_filter
  | Get_Worlds
  | Post_Manage manage_request
  | Post_Policy policy_request
  | Get_Atom string
  | Get_Index_Status
  | Get_Health
  | Get_Healthz
  | Get_Readyz

datatype http_body =
    Body_Id atom_id
  | Body_Answer answer
  | Body_Atoms "atom list"
  | Body_Worlds "world_key list"
  | Body_Unit
  | Body_Atom "atom option"
  | Body_Indexes "index_metadata list"
  | Body_Health health_response
  | Body_Empty
  | Body_Error string

text \<open>\<open>IntoResponse\<close>: an error is its status with its text.\<close>

definition into_response :: "('a \<Rightarrow> http_body) \<Rightarrow> (api_error, 'a) result \<Rightarrow> nat \<times> http_body" where
  "into_response f r = (case r of Inl e \<Rightarrow> (api_status e, Body_Error (api_error_text e)) | Inr x \<Rightarrow> (200, f x))"

record http_time =
  ht_mono :: nat
  ht_now :: int
  ht_clock :: op_clock

definition serve ::
  "('db, 'h) platform \<Rightarrow> http_host \<Rightarrow> http_time \<Rightarrow> http_request \<Rightarrow> ('db, 'h) app_state
   \<Rightarrow> (nat \<times> http_body) \<times> ('db, 'h) app_state" where
  "serve P H T req app =
     (case req of
        Post_Remember n \<Rightarrow> apfst (into_response Body_Id) (remember_handler P (ht_mono T) (ht_clock T) n app)
      | Post_Ask q \<Rightarrow> apfst (into_response Body_Answer) (ask_handler P (ht_mono T) (ht_clock T) q app)
      | Post_Replay w f \<Rightarrow> (into_response Body_Atoms (replay_handler P (ht_mono T) w f app), app)
      | Get_Worlds \<Rightarrow> (into_response Body_Worlds (list_worlds_handler P (ht_mono T) app), app)
      | Post_Manage m \<Rightarrow>
          apfst (into_response (\<lambda>_. Body_Unit)) (manage_world_handler P (ht_mono T) (ht_clock T) m app)
      | Post_Policy p \<Rightarrow>
          apfst (into_response Body_Id) (world_policy_handler P (ht_mono T) (ht_clock T) (ht_now T) p app)
      | Get_Atom i \<Rightarrow> (into_response Body_Atom (inspect_handler P (ht_mono T) i app), app)
      | Get_Index_Status \<Rightarrow> ((200, Body_Indexes (index_status_handler app)), app)
      | Get_Health \<Rightarrow> ((200, Body_Health (health_handler P H (ht_now T) app)), app)
      | Get_Healthz \<Rightarrow> ((200, Body_Empty), app)
      | Get_Readyz \<Rightarrow> (apsnd Body_Health (readyz_handler P (ht_mono T) H (ht_now T) app), app))"

end
