(* ===== verification/Node_Http_Claims.thy ===== *)
theory Node_Http_Claims
  imports Node_Http
begin

text \<open>
  What the HTTP node guarantees: its runs are runs of the engine, readiness never waits for an
  index, which requests are refused and that they change nothing, what a listing of worlds holds,
  and which policy a request leaves in force.
\<close>

section \<open>Indexes are always ready\<close>

definition index_ready :: "('s, 'v, 't, 'g) engine \<Rightarrow> bool" where
  "index_ready en \<longleftrightarrow> (\<forall>m \<in> set (index_status en). im_ready m \<and> \<not> im_rebuilding m)"

lemma index_ready_cong: "en_index_state en' = en_index_state en \<Longrightarrow> index_ready en' = index_ready en"
  by (simp add: index_ready_def index_status_def)

lemma index_ready_update:
  assumes "index_ready en" "im_ready m" "\<not> im_rebuilding m"
    and "en_index_state en' = AList.update w m (en_index_state en)"
  shows "index_ready en'"
proof -
  have "set (map snd (AList.update w m xs)) \<subseteq> insert m (set (map snd xs))" for xs :: "(world_key \<times> index_metadata) list"
    by (induction xs) auto
  then show ?thesis using assms by (fastforce simp: index_ready_def index_status_def)
qed

lemma ensure_index_ready: "index_ready en \<Longrightarrow> index_ready (ensure_index_entry X t w en)"
  by (auto simp: ensure_index_entry_def fresh_metadata_def elim!: index_ready_update split: option.split)

lemma rebuild_index_ready:
  assumes "index_ready en"
  shows "index_ready (maybe_rebuild_index X utc w en)"
  using ensure_index_ready [OF assms, of X "utc 0" w] unfolding maybe_rebuild_index_def Let_def
  by (auto elim!: index_ready_update split: option.split)

lemma commit_index: "en_index_state (snd (commit_atom X a en)) = en_index_state en"
proof -
  have u: "en_index_state (snd (upsert_vector X a en)) = en_index_state en"
    by (simp add: upsert_vector_def on_vector_def split: option.split prod.split)
  have [simp]: "en_index_state (snd (on_storage f e)) = en_index_state e"
    "en_index_state (snd (engine_reflex_insert api a e)) = en_index_state e"
    "en_index_state (snd (on_stream g (register_conflicts a e))) = en_index_state e" for f api e g
    by (simp_all add: on_storage_def engine_reflex_insert_def on_stream_def register_conflicts_def split: prod.split)
  have bind: "en_index_state (snd (sbind p k)) = i" if "en_index_state (snd p) = i"
    "\<And>x e. en_index_state e = i \<Longrightarrow> en_index_state (snd (k x e)) = i" for p k i
    using that by (cases p; cases "fst p") auto
  show ?thesis unfolding commit_atom_def by (intro bind) (simp_all add: u)
qed


lemma remember_index_ready: "index_ready en \<Longrightarrow> index_ready (snd (engine_remember X clk n en))"
proof -
  assume r: "index_ready en"
  obtain rg g where g: "ga_remember (ee_gate X) n (en_gate en) = (rg, g)" by fastforce
  let ?en1 = "en\<lparr>en_gate := g\<rparr>"
  have q: "index_ready (snd (should_quarantine n t e))" if "index_ready e" for n :: new_atom and t and e :: "('a, 'b, 'c, 'd) engine"
    using that by (simp add: should_quarantine_def record_suspicion_def index_ready_def index_status_def Let_def)
  have i: "index_ready (snd (new_id ?en1))" using r by (simp add: new_id_def index_ready_def index_status_def)
  have bind: "index_ready (snd (sbind (commit_atom X a e) (\<lambda>_ e'. (Inr j, e'))))" if "index_ready e" for a e and j :: atom_id
  proof -
    have "snd (sbind (commit_atom X a e) (\<lambda>_ e'. (Inr j, e'))) = snd (commit_atom X a e)"
      by (cases "commit_atom X a e"; cases "fst (commit_atom X a e)") auto
    then show ?thesis using that commit_index [of X a e] index_ready_cong by metis
  qed
  show ?thesis
  proof (cases rg)
    case (Inl e)
    then show ?thesis using r g by (simp add: engine_remember_def on_gate_def index_ready_def index_status_def)
  next
    case (Inr u)
    obtain j en2 where n: "new_id ?en1 = (j, en2)" by fastforce
    define n1 where "n1 = (if n_timestamp n = [] then n\<lparr>n_timestamp := now_timestamp (ee_time X) (oc_utc clk 0)\<rparr> else n)"
    define en4 where "en4 = maybe_rebuild_index X (\<lambda>k. oc_utc clk (k + 2)) (n_world n1)
      (ensure_index_entry X (oc_utc clk 1) (n_world n1) en2)"
    obtain s en5 where s: "should_quarantine n1 (oc_mono clk) en4 = (s, en5)" by fastforce
    have "index_ready en4" unfolding en4_def using i n by (intro rebuild_index_ready ensure_index_ready) simp
    then have en5: "index_ready en5" using q [of en4 n1 "oc_mono clk"] s by simp
    have "engine_remember X clk n en =
       (let n2 = (if s then quarantine_atom n1 else n1)
        in case em_embed (ee_embed X) (n_payload_json n2) of
             Inl e \<Rightarrow> (Inl e, en5)
           | Inr emb \<Rightarrow>
               let n3 = (if n_vector n2 = None then n2\<lparr>n_vector := emb\<rparr> else n2)
               in sbind (commit_atom X (atom_from_new j n3) en5) (\<lambda>_ en6. (Inr j, en6)))"
      using g Inr n s unfolding n1_def en4_def by (simp add: engine_remember_def on_gate_def Let_def)
    then show ?thesis using en5 bind by (simp add: Let_def split: sum.split)
  qed
qed

lemma ask_index_ready:
  assumes "index_ready en"
  shows "index_ready (snd (engine_ask X clk q en))"
proof -
  obtain rg g where g: "ga_ask (ee_gate X) q (en_gate en) = (rg, g)" by fastforce
  have "index_ready (en\<lparr>en_gate := g\<rparr>)" using assms by (simp add: index_ready_def index_status_def)
  then have "index_ready (maybe_rebuild_index X v w (ensure_index_entry X t w (en\<lparr>en_gate := g\<rparr>)))" for v w t
    by (intro rebuild_index_ready ensure_index_ready)
  then show ?thesis
    using g \<open>index_ready (en\<lparr>en_gate := g\<rparr>)\<close>
    by (cases rg) (simp_all add: engine_ask_def on_gate_def Let_def split: sum.split)
qed

lemma manage_index: "en_index_state (snd (manage_world X clk act en)) = en_index_state en"
proof -
  obtain rg g where g: "ga_action (ee_gate X) act (en_gate en) = (rg, g)" by fastforce
  obtain w status desc labels where act: "action_parts act = (w, status, desc, labels)" by (cases "action_parts act") auto
  show ?thesis
    using g act by (cases rg) (simp_all add: manage_world_def on_gate_def world_status_def new_id_def commit_index Let_def)
qed

lemma manage_index_ready: "index_ready en \<Longrightarrow> index_ready (snd (manage_world X clk act en))"
  by (simp add: index_ready_cong [OF manage_index])

section \<open>What a request does to the engine\<close>

text \<open>The engine after a request: that of one operation, or the one before.\<close>

lemma remember_handler_engine:
  "ap_engine (snd (remember_handler P tick clk n app)) = snd (engine_remember (node_env P tick) clk n (ap_engine app))"
  by (simp add: remember_handler_def split: prod.split sum.split)

lemma ask_handler_engine:
  "ap_engine (snd (ask_handler P tick clk q app)) = snd (engine_ask (node_env P tick) clk q (ap_engine app))"
  by (simp add: ask_handler_def split: prod.split)

lemma manage_handler_engine:
  "ap_engine (snd (manage_world_handler P tick clk req app)) =
     (case action_of_request req of Inl e \<Rightarrow> ap_engine app
      | Inr act \<Rightarrow> snd (manage_world (node_env P tick) clk act (ap_engine app)))"
  by (simp add: manage_world_handler_def split: prod.split sum.split)

lemma policy_handler_engine:
  "ap_engine (snd (world_policy_handler P tick clk now req app)) =
     (if policy_labels req = [] then ap_engine app
      else snd (engine_remember (node_env P tick) clk (policy_submission P now req) (ap_engine app)))"
  by (simp add: world_policy_handler_def split: prod.split sum.split)

lemma apfst_snd: "snd (apfst f p) = snd p"
  by (cases p) simp

lemmas handler_engines = remember_handler_engine ask_handler_engine manage_handler_engine policy_handler_engine

lemma serve_index_ready: "index_ready (ap_engine app) \<Longrightarrow> index_ready (ap_engine (snd (serve P H T req app)))"
  by (cases req)
    (simp_all add: serve_def apfst_snd handler_engines remember_index_ready ask_index_ready manage_index_ready
      split: sum.split)

lemma handlers_keep_config:
  "ap_data_dir (snd (serve P H T req app)) = ap_data_dir app \<and> ap_health (snd (serve P H T req app)) = ap_health app"
  by (cases req)
    (simp_all add: serve_def apfst_snd remember_handler_def ask_handler_def manage_world_handler_def
      world_policy_handler_def split: sum.split prod.split)

definition serve_all ::
  "('db, 'h) platform \<Rightarrow> http_host \<Rightarrow> (http_time \<times> http_request) list \<Rightarrow> ('db, 'h) app_state \<Rightarrow> ('db, 'h) app_state" where
  "serve_all P H reqs app = fold (\<lambda>(T, req) app. snd (serve P H T req app)) reqs app"

lemma serve_all_simps [simp]:
  "serve_all P H [] app = app"
  "serve_all P H ((T, req) # reqs) app = serve_all P H reqs (snd (serve P H T req app))"
  by (simp_all add: serve_all_def)

lemma serve_all_keeps:
  "index_ready (ap_engine app) \<Longrightarrow>
   index_ready (ap_engine (serve_all P H reqs app)) \<and> ap_data_dir (serve_all P H reqs app) = ap_data_dir app
     \<and> ap_health (serve_all P H reqs app) = ap_health app"
  by (induction reqs arbitrary: app) (auto simp: serve_index_ready handlers_keep_config)

lemma node_start_fields:
  "node_start E keys opened cfg = Inr app \<Longrightarrow>
   en_index_state (ap_engine app) = [] \<and> ap_data_dir app = nc_data_dir cfg \<and> ap_health app = nc_health cfg
     \<and> ap_worlds app = []"
  by (auto simp: node_start_def res_simps engine_new_def engine_with_reflex_index_def Let_def)

lemma max_lag_ready: "\<forall>m \<in> set ms. im_ready m \<and> \<not> im_rebuilding m \<Longrightarrow> max_lag api now ms best = best"
  by (induction ms arbitrary: best) auto

section \<open>Readiness\<close>

definition disk_full :: "http_host \<Rightarrow> node_config \<Rightarrow> bool" where
  "disk_full H cfg \<longleftrightarrow> (\<exists>u. disk_usage H (nc_data_dir cfg) = Some u
     \<and> f32_le (f32_mul (hc_disk_usage_degraded (nc_health cfg)) (f32_of_nat 100)) (du_percent_used u))"

text \<open>
  C38: Readiness never waits for an index. However many requests a node has served since it started,
  no index is ever seen unready or rebuilding: the lag reported is none, and \<open>/readyz\<close> answers 200
  exactly if the store can list its worlds and the disk is not known to be full, whatever
  \<open>DWBASE_READY_REQUIRE_INDEX\<close> says. \<open>/health\<close> differs: it is degraded also when the disk cannot be
  read, and does not look at the store.
\<close>

theorem readiness_ignores_indexes:
  assumes "node_start E keys opened cfg = Inr app0" and app: "app = serve_all P H reqs app0"
  shows "max_index_rebuild_lag_ms (pf_time P) now (ap_engine app) = None
    \<and> fst (readyz_handler P tick H' now app) =
        (if storage_ready (node_env P tick) (ap_engine app) \<and> \<not> disk_full H' cfg then 200 else 503)
    \<and> hr_status (health_handler P H' now app) =
        (if disk_usage H' (nc_data_dir cfg) = None \<or> disk_full H' cfg then ''degraded'' else ''ready'')"
proof -
  note start = node_start_fields [OF assms(1)]
  have "index_ready (ap_engine app0)" using start by (simp add: index_ready_def index_status_def)
  note keep = serve_all_keeps [OF this, of P H reqs, folded app]
  have lag: "max_index_rebuild_lag_ms (pf_time P) now (ap_engine app) = None"
    using keep unfolding max_index_rebuild_lag_ms_def index_ready_def by (intro max_lag_ready) simp
  have all: "list_all im_ready (index_status (ap_engine app))" using keep by (simp add: index_ready_def list_all_iff)
  have dir: "ap_data_dir app = nc_data_dir cfg" "disk_threshold app = f32_mul (hc_disk_usage_degraded (nc_health cfg)) (f32_of_nat 100)"
    using keep start by (simp_all add: disk_threshold_def)
  have "fst (readyz_handler P tick H' now app) =
        (if storage_ready (node_env P tick) (ap_engine app) \<and> \<not> disk_full H' cfg then 200 else 503)"
    using all dir by (auto simp: readyz_handler_def disk_full_def Let_def split: option.split)
  moreover have "hr_status (health_handler P H' now app) =
        (if disk_usage H' (nc_data_dir cfg) = None \<or> disk_full H' cfg then ''degraded'' else ''ready'')"
    using lag dir by (auto simp: health_handler_def disk_full_def Let_def split: option.split)
  ultimately show ?thesis using lag by blast
qed

definition one_disk :: "nat \<Rightarrow> nat \<Rightarrow> http_host" where
  "one_disk n avail =
     \<lparr>ho_total_space = (\<lambda>_. Some n), ho_available_space = (\<lambda>_. Some avail), ho_env_var = Map.empty\<rparr>"

lemma sample_start:
  "\<exists>app. node_start alist_env (dummy_key_bytes Map.empty) (Inr []) default_node_config = Inr (app :: (alist_db, unit) app_state)"
proof -
  have "store_clean alist_env (plain_store [])" by (simp add: store_clean_def log_clean_def)
  moreover have "tree_ok alist_env" using alist_env_ok by (simp add: sled_env_ok_def)
  ultimately obtain st where "sled_open alist_env \<lparr>sc_flush_on_write = ss_flush_on_write (plain_store []),
      sc_encryption_enabled = ss_encryption_enabled (plain_store []), sc_key_id = ss_key_id (plain_store [])\<rparr>
      (ss_key_provider (plain_store [])) (Inr (ss_db (plain_store []))) = Inr st"
    using reopen_logs [OF _ empty_store_ok] by blast
  then show ?thesis
    by (auto simp: node_start_def default_node_config_def sled_config_new_def plain_store_def Let_def)
qed

theorem readiness_ignores_indexes_witness:
  "\<exists>app. node_start alist_env (dummy_key_bytes Map.empty) (Inr []) default_node_config = Inr (app :: (alist_db, unit) app_state)
    \<and> max_index_rebuild_lag_ms (pf_time sample_platform) 7 (ap_engine app) = None
    \<and> hr_status (health_handler sample_platform (one_disk 0 0) 7 app) = ''degraded''"
proof -
  obtain app :: "(alist_db, unit) app_state"
    where a: "node_start alist_env (dummy_key_bytes Map.empty) (Inr []) default_node_config = Inr app"
    using sample_start by blast
  have "disk_usage (one_disk 0 0) p = None" for p by (simp add: disk_usage_def one_disk_def)
  then show ?thesis
    using readiness_ignores_indexes [OF a, where app = app and P = sample_platform and H = "one_disk 0 0" and reqs = "[]"
        and now = 7 and H' = "one_disk 0 0" and tick = 0] a by auto
qed

section \<open>Refused requests\<close>

fun malformed :: "http_request \<Rightarrow> bool" where
  "malformed (Post_Manage m) \<longleftrightarrow> mr_action m \<notin> {''create'', ''archive'', ''resume''}"
| "malformed (Post_Policy p) \<longleftrightarrow> pr_retention_days p = None \<and> pr_min_importance p = None
     \<and> pr_replication_allow p = [] \<and> pr_replication_deny p = []"
| "malformed _ \<longleftrightarrow> False"

lemma policy_labels_Nil:
  "policy_labels p = [] \<longleftrightarrow> pr_retention_days p = None \<and> pr_min_importance p = None
     \<and> pr_replication_allow p = [] \<and> pr_replication_deny p = []"
  by (auto simp: policy_labels_def split: option.splits)

lemma response_status:
  "fst (into_response f r) = 400 \<longleftrightarrow> (\<exists>s. r = Inl (Api_Bad_Request s))"
  by (cases r) (auto simp: into_response_def elim: api_status.elims)

lemma engine_error_not_bad: "engine_error r \<noteq> Inl (Api_Bad_Request s)"
  by (cases r) (simp_all add: engine_error_def)

lemma serve_malformed: "fst (fst (serve P H T req app)) = 400 \<longleftrightarrow> malformed req"
proof (cases req)
  case (Post_Manage m)
  then show ?thesis
    by (auto simp: serve_def manage_world_handler_def action_of_request_def into_response_def
        split: prod.splits sum.splits if_splits)
next
  case (Post_Policy p)
  then show ?thesis
    by (auto simp: serve_def world_policy_handler_def into_response_def policy_labels_Nil
        split: prod.splits sum.splits if_splits)
qed (auto simp: serve_def remember_handler_def ask_handler_def into_response_def engine_error_not_bad
      readyz_handler_def replay_handler_def list_worlds_handler_def inspect_handler_def engine_error_def rmap_err_def Let_def
      split: prod.splits sum.splits)

text \<open>
  C40: Which requests are refused. A request is answered 400 exactly if it is a world action other
  than create, archive and resume or a policy without any field; it then changes nothing. A world
  action or a submission that fails in the engine leaves the list of known worlds as it was.
\<close>

theorem bad_requests_change_nothing:
  "(fst (fst (serve P H T req app)) = 400 \<longleftrightarrow> malformed req)
   \<and> (malformed req \<longrightarrow> snd (serve P H T req app) = app)
   \<and> (fst (fst (serve P H T req app)) = 500 \<longrightarrow> ap_worlds (snd (serve P H T req app)) = ap_worlds app)"
proof (intro conjI impI)
  assume "malformed req"
  then show "snd (serve P H T req app) = app"
    by (cases req) (auto simp: serve_def manage_world_handler_def world_policy_handler_def action_of_request_def policy_labels_Nil)
next
  assume "fst (fst (serve P H T req app)) = 500"
  then show "ap_worlds (snd (serve P H T req app)) = ap_worlds app"
    by (cases req)
      (auto simp: serve_def remember_handler_def ask_handler_def manage_world_handler_def world_policy_handler_def
        into_response_def split: prod.splits sum.splits)
qed (rule serve_malformed)

theorem bad_requests_change_nothing_witness:
  "snd (serve sample_platform (one_disk 0 0) \<lparr>ht_mono = 0, ht_now = 7, ht_clock = sample_clock\<rparr>
     (Post_Manage \<lparr>mr_action = ''delete'', mr_world = ''w'', mr_description = None, mr_labels = []\<rparr>)
     \<lparr>ap_engine = node_on (plain_store []), ap_worlds = [''w''], ap_data_dir = ''d'', ap_health = default_health_config\<rparr>)
   = \<lparr>ap_engine = node_on (plain_store []), ap_worlds = [''w''], ap_data_dir = ''d'', ap_health = default_health_config\<rparr>"
  by (rule bad_requests_change_nothing [THEN conjunct2, THEN conjunct1, rule_format]) simp

section \<open>Runs of requests\<close>

text \<open>The world a request may write to: it must have no slash, as in the runs of the engine.\<close>

fun written_world :: "http_request \<Rightarrow> world_key option" where
  "written_world (Post_Remember n) = Some (n_world n)"
| "written_world (Post_Manage m) = Some (mr_world m)"
| "written_world (Post_Policy p) = Some (policy_world_of (pr_world p))"
| "written_world _ = None"

inductive http_step :: "('db, 'h) platform \<Rightarrow> http_host \<Rightarrow> ('db, 'h) app_state \<Rightarrow> ('db, 'h) app_state \<Rightarrow> bool"
  for P :: "('db, 'h) platform" and H :: http_host where
  http_step: "en_id_gen (ap_engine app) + 1 < 2 ^ 64 \<Longrightarrow>
    \<forall>w. slash_free w \<longrightarrow> log_room (pf_sled P) (en_storage (ap_engine app)) w 1 \<Longrightarrow>
    (\<And>w. written_world req = Some w \<Longrightarrow> slash_free w) \<Longrightarrow>
    serve P H T req app = (resp, app') \<Longrightarrow> http_step P H app app'"

lemma action_world: "action_of_request m = Inr act \<Longrightarrow> fst (action_parts act) = mr_world m"
  by (auto simp: action_of_request_def split: if_splits)

lemma http_step_engine:
  assumes "http_step P H app app'"
  shows "ap_engine app' = ap_engine app \<or> node_step P (ap_engine app) (ap_engine app')"
  using assms
proof (cases rule: http_step.cases)
  case (http_step req T resp)
  let ?en = "ap_engine app" and ?X = "node_env P (ht_mono T)"
  have app': "app' = snd (serve P H T req app)" using http_step(4) by simp
  show ?thesis
  proof (cases req)
    case (Post_Remember n)
    have "node_step P ?en (snd (engine_remember ?X (ht_clock T) n ?en))"
      using step_remember [of ?en n P "ht_mono T" "ht_clock T" "fst (engine_remember ?X (ht_clock T) n ?en)"]
        http_step(1-3) Post_Remember by simp
    then show ?thesis by (simp add: app' Post_Remember serve_def apfst_snd handler_engines)
  next
    case (Post_Ask q)
    have "node_step P ?en (snd (engine_ask ?X (ht_clock T) q ?en))"
      using step_ask [of P "ht_mono T" "ht_clock T" q ?en "fst (engine_ask ?X (ht_clock T) q ?en)"] by simp
    then show ?thesis by (simp add: app' Post_Ask serve_def apfst_snd handler_engines)
  next
    case (Post_Manage m)
    have "node_step P ?en (snd (manage_world ?X (ht_clock T) act ?en))" if "action_of_request m = Inr act" for act
      using step_manage [of ?en act P "ht_mono T" "ht_clock T" "fst (manage_world ?X (ht_clock T) act ?en)"]
        http_step(1-3) Post_Manage action_world [OF that] by simp
    then show ?thesis by (simp add: app' Post_Manage serve_def apfst_snd handler_engines split: sum.split)
  next
    case (Post_Policy p)
    let ?n = "policy_submission P (ht_now T) p"
    have "n_world ?n = policy_world_of (pr_world p)" by (simp add: policy_submission_def)
    then have "node_step P ?en (snd (engine_remember ?X (ht_clock T) ?n ?en))"
      using step_remember [of ?en ?n P "ht_mono T" "ht_clock T" "fst (engine_remember ?X (ht_clock T) ?n ?en)"]
        http_step(1-3) Post_Policy by simp
    then show ?thesis by (simp add: app' Post_Policy serve_def apfst_snd handler_engines)
  qed (simp_all add: app' serve_def)
qed

lemma http_run_engine:
  "rtranclp (http_step P H) app app' \<Longrightarrow> rtranclp (node_step P) (ap_engine app) (ap_engine app')"
proof (induction rule: rtranclp_induct)
  case (step a b)
  then show ?case using http_step_engine [OF step.hyps(2)] by (auto intro: rtranclp.rtrancl_into_rtrancl)
qed simp

lemma replay_log:
  "node_inv P (ap_engine app) \<Longrightarrow> slash_free w \<Longrightarrow>
    replay_handler P tick w default_filter app = Inr (node_log P (ap_engine app) w)"
  using sled_scan_law [of "pf_sled P" "en_storage (ap_engine app)" w default_filter]
  by (simp add: replay_handler_def engine_replay_def engine_error_def node_inv_def node_log_def)

text \<open>
  C35: A run of requests is a run of the engine, and what replays answer. However requests follow each
  other, the engine takes steps of its own run relation only. Every replay of a world without a slash
  succeeds, and afterwards it answers at least what it answered before: no entry is lost, moved or
  given another identifier, what is added stands at the end under identifiers issued meanwhile, and
  an entry reads as another atom only if its identifier was issued again, as it can be in a process
  restarted over its data. If no log held an identifier still to come, the answer before is a prefix
  of the answer afterwards.
\<close>

theorem http_runs_refine_engine_runs:
  assumes "rtranclp (http_step P H) app app'" and "node_inv P (ap_engine app)"
  shows "rtranclp (node_step P) (ap_engine app) (ap_engine app')
    \<and> (\<forall>w. slash_free w \<longrightarrow> (\<exists>xs ys. replay_handler P tick w default_filter app = Inr xs
         \<and> replay_handler P tick w default_filter app' = Inr ys
         \<and> log_grows (en_id_gen (ap_engine app)) (en_id_gen (ap_engine app')) xs ys
         \<and> (own_ids P (ap_engine app) \<longrightarrow> prefix xs ys)))"
proof (intro conjI allI impI)
  show run: "rtranclp (node_step P) (ap_engine app) (ap_engine app')" by (rule http_run_engine [OF assms(1)])
  note grows = node_run_grows [OF run assms(2)]
  fix w assume w: "slash_free w"
  have "own_ids P (ap_engine app) \<longrightarrow> prefix (node_log P (ap_engine app) w) (node_log P (ap_engine app') w)"
    using own_ids_grow [of P "ap_engine app" "ap_engine app'"] grows w by blast
  then show "\<exists>xs ys. replay_handler P tick w default_filter app = Inr xs
      \<and> replay_handler P tick w default_filter app' = Inr ys
      \<and> log_grows (en_id_gen (ap_engine app)) (en_id_gen (ap_engine app')) xs ys
      \<and> (own_ids P (ap_engine app) \<longrightarrow> prefix xs ys)"
    using grows replay_log [OF assms(2) w] replay_log [of P app' w] w by simp
qed

definition sample_app :: "(alist_db, unit) app_state" where
  "sample_app = \<lparr>ap_engine = node_on (plain_store []), ap_worlds = [], ap_data_dir = ''d'', ap_health = default_health_config\<rparr>"

definition sample_time :: http_time where
  "sample_time = \<lparr>ht_mono = 0, ht_now = 7, ht_clock = sample_clock\<rparr>"

lemma sample_app_engine [simp]: "ap_engine sample_app = node_on (plain_store [])" "ap_worlds sample_app = []"
  by (simp_all add: sample_app_def)

text \<open>
  A process restarted over a world with \<open>atom-9\<close> and \<open>atom-1\<close>: the replay answers both, and after one
  submission three atoms, of which the first is the same and the others are the atom submitted.
\<close>

theorem http_runs_refine_engine_runs_witness:
  "let app = sample_app\<lparr>ap_engine := node_on history_store\<rparr>;
        app' = snd (serve sample_platform (one_disk 0 0) sample_time (Post_Remember (sample_new ''w'' ''{}'')) app);
        old = sample_atom ''atom-9'' ''w'' ''{}'';
        new = remember_atom (node_env sample_platform 0) sample_clock (sample_new ''w'' ''{}'') None (node_on history_store) in
      replay_handler sample_platform 0 ''w'' default_filter app = Inr [old, sample_atom ''atom-1'' ''w'' ''{}'']
    \<and> replay_handler sample_platform 0 ''w'' default_filter app' = Inr [old, new, new]
    \<and> a_id new = ''atom-1'' \<and> log_grows 1 2 [old, sample_atom ''atom-1'' ''w'' ''{}''] [old, new, new]
    \<and> rtranclp (node_step sample_platform) (ap_engine app) (ap_engine app')"
proof -
  let ?old = "[sample_atom ''atom-9'' ''w'' ''{}'', sample_atom ''atom-1'' ''w'' ''{}'']"
  let ?n = "sample_new ''w'' ''{}''" and ?X = "node_env sample_platform 0"
  note s = history_store_facts(1,3,2)
  let ?app = "sample_app\<lparr>ap_engine := node_on history_store\<rparr>" and ?req = "Post_Remember ?n"
  let ?app' = "snd (serve sample_platform (one_disk 0 0) sample_time ?req ?app)"
  let ?new = "remember_atom ?X sample_clock ?n None (node_on history_store)"
  from sample_submission [OF s(1,3)] obtain en' where out: "engine_remember ?X sample_clock ?n (node_on history_store) = (Inr ''atom-1'', en')"
    and i: "a_id ?new = ''atom-1''" and inv': "node_inv sample_platform en'" and gen: "en_id_gen en' = 2"
    and log: "node_log sample_platform en' ''w'' = log_put ?new (log_atoms alist_env history_store ''w'')"
    by (elim exE conjE)
  have en': "ap_engine ?app' = en'"
    by (simp add: serve_def apfst_snd handler_engines sample_time_def out)
  have w: "slash_free ''w''" by simp
  have inv: "node_inv sample_platform (ap_engine ?app)" using node_on_inv [OF s(1)] by simp
  have step: "http_step sample_platform (one_disk 0 0) ?app ?app'"
    by (rule http_step.intros [where req = ?req and T = sample_time
          and resp = "fst (serve sample_platform (one_disk 0 0) sample_time ?req ?app)"])
      (use s(3) in \<open>auto simp: sample_new_def\<close>)
  have before: "replay_handler sample_platform 0 ''w'' default_filter ?app = Inr ?old"
    using replay_log [OF inv w] s(2) by (simp add: node_log_def)
  have after: "replay_handler sample_platform 0 ''w'' default_filter ?app' = Inr (log_put ?new ?old)"
    using replay_log [of sample_platform ?app' "''w''"] inv' w log s(2) unfolding en' by simp
  have put: "log_put ?new ?old = [sample_atom ''atom-9'' ''w'' ''{}'', ?new, ?new]" by (simp add: log_put_def i)
  note claim = http_runs_refine_engine_runs [OF r_into_rtranclp [of "http_step sample_platform (one_disk 0 0)", OF step] inv, of 0]
  have "log_grows 1 2 ?old [sample_atom ''atom-9'' ''w'' ''{}'', ?new, ?new]"
    using claim [THEN conjunct2, rule_format, OF w] before after put gen en' by simp
  then show ?thesis
    using claim [THEN conjunct1] before after put i unfolding Let_def by (intro conjI) simp_all
qed

section \<open>Listing worlds\<close>

lemma archived_Inr: "\<exists>b. world_archived X s w = Inr b"
  by (simp add: world_archived_def world_status_def)

lemma merge_worlds_set:
  "\<exists>out. merge_worlds X s ws extra = Inr out
    \<and> set out = set ws \<union> {w \<in> set extra. world_archived X s w = Inr False} \<and> (distinct ws \<longrightarrow> distinct out)"
proof (induction extra arbitrary: ws)
  case (Cons w extra)
  obtain b where "world_archived X s w = Inr b" by (rule exE [OF archived_Inr])
  then show ?case using Cons.IH [of ws] Cons.IH [of "ws @ [w]"] by (cases b) (auto split: if_splits)
qed simp

text \<open>
  C39: What a listing of worlds holds. \<open>GET /worlds\<close> answers a sorted list without repetitions: the
  worlds with stored atoms, also those an earlier process stored, and the worlds noted since this
  process started, in both cases only if they are not archived. A world with a slash in its name is
  there only if it was noted in this process. The README (\<open>list-worlds\<close>), \<open>docs/cli.md\<close>,
  \<open>docs/developer/architecture.md\<close> and the README of \<open>dwbase-node\<close> promise only the worlds seen since
  the node started; the code, and this theorem, list the stored ones too.
\<close>

theorem world_listing_exact:
  assumes "node_inv P (ap_engine app)"
  shows "\<exists>stored ws. sled_worlds (pf_sled P) (en_storage (ap_engine app)) = Inr stored
    \<and> list_worlds_handler P tick app = Inr ws \<and> sorted ws \<and> distinct ws
    \<and> set ws = {w \<in> set stored \<union> set (ap_worlds app).
         world_archived (node_env P tick) (en_storage (ap_engine app)) w = Inr False}
    \<and> (\<forall>w \<in> set ws. slash_free w \<or> w \<in> set (ap_worlds app))"
proof -
  let ?X = "node_env P tick" and ?s = "en_storage (ap_engine app)"
  obtain stored where st: "sled_worlds (pf_sled P) ?s = Inr stored" "distinct stored" "\<forall>w \<in> set stored. slash_free w"
    using sled_worlds_law [of "pf_sled P" ?s] assms by (auto simp: node_inv_def)
  define live where "live = filter (\<lambda>w. world_archived ?X ?s w \<noteq> Inr True) (sort stored)"
  have "engine_worlds ?X (ap_engine app) = Inr live"
    using worlds_filtered_spec [of ?X "ap_engine app" stored False] st(1) by (simp add: engine_worlds_def live_def)
  moreover obtain out where out: "merge_worlds ?X ?s live (ap_worlds app) = Inr out"
    "set out = set live \<union> {w \<in> set (ap_worlds app). world_archived ?X ?s w = Inr False}" "distinct out"
    using merge_worlds_set [of ?X ?s live "ap_worlds app"] st(2) by (auto simp: live_def)
  ultimately have "list_worlds_handler P tick app = Inr (sort out)"
    by (simp add: list_worlds_handler_def engine_error_def)
  moreover have "(world_archived ?X ?s w \<noteq> Inr True) = (world_archived ?X ?s w = Inr False)" for w
    using archived_Inr [of ?X ?s w] by auto
  then have "set live = {w \<in> set stored. world_archived ?X ?s w = Inr False}" by (simp add: live_def)
  ultimately show ?thesis using out st by auto
qed

text \<open>A process that has just started over a world \<open>w\<close>, has noted \<open>b\<close> and \<open>a\<close>, and has seen no request for \<open>w\<close>.\<close>

theorem world_listing_exact_witness:
  "\<exists>ws. list_worlds_handler sample_platform 0 (sample_app\<lparr>ap_engine := node_on history_store, ap_worlds := [''b'', ''a'']\<rparr>) = Inr ws
    \<and> sorted ws \<and> distinct ws \<and> {''a'', ''b'', ''w''} \<subseteq> set ws"
proof -
  let ?app = "sample_app\<lparr>ap_engine := node_on history_store, ap_worlds := [''b'', ''a'']\<rparr>" and ?X = "node_env sample_platform 0"
  note s = history_store_facts(1)
  have inv: "node_inv sample_platform (ap_engine ?app)" using node_on_inv [OF s] by simp
  have log: "log_atoms alist_env history_store w =
      (if w = ''w'' then [sample_atom ''atom-9'' ''w'' ''{}'', sample_atom ''atom-1'' ''w'' ''{}''] else [])"
    if "slash_free w" for w using history_store_facts(3,4) that by simp
  have live: "world_archived ?X history_store w = Inr False" if "slash_free w" for w
  proof -
    let ?f = "default_filter\<lparr>f_world := Some w, f_labels := [''world_meta'']\<rparr>"
    have "\<not> matches_filter (sample_atom i ''w'' ''{}'') (default_filter\<lparr>f_world := v, f_labels := [''world_meta'']\<rparr>)" for i v
      by (simp add: matches_filter_def sample_atom_def)
    then have "sled_scan alist_env history_store w ?f = Inr []"
      by (simp add: sled_scan_law [OF s that] log [OF that] scan_spec_def default_filter_def)
    then show ?thesis by (simp add: world_archived_def world_status_def ok_or_empty_def)
  qed
  obtain stored where stored: "sled_worlds alist_env history_store = Inr stored" "''w'' \<in> set stored"
    using sled_worlds_law [OF s] log [of "''w''"] by auto
  from world_listing_exact [OF inv, where tick = 0] obtain ws where ws:
    "list_worlds_handler sample_platform 0 ?app = Inr ws" "sorted ws" "distinct ws"
    "set ws = {w \<in> set stored \<union> {''b'', ''a''}. world_archived ?X history_store w = Inr False}"
    using stored(1) by auto
  have "{''a'', ''b'', ''w''} \<subseteq> set ws"
    using stored(2) live [of "''a''"] live [of "''b''"] live [of "''w''"] by (simp add: ws(4))
  then show ?thesis using ws(1-3) by blast
qed

end
