(* ===== verification/Node_Policy.thy ===== *)
theory Node_Policy
  imports Node_Http_Claims
begin

text \<open>
  Policies set over HTTP: the labels a request writes are the ones garbage collection reads back,
  unless the text of the policy looks suspicious, when it ends in quarantine.
\<close>

section \<open>Reading labels back\<close>









section \<open>The policy in force\<close>

text \<open>The policy the labels of a world and its policy world describe, and the minimum retention they demand.\<close>

definition label_policy :: "('db, 'h) platform \<Rightarrow> ('db, 'h) node_state \<Rightarrow> world_key \<Rightarrow> gc_policy \<times> nat option" where
  "label_policy P en w =
     fold policy_label (concat (map a_labels (node_log P en w @ node_log P en (''policy:'' @ w)))) (default_policy, None)"

lemma node_policy_labels: "node_policy P en w = enforce_min_days (label_policy P en w)"
  by (simp add: node_policy_def policy_of_atoms_def label_policy_def)

text \<open>An atom of one world changes the label policy of that world and of the world it is a policy world of only.\<close>

lemma label_policy_other:
  assumes "\<forall>v. slash_free v \<longrightarrow> v \<noteq> u \<longrightarrow> node_log P en' v = node_log P en v"
    and "slash_free w" "w \<noteq> u" "''policy:'' @ w \<noteq> u"
  shows "label_policy P en' w = label_policy P en w"
proof -
  have "slash_free (''policy:'' @ w)" by (rule slash_free_policy [OF assms(2)])
  then have "node_log P en' (''policy:'' @ w) = node_log P en (''policy:'' @ w)" using assms(1,4) by blast
  moreover have "node_log P en' w = node_log P en w" using assms(1-3) by blast
  ultimately show ?thesis unfolding label_policy_def by (simp only:)
qed


definition policy_atom where
  "policy_atom P tick clk now req emb en = remember_atom (node_env P tick) clk (policy_submission P now req) emb en"



section \<open>Policies in quarantine\<close>

lemma contains_prefix: "contains_str s t \<Longrightarrow> contains_str (s @ post) t"
proof (induction s)
  case Nil
  then show ?case by (cases post) simp_all
next
  case (Cons c s)
  show ?case
  proof (cases "starts_with (c # s) t")
    case True
    then obtain r where "c # s = t @ r" by (auto simp: starts_with_iff)
    then have "(c # s) @ post = t @ (r @ post)" by simp
    then have "starts_with ((c # s) @ post) t" unfolding starts_with_iff ..
    then show ?thesis by simp
  qed (use Cons in simp)
qed

lemma contains_suffix: "contains_str s t \<Longrightarrow> contains_str (pre @ s) t"
  by (induction pre) simp_all

lemma impossible_inside: "is_impossible_payload s \<Longrightarrow> is_impossible_payload (pre @ s @ post)"
  by (auto simp: is_impossible_payload_def Let_def to_ascii_lowercase_def intro: contains_prefix contains_suffix)

lemma impossible_suspicious: "is_impossible_payload (n_payload_json n) \<Longrightarrow> suspicious clk n en"
  by (simp add: suspicious_def should_quarantine_def Let_def split: prod.split)

text \<open>
  C37: A policy whose world has a suspicious name is accepted and lost. If the name contains one of
  the texts the engine takes for an impossible payload (\<open>finance\<close> contains \<open>nan\<close>), and printing the
  payload keeps the name readable, the request is answered with an identifier and the policy world
  is noted, but the policy is stored in quarantine: no world's policy changes, but that of the
  quarantine world itself.
\<close>

theorem http_policy_quarantined:
  fixes P :: "('db, 'h) platform" and app req clk now emb tick
  defines "en \<equiv> ap_engine app" and "n \<equiv> policy_submission P now req" and "w \<equiv> pr_world req"
  defines "a \<equiv> policy_atom P tick clk now req emb en"
  assumes "node_inv P en" and "slash_free w" and "\<not> starts_with w ''policy:''" and "policy_labels req \<noteq> []"
    and "is_impossible_payload w" and "pf_json P (policy_payload req) = pre @ w @ post"
    and "fst (check_remember tick n (en_gate en)) = Inr ()" and "em_embed (pf_embed P) (n_payload_json n) = Inr emb"
    and "log_room (pf_sled P) (en_storage en) (''quarantine:policy:'' @ w) 1"
    and "\<forall>v. a_vector a = Some v \<longrightarrow> dim_fits (en_vector en) (a_world a) (length v)"
    and "is_ok (parse_ts (pf_time P) (a_timestamp a))"
  shows "\<exists>i app'. world_policy_handler P tick clk now req app = (Inr i, app')
    \<and> ''policy:'' @ w \<in> set (ap_worlds app')
    \<and> (\<forall>w'. slash_free w' \<longrightarrow> w' \<noteq> ''quarantine:policy:'' @ w \<longrightarrow> node_policy P (ap_engine app') w' = node_policy P en w')"
proof -
  have "\<not> ends_with w ''/policy''" using assms(6) by (auto simp: str_simps slash_free_def)
  then have pw: "policy_world_of w = ''policy:'' @ w" using assms(7) by (simp add: policy_world_of_def)
  have "n_payload_json n = pre @ w @ post" using assms(10) by (simp add: n_def policy_submission_def)
  then have "suspicious clk n en" using impossible_inside [OF assms(9), of pre post] by (intro impossible_suspicious) simp
  then have aw: "a_world a = ''quarantine:policy:'' @ w" "a_id a = ''atom-'' @ dec_text (en_id_gen en)"
    using pw by (simp_all add: a_def policy_atom_def remember_atom_fields target_world_def n_def policy_submission_def w_def)
  have sf: "slash_free (''quarantine:policy:'' @ w)" using assms(6) by simp
  obtain en' where en': "engine_remember (node_env P tick) clk n en = (Inr (a_id a), en')"
    "\<And>v. slash_free v \<Longrightarrow> node_log P en' v = (if v = ''quarantine:policy:'' @ w then log_put a (node_log P en v) else node_log P en v)"
    using node.remember_stores [where P = P and now = tick and clk = clk and n = n and emb = emb and en = en]
      assms(5,11-15) sf aw
    unfolding einv_node_inv elog_node_log accepts_dim_fits a_def policy_atom_def n_def by (auto simp: local_gate_api_def)
  define app' where "app' = app\<lparr>ap_engine := en', ap_worlds := note_world (''policy:'' @ w) (ap_worlds app)\<rparr>"
  have run: "world_policy_handler P tick clk now req app = (Inr (a_id a), app')"
    using en'(1) assms(8) pw by (simp add: world_policy_handler_def app'_def n_def en_def w_def)
  have "label_policy P en' w' = label_policy P en w'" if "slash_free w'" "w' \<noteq> ''quarantine:policy:'' @ w" for w'
  proof (rule label_policy_other [where u = "''quarantine:policy:'' @ w"])
    show "\<forall>v. slash_free v \<longrightarrow> v \<noteq> ''quarantine:policy:'' @ w \<longrightarrow> node_log P en' v = node_log P en v" using en'(2) by simp
  qed (use that in simp_all)
  moreover have "''policy:'' @ w \<in> set (ap_worlds app')" "ap_engine app' = en'" by (simp_all add: app'_def note_world_def)
  ultimately show ?thesis using run unfolding node_policy_labels by auto
qed

section \<open>Concrete policies\<close>

text \<open>A printer for JSON without escapes and fractions.\<close>

fun comma_sep :: "string list \<Rightarrow> string" where
  "comma_sep [] = []"
| "comma_sep [x] = x"
| "comma_sep (x # y # xs) = x @ '','' @ comma_sep (y # xs)"

definition quoted :: "string \<Rightarrow> string" where
  "quoted s = CHR 0x22 # s @ [CHR 0x22]"

fun print_json :: "json \<Rightarrow> string" where
  "print_json JNull = ''null''"
| "print_json (JBool b) = (if b then ''true'' else ''false'')"
| "print_json (JInt i) = (if i < 0 then ''-'' else []) @ dec_text (nat \<bar>i\<bar>)"
| "print_json (JFloat x) = ''0.5''"
| "print_json (JStr s) = quoted s"
| "print_json (JArr vs) = ''['' @ comma_sep (map print_json vs) @ '']''"
| "print_json (JObj kvs) = ''{'' @ comma_sep (map (\<lambda>(k, v). quoted k @ '':'' @ print_json v) kvs) @ ''}''"

definition printing_platform :: "(alist_db, unit) platform" where
  "printing_platform = sample_platform\<lparr>pf_json := print_json\<rparr>"

definition keep_days :: "world_key \<Rightarrow> nat \<Rightarrow> policy_request" where
  "keep_days w d = \<lparr>pr_world = w, pr_retention_days = Some d, pr_min_importance = None,
     pr_replication_allow = [], pr_replication_deny = []\<rparr>"

lemma printing_platform_simps [simp]:
  "pf_sled printing_platform = alist_env" "pf_time printing_platform = plain_time"
  "pf_embed printing_platform = dummy_embed" "pf_hnsw printing_platform = null_hnsw" "pf_json printing_platform = print_json"
  by (simp_all add: printing_platform_def)

lemma printing_inv: "node_inv printing_platform (node_on (plain_store []))"
  using node_on_inv [OF empty_sled_inv] by (simp add: node_inv_def)

lemma seventh_instant: "now_timestamp plain_time 7 = ''7''" "is_ok (parse_ts plain_time ''7'')"
  by code_simp+

lemma keep_days_labels: "policy_labels (keep_days w d) = [''policy:retention_days='' @ dec_text d]"
  by (simp add: policy_labels_def keep_days_def)



definition finance_prefix :: string where
  "finance_prefix = ''{'' @ quoted ''policy_world'' @ '':'' @ CHR 0x22 # ''policy:finance'' @ CHR 0x22 # '','' @ quoted ''target_world'' @ '':'' @ [CHR 0x22]"

lemma finance_printed:
  "\<exists>post. print_json (policy_payload (keep_days ''finance'' 30)) = finance_prefix @ ''finance'' @ post"
  unfolding finance_prefix_def policy_payload_def policy_world_of_def
  by (simp add: keep_days_def quoted_def ends_with_def)

theorem http_policy_quarantined_witness:
  "\<exists>i app'. world_policy_handler printing_platform 0 sample_clock 7 (keep_days ''finance'' 30) sample_app = (Inr i, app')
    \<and> ''policy:finance'' \<in> set (ap_worlds app')
    \<and> node_policy printing_platform (ap_engine app') ''finance'' = default_policy"
proof -
  let ?req = "keep_days ''finance'' 30" and ?en = "node_on (plain_store [])"
  let ?a = "policy_atom printing_platform 0 sample_clock 7 ?req None ?en"
  have f: "a_vector ?a = None" "a_timestamp ?a = ''7''"
    by (simp_all add: policy_atom_def remember_atom_fields stamped_def policy_submission_def seventh_instant)
  have imp: "is_impossible_payload ''finance''" by code_simp
  obtain post where post: "print_json (policy_payload ?req) = finance_prefix @ ''finance'' @ post" using finance_printed by blast
  have w: "pr_world ?req = ''finance''" by (simp add: keep_days_def)
  have "\<exists>i app'. world_policy_handler printing_platform 0 sample_clock 7 ?req sample_app = (Inr i, app')
      \<and> ''policy:'' @ ''finance'' \<in> set (ap_worlds app')
      \<and> (\<forall>w'. slash_free w' \<longrightarrow> w' \<noteq> ''quarantine:policy:'' @ ''finance'' \<longrightarrow>
           node_policy printing_platform (ap_engine app') w' = node_policy printing_platform ?en w')"
    using http_policy_quarantined [where P = printing_platform and app = sample_app and req = ?req and clk = sample_clock
        and now = 7 and emb = None and tick = 0 and pre = finance_prefix and post = post] printing_inv f seventh_instant imp post
    by (auto simp: w keep_days_labels log_room_def)
  moreover have "node_policy printing_platform ?en ''finance'' = default_policy"
    by (simp add: node_policy_def policy_of_atoms_def node_log_def enforce_min_days_def)
  ultimately show ?thesis by auto
qed

end
