(* ===== verification/Swarm_Peers.thy ===== *)
theory Swarm_Peers
  imports Engine_Types
begin

text \<open>
  \<open>crates/dwbase-swarm/src/lib.rs\<close>: the Bloom filter that offers the ids of a window, and the
  membership table with its failure backoff. Instants and durations are nanoseconds; the \<open>HashMap\<close>
  of peers is an association list. The SipHash and MessagePack crates and the natural logarithm are
  parameters. \<open>None\<close> in place of a result is a panic.
\<close>

section \<open>Messages\<close>

datatype swarm_error = Io string | Encode string | Decode string | Oversize nat nat

type_synonym peer_id = string
type_synonym socket_addr = string

datatype interest_kind = Atoms | Summaries

record world_subscription =
  wsub_pattern :: string
  wsub_kinds :: "interest_kind list"

record peer_info =
  pi_id :: peer_id
  pi_addr :: socket_addr
  pi_trust_score :: f32
  pi_worlds :: "string list"
  pi_subscriptions :: "world_subscription list"
  pi_summary_adverts :: "summary_advert list"

record hello =
  he_peer :: peer_info
  he_subscriptions :: "world_subscription list"

datatype envelope_kind =
    Ping
  | Membership
  | HelloMsg
  | SummaryAdvertMsg
  | BloomOfferMsg
  | MissingRequestMsg
  | AtomBatchMsg
  | Gossip
  | Custom string

record envelope =
  ev_kind :: envelope_kind
  ev_from :: peer_id
  ev_to :: "peer_id option"
  ev_payload_bytes :: string
  ev_sent_at :: nat

definition envelope_new ::
  "nat \<Rightarrow> envelope_kind \<Rightarrow> peer_id \<Rightarrow> peer_id option \<Rightarrow> string \<Rightarrow> envelope" where
  "envelope_new now k from to payload =
     \<lparr>ev_kind = k, ev_from = from, ev_to = to, ev_payload_bytes = payload, ev_sent_at = now\<rparr>"

record wire_codec =
  wc_encode :: "envelope \<Rightarrow> (string, string) result"
  wc_decode :: "string \<Rightarrow> (string, envelope) result"

definition envelope_encode :: "wire_codec \<Rightarrow> envelope \<Rightarrow> (swarm_error, string) result" where
  "envelope_encode C e = rmap_err Encode (wc_encode C e)"

definition envelope_decode :: "wire_codec \<Rightarrow> string \<Rightarrow> (swarm_error, envelope) result" where
  "envelope_decode C bytes = rmap_err Decode (wc_decode C bytes)"

text \<open>
  The UDP transport over a socket: \<open>socket_send\<close> and \<open>socket_recv\<close> are the operating system's, the
  latter given the size of the buffer.
\<close>

definition udp_send ::
  "wire_codec \<Rightarrow> nat \<Rightarrow> (string \<Rightarrow> socket_addr \<Rightarrow> 'n \<Rightarrow> (string, unit) result \<times> 'n)
   \<Rightarrow> socket_addr \<Rightarrow> envelope \<Rightarrow> 'n \<Rightarrow> (swarm_error, unit) result \<times> 'n" where
  "udp_send C max_datagram socket_send target e net =
     (case envelope_encode C e of
        Inl err \<Rightarrow> (Inl err, net)
      | Inr bytes \<Rightarrow>
          if max_datagram < length bytes then (Inl (Oversize (length bytes) max_datagram), net)
          else (case socket_send bytes target net of (r, net1) \<Rightarrow> (rmap_err Io r, net1)))"

definition udp_recv ::
  "wire_codec \<Rightarrow> nat \<Rightarrow> (nat \<Rightarrow> 'n \<Rightarrow> (string, string \<times> socket_addr) result \<times> 'n)
   \<Rightarrow> 'n \<Rightarrow> (swarm_error, socket_addr \<times> envelope) result \<times> 'n" where
  "udp_recv C max_datagram socket_recv net =
     (case socket_recv max_datagram net of
        (Inl e, net1) \<Rightarrow> (Inl (Io e), net1)
      | (Inr (bytes, addr), net1) \<Rightarrow> (rmap (\<lambda>e. (addr, e)) (envelope_decode C bytes), net1))"

section \<open>Bloom filters\<close>

record bloom_filter =
  bf_bits :: "8 word list"
  bf_k :: nat
  bf_m :: nat

record bloom_lib =
  bl_sip :: "nat \<Rightarrow> nat \<Rightarrow> string \<Rightarrow> 64 word"
  bl_ln :: "f64 \<Rightarrow> f64"

definition LN_2 :: f64 where
  "LN_2 = 0x3FE62E42FEFA39EF"

text \<open>\<open>x.ceil() as u32\<close>: saturating, zero for a NaN.\<close>

definition ceil_u32 :: "f64 \<Rightarrow> nat" where
  "ceil_u32 x =
     (if f64_is_nan x \<or> fl_sign x then 0
      else min (2 ^ 32 - 1) ((mag_val 52 (fl_mag x) + 2 ^ 1074 - 1) div 2 ^ 1074))"

definition bloom_m :: "bloom_lib \<Rightarrow> nat \<Rightarrow> f64 \<Rightarrow> nat" where
  "bloom_m B n fp_rate =
     (let fp = fl_clamp 52 fp_rate (fl_of_rat 52 False 1 10000) (fl_of_rat 52 False 1 2);
          m = ceil_u32 (f64_div (f64_mul (fl_neg (f64_of_nat n)) (bl_ln B fp)) (f64_mul LN_2 LN_2))
      in max m 256)"

definition bloom_k :: "nat \<Rightarrow> nat \<Rightarrow> nat" where
  "bloom_k m n = max (ceil_u32 (f64_mul (f64_div (f64_of_nat m) (f64_of_nat n)) LN_2)) 1"

definition hash_pair :: "bloom_lib \<Rightarrow> atom_id \<Rightarrow> 64 word \<times> 64 word" where
  "hash_pair B i = (bl_sip B 0 1 i, bl_sip B 2 3 i)"

text \<open>The \<open>j\<close>-th index; the remainder by zero panics.\<close>

definition bloom_index :: "bloom_lib \<Rightarrow> bloom_filter \<Rightarrow> atom_id \<Rightarrow> nat \<Rightarrow> nat option" where
  "bloom_index B bf i j =
     (if bf_m bf = 0 then None
      else case hash_pair B i of (h1, h2) \<Rightarrow> Some (unat (h1 + of_nat j * h2) mod bf_m bf))"

fun collect_some :: "'a option list \<Rightarrow> 'a list option" where
  "collect_some [] = Some []"
| "collect_some (None # xs) = None"
| "collect_some (Some x # xs) = map_option (\<lambda>ys. x # ys) (collect_some xs)"

fun set_bits :: "nat list \<Rightarrow> 8 word list \<Rightarrow> 8 word list option" where
  "set_bits [] bits = Some bits"
| "set_bits (idx # idxs) bits =
     (if length bits \<le> idx div 8 then None
      else set_bits idxs (bits[idx div 8 := or (bits ! (idx div 8)) (push_bit (idx mod 8) 1)]))"

definition bloom_set :: "bloom_lib \<Rightarrow> atom_id \<Rightarrow> bloom_filter \<Rightarrow> bloom_filter option" where
  "bloom_set B i bf =
     Option.bind (collect_some (map (bloom_index B bf i) [0..<bf_k bf])) (\<lambda>idxs.
     map_option (\<lambda>bits. bf\<lparr>bf_bits := bits\<rparr>) (set_bits idxs (bf_bits bf)))"

fun bloom_set_all :: "bloom_lib \<Rightarrow> atom_id list \<Rightarrow> bloom_filter \<Rightarrow> bloom_filter option" where
  "bloom_set_all B [] bf = Some bf"
| "bloom_set_all B (i # is) bf = Option.bind (bloom_set B i bf) (bloom_set_all B is)"

definition bloom_from_ids :: "bloom_lib \<Rightarrow> atom_id list \<Rightarrow> f64 \<Rightarrow> bloom_filter option" where
  "bloom_from_ids B ids fp_rate =
     (let n = max (length ids) 1;
          m = bloom_m B n fp_rate;
          k = bloom_k m n
      in bloom_set_all B ids \<lparr>bf_bits = replicate ((m + 7) div 8) 0, bf_k = k, bf_m = m\<rparr>)"

text \<open>The iterator is lazy: the loop stops at the first bit that is not set.\<close>

fun contains_from :: "bloom_lib \<Rightarrow> bloom_filter \<Rightarrow> atom_id \<Rightarrow> nat list \<Rightarrow> bool option" where
  "contains_from B bf i [] = Some True"
| "contains_from B bf i (j # js) =
     (case bloom_index B bf i j of
        None \<Rightarrow> None
      | Some idx \<Rightarrow>
          if length (bf_bits bf) \<le> idx div 8 then None
          else if and (bf_bits bf ! (idx div 8)) (push_bit (idx mod 8) 1) = 0 then Some False
          else contains_from B bf i js)"

definition bloom_contains :: "bloom_lib \<Rightarrow> bloom_filter \<Rightarrow> atom_id \<Rightarrow> bool option" where
  "bloom_contains B bf i = contains_from B bf i [0..<bf_k bf]"

fun bloom_missing :: "bloom_lib \<Rightarrow> bloom_filter \<Rightarrow> atom_id list \<Rightarrow> atom_id list option" where
  "bloom_missing B bf [] = Some []"
| "bloom_missing B bf (i # is) =
     Option.bind (bloom_contains B bf i) (\<lambda>c.
     map_option (\<lambda>rest. if c then rest else i # rest) (bloom_missing B bf is))"

record bloom_offer =
  bo_world :: world_key
  bo_window :: time_window
  bo_bloom :: bloom_filter

record missing_request =
  mr_world :: world_key
  mr_atom_ids :: "atom_id list"

record atom_batch =
  ab_world :: world_key
  ab_atoms :: "atom list"

section \<open>Membership\<close>

record peer_state =
  ps_info :: peer_info
  ps_last_seen :: nat
  ps_failure_count :: nat
  ps_backoff_until :: "nat option"

record membership =
  mb_peers :: "(peer_id \<times> peer_state) list"
  mb_expiry :: nat
  mb_base_backoff :: nat

definition membership_new :: "nat \<Rightarrow> nat \<Rightarrow> membership" where
  "membership_new expiry base = \<lparr>mb_peers = [], mb_expiry = expiry, mb_base_backoff = base\<rparr>"

definition membership_upsert :: "nat \<Rightarrow> peer_info \<Rightarrow> membership \<Rightarrow> bool \<times> membership" where
  "membership_upsert now info mb =
     (let is_new = (map_of (mb_peers mb) (pi_id info) = None)
      in (is_new, mb\<lparr>mb_peers := AList.update (pi_id info)
            \<lparr>ps_info = info, ps_last_seen = now, ps_failure_count = 0, ps_backoff_until = None\<rparr> (mb_peers mb)\<rparr>))"

definition merge_hello :: "nat \<Rightarrow> hello \<Rightarrow> membership \<Rightarrow> bool \<times> membership" where
  "merge_hello now h mb = membership_upsert now ((he_peer h)\<lparr>pi_subscriptions := he_subscriptions h\<rparr>) mb"

definition update_peer :: "peer_id \<Rightarrow> (peer_state \<Rightarrow> peer_state) \<Rightarrow> membership \<Rightarrow> membership" where
  "update_peer i f mb =
     (case map_of (mb_peers mb) i of
        None \<Rightarrow> mb
      | Some s \<Rightarrow> mb\<lparr>mb_peers := AList.update i (f s) (mb_peers mb)\<rparr>)"

definition apply_summary_advert :: "nat \<Rightarrow> peer_id \<Rightarrow> summary_advert \<Rightarrow> membership \<Rightarrow> membership" where
  "apply_summary_advert now from advert mb =
     update_peer from (\<lambda>s. s\<lparr>ps_info := (ps_info s)\<lparr>pi_summary_adverts :=
         filter (\<lambda>a. sa_digest a \<noteq> sa_digest advert \<or> sa_world a \<noteq> sa_world advert)
           (pi_summary_adverts (ps_info s)) @ [advert]\<rparr>,
       ps_last_seen := now\<rparr>) mb"

definition mark_seen :: "nat \<Rightarrow> peer_id \<Rightarrow> membership \<Rightarrow> membership" where
  "mark_seen now i mb =
     update_peer i (\<lambda>s. s\<lparr>ps_last_seen := now, ps_failure_count := 0, ps_backoff_until := None\<rparr>) mb"

definition duration_max :: nat where
  "duration_max = (2 ^ 64 - 1) * 1000000000 + 999999999"

definition saturating_mul :: "nat \<Rightarrow> nat \<Rightarrow> nat" where
  "saturating_mul d k = min duration_max (d * k)"

text \<open>\<open>Instant + Duration\<close>: seconds are a signed 64-bit number, beyond which the addition panics.\<close>

definition instant_add :: "nat \<Rightarrow> nat \<Rightarrow> nat option" where
  "instant_add t d = (if (t + d) div 1000000000 < 2 ^ 63 then Some (t + d) else None)"

definition backoff_for :: "nat \<Rightarrow> nat \<Rightarrow> nat" where
  "backoff_for base failures =
     (let shift = min (failures - 1) 16; factor = 2 ^ shift
      in max (saturating_mul base factor) base)"

definition mark_failure :: "nat \<Rightarrow> peer_id \<Rightarrow> membership \<Rightarrow> membership option" where
  "mark_failure now i mb =
     (case map_of (mb_peers mb) i of
        None \<Rightarrow> Some mb
      | Some s \<Rightarrow>
          let n = min (2 ^ 32 - 1) (ps_failure_count s + 1)
          in map_option (\<lambda>until. update_peer i (\<lambda>s. s\<lparr>ps_failure_count := n, ps_backoff_until := Some until\<rparr>) mb)
               (instant_add now (backoff_for (mb_base_backoff mb) n)))"

definition stays :: "nat \<Rightarrow> membership \<Rightarrow> peer_state \<Rightarrow> bool" where
  "stays now mb s \<longleftrightarrow> now - ps_last_seen s \<le> mb_expiry mb"

definition membership_expire :: "nat \<Rightarrow> membership \<Rightarrow> peer_id list \<times> membership" where
  "membership_expire now mb =
     (map fst (filter (\<lambda>(i, s). \<not> stays now mb s) (mb_peers mb)),
      mb\<lparr>mb_peers := filter (\<lambda>(i, s). stays now mb s) (mb_peers mb)\<rparr>)"

definition is_backing_off :: "nat \<Rightarrow> peer_id \<Rightarrow> membership \<Rightarrow> bool" where
  "is_backing_off now i mb =
     (case Option.bind (map_of (mb_peers mb) i) ps_backoff_until of None \<Rightarrow> False | Some until \<Rightarrow> now < until)"

definition membership_peers :: "membership \<Rightarrow> peer_info list" where
  "membership_peers mb = map (ps_info \<circ> snd) (mb_peers mb)"

definition eligible_peers :: "nat \<Rightarrow> membership \<Rightarrow> peer_info list" where
  "eligible_peers now mb =
     map (ps_info \<circ> snd)
       (filter (\<lambda>(i, s). case ps_backoff_until s of None \<Rightarrow> True | Some b \<Rightarrow> b \<le> now) (mb_peers mb))"

definition membership_len :: "membership \<Rightarrow> nat" where
  "membership_len mb = length (mb_peers mb)"

definition membership_is_empty :: "membership \<Rightarrow> bool" where
  "membership_is_empty mb = (mb_peers mb = [])"

text \<open>A tick expires peers and sleeps; the transport is not used yet.\<close>

definition gossip_tick :: "nat \<Rightarrow> membership \<Rightarrow> (swarm_error, unit) result \<times> membership" where
  "gossip_tick now mb = (Inr (), snd (membership_expire now mb))"

section \<open>Bloom filters: lemmas\<close>

text \<open>A well-formed filter: at least one index, a byte for every index.\<close>

definition bloom_ok :: "bloom_filter \<Rightarrow> bool" where
  "bloom_ok bf \<longleftrightarrow> 0 < bf_m bf \<and> bf_m bf \<le> 8 * length (bf_bits bf)"

definition bit_on :: "8 word list \<Rightarrow> nat \<Rightarrow> bool" where
  "bit_on bits idx \<longleftrightarrow> bit (bits ! (idx div 8)) (idx mod 8)"

lemma and_push_bit_zero: "and (x :: 8 word) (push_bit b 1) = 0 \<longleftrightarrow> \<not> bit x b"
  by (simp add: and_exp_eq_0_iff_not_bit)

lemma set_bits_ok:
  assumes "\<forall>idx \<in> set idxs. idx < 8 * length bits"
  shows "\<exists>bits'. set_bits idxs bits = Some bits' \<and> length bits' = length bits
    \<and> (\<forall>idx. idx < 8 * length bits \<longrightarrow> bit_on bits' idx \<longleftrightarrow> idx \<in> set idxs \<or> bit_on bits idx)"
  using assms
proof (induction idxs arbitrary: bits)
  case (Cons j js)
  let ?b = "bits[j div 8 := or (bits ! (j div 8)) (push_bit (j mod 8) 1)]"
  have j: "j div 8 < length bits" using Cons.prems by auto
  have on: "bit_on ?b idx \<longleftrightarrow> idx = j \<or> bit_on bits idx" if i: "idx < 8 * length bits" for idx
  proof (cases "idx div 8 = j div 8")
    case True
    have "bit (or (bits ! (j div 8)) (push_bit (j mod 8) 1)) (idx mod 8) \<longleftrightarrow>
        bit (bits ! (j div 8)) (idx mod 8) \<or> idx mod 8 = j mod 8"
      by (auto simp: bit_or_iff bit_exp_iff)
    moreover have "idx mod 8 = j mod 8 \<longleftrightarrow> idx = j"
      using True div_mult_mod_eq [of idx 8] div_mult_mod_eq [of j 8] by auto
    ultimately show ?thesis using True j by (simp add: bit_on_def disj_commute)
  qed (auto simp: bit_on_def)
  obtain bits' where bits': "set_bits js ?b = Some bits'" "length bits' = length bits"
    "\<forall>idx. idx < 8 * length bits \<longrightarrow> bit_on bits' idx \<longleftrightarrow> idx \<in> set js \<or> bit_on ?b idx"
    using Cons.IH [of ?b] Cons.prems by auto
  then show ?case using j on by (intro exI [of _ bits']) auto
qed simp

lemma collect_some_map: "collect_some (map (\<lambda>x. Some (f x)) xs) = Some (map f xs)"
  by (induction xs) simp_all

definition the_index :: "bloom_lib \<Rightarrow> nat \<Rightarrow> atom_id \<Rightarrow> nat \<Rightarrow> nat" where
  "the_index B m i j = (case hash_pair B i of (h1, h2) \<Rightarrow> unat (h1 + of_nat j * h2) mod m)"

lemma bloom_index_ok: "bloom_ok bf \<Longrightarrow> bloom_index B bf i = (\<lambda>j. Some (the_index B (bf_m bf) i j))"
  by (rule ext) (simp add: bloom_index_def the_index_def bloom_ok_def hash_pair_def)

lemma the_index_bound: "bloom_ok bf \<Longrightarrow> the_index B (bf_m bf) i j < 8 * length (bf_bits bf)"
  by (auto simp: the_index_def bloom_ok_def hash_pair_def intro: order_less_le_trans [OF mod_less_divisor])

definition member_bits :: "bloom_lib \<Rightarrow> bloom_filter \<Rightarrow> atom_id \<Rightarrow> bool" where
  "member_bits B bf i \<longleftrightarrow> (\<forall>j < bf_k bf. bit_on (bf_bits bf) (the_index B (bf_m bf) i j))"

lemma bloom_set_ok:
  assumes "bloom_ok bf"
  shows "\<exists>bf'. bloom_set B i bf = Some bf' \<and> bloom_ok bf' \<and> bf_k bf' = bf_k bf \<and> bf_m bf' = bf_m bf
    \<and> member_bits B bf' i \<and> (\<forall>i'. member_bits B bf i' \<longrightarrow> member_bits B bf' i')"
proof -
  let ?idxs = "map (the_index B (bf_m bf) i) [0..<bf_k bf]"
  have "\<forall>idx \<in> set ?idxs. idx < 8 * length (bf_bits bf)" using the_index_bound [OF assms] by auto
  from set_bits_ok [OF this] obtain bits' where b: "set_bits ?idxs (bf_bits bf) = Some bits'"
    "length bits' = length (bf_bits bf)"
    "\<forall>idx. idx < 8 * length (bf_bits bf) \<longrightarrow> bit_on bits' idx \<longleftrightarrow> idx \<in> set ?idxs \<or> bit_on (bf_bits bf) idx"
    by blast
  have "bloom_set B i bf = Some (bf\<lparr>bf_bits := bits'\<rparr>)"
    using b(1) by (simp add: bloom_set_def bloom_index_ok [OF assms] collect_some_map comp_def)
  moreover have "member_bits B (bf\<lparr>bf_bits := bits'\<rparr>) i'"
    if "i' = i \<or> member_bits B bf i'" for i'
    using b(3) that the_index_bound [OF assms, of B i'] by (auto simp: member_bits_def)
  ultimately show ?thesis using assms b(2) by (intro exI [of _ "bf\<lparr>bf_bits := bits'\<rparr>"]) (auto simp: bloom_ok_def)
qed

lemma bloom_set_all_ok:
  "bloom_ok bf \<Longrightarrow> \<exists>bf'. bloom_set_all B is bf = Some bf' \<and> bloom_ok bf'
     \<and> (\<forall>i'. i' \<in> set is \<or> member_bits B bf i' \<longrightarrow> member_bits B bf' i')"
proof (induction "is" arbitrary: bf)
  case (Cons i rest)
  obtain bf1 where bf1: "bloom_set B i bf = Some bf1" "bloom_ok bf1" "member_bits B bf1 i"
    "\<forall>i'. member_bits B bf i' \<longrightarrow> member_bits B bf1 i'"
    using bloom_set_ok [OF Cons.prems] by blast
  from Cons.IH [OF bf1(2)] obtain bf' where "bloom_set_all B rest bf1 = Some bf'" "bloom_ok bf'"
    "\<forall>i'. i' \<in> set rest \<or> member_bits B bf1 i' \<longrightarrow> member_bits B bf' i'" by blast
  then show ?case using bf1 by (intro exI [of _ bf']) auto
qed auto

lemma contains_from_ok:
  "bloom_ok bf \<Longrightarrow> contains_from B bf i js = Some (\<forall>j \<in> set js. bit_on (bf_bits bf) (the_index B (bf_m bf) i j))"
proof (induction js)
  case (Cons j js)
  have "the_index B (bf_m bf) i j div 8 < length (bf_bits bf)"
    using the_index_bound [OF Cons.prems, of B i j] by auto
  then show ?case
    using Cons by (simp add: bloom_index_ok and_push_bit_zero bit_on_def and_exp_eq_0_iff_not_bit)
qed simp

lemma bloom_contains_ok: "bloom_ok bf \<Longrightarrow> bloom_contains B bf i = Some (member_bits B bf i)"
  by (auto simp: bloom_contains_def contains_from_ok member_bits_def)

lemma bloom_missing_ok: "bloom_ok bf \<Longrightarrow> bloom_missing B bf xs = Some (filter (\<lambda>i. \<not> member_bits B bf i) xs)"
  by (induction xs) (simp_all add: bloom_contains_ok)

lemma bloom_from_ids_ok:
  obtains bf where "bloom_from_ids B ids fp = Some bf" "bloom_ok bf" "\<forall>i \<in> set ids. member_bits B bf i"
proof -
  let ?n = "max (length ids) 1"
  let ?m = "bloom_m B ?n fp"
  let ?bf = "\<lparr>bf_bits = replicate ((?m + 7) div 8) 0, bf_k = bloom_k ?m ?n, bf_m = ?m\<rparr> :: bloom_filter"
  have "256 \<le> ?m" by (simp add: bloom_m_def Let_def)
  then have "bloom_ok ?bf" by (simp add: bloom_ok_def)
  from bloom_set_all_ok [OF this, of B ids] that show ?thesis
    by (auto simp: bloom_from_ids_def Let_def)
qed

text \<open>
  C27: A Bloom filter has no false negatives. Whatever the ids, the requested rate (not a number
  included) and the hash functions, building the filter succeeds, it contains every id it was built
  from, and asking it what is missing from any list answers, without a panic, a part of that list
  that holds none of them: a peer never asks again for an atom it offered.
\<close>

theorem bloom_no_false_negatives:
  "\<exists>bf. bloom_from_ids B ids fp = Some bf
    \<and> (\<forall>i \<in> set ids. bloom_contains B bf i = Some True)
    \<and> (\<forall>xs. \<exists>ys. bloom_missing B bf xs = Some ys \<and> set ys \<subseteq> set xs - set ids
         \<and> (\<forall>x \<in> set xs. x \<notin> set ys \<longrightarrow> bloom_contains B bf x = Some True))"
proof -
  obtain bf where bf: "bloom_from_ids B ids fp = Some bf" "bloom_ok bf" "\<forall>i \<in> set ids. member_bits B bf i"
    by (rule bloom_from_ids_ok)
  then show ?thesis
    by (intro exI [of _ bf]) (auto simp: bloom_contains_ok bloom_missing_ok)
qed

definition toy_bloom :: bloom_lib where
  "toy_bloom = \<lparr>bl_sip = (\<lambda>a b s. of_nat (length s + a + b)), bl_ln = (\<lambda>x. fl_neg x)\<rparr>"

theorem bloom_no_false_negatives_witness:
  "\<exists>bf. bloom_from_ids toy_bloom [''a'', ''bb''] (fl_of_rat 52 False 1 100) = Some bf
    \<and> bloom_contains toy_bloom bf ''bb'' = Some True"
  using bloom_no_false_negatives [of toy_bloom "[''a'', ''bb'']" "fl_of_rat 52 False 1 100"] by auto

section \<open>Membership: lemmas\<close>

text \<open>Each peer is filed once, under its own id.\<close>

definition membership_inv :: "membership \<Rightarrow> bool" where
  "membership_inv mb \<longleftrightarrow> distinct (map fst (mb_peers mb)) \<and> (\<forall>(i, s) \<in> set (mb_peers mb). pi_id (ps_info s) = i)"

definition peer_of :: "membership \<Rightarrow> peer_id \<Rightarrow> peer_state option" where
  "peer_of mb i = map_of (mb_peers mb) i"

lemma update_peer_of:
  "peer_of (update_peer i f mb) j = (if j = i then map_option f (peer_of mb i) else peer_of mb j)"
  by (auto simp: peer_of_def update_peer_def update_conv' split: option.split)

lemma update_entries: "set (AList.update k v m) \<subseteq> insert (k, v) (set m)"
  by (induction m) auto

lemma update_peer_inv:
  assumes "membership_inv mb" "\<And>s. pi_id (ps_info (f s)) = pi_id (ps_info s)"
  shows "membership_inv (update_peer i f mb)"
proof (cases "map_of (mb_peers mb) i")
  case (Some s)
  then have "pi_id (ps_info s) = i" using assms(1) map_of_SomeD [OF Some] by (auto simp: membership_inv_def)
  then show ?thesis
    using assms Some update_entries [of i "f s" "mb_peers mb"] distinct_update [of "mb_peers mb" i "f s"]
    by (auto simp: membership_inv_def update_peer_def)
qed (use assms(1) in \<open>simp add: update_peer_def\<close>)

lemma upsert_peer_of:
  "peer_of (snd (membership_upsert now info mb)) j =
     (if j = pi_id info
      then Some \<lparr>ps_info = info, ps_last_seen = now, ps_failure_count = 0, ps_backoff_until = None\<rparr>
      else peer_of mb j)"
  by (auto simp: peer_of_def membership_upsert_def Let_def update_conv')

lemma upsert_inv:
  assumes "membership_inv mb"
  shows "membership_inv (snd (membership_upsert now info mb))"
proof -
  let ?s = "\<lparr>ps_info = info, ps_last_seen = now, ps_failure_count = 0, ps_backoff_until = None\<rparr>"
  have "distinct (map fst (AList.update (pi_id info) ?s (mb_peers mb)))"
    using assms by (simp add: membership_inv_def distinct_update)
  moreover have "\<forall>(i, s) \<in> set (AList.update (pi_id info) ?s (mb_peers mb)). pi_id (ps_info s) = i"
  proof
    fix e assume "e \<in> set (AList.update (pi_id info) ?s (mb_peers mb))"
    then have "e = (pi_id info, ?s) \<or> e \<in> set (mb_peers mb)" using update_entries by fast
    then show "case e of (i, s) \<Rightarrow> pi_id (ps_info s) = i"
      using assms by (auto simp: membership_inv_def)
  qed
  ultimately show ?thesis by (simp add: membership_inv_def membership_upsert_def Let_def)
qed

text \<open>
  Peers expire exactly when they have been silent too long. On a table where each peer is filed
  under its own id, expiring returns the peers not seen within the window and keeps the others with
  their records, and the table stays well formed, as it does under every other operation.
\<close>

theorem membership_expire_exact:
  assumes "membership_inv mb" and "membership_expire now mb = (gone, mb')"
  shows "membership_inv mb'
    \<and> (\<forall>i. i \<in> set gone \<longleftrightarrow> (\<exists>s. peer_of mb i = Some s \<and> mb_expiry mb < now - ps_last_seen s))
    \<and> (\<forall>i. peer_of mb' i = (case peer_of mb i of
         None \<Rightarrow> None | Some s \<Rightarrow> if mb_expiry mb < now - ps_last_seen s then None else Some s))
    \<and> membership_inv (snd (merge_hello now h mb)) \<and> membership_inv (mark_seen now j mb)
    \<and> membership_inv (apply_summary_advert now j advert mb)
    \<and> (case mark_failure now j mb of None \<Rightarrow> True | Some mb2 \<Rightarrow> membership_inv mb2)"
proof -
  have gone: "gone = map fst (filter (\<lambda>(i, s). \<not> stays now mb s) (mb_peers mb))"
    and mb': "mb' = mb\<lparr>mb_peers := filter (\<lambda>(i, s). stays now mb s) (mb_peers mb)\<rparr>"
    using assms(2) by (auto simp: membership_expire_def)
  have d: "distinct (map fst (mb_peers mb))" using assms(1) by (simp add: membership_inv_def)
  have mem: "peer_of mb i = Some s \<longleftrightarrow> (i, s) \<in> set (mb_peers mb)" for i s
    using d by (simp add: peer_of_def)
  have "distinct (map fst (mb_peers mb'))"
    using d unfolding mb' by (simp add: distinct_map_filter)
  then have inv': "membership_inv mb'" and mem': "peer_of mb' i = Some s \<longleftrightarrow> (i, s) \<in> set (mb_peers mb) \<and> stays now mb s" for i s
    using assms(1) unfolding membership_inv_def peer_of_def mb' by auto
  have "peer_of mb' i = (case peer_of mb i of
      None \<Rightarrow> None | Some s \<Rightarrow> if mb_expiry mb < now - ps_last_seen s then None else Some s)" for i
  proof (cases "peer_of mb' i")
    case None
    show ?thesis
    proof (cases "peer_of mb i")
      case (Some s)
      then have "\<not> stays now mb s" using None mem [of i s] mem' [of i s] by simp
      then show ?thesis using Some None by (simp add: stays_def)
    qed (simp add: None)
  next
    case (Some s)
    then have "peer_of mb i = Some s" "stays now mb s" using mem mem' by auto
    then show ?thesis using Some by (simp add: stays_def)
  qed
  moreover have "i \<in> set gone \<longleftrightarrow> (\<exists>s. peer_of mb i = Some s \<and> mb_expiry mb < now - ps_last_seen s)" for i
    unfolding gone mem by (force simp: stays_def)
  moreover have "case mark_failure now j mb of None \<Rightarrow> True | Some mb2 \<Rightarrow> membership_inv mb2"
    using update_peer_inv [OF assms(1)] by (auto simp: mark_failure_def Let_def assms(1) split: option.split)
  ultimately show ?thesis
    using inv' update_peer_inv [OF assms(1)] upsert_inv [OF assms(1)]
    by (simp add: merge_hello_def mark_seen_def apply_summary_advert_def)
qed

definition sample_peer :: peer_info where
  "sample_peer = \<lparr>pi_id = ''p'', pi_addr = ''127.0.0.1:1'', pi_trust_score = 0, pi_worlds = [],
     pi_subscriptions = [], pi_summary_adverts = []\<rparr>"

definition one_peer :: membership where
  "one_peer = snd (membership_upsert 5 sample_peer (membership_new 10 2))"

lemma one_peer_inv: "membership_inv one_peer"
  unfolding one_peer_def by (rule upsert_inv) (simp add: membership_inv_def membership_new_def)

theorem membership_expire_exact_witness:
  "fst (membership_expire 16 one_peer) = [''p''] \<and> fst (membership_expire 15 one_peer) = []
   \<and> peer_of (snd (membership_expire 16 one_peer)) ''p'' = None"
  using membership_expire_exact [OF one_peer_inv surjective_pairing, of 16]
  by (simp add: one_peer_def membership_upsert_def membership_new_def sample_peer_def membership_expire_def stays_def
      peer_of_def)

text \<open>Failures at the given times, in order; \<open>None\<close> if one of them panics.\<close>

fun failures :: "nat list \<Rightarrow> peer_id \<Rightarrow> membership \<Rightarrow> membership option" where
  "failures [] i mb = Some mb"
| "failures (t # ts) i mb = Option.bind (mark_failure t i mb) (failures ts i)"

lemma backoff_for_exp: "base \<le> duration_max \<Longrightarrow> backoff_for base n = min duration_max (base * 2 ^ min (n - 1) 16)"
  by (auto simp: backoff_for_def saturating_mul_def Let_def)

lemma mark_failure_of:
  assumes "mark_failure t i mb = Some mb'" "peer_of mb i = Some s"
  shows "peer_of mb' i = Some (s\<lparr>ps_failure_count := min (2 ^ 32 - 1) (ps_failure_count s + 1),
      ps_backoff_until := Some (t + backoff_for (mb_base_backoff mb) (min (2 ^ 32 - 1) (ps_failure_count s + 1)))\<rparr>)
    \<and> mb_base_backoff mb' = mb_base_backoff mb \<and> (\<forall>j. j \<noteq> i \<longrightarrow> peer_of mb' j = peer_of mb j)"
  using assms
  by (auto simp: mark_failure_def Let_def update_peer_of instant_add_def peer_of_def [symmetric] split: if_splits)
    (auto simp: update_peer_def split: option.split)

lemma failures_snoc: "failures (ts @ [t]) i mb = Option.bind (failures ts i mb) (mark_failure t i)"
  by (induction ts arbitrary: mb) (auto simp: bind_assoc split: bind_split)

lemma failures_of:
  "failures ts i mb = Some mb' \<Longrightarrow> peer_of mb i = Some s \<Longrightarrow> ps_failure_count s = 0 \<Longrightarrow> length ts < 2 ^ 32 \<Longrightarrow>
   \<exists>s'. peer_of mb' i = Some s' \<and> ps_failure_count s' = length ts \<and> ps_info s' = ps_info s
     \<and> ps_last_seen s' = ps_last_seen s \<and> mb_base_backoff mb' = mb_base_backoff mb
     \<and> (ts \<noteq> [] \<longrightarrow> ps_backoff_until s' = Some (last ts + backoff_for (mb_base_backoff mb) (length ts)))
     \<and> (\<forall>j. j \<noteq> i \<longrightarrow> peer_of mb' j = peer_of mb j)"
proof (induction ts arbitrary: mb' rule: rev_induct)
  case (snoc t ts)
  obtain mb1 where mb1: "failures ts i mb = Some mb1" "mark_failure t i mb1 = Some mb'"
    using snoc.prems(1) by (auto simp: failures_snoc bind_eq_Some_conv)
  obtain s1 where s1: "peer_of mb1 i = Some s1" "ps_failure_count s1 = length ts" "ps_info s1 = ps_info s"
    "ps_last_seen s1 = ps_last_seen s" "mb_base_backoff mb1 = mb_base_backoff mb"
    "\<forall>j. j \<noteq> i \<longrightarrow> peer_of mb1 j = peer_of mb j"
    using snoc.IH [OF mb1(1)] snoc.prems(2-4) by auto
  have "min (2 ^ 32 - 1) (length ts + 1) = length ts + 1" using snoc.prems(4) by simp
  then show ?case using mark_failure_of [OF mb1(2) s1(1)] s1 by auto
qed auto

text \<open>
  Failures back off exponentially. After a peer has been heard from and then failed \<open>n\<close> times in
  a row, it backs off for the base delay doubled \<open>n - 1\<close> times, at most 16 doublings and never past
  the longest duration, counted from the last failure; until then it is not eligible, from then on
  it is, and the other peers' records are as before.
\<close>

theorem backoff_doubles:
  assumes "membership_inv mb" and "pi_id info = i"
    and "failures ts i (snd (membership_upsert t0 info mb)) = Some mb'"
    and "ts \<noteq> []" and "length ts < 2 ^ 32" and "mb_base_backoff mb \<le> duration_max"
  shows "(is_backing_off now i mb' \<longleftrightarrow>
       now < last ts + min duration_max (mb_base_backoff mb * 2 ^ min (length ts - 1) 16))
    \<and> (info \<in> set (eligible_peers now mb') \<longleftrightarrow> \<not> is_backing_off now i mb')
    \<and> (\<forall>j. j \<noteq> i \<longrightarrow> peer_of mb' j = peer_of mb j)"
proof -
  let ?mb1 = "snd (membership_upsert t0 info mb)"
  let ?s = "\<lparr>ps_info = info, ps_last_seen = t0, ps_failure_count = 0, ps_backoff_until = None\<rparr>"
  have s: "peer_of ?mb1 i = Some ?s" using assms(2) by (simp add: upsert_peer_of)
  have base: "mb_base_backoff ?mb1 = mb_base_backoff mb" by (simp add: membership_upsert_def Let_def)
  obtain s' where s': "peer_of mb' i = Some s'" "ps_info s' = info"
    "ps_backoff_until s' = Some (last ts + backoff_for (mb_base_backoff mb) (length ts))"
    and others: "\<forall>j. j \<noteq> i \<longrightarrow> peer_of mb' j = peer_of ?mb1 j"
    using failures_of [OF assms(3) s _ assms(5)] assms(4) unfolding base by auto
  have delay: "is_backing_off now i mb' \<longleftrightarrow>
      now < last ts + min duration_max (mb_base_backoff mb * 2 ^ min (length ts - 1) 16)"
    using s' backoff_for_exp [OF assms(6)] by (simp add: is_backing_off_def peer_of_def [symmetric])
  have inv': "membership_inv mb'"
  proof -
    have "failures us i mb1 = Some mb2 \<Longrightarrow> membership_inv mb1 \<Longrightarrow> membership_inv mb2" for us mb1 mb2
    proof (induction us arbitrary: mb1)
      case (Cons u us)
      then obtain mb3 where "mark_failure u i mb1 = Some mb3" "failures us i mb3 = Some mb2"
        by (auto simp: bind_eq_Some_conv)
      moreover from this(1) have "membership_inv mb3"
        using Cons.prems(2) update_peer_inv [OF Cons.prems(2)]
        by (auto simp: mark_failure_def Let_def split: option.splits)
      ultimately show ?case using Cons.IH by blast
    qed simp
    then show ?thesis using assms(3) upsert_inv [OF assms(1)] by blast
  qed
  have "info \<in> set (eligible_peers now mb') \<longleftrightarrow> \<not> is_backing_off now i mb'"
  proof
    assume "info \<in> set (eligible_peers now mb')"
    then obtain j s2 where e: "(j, s2) \<in> set (mb_peers mb')" "ps_info s2 = info"
      "case ps_backoff_until s2 of None \<Rightarrow> True | Some b \<Rightarrow> b \<le> now"
      by (auto simp: eligible_peers_def)
    then have "j = i" using inv' assms(2) by (auto simp: membership_inv_def)
    then have "peer_of mb' i = Some s2" using e(1) inv' by (simp add: peer_of_def membership_inv_def)
    then show "\<not> is_backing_off now i mb'" using e(3) by (auto simp: is_backing_off_def peer_of_def split: option.splits)
  next
    assume n: "\<not> is_backing_off now i mb'"
    have "(i, s') \<in> set (mb_peers mb')" using s'(1) by (simp add: peer_of_def map_of_SomeD)
    then show "info \<in> set (eligible_peers now mb')"
      using n s' by (force simp: eligible_peers_def is_backing_off_def peer_of_def image_iff)
  qed
  then show ?thesis using delay others assms(2) by (simp add: upsert_peer_of)
qed

theorem backoff_doubles_witness:
  "case failures [7, 9] ''p'' one_peer of None \<Rightarrow> False
   | Some mb \<Rightarrow> is_backing_off 12 ''p'' mb \<and> \<not> is_backing_off 13 ''p'' mb"
proof -
  have inv: "membership_inv (membership_new 10 2)" by (simp add: membership_inv_def membership_new_def)
  obtain mb where mb: "failures [7, 9] ''p'' one_peer = Some mb"
    by (simp add: one_peer_def membership_upsert_def membership_new_def sample_peer_def mark_failure_def
        instant_add_def backoff_for_def saturating_mul_def duration_max_def update_peer_def Let_def)
  have base: "mb_base_backoff (membership_new 10 2) = 2" by (simp add: membership_new_def)
  have "is_backing_off now ''p'' mb \<longleftrightarrow> now < 13" for now
    using backoff_doubles [OF inv _ mb [unfolded one_peer_def], of now] base
    by (simp add: sample_peer_def duration_max_def)
  then show ?thesis using mb by simp
qed

end
