(* ===== verification/Nats_Table.thy ===== *)
theory Nats_Table
  imports Swarm_Peers
begin

text \<open>
  The tables of \<open>crates/dwbase-swarm-nats\<close>: presence with a time to live (\<open>src/lib.rs\<close>), world
  patterns, the subscription table with its file on disk, and the replay guard
  (\<open>src/replication.rs\<close>). A monotonic reading is a natural number of nanoseconds; a stored instant
  may lie before the first reading and is an integer. Tables behind an \<open>Arc\<close> are values here; who
  shares them is said where they are used. The file system and \<open>serde_json\<close> are parameters.
\<close>

section \<open>Clocks\<close>

text \<open>One reading of the monotonic clock, and the milliseconds of the system clock since the epoch.\<close>

record clock =
  ck_mono :: nat
  ck_wall :: nat

definition elapsed :: "clock \<Rightarrow> int \<Rightarrow> nat" where
  "elapsed c t = nat (int (ck_mono c) - t)"

definition now_ms :: "clock \<Rightarrow> nat" where
  "now_ms c = min u64_max (ck_wall c)"

text \<open>\<open>Instant - Duration\<close>: seconds are a signed 64-bit number.\<close>

definition instant_sub :: "nat \<Rightarrow> nat \<Rightarrow> int option" where
  "instant_sub t d = (if - (2 ^ 63) \<le> (int t - int d) div 1000000000 then Some (int t - int d) else None)"

section \<open>Presence\<close>

record node_hello =
  nh_node_id :: string
  nh_endpoint :: string
  nh_worlds_served :: "string list"
  nh_trust_score :: f32
  nh_started_at :: string
  nh_version :: string

text \<open>Presence is stamped with the wall clock, in nanoseconds, which may go back.\<close>

record presence =
  pr_hello :: node_hello
  pr_last_seen :: int
  pr_ttl :: nat

type_synonym peer_table = "presence list"

fun table_upsert :: "int \<Rightarrow> node_hello \<Rightarrow> nat \<Rightarrow> peer_table \<Rightarrow> peer_table" where
  "table_upsert now h ttl [] = [\<lparr>pr_hello = h, pr_last_seen = now, pr_ttl = ttl\<rparr>]"
| "table_upsert now h ttl (p # ps) =
     (if nh_node_id (pr_hello p) = nh_node_id h
      then p\<lparr>pr_hello := h, pr_last_seen := now, pr_ttl := ttl\<rparr> # ps
      else p # table_upsert now h ttl ps)"

definition table_prune :: "int \<Rightarrow> peer_table \<Rightarrow> peer_table" where
  "table_prune now t = filter (\<lambda>p. now - pr_last_seen p \<le> int (pr_ttl p)) t"

definition table_peers :: "int \<Rightarrow> peer_table \<Rightarrow> node_hello list \<times> peer_table" where
  "table_peers now t = (let t1 = table_prune now t in (map pr_hello t1, t1))"

text \<open>
  The in-memory presence bus and the presence loop. A handler upserts into one table with one time
  to live; tables are kept by address. The loop upserts the node itself, publishes on its own
  thread every half of the time to live (\<open>presence_beat\<close> is one round) and subscribes.
\<close>

record hello_net =
  hn_subs :: "(nat \<times> nat) list"
  hn_tables :: "nat \<Rightarrow> peer_table"

definition hello_deliver :: "int \<Rightarrow> node_hello \<Rightarrow> nat \<times> nat \<Rightarrow> hello_net \<Rightarrow> hello_net" where
  "hello_deliver now h s N =
     (case s of (addr, ttl) \<Rightarrow> N\<lparr>hn_tables := (hn_tables N)(addr := table_upsert now h ttl (hn_tables N addr))\<rparr>)"

definition publish_hello :: "int \<Rightarrow> node_hello \<Rightarrow> hello_net \<Rightarrow> (string, unit) result \<times> hello_net" where
  "publish_hello now h N = (Inr (), fold (hello_deliver now h) (hn_subs N) N)"

definition subscribe_hello :: "nat \<times> nat \<Rightarrow> hello_net \<Rightarrow> (string, unit) result \<times> hello_net" where
  "subscribe_hello s N = (Inr (), N\<lparr>hn_subs := hn_subs N @ [s]\<rparr>)"

definition presence_beat :: "int \<Rightarrow> node_hello \<Rightarrow> hello_net \<Rightarrow> hello_net" where
  "presence_beat now h N = snd (publish_hello now h N)"

definition start_presence_loop :: "int \<Rightarrow> node_hello \<Rightarrow> nat \<Rightarrow> nat \<Rightarrow> hello_net \<Rightarrow> nat \<times> hello_net" where
  "start_presence_loop now h addr ttl N =
     (let N1 = N\<lparr>hn_tables := (hn_tables N)(addr := table_upsert now h ttl (hn_tables N addr))\<rparr>
      in (ttl div 2, snd (subscribe_hello (addr, ttl) N1)))"

section \<open>World patterns\<close>

definition matches_world :: "string \<Rightarrow> string \<Rightarrow> bool" where
  "matches_world pattern world =
     (if pattern = ''*'' then True
      else case strip_suffix '':*'' pattern of
        Some stem \<Rightarrow> starts_with world stem
      | None \<Rightarrow>
          (case strip_suffix ''*'' pattern of
             Some stem \<Rightarrow> starts_with world stem
           | None \<Rightarrow> pattern = world))"

section \<open>Subscription table\<close>

record subscription_record =
  sr_patterns :: "string list"
  sr_last_seen :: int

record persisted_record =
  pe_patterns :: "string list"
  pe_last_seen_ms :: nat

type_synonym persisted_state = "(string \<times> persisted_record) list"

record 'd file_lib =
  fl_read :: "'d \<Rightarrow> string \<Rightarrow> (string, string) result"
  fl_parent :: "string \<Rightarrow> string option"
  fl_create_dir_all :: "string \<Rightarrow> 'd \<Rightarrow> (string, unit) result \<times> 'd"
  fl_write :: "string \<Rightarrow> string \<Rightarrow> 'd \<Rightarrow> (string, unit) result \<times> 'd"
  fl_state_enc :: "persisted_state \<Rightarrow> (string, string) result"
  fl_state_dec :: "string \<Rightarrow> (string, persisted_state) result"

record subscription_table =
  tt_records :: "(string \<times> subscription_record) list"
  tt_expiry :: nat
  tt_path :: "string option"

definition persisted_of :: "clock \<Rightarrow> subscription_record \<Rightarrow> persisted_record" where
  "persisted_of c r =
     \<lparr>pe_patterns = sr_patterns r,
      pe_last_seen_ms = now_ms c - min u64_max (elapsed c (sr_last_seen r) div 1000000)\<rparr>"

definition table_persist ::
  "'d file_lib \<Rightarrow> clock \<Rightarrow> subscription_table \<Rightarrow> 'd \<Rightarrow> (string, unit) result \<times> 'd" where
  "table_persist F c t d =
     (case tt_path t of
        None \<Rightarrow> (Inr (), d)
      | Some path \<Rightarrow>
          sbind (case fl_parent F path of None \<Rightarrow> (Inr (), d) | Some p \<Rightarrow> fl_create_dir_all F p d) (\<lambda>_ d.
          sbind (fl_state_enc F (map (\<lambda>(i, r). (i, persisted_of c r)) (tt_records t)), d) (\<lambda>bytes d.
          fl_write F path bytes d)))"

definition age_ns :: "clock \<Rightarrow> persisted_record \<Rightarrow> nat" where
  "age_ns c r = (now_ms c - pe_last_seen_ms r) * 1000000"

text \<open>An age is at most \<open>u64::MAX\<close> milliseconds, so subtracting it from an instant cannot panic.\<close>

fun load_records :: "clock \<Rightarrow> nat \<Rightarrow> persisted_state \<Rightarrow> (string \<times> subscription_record) list
    \<Rightarrow> (string \<times> subscription_record) list" where
  "load_records c expiry [] m = m"
| "load_records c expiry ((i, r) # xs) m =
     (if expiry < age_ns c r then load_records c expiry xs m
      else load_records c expiry xs
        (AList.update i \<lparr>sr_patterns = pe_patterns r, sr_last_seen = int (ck_mono c) - int (age_ns c r)\<rparr> m))"

definition load_from_disk ::
  "'d file_lib \<Rightarrow> clock \<Rightarrow> string option \<Rightarrow> nat \<Rightarrow> 'd \<Rightarrow> (string \<times> subscription_record) list" where
  "load_from_disk F c path expiry d =
     (case path of
        None \<Rightarrow> []
      | Some p \<Rightarrow>
          (case fl_read F d p of
             Inl _ \<Rightarrow> []
           | Inr bytes \<Rightarrow>
               (case fl_state_dec F bytes of
                  Inl _ \<Rightarrow> []
                | Inr state \<Rightarrow> load_records c expiry state [])))"

definition table_new :: "'d file_lib \<Rightarrow> clock \<Rightarrow> nat \<Rightarrow> string option \<Rightarrow> 'd \<Rightarrow> subscription_table" where
  "table_new F c expiry path d =
     \<lparr>tt_records = load_from_disk F c path expiry d, tt_expiry = expiry, tt_path = path\<rparr>"

definition sub_upsert ::
  "'d file_lib \<Rightarrow> clock \<Rightarrow> string \<Rightarrow> string list \<Rightarrow> subscription_table \<Rightarrow> 'd \<Rightarrow> subscription_table \<times> 'd" where
  "sub_upsert F c i patterns t d =
     (let t1 = t\<lparr>tt_records := AList.update i \<lparr>sr_patterns = patterns, sr_last_seen = int (ck_mono c)\<rparr> (tt_records t)\<rparr>
      in (t1, snd (table_persist F c t1 d)))"

definition fresh_record :: "clock \<Rightarrow> nat \<Rightarrow> subscription_record \<Rightarrow> bool" where
  "fresh_record c expiry r \<longleftrightarrow> elapsed c (sr_last_seen r) \<le> expiry"

definition sub_prune ::
  "'d file_lib \<Rightarrow> clock \<Rightarrow> subscription_table \<Rightarrow> 'd \<Rightarrow> subscription_table \<times> 'd" where
  "sub_prune F c t d =
     (let kept = filter (\<lambda>(i, r). fresh_record c (tt_expiry t) r) (tt_records t);
          t1 = t\<lparr>tt_records := kept\<rparr>
      in (t1, if kept = tt_records t then d else snd (table_persist F c t1 d)))"

definition nodes_subscribed_to_world ::
  "'d file_lib \<Rightarrow> clock \<Rightarrow> string \<Rightarrow> subscription_table \<Rightarrow> 'd \<Rightarrow> string list \<times> subscription_table \<times> 'd" where
  "nodes_subscribed_to_world F c world t d =
     (case sub_prune F c t d of
        (t1, d1) \<Rightarrow>
          (map fst (filter (\<lambda>(i, r). \<exists>p \<in> set (sr_patterns r). matches_world p world) (tt_records t1)), t1, d1))"

definition sub_snapshot ::
  "'d file_lib \<Rightarrow> clock \<Rightarrow> subscription_table \<Rightarrow> 'd \<Rightarrow> (string \<times> string list) list \<times> subscription_table \<times> 'd" where
  "sub_snapshot F c t d =
     (case sub_prune F c t d of (t1, d1) \<Rightarrow> (map (\<lambda>(i, r). (i, sr_patterns r)) (tt_records t1), t1, d1))"

section \<open>Replay guard\<close>

record replay_guard =
  rg_seen :: "string \<Rightarrow> (nat \<times> string) list"
  rg_window :: nat
  rg_max_entries :: nat

definition replay_new :: "nat \<Rightarrow> nat \<Rightarrow> replay_guard" where
  "replay_new window max_entries = \<lparr>rg_seen = (\<lambda>_. []), rg_window = window, rg_max_entries = max_entries\<rparr>"

fun drop_stale :: "nat \<Rightarrow> nat \<Rightarrow> nat \<Rightarrow> (nat \<times> string) list \<Rightarrow> (nat \<times> string) list" where
  "drop_stale now window max_entries [] = []"
| "drop_stale now window max_entries ((ts, cid) # xs) =
     (if window < now - ts \<or> max_entries < length ((ts, cid) # xs)
      then drop_stale now window max_entries xs else (ts, cid) # xs)"

text \<open>A peer without an entry is one with an empty deque: the code makes the entry on first use.\<close>

definition should_accept :: "nat \<Rightarrow> peer_id \<Rightarrow> string \<Rightarrow> replay_guard \<Rightarrow> bool \<times> replay_guard" where
  "should_accept now peer cid g =
     (let e = drop_stale now (rg_window g) (rg_max_entries g) (rg_seen g peer)
      in if cid \<in> snd ` set e then (False, g\<lparr>rg_seen := (rg_seen g)(peer := e)\<rparr>)
         else
           let e1 = e @ [(now, cid)];
               e2 = (if rg_max_entries g < length e1 then tl e1 else e1)
           in (True, g\<lparr>rg_seen := (rg_seen g)(peer := e2)\<rparr>))"

section \<open>Lemmas\<close>

text \<open>
  The pattern rule in closed form. A pattern ending in \<open>:*\<close> loses the colon too, so it also matches
  names that continue without one.
\<close>

lemma strip_suffix_None [str_simps]: "strip_suffix p s = None \<longleftrightarrow> \<not> ends_with s p"
proof (cases "strip_suffix p s")
  case None
  then have "s \<noteq> r @ p" for r using strip_suffix_Some [of p s r] by simp
  then show ?thesis using None by (simp add: ends_with_iff)
next
  case (Some r)
  then show ?thesis by (auto simp: strip_suffix_Some ends_with_iff)
qed

lemma matches_world_iff [str_simps]:
  "matches_world pattern world \<longleftrightarrow>
     (\<exists>s. pattern = s @ '':*'' \<and> starts_with world s)
   \<or> (\<not> ends_with pattern '':*'' \<and> (\<exists>s. pattern = s @ ''*'' \<and> starts_with world s))
   \<or> (\<not> ends_with pattern ''*'' \<and> pattern = world)"
proof -
  note a = strip_suffix_None [of "'':*''" pattern] and b = strip_suffix_None [of "''*''" pattern]
  show ?thesis
  proof (cases "ends_with pattern '':*''")
    case True
    then obtain s where s: "pattern = s @ '':*''" by (auto simp: ends_with_iff)
    then have "strip_suffix '':*'' pattern = Some s" by (simp add: strip_suffix_Some)
    then show ?thesis using s True by (auto simp: matches_world_def ends_with_iff)
  next
    case False
    then have n: "strip_suffix '':*'' pattern = None" by (simp add: a)
    show ?thesis
    proof (cases "strip_suffix ''*'' pattern")
      case None
      then show ?thesis using n a b by (auto simp: matches_world_def ends_with_iff)
    next
      case (Some s)
      then have s: "pattern = s @ ''*''" by (simp add: strip_suffix_Some)
      then show ?thesis using n False Some by (auto simp: matches_world_def ends_with_iff starts_with_iff)
    qed
  qed
qed

lemma colon_pattern_matches_sibling: "matches_world (t @ '':*'') (t @ x)"
  by (auto simp: matches_world_iff)

lemma load_records_of:
  "distinct (map fst xs) \<Longrightarrow>
   map_of (load_records c expiry xs m) i =
     (case map_of xs i of
        None \<Rightarrow> map_of m i
      | Some r \<Rightarrow>
          if expiry < age_ns c r then map_of m i
          else Some \<lparr>sr_patterns = pe_patterns r, sr_last_seen = int (ck_mono c) - int (age_ns c r)\<rparr>)"
proof (induction c expiry xs m rule: load_records.induct)
  case (2 c expiry j r xs m)
  then have "map_of xs j = None" by (simp add: map_of_eq_None_iff)
  then show ?case using 2 by (auto simp: update_conv' split: option.splits)
qed simp

text \<open>What a record is after a restart: its age is the age it had when written plus the time since.\<close>

definition restored_age :: "clock \<Rightarrow> clock \<Rightarrow> subscription_record \<Rightarrow> nat" where
  "restored_age c c' r = (elapsed c (sr_last_seen r) div 1000000 + (ck_wall c' - ck_wall c)) * 1000000"

text \<open>
  C28: Subscriptions survive a restart. When the table has been written to its file and a new process
  loads it, each subscriber comes back with its patterns and an age equal to its age in whole
  milliseconds when written plus the wall-clock time since, and exactly the subscribers whose age
  exceeds the expiry are left out. The monotonic clocks of the two processes need not agree.
\<close>

theorem subscriptions_survive_restart:
  assumes written: "\<And>b e e'. fl_write F path b e = (Inr (), e') \<Longrightarrow> fl_read F e' path = Inr b"
    and codec: "\<And>s b. fl_state_enc F s = Inr b \<Longrightarrow> fl_state_dec F b = Inr s"
    and path: "tt_path t = Some path" and dist: "distinct (map fst (tt_records t))"
    and ok: "table_persist F c t d = (Inr (), d')"
    and clocks: "ck_wall c \<le> ck_wall c'" "ck_wall c' \<le> u64_max"
    and epoch: "\<forall>r \<in> snd ` set (tt_records t). elapsed c (sr_last_seen r) div 1000000 \<le> ck_wall c"
  shows "map_of (tt_records (table_new F c' (tt_expiry t) (Some path) d')) i =
    (case map_of (tt_records t) i of
       None \<Rightarrow> None
     | Some r \<Rightarrow>
         if tt_expiry t < restored_age c c' r then None
         else Some \<lparr>sr_patterns = sr_patterns r, sr_last_seen = int (ck_mono c') - int (restored_age c c' r)\<rparr>)"
proof -
  let ?s = "map (\<lambda>(i, r). (i, persisted_of c r)) (tt_records t)"
  obtain b d1 where b: "fl_state_enc F ?s = Inr b" "fl_write F path b d1 = (Inr (), d')"
  proof -
    obtain r1 d1 where r1: "(case fl_parent F path of None \<Rightarrow> (Inr (), d) | Some p \<Rightarrow> fl_create_dir_all F p d) = (r1, d1)"
      by fastforce
    show thesis
      using ok that [of _ d1] path r1 unfolding table_persist_def
      by (cases r1; cases "fl_state_enc F ?s") auto
  qed
  have "tt_records (table_new F c' (tt_expiry t) (Some path) d') = load_records c' (tt_expiry t) ?s []"
    using written [OF b(2)] codec [OF b(1)] by (simp add: table_new_def load_from_disk_def)
  moreover have "distinct (map fst ?s)" using dist by (simp add: case_prod_unfold comp_def)
  moreover have "map_of ?s i = map_option (persisted_of c) (map_of (tt_records t) i)"
    by (induction "tt_records t" arbitrary: t) (simp, simp add: map_of_map [unfolded case_prod_unfold] case_prod_unfold)
  moreover have "age_ns c' (persisted_of c r) = restored_age c c' r" if "map_of (tt_records t) i = Some r" for r
  proof -
    have "r \<in> snd ` set (tt_records t)" using map_of_SomeD [OF that] by force
    then have le: "elapsed c (sr_last_seen r) div 1000000 \<le> ck_wall c" using epoch by blast
    show ?thesis using le clocks
      by (simp add: age_ns_def persisted_of_def restored_age_def now_ms_def)
  qed
  ultimately show ?thesis
    by (simp add: load_records_of persisted_of_def split: option.split)
qed

text \<open>A disk that holds one file, and an encoder that knows one table.\<close>

definition toy_state :: persisted_state where
  "toy_state = [(''b'', \<lparr>pe_patterns = [''w:*''], pe_last_seen_ms = 997\<rparr>)]"

definition toy_files :: "string file_lib" where
  "toy_files = \<lparr>fl_read = (\<lambda>d _. Inr d), fl_parent = (\<lambda>_. None), fl_create_dir_all = (\<lambda>_ d. (Inr (), d)),
     fl_write = (\<lambda>_ b _. (Inr (), b)),
     fl_state_enc = (\<lambda>s. if s = toy_state then Inr ''state'' else Inl ''unsupported''),
     fl_state_dec = (\<lambda>b. if b = ''state'' then Inr toy_state else Inl ''bad'')\<rparr>"

definition toy_table :: subscription_table where
  "toy_table = \<lparr>tt_records = [(''b'', \<lparr>sr_patterns = [''w:*''], sr_last_seen = 2000000\<rparr>)],
     tt_expiry = 9000000, tt_path = Some ''f''\<rparr>"

theorem subscriptions_survive_restart_witness:
  "map_of (tt_records (table_new toy_files \<lparr>ck_mono = 0, ck_wall = 1006\<rparr> 9000000 (Some ''f'') ''state'')) ''b''
     = Some \<lparr>sr_patterns = [''w:*''], sr_last_seen = - 9000000\<rparr>
   \<and> map_of (tt_records (table_new toy_files \<lparr>ck_mono = 0, ck_wall = 1007\<rparr> 9000000 (Some ''f'') ''state'')) ''b'' = None"
proof -
  let ?c = "\<lparr>ck_mono = 5700000, ck_wall = 1000\<rparr>"
  have "table_persist toy_files ?c toy_table '''' = (Inr (), ''state'')"
    by (simp add: table_persist_def toy_files_def toy_table_def toy_state_def persisted_of_def now_ms_def
        elapsed_def u64_max_def)
  moreover have "fl_write toy_files ''f'' b e = (Inr (), e') \<Longrightarrow> fl_read toy_files e' ''f'' = Inr b" for b e e'
    by (simp add: toy_files_def)
  moreover have "fl_state_enc toy_files s = Inr b \<Longrightarrow> fl_state_dec toy_files b = Inr s" for s b
    by (auto simp: toy_files_def split: if_splits)
  ultimately have "map_of (tt_records (table_new toy_files c' 9000000 (Some ''f'') ''state'')) ''b'' =
      (if 9000000 < restored_age ?c c' \<lparr>sr_patterns = [''w:*''], sr_last_seen = 2000000\<rparr> then None
       else Some \<lparr>sr_patterns = [''w:*''], sr_last_seen =
         int (ck_mono c') - int (restored_age ?c c' \<lparr>sr_patterns = [''w:*''], sr_last_seen = 2000000\<rparr>)\<rparr>)"
    if "1000 \<le> ck_wall c'" "ck_wall c' \<le> u64_max" for c'
    using subscriptions_survive_restart [of toy_files "''f''" toy_table ?c "''''" "''state''" c' "''b''"] that
    by (simp add: toy_table_def elapsed_def)
  then show ?thesis by (simp add: restored_age_def elapsed_def u64_max_def)
qed

section \<open>The replay guard accepts an id once per window\<close>

text \<open>A run of calls and, per peer, the accepted ids with their times, oldest first.\<close>

type_synonym replay_call = "nat \<times> peer_id \<times> string"

fun replay_run :: "replay_call list \<Rightarrow> replay_guard \<Rightarrow> replay_guard" where
  "replay_run [] g = g"
| "replay_run ((t, p, cid) # cs) g = replay_run cs (snd (should_accept t p cid g))"

fun accepted_ids :: "peer_id \<Rightarrow> replay_call list \<Rightarrow> replay_guard \<Rightarrow> (nat \<times> string) list" where
  "accepted_ids p [] g = []"
| "accepted_ids p ((t, q, cid) # cs) g =
     (case should_accept t q cid g of
        (ok, g') \<Rightarrow> (if ok \<and> q = p then [(t, cid)] else []) @ accepted_ids p cs g')"

lemma replay_run_snoc: "replay_run (cs @ [(t, p, cid)]) g = snd (should_accept t p cid (replay_run cs g))"
  by (induction cs g rule: replay_run.induct) auto

lemma accepted_ids_snoc:
  "accepted_ids p (cs @ [(t, q, cid)]) g =
     accepted_ids p cs g @ (if q = p \<and> fst (should_accept t q cid (replay_run cs g)) then [(t, cid)] else [])"
  by (induction p cs g rule: accepted_ids.induct) (auto split: prod.splits)

definition last_n :: "nat \<Rightarrow> 'a list \<Rightarrow> 'a list" where
  "last_n n xs = drop (length xs - n) xs"

lemma last_n_snoc:
  "last_n n (xs @ [x]) = (if length xs < n then last_n n xs @ [x] else if n = 0 then [] else tl (last_n n xs) @ [x])"
  by (auto simp: last_n_def tl_drop [symmetric] drop_Suc Suc_diff_le)

definition stale :: "nat \<Rightarrow> nat \<Rightarrow> nat \<times> string \<Rightarrow> bool" where
  "stale window now e \<longleftrightarrow> window < now - fst e"

lemma drop_stale_eq: "length xs \<le> m \<Longrightarrow> drop_stale now w m xs = dropWhile (stale w now) xs"
  by (induction xs) (auto simp: stale_def)

text \<open>The deque of a peer is what is left of its last accepted ids when stale ones are dropped in front.\<close>

definition deque_of :: "nat \<Rightarrow> nat \<Rightarrow> nat \<Rightarrow> (nat \<times> string) list \<Rightarrow> (nat \<times> string) list \<Rightarrow> bool" where
  "deque_of w m now A d \<longleftrightarrow> (\<exists>n. d = drop n (last_n m A) \<and> (\<forall>e \<in> set (take n (last_n m A)). stale w now e))"

lemma deque_of_mono: "deque_of w m now A d \<Longrightarrow> now \<le> t \<Longrightarrow> deque_of w m t A d"
  by (force simp: deque_of_def stale_def)

lemma deque_of_drop:
  assumes "deque_of w m t A d" and "sorted (map fst A)" and "\<forall>e \<in> set A. fst e \<le> t"
  shows "deque_of w m t A (drop_stale t w m d) \<and>
    set (drop_stale t w m d) = {e \<in> set (last_n m A). \<not> stale w t e}"
proof -
  let ?L = "last_n m A"
  obtain n where n: "d = drop n ?L" "\<forall>e \<in> set (take n ?L). stale w t e"
    using assms(1) by (auto simp: deque_of_def)
  have len: "length d \<le> m" by (simp add: n(1) last_n_def)
  have dw: "drop_stale t w m d = dropWhile (stale w t) ?L"
  proof -
    have "dropWhile (stale w t) (take n ?L @ drop n ?L) = dropWhile (stale w t) (drop n ?L)"
      by (rule dropWhile_append2) (use n(2) in blast)
    then show ?thesis using drop_stale_eq [OF len, of t w] n(1) by simp
  qed
  have srt: "sorted (map fst ?L)" using assms(2) by (simp add: last_n_def drop_map [symmetric] sorted_wrt_drop)
  have "set (dropWhile (stale w t) xs) = {e \<in> set xs. \<not> stale w t e}" if "sorted (map fst xs)" for xs
    using that by (induction xs) (auto simp: stale_def)
  moreover have "deque_of w m t A (dropWhile (stale w t) ?L)"
    unfolding deque_of_def
    by (intro exI [of _ "length (takeWhile (stale w t) ?L)"])
      (metis dropWhile_eq_drop set_takeWhileD takeWhile_eq_take)
  ultimately show ?thesis using srt by (simp add: dw)
qed

lemma should_accept_deque:
  assumes "deque_of (rg_window g) (rg_max_entries g) t A (rg_seen g p)"
    and "sorted (map fst A)" and "\<forall>e \<in> set A. fst e \<le> t"
  shows "(fst (should_accept t p cid g) \<longleftrightarrow>
      cid \<notin> snd ` {e \<in> set (last_n (rg_max_entries g) A). \<not> stale (rg_window g) t e})
    \<and> deque_of (rg_window g) (rg_max_entries g) t
        (A @ (if fst (should_accept t p cid g) then [(t, cid)] else [])) (rg_seen (snd (should_accept t p cid g)) p)"
proof -
  let ?w = "rg_window g" and ?m = "rg_max_entries g"
  let ?e = "drop_stale t ?w ?m (rg_seen g p)"
  have e: "deque_of ?w ?m t A ?e" "set ?e = {e \<in> set (last_n ?m A). \<not> stale ?w t e}"
    using deque_of_drop [OF assms] by auto
  have "deque_of ?w ?m t (A @ [(t, cid)])
      (if ?m < length (?e @ [(t, cid)]) then tl (?e @ [(t, cid)]) else ?e @ [(t, cid)])"
  proof -
    obtain n where n: "?e = drop n (last_n ?m A)" "n \<le> length (last_n ?m A)"
      "\<forall>e \<in> set (take n (last_n ?m A)). stale ?w t e"
    proof -
      obtain k where "?e = drop k (last_n ?m A)" "\<forall>e \<in> set (take k (last_n ?m A)). stale ?w t e"
        using e(1) by (auto simp: deque_of_def)
      then show thesis using that [of "min k (length (last_n ?m A))"] by (simp add: min_def)
    qed
    have len: "length (last_n ?m A) = min ?m (length A)" by (simp add: last_n_def)
    show ?thesis
    proof (cases "length A < ?m")
      case True
      then have "last_n ?m (A @ [(t, cid)]) = last_n ?m A @ [(t, cid)]" by (simp add: last_n_snoc)
      moreover have "\<not> ?m < length (?e @ [(t, cid)])" using True n(1) len by simp
      ultimately show ?thesis using n by (auto simp: deque_of_def intro!: exI [of _ n])
    next
      case False
      then have len': "length (last_n ?m A) = ?m" using len by simp
      show ?thesis
      proof (cases n)
        case 0
        then have "?e = last_n ?m A" using n(1) by simp
        then have "tl (?e @ [(t, cid)]) = last_n ?m (A @ [(t, cid)])"
          using False len' by (cases "last_n ?m A") (auto simp: last_n_snoc)
        then show ?thesis using \<open>?e = last_n ?m A\<close> len' by (simp add: deque_of_def exI [of _ 0])
      next
        case (Suc k)
        then have m0: "?m \<noteq> 0" using n(2) len' by simp
        then have L: "last_n ?m (A @ [(t, cid)]) = tl (last_n ?m A) @ [(t, cid)]" using False by (simp add: last_n_snoc)
        have "set (take k (tl (last_n ?m A))) \<subseteq> set (take n (last_n ?m A))"
          using Suc by (cases "last_n ?m A") auto
        moreover have "?e @ [(t, cid)] = drop k (tl (last_n ?m A) @ [(t, cid)])"
          using n(1,2) Suc by (simp add: drop_Suc)
        moreover have "\<not> ?m < length (?e @ [(t, cid)])" using n(1,2) Suc len' m0 by simp
        moreover have "take k (tl (last_n ?m A) @ [(t, cid)]) = take k (tl (last_n ?m A))"
          using n(2) Suc by simp
        ultimately show ?thesis using n(3) L by (auto simp: deque_of_def intro!: exI [of _ k])
      qed
    qed
  qed
  then show ?thesis using e by (simp add: should_accept_def Let_def)
qed

lemma should_accept_frame:
  "rg_window (snd (should_accept t p cid g)) = rg_window g
   \<and> rg_max_entries (snd (should_accept t p cid g)) = rg_max_entries g
   \<and> (q \<noteq> p \<longrightarrow> rg_seen (snd (should_accept t p cid g)) q = rg_seen g q)"
  by (simp add: should_accept_def Let_def)

lemma accepted_ids_times: "fst ` set (accepted_ids p cs g) \<subseteq> fst ` set cs"
  by (induction p cs g rule: accepted_ids.induct) (auto split: prod.splits if_splits)

lemma accepted_ids_between:
  "\<forall>c \<in> set cs. fst c \<le> t \<Longrightarrow> e \<in> set (accepted_ids p cs g) \<Longrightarrow> fst e \<le> t"
  "\<forall>c \<in> set cs. t \<le> fst c \<Longrightarrow> e \<in> set (accepted_ids p cs g) \<Longrightarrow> t \<le> fst e"
  using accepted_ids_times [of p cs g] by (metis image_eqI imageE subsetD)+

lemma accepted_ids_sorted: "sorted (map fst cs) \<Longrightarrow> sorted (map fst (accepted_ids p cs g))"
proof (induction p cs g rule: accepted_ids.induct)
  case (2 p t q cid cs g)
  then show ?case
    using accepted_ids_between(2) [of cs t _ p "snd (should_accept t q cid g)"]
    by (auto split: prod.splits)
qed simp

lemma replay_run_deque:
  "sorted (map fst cs) \<Longrightarrow> \<forall>c \<in> set cs. fst c \<le> now \<Longrightarrow>
   rg_window (replay_run cs (replay_new w m)) = w \<and> rg_max_entries (replay_run cs (replay_new w m)) = m
   \<and> deque_of w m now (accepted_ids p cs (replay_new w m)) (rg_seen (replay_run cs (replay_new w m)) p)"
proof (induction cs arbitrary: now rule: rev_induct)
  case Nil
  then show ?case by (simp add: replay_new_def deque_of_def last_n_def)
next
  case (snoc c cs)
  obtain t q cid where c: "c = (t, q, cid)" by (cases c)
  let ?g = "replay_run cs (replay_new w m)" and ?A = "accepted_ids p cs (replay_new w m)"
  have srt: "sorted (map fst cs)" and le: "\<forall>c \<in> set cs. fst c \<le> t" and now: "t \<le> now"
    using snoc.prems c by (auto simp: sorted_append)
  note IH = snoc.IH [OF srt le]
  have A: "sorted (map fst ?A)" "\<forall>e \<in> set ?A. fst e \<le> t"
    using accepted_ids_sorted [OF srt] accepted_ids_between(1) [OF le] by blast+
  show ?case
  proof (cases "q = p")
    case True
    have "deque_of (rg_window ?g) (rg_max_entries ?g) t ?A (rg_seen ?g p)" using IH by simp
    from should_accept_deque [OF this A, of cid] IH should_accept_frame [of t q cid ?g] True
    show ?thesis
      by (simp add: c replay_run_snoc accepted_ids_snoc deque_of_mono [OF _ now] split: if_splits)
  next
    case False
    then have p: "rg_seen (snd (should_accept t q cid ?g)) p = rg_seen ?g p"
      using should_accept_frame [of t q cid ?g p] by simp
    show ?thesis
      using IH should_accept_frame [of t q cid ?g] deque_of_mono [OF _ now] False
      by (simp add: c replay_run_snoc accepted_ids_snoc p)
  qed
qed

text \<open>
  C29: The replay guard accepts an id once per window. After any run of calls at times that do not go
  back, a message is accepted exactly if its correlation id is not among the peer's last
  \<open>max_entries\<close> accepted ids that are at most one window old; ids of other peers do not matter.
\<close>

theorem replay_once_per_window:
  assumes "sorted (map fst (cs @ [(t, p, cid)]))"
  shows "fst (should_accept t p cid (replay_run cs (replay_new w m))) \<longleftrightarrow>
    \<not> (\<exists>e \<in> set (last_n m (accepted_ids p cs (replay_new w m))). snd e = cid \<and> t - fst e \<le> w)"
proof -
  let ?A = "accepted_ids p cs (replay_new w m)"
  have srt: "sorted (map fst cs)" and le: "\<forall>c \<in> set cs. fst c \<le> t"
    using assms by (auto simp: sorted_append)
  have A: "sorted (map fst ?A)" "\<forall>e \<in> set ?A. fst e \<le> t"
    using accepted_ids_sorted [OF srt] accepted_ids_between(1) [OF le] by blast+
  note g = replay_run_deque [OF srt le, of w m p]
  then have "deque_of (rg_window (replay_run cs (replay_new w m))) (rg_max_entries (replay_run cs (replay_new w m))) t
      ?A (rg_seen (replay_run cs (replay_new w m)) p)" by simp
  from should_accept_deque [OF this A, of cid] g show ?thesis
    by (auto simp: stale_def not_less)
qed

theorem replay_once_per_window_witness:
  "fst (should_accept 9 ''p'' ''x'' (replay_run [(3, ''p'', ''x''), (4, ''p'', ''y'')] (replay_new 5 2)))
   \<and> \<not> fst (should_accept 8 ''p'' ''x'' (replay_run [(3, ''p'', ''x''), (4, ''p'', ''y'')] (replay_new 5 2)))
   \<and> fst (should_accept 8 ''p'' ''x'' (replay_run [(3, ''p'', ''x''), (4, ''p'', ''y'')] (replay_new 5 1)))"
  using replay_once_per_window [of "[(3, ''p'', ''x''), (4, ''p'', ''y'')]" 9 "''p''" "''x''" 5 2]
    replay_once_per_window [of "[(3, ''p'', ''x''), (4, ''p'', ''y'')]" 8 "''p''" "''x''" 5 2]
    replay_once_per_window [of "[(3, ''p'', ''x''), (4, ''p'', ''y'')]" 8 "''p''" "''x''" 5 1]
  by (simp add: should_accept_def replay_new_def last_n_def)

end
