(* ===== verification/Nats_Bus.thy ===== *)
theory Nats_Bus
  imports Nats_Table Gatekeeper
begin

text \<open>
  \<open>crates/dwbase-swarm-nats/src/swarm.rs\<close>: swarm messages and envelopes, the bus trait with its
  in-memory implementation, and the transport of a node. A subscriber's closure is a \<open>handler\<close>
  naming what it captured; the queues and tables that closures share with their owners through an
  \<open>Arc\<close> live at addresses of one \<open>swarm_net\<close>. \<open>rmp_serde\<close>, \<open>hex\<close> and the random generator are the
  functions of \<open>nats_lib\<close>; the generator's \<open>n\<close>-th draw of \<open>k\<close> bytes is \<open>nl_rng n k\<close>.
\<close>

section \<open>Messages\<close>

datatype swarm_message =
    SwPing "64 word"
  | SwSubscriptionIntent "string list"
  | SwSummaryAdvert summary_advert
  | SwBloomOffer bloom_offer
  | SwMissingRequest missing_request
  | SwAtomBatch atom_batch

record swarm_envelope =
  se_kind :: string
  se_from :: string
  se_to :: "string option"
  se_correlation_id :: string
  se_reply_to :: "string option"
  se_payload :: string
  se_sent_at_ms :: nat

record nats_lib =
  nl_hex :: "string \<Rightarrow> string"
  nl_rng :: "nat \<Rightarrow> nat \<Rightarrow> string"
  nl_msg_enc :: "swarm_message \<Rightarrow> (string, string) result"
  nl_msg_dec :: "string \<Rightarrow> (string, swarm_message) result"
  nl_env_enc :: "swarm_envelope \<Rightarrow> (string, string) result"
  nl_env_dec :: "string \<Rightarrow> (string, swarm_envelope) result"

section \<open>The shared state and the bus\<close>

text \<open>
  \<open>InboxHandler\<close> pushes envelopes to a transport's queue, \<open>ReplyHandler\<close> to the queue of a pending
  request, \<open>IntentHandler self t\<close> files the subscription intents of others in table \<open>t\<close>.
\<close>

datatype handler = InboxHandler nat | ReplyHandler nat | IntentHandler peer_id nat

record ('b, 'd) swarm_net =
  sw_bus :: 'b
  sw_rx :: "nat \<Rightarrow> (string \<times> swarm_envelope) list"
  sw_replies :: "nat \<Rightarrow> swarm_envelope list"
  sw_tables :: "nat \<Rightarrow> subscription_table"
  sw_disk :: 'd
  sw_next :: nat
  sw_draws :: nat

record ('b, 'd) swarm_bus =
  sb_publish :: "clock \<Rightarrow> string \<Rightarrow> string option \<Rightarrow> string \<Rightarrow> ('b, 'd) swarm_net
    \<Rightarrow> (string, unit) result \<times> ('b, 'd) swarm_net"
  sb_subscribe :: "string \<Rightarrow> handler \<Rightarrow> ('b, 'd) swarm_net \<Rightarrow> (string, unit) result \<times> ('b, 'd) swarm_net"

definition SUBJECT_BROADCAST :: string where
  "SUBJECT_BROADCAST = ''dwbase.swarm.broadcast''"

definition inbox_subject :: "string \<Rightarrow> string" where
  "inbox_subject node_id = ''dwbase.swarm.'' @ node_id @ ''.inbox''"

definition reply_subject :: "string \<Rightarrow> string \<Rightarrow> string" where
  "reply_subject self rid = ''dwbase.swarm.reply.'' @ self @ ''.'' @ rid"

definition draw :: "nats_lib \<Rightarrow> nat \<Rightarrow> ('b, 'd) swarm_net \<Rightarrow> string \<times> ('b, 'd) swarm_net" where
  "draw NL k net = (nl_hex NL (nl_rng NL (sw_draws net) k), net\<lparr>sw_draws := Suc (sw_draws net)\<rparr>)"

definition new_correlation_id :: "nats_lib \<Rightarrow> ('b, 'd) swarm_net \<Rightarrow> string \<times> ('b, 'd) swarm_net" where
  "new_correlation_id NL net = draw NL 16 net"

fun message_kind :: "swarm_message \<Rightarrow> string" where
  "message_kind (SwPing _) = ''Ping''"
| "message_kind (SwSubscriptionIntent _) = ''SubscriptionIntent''"
| "message_kind (SwSummaryAdvert _) = ''SummaryAdvert''"
| "message_kind (SwBloomOffer _) = ''BloomOffer''"
| "message_kind (SwMissingRequest _) = ''MissingRequest''"
| "message_kind (SwAtomBatch _) = ''AtomBatch''"

text \<open>Milliseconds \<open>as u64\<close> wrap around.\<close>

definition swarm_envelope_new ::
  "nats_lib \<Rightarrow> clock \<Rightarrow> peer_id \<Rightarrow> peer_id option \<Rightarrow> swarm_message \<Rightarrow> string option
   \<Rightarrow> ('b, 'd) swarm_net \<Rightarrow> (string, swarm_envelope) result \<times> ('b, 'd) swarm_net" where
  "swarm_envelope_new NL c from to msg reply_to net =
     (case nl_msg_enc NL msg of
        Inl _ \<Rightarrow> (Inl ''encode swarm message'', net)
      | Inr payload \<Rightarrow>
          (case new_correlation_id NL net of
             (cid, net1) \<Rightarrow>
               (Inr \<lparr>se_kind = message_kind msg, se_from = from, se_to = to, se_correlation_id = cid,
                  se_reply_to = reply_to, se_payload = payload, se_sent_at_ms = ck_wall c mod 2 ^ 64\<rparr>, net1)))"

definition decode_message :: "nats_lib \<Rightarrow> swarm_envelope \<Rightarrow> (string, swarm_message) result" where
  "decode_message NL e = rmap_err (\<lambda>_. ''decode swarm message'') (nl_msg_dec NL (se_payload e))"

text \<open>What the closures do; a message that does not decode is ignored.\<close>

definition push_inbox :: "nats_lib \<Rightarrow> nat \<Rightarrow> string \<Rightarrow> string option \<Rightarrow> ('b, 'd) swarm_net \<Rightarrow> ('b, 'd) swarm_net" where
  "push_inbox NL a bytes reply_to net =
     (case nl_env_dec NL bytes of
        Inl _ \<Rightarrow> net
      | Inr env \<Rightarrow>
          net\<lparr>sw_rx := (sw_rx net)(a := sw_rx net a @ [(case reply_to of None \<Rightarrow> [] | Some r \<Rightarrow> r, env)])\<rparr>)"

definition push_reply :: "nats_lib \<Rightarrow> nat \<Rightarrow> string \<Rightarrow> ('b, 'd) swarm_net \<Rightarrow> ('b, 'd) swarm_net" where
  "push_reply NL a bytes net =
     (case nl_env_dec NL bytes of
        Inl _ \<Rightarrow> net
      | Inr env \<Rightarrow> net\<lparr>sw_replies := (sw_replies net)(a := sw_replies net a @ [env])\<rparr>)"

definition file_intent ::
  "nats_lib \<Rightarrow> 'd file_lib \<Rightarrow> clock \<Rightarrow> peer_id \<Rightarrow> nat \<Rightarrow> string \<Rightarrow> ('b, 'd) swarm_net \<Rightarrow> ('b, 'd) swarm_net" where
  "file_intent NL F c self a bytes net =
     (case nl_env_dec NL bytes of
        Inl _ \<Rightarrow> net
      | Inr env \<Rightarrow>
          if se_from env = self then net
          else case decode_message NL env of
            Inr (SwSubscriptionIntent patterns) \<Rightarrow>
              (case sub_upsert F c (se_from env) patterns (sw_tables net a) (sw_disk net) of
                 (t, d) \<Rightarrow> net\<lparr>sw_tables := (sw_tables net)(a := t), sw_disk := d\<rparr>)
          | _ \<Rightarrow> net)"

fun run_handler ::
  "nats_lib \<Rightarrow> 'd file_lib \<Rightarrow> clock \<Rightarrow> string \<Rightarrow> string option \<Rightarrow> handler \<Rightarrow> ('b, 'd) swarm_net \<Rightarrow> ('b, 'd) swarm_net" where
  "run_handler NL F c bytes reply_to (InboxHandler a) net = push_inbox NL a bytes reply_to net"
| "run_handler NL F c bytes reply_to (ReplyHandler a) net = push_reply NL a bytes net"
| "run_handler NL F c bytes reply_to (IntentHandler self a) net = file_intent NL F c self a bytes net"

text \<open>The in-memory bus runs the handlers of a subject in the order they subscribed.\<close>

type_synonym mock_subs = "string \<Rightarrow> handler list"

definition mock_publish ::
  "nats_lib \<Rightarrow> 'd file_lib \<Rightarrow> clock \<Rightarrow> string \<Rightarrow> string option \<Rightarrow> string \<Rightarrow> (mock_subs, 'd) swarm_net
   \<Rightarrow> (string, unit) result \<times> (mock_subs, 'd) swarm_net" where
  "mock_publish NL F c subject reply_to bytes net =
     (Inr (), fold (run_handler NL F c bytes reply_to) (sw_bus net subject) net)"

definition mock_subscribe ::
  "string \<Rightarrow> handler \<Rightarrow> (mock_subs, 'd) swarm_net \<Rightarrow> (string, unit) result \<times> (mock_subs, 'd) swarm_net" where
  "mock_subscribe subject h net =
     (Inr (), net\<lparr>sw_bus := (sw_bus net)(subject := sw_bus net subject @ [h])\<rparr>)"

definition mock_bus :: "nats_lib \<Rightarrow> 'd file_lib \<Rightarrow> (mock_subs, 'd) swarm_bus" where
  "mock_bus NL F = \<lparr>sb_publish = mock_publish NL F, sb_subscribe = mock_subscribe\<rparr>"

section \<open>Transport\<close>

text \<open>The rate limiter is a bucket of its own with the gatekeeper's arithmetic.\<close>

definition per_second :: "f64 \<Rightarrow> clock \<Rightarrow> token_bucket" where
  "per_second rate c = bucket_new rate (ck_mono c)"

definition limiter_allow :: "clock \<Rightarrow> token_bucket \<Rightarrow> bool \<times> token_bucket" where
  "limiter_allow c b = bucket_allow (ck_mono c) b"

record nats_transport =
  tr_self :: peer_id
  tr_limiter :: token_bucket
  tr_backoff_until :: "nat option"
  tr_rx :: nat

definition transport_new ::
  "('b, 'd) swarm_bus \<Rightarrow> clock \<Rightarrow> peer_id \<Rightarrow> f64 \<Rightarrow> ('b, 'd) swarm_net
   \<Rightarrow> (string, nats_transport) result \<times> ('b, 'd) swarm_net" where
  "transport_new B c self msgs_per_sec net =
     (let a = sw_next net; net1 = net\<lparr>sw_rx := (sw_rx net)(a := []), sw_next := Suc a\<rparr>
      in sbind (sb_subscribe B (inbox_subject self) (InboxHandler a) net1) (\<lambda>_ net2.
         (Inr \<lparr>tr_self = self, tr_limiter = per_second msgs_per_sec c, tr_backoff_until = None, tr_rx = a\<rparr>, net2)))"

definition transport_backing_off :: "clock \<Rightarrow> nats_transport \<Rightarrow> bool" where
  "transport_backing_off c T = (case tr_backoff_until T of None \<Rightarrow> False | Some u \<Rightarrow> ck_mono c < u)"

definition transport_mark_failure :: "clock \<Rightarrow> nats_transport \<Rightarrow> nats_transport" where
  "transport_mark_failure c T = T\<lparr>tr_backoff_until := Some (ck_mono c + 200 * 1000000)\<rparr>"

definition send_direct ::
  "('b, 'd) swarm_bus \<Rightarrow> nats_lib \<Rightarrow> clock \<Rightarrow> peer_id \<Rightarrow> swarm_message \<Rightarrow> nats_transport \<Rightarrow> ('b, 'd) swarm_net
   \<Rightarrow> (string, unit) result \<times> nats_transport \<times> ('b, 'd) swarm_net" where
  "send_direct B NL c to msg T net =
     (case limiter_allow c (tr_limiter T) of
        (allowed, lim) \<Rightarrow>
          let T1 = T\<lparr>tr_limiter := lim\<rparr>
          in if \<not> allowed \<or> transport_backing_off c T1 then (Inr (), T1, net)
             else case swarm_envelope_new NL c (tr_self T) (Some to) msg None net of
               (Inl e, net1) \<Rightarrow> (Inl e, T1, net1)
             | (Inr env, net1) \<Rightarrow>
                 (case nl_env_enc NL env of
                    Inl e \<Rightarrow> (Inl e, T1, net1)
                  | Inr bytes \<Rightarrow>
                      (case sb_publish B c (inbox_subject to) None bytes net1 of
                         (Inl e, net2) \<Rightarrow> (Inl e, transport_mark_failure c T1, net2)
                       | (Inr _, net2) \<Rightarrow> (Inr (), T1, net2))))"

text \<open>
  The polling loop of a request. Other threads fill the reply queue: at its \<open>n\<close>-th turn the loop
  reads \<open>fst (obs n)\<close> nanoseconds since it started and finds the envelopes \<open>snd (obs n)\<close> added. It
  pops the newest. \<open>None\<close> means that it never returns.
\<close>

partial_function (option) request_wait ::
  "nat \<Rightarrow> (nat \<Rightarrow> nat \<times> swarm_envelope list) \<Rightarrow> nat \<Rightarrow> swarm_envelope list
   \<Rightarrow> (swarm_envelope option \<times> swarm_envelope list) option" where
  "request_wait timeout obs n q =
     (if fst (obs n) < timeout then
        (if q @ snd (obs n) \<noteq> [] then Some (Some (last (q @ snd (obs n))), butlast (q @ snd (obs n)))
         else request_wait timeout obs (Suc n) [])
      else Some (None, q @ snd (obs n)))"

text \<open>\<open>c'\<close> is the clock when the loop gives up.\<close>

definition request ::
  "('b, 'd) swarm_bus \<Rightarrow> nats_lib \<Rightarrow> clock \<Rightarrow> clock \<Rightarrow> (nat \<Rightarrow> nat \<times> swarm_envelope list) \<Rightarrow> peer_id
   \<Rightarrow> swarm_message \<Rightarrow> nat \<Rightarrow> nats_transport \<Rightarrow> ('b, 'd) swarm_net
   \<Rightarrow> ((string, swarm_envelope) result \<times> nats_transport \<times> ('b, 'd) swarm_net) option" where
  "request B NL c c' obs to msg timeout T net =
     (if transport_backing_off c T then Some (Inl ''backing off'', T, net)
      else case draw NL 8 net of
        (rid, net1) \<Rightarrow>
          let subject = reply_subject (tr_self T) rid; a = sw_next net1;
              net2 = net1\<lparr>sw_replies := (sw_replies net1)(a := []), sw_next := Suc a\<rparr>;
              sent =
                sbind (sb_subscribe B subject (ReplyHandler a) net2) (\<lambda>_ net3.
                sbind (swarm_envelope_new NL c (tr_self T) (Some to) msg (Some subject) net3) (\<lambda>env net4.
                sbind (nl_env_enc NL env, net4) (\<lambda>bytes net5.
                sb_publish B c (inbox_subject to) (Some subject) bytes net5)))
          in case sent of
               (Inl e, net6) \<Rightarrow> Some (Inl e, T, net6)
             | (Inr _, net6) \<Rightarrow>
                 map_option (\<lambda>(r, q).
                   let net7 = net6\<lparr>sw_replies := (sw_replies net6)(a := q)\<rparr>
                   in case r of
                        Some env \<Rightarrow> (Inr env, T, net7)
                      | None \<Rightarrow> (Inl ''request timeout'', transport_mark_failure c' T, net7))
                   (request_wait timeout obs 0 (sw_replies net6 a)))"

text \<open>The newest message is taken first.\<close>

definition transport_poll ::
  "nats_transport \<Rightarrow> ('b, 'd) swarm_net \<Rightarrow> (string \<times> swarm_envelope) option \<times> ('b, 'd) swarm_net" where
  "transport_poll T net =
     (let q = sw_rx net (tr_rx T)
      in if q = [] then (None, net)
         else (Some (last q), net\<lparr>sw_rx := (sw_rx net)(tr_rx T := butlast q)\<rparr>))"

definition respond ::
  "('b, 'd) swarm_bus \<Rightarrow> nats_lib \<Rightarrow> clock \<Rightarrow> string \<Rightarrow> swarm_message \<Rightarrow> string \<Rightarrow> nats_transport
   \<Rightarrow> ('b, 'd) swarm_net \<Rightarrow> (string, unit) result \<times> ('b, 'd) swarm_net" where
  "respond B NL c reply_to msg cid T net =
     sbind (swarm_envelope_new NL c (tr_self T) None msg None net) (\<lambda>env net1.
     sbind (nl_env_enc NL (env\<lparr>se_correlation_id := cid\<rparr>), net1) (\<lambda>bytes net2.
     sb_publish B c reply_to None bytes net2))"

end
