(* ===== verification/Nats_Replicator.thy ===== *)
theory Nats_Replicator
  imports Nats_Bus
begin

text \<open>
  The replicator of \<open>crates/dwbase-swarm-nats/src/replication.rs\<close>, which announces a node's
  subscriptions, ships new atoms to the peers that subscribed to their world and takes in the
  batches of others, and the broadcaster of \<open>src/world_events.rs\<close>. An operation reads the clock
  once. The world access policy is a pair of functions; the counters are machine words that wrap.
\<close>

section \<open>Replicator\<close>

record replicator =
  rp_transport :: nats_transport
  rp_table :: nat
  rp_self_patterns :: "string list"
  rp_expiry :: nat
  rp_last_announce :: int
  rp_incoming :: "(peer_id \<times> atom_batch) list"
  rp_max_inbox :: nat
  rp_dropped_inbox :: "64 word"
  rp_dropped_replay :: "64 word"
  rp_replay :: replay_guard
  rp_can_send :: "string \<Rightarrow> peer_id \<Rightarrow> bool"
  rp_can_receive :: "string \<Rightarrow> peer_id \<Rightarrow> bool"

text \<open>The subscription may fail; \<open>Instant::now() - expiry\<close> may panic, which is \<open>None\<close>.\<close>

definition with_policy_and_state ::
  "('b, 'd) swarm_bus \<Rightarrow> 'd file_lib \<Rightarrow> clock \<Rightarrow> nats_transport \<Rightarrow> string list \<Rightarrow> nat
   \<Rightarrow> (string \<Rightarrow> peer_id \<Rightarrow> bool) \<Rightarrow> (string \<Rightarrow> peer_id \<Rightarrow> bool) \<Rightarrow> string option \<Rightarrow> nat \<Rightarrow> nat
   \<Rightarrow> ('b, 'd) swarm_net \<Rightarrow> ((string, replicator) result \<times> ('b, 'd) swarm_net) option" where
  "with_policy_and_state B F c T patterns expiry can_send can_receive path max_inbox window net =
     (let a = sw_next net;
          net1 = net\<lparr>sw_tables := (sw_tables net)(a := table_new F c expiry path (sw_disk net)), sw_next := Suc a\<rparr>
      in case sb_subscribe B SUBJECT_BROADCAST (IntentHandler (tr_self T) a) net1 of
           (Inl e, net2) \<Rightarrow> Some (Inl e, net2)
         | (Inr _, net2) \<Rightarrow>
             map_option (\<lambda>la. (Inr \<lparr>rp_transport = T, rp_table = a, rp_self_patterns = patterns,
                 rp_expiry = expiry, rp_last_announce = la, rp_incoming = [], rp_max_inbox = max max_inbox 1,
                 rp_dropped_inbox = 0, rp_dropped_replay = 0, rp_replay = replay_new window 2048,
                 rp_can_send = can_send, rp_can_receive = can_receive\<rparr>, net2))
               (instant_sub (ck_mono c) expiry))"

definition with_policy ::
  "('b, 'd) swarm_bus \<Rightarrow> 'd file_lib \<Rightarrow> clock \<Rightarrow> nats_transport \<Rightarrow> string list \<Rightarrow> nat
   \<Rightarrow> (string \<Rightarrow> peer_id \<Rightarrow> bool) \<Rightarrow> (string \<Rightarrow> peer_id \<Rightarrow> bool) \<Rightarrow> ('b, 'd) swarm_net
   \<Rightarrow> ((string, replicator) result \<times> ('b, 'd) swarm_net) option" where
  "with_policy B F c T patterns expiry can_send can_receive net =
     with_policy_and_state B F c T patterns expiry can_send can_receive None 1024 (300 * 1000000000) net"

definition allow_all :: "string \<Rightarrow> peer_id \<Rightarrow> bool" where
  "allow_all world peer = True"

definition replicator_new ::
  "('b, 'd) swarm_bus \<Rightarrow> 'd file_lib \<Rightarrow> clock \<Rightarrow> nats_transport \<Rightarrow> string list \<Rightarrow> nat
   \<Rightarrow> ('b, 'd) swarm_net \<Rightarrow> ((string, replicator) result \<times> ('b, 'd) swarm_net) option" where
  "replicator_new B F c T patterns expiry net = with_policy B F c T patterns expiry allow_all allow_all net"

definition rate_200 :: f64 where
  "rate_200 = f64_of_nat 200"

definition replicator_with_bus ::
  "('b, 'd) swarm_bus \<Rightarrow> 'd file_lib \<Rightarrow> clock \<Rightarrow> string \<Rightarrow> string list \<Rightarrow> ('b, 'd) swarm_net
   \<Rightarrow> ((string, replicator) result \<times> ('b, 'd) swarm_net) option" where
  "replicator_with_bus B F c node_id patterns net =
     (case transport_new B c node_id rate_200 net of
        (Inl e, net1) \<Rightarrow> Some (Inl e, net1)
      | (Inr T, net1) \<Rightarrow> replicator_new B F c T patterns (30 * 1000000000) net1)"

definition announce ::
  "('b, 'd) swarm_bus \<Rightarrow> nats_lib \<Rightarrow> clock \<Rightarrow> replicator \<Rightarrow> ('b, 'd) swarm_net
   \<Rightarrow> (string, unit) result \<times> replicator \<times> ('b, 'd) swarm_net" where
  "announce B NL c R net =
     (if elapsed c (rp_last_announce R) < rp_expiry R div 2 then (Inr (), R, net)
      else
        let R1 = R\<lparr>rp_last_announce := int (ck_mono c)\<rparr>;
            (r, net1) =
              sbind (swarm_envelope_new NL c (tr_self (rp_transport R)) None
                       (SwSubscriptionIntent (rp_self_patterns R)) None net) (\<lambda>env net1.
              sbind (nl_env_enc NL env, net1) (\<lambda>bytes net2.
              sb_publish B c SUBJECT_BROADCAST None bytes net2))
        in (r, R1, net1))"

definition should_ingest :: "replicator \<Rightarrow> string \<Rightarrow> bool" where
  "should_ingest R world \<longleftrightarrow> (\<exists>p \<in> set (rp_self_patterns R). matches_world p world)"

definition enqueue_batch :: "peer_id \<Rightarrow> atom_batch \<Rightarrow> replicator \<Rightarrow> replicator" where
  "enqueue_batch from batch R =
     (let R1 = (if rp_max_inbox R \<le> length (rp_incoming R)
                then R\<lparr>rp_incoming := tl (rp_incoming R), rp_dropped_inbox := rp_dropped_inbox R + 1\<rparr> else R)
      in R1\<lparr>rp_incoming := rp_incoming R1 @ [(from, batch)]\<rparr>)"

text \<open>One message: \<open>Inl\<close> leaves the loop with the decoding error.\<close>

definition take_in :: "nats_lib \<Rightarrow> clock \<Rightarrow> swarm_envelope \<Rightarrow> replicator \<Rightarrow> (string, unit) result \<times> replicator" where
  "take_in NL c env R =
     (case should_accept (ck_mono c) (se_from env) (se_correlation_id env) (rp_replay R) of
        (ok, g) \<Rightarrow>
          let R1 = R\<lparr>rp_replay := g\<rparr>
          in if \<not> ok then (Inr (), R1\<lparr>rp_dropped_replay := rp_dropped_replay R1 + 1\<rparr>)
             else case decode_message NL env of
               Inl e \<Rightarrow> (Inl e, R1)
             | Inr (SwAtomBatch batch) \<Rightarrow>
                 (Inr (), if should_ingest R1 (ab_world batch) \<and> rp_can_receive R1 (ab_world batch) (se_from env)
                          then enqueue_batch (se_from env) batch R1 else R1)
             | Inr _ \<Rightarrow> (Inr (), R1))"

lemma take_in_transport [simp]: "rp_transport (snd (take_in NL c env R)) = rp_transport R"
  by (auto simp: take_in_def enqueue_batch_def Let_def split: prod.split sum.split swarm_message.split)

lemma poll_shrinks: "transport_poll T net = (Some m, net') \<Longrightarrow> length (sw_rx net' (tr_rx T)) < length (sw_rx net (tr_rx T))"
  by (auto simp: transport_poll_def Let_def split: if_splits)

function poll_inbox ::
  "nats_lib \<Rightarrow> clock \<Rightarrow> replicator \<Rightarrow> ('b, 'd) swarm_net
   \<Rightarrow> (string, unit) result \<times> replicator \<times> ('b, 'd) swarm_net" where
  "poll_inbox NL c R net =
     (case transport_poll (rp_transport R) net of
        (None, net1) \<Rightarrow> (Inr (), R, net1)
      | (Some (_, env), net1) \<Rightarrow>
          (case take_in NL c env R of
             (Inl e, R1) \<Rightarrow> (Inl e, R1, net1)
           | (Inr _, R1) \<Rightarrow> poll_inbox NL c R1 net1))"
  by pat_completeness auto

termination
proof (relation "measure (\<lambda>(NL, c, R, net). length (sw_rx net (tr_rx (rp_transport R))))", goal_cases)
  case (2 NL c R net m net1 x reply_to env r R1 u)
  then have "R1 = snd (take_in NL c env R)" by (metis snd_conv)
  then have "rp_transport R1 = rp_transport R" by simp
  then show ?case using poll_shrinks [of "rp_transport R" net x net1] 2 by simp
qed simp

declare poll_inbox.simps [simp del]

definition poll_atom_batch :: "replicator \<Rightarrow> (peer_id \<times> atom_batch) option \<times> replicator" where
  "poll_atom_batch R =
     (case rp_incoming R of [] \<Rightarrow> (None, R) | b # bs \<Rightarrow> (Some b, R\<lparr>rp_incoming := bs\<rparr>))"

fun ship_batch ::
  "('b, 'd) swarm_bus \<Rightarrow> nats_lib \<Rightarrow> clock \<Rightarrow> atom_batch \<Rightarrow> string list \<Rightarrow> replicator \<Rightarrow> ('b, 'd) swarm_net
   \<Rightarrow> replicator \<times> ('b, 'd) swarm_net" where
  "ship_batch B NL c batch [] R net = (R, net)"
| "ship_batch B NL c batch (node # nodes) R net =
     (if node = tr_self (rp_transport R) \<or> \<not> rp_can_send R (ab_world batch) node
      then ship_batch B NL c batch nodes R net
      else case send_direct B NL c node (SwAtomBatch batch) (rp_transport R) net of
        (_, T, net1) \<Rightarrow> ship_batch B NL c batch nodes (R\<lparr>rp_transport := T\<rparr>) net1)"

definition replicate_new_atom ::
  "('b, 'd) swarm_bus \<Rightarrow> nats_lib \<Rightarrow> 'd file_lib \<Rightarrow> clock \<Rightarrow> atom \<Rightarrow> replicator \<Rightarrow> ('b, 'd) swarm_net
   \<Rightarrow> (string, unit) result \<times> replicator \<times> ('b, 'd) swarm_net" where
  "replicate_new_atom B NL F c a R net =
     (case nodes_subscribed_to_world F c (a_world a) (sw_tables net (rp_table R)) (sw_disk net) of
        (targets, t, d) \<Rightarrow>
          let net1 = net\<lparr>sw_tables := (sw_tables net)(rp_table R := t), sw_disk := d\<rparr>
          in if targets = [] then (Inr (), R, net1)
             else (Inr (), ship_batch B NL c \<lparr>ab_world = a_world a, ab_atoms = [a]\<rparr> targets R net1))"

section \<open>World events\<close>

record atom_event =
  ae_world_key :: string
  ae_from_node :: string
  ae_sent_at_ms :: nat
  ae_atom :: atom

record atom_event_batch =
  eb_batch_id :: string
  eb_events :: "atom_event list"

record batch_codec =
  bc_enc :: "atom_event_batch \<Rightarrow> (string, string) result"
  bc_dec :: "string \<Rightarrow> (string, atom_event_batch) result"

definition encode_event_batch :: "batch_codec \<Rightarrow> atom_event_batch \<Rightarrow> (string, string) result" where
  "encode_event_batch C b = bc_enc C b"

definition decode_event_batch :: "batch_codec \<Rightarrow> string \<Rightarrow> (string, atom_event_batch) result" where
  "decode_event_batch C bytes = bc_dec C bytes"

definition world_token :: "nats_lib \<Rightarrow> string \<Rightarrow> string" where
  "world_token NL world_key = nl_hex NL world_key"

definition world_events_subject :: "nats_lib \<Rightarrow> string \<Rightarrow> string" where
  "world_events_subject NL world_key = ''dwbase.world.'' @ world_token NL world_key @ ''.events''"

definition new_batch_id :: "nats_lib \<Rightarrow> ('b, 'd) swarm_net \<Rightarrow> string \<times> ('b, 'd) swarm_net" where
  "new_batch_id NL net = draw NL 8 net"

record broadcaster =
  br_from_node :: string
  br_limiter :: token_bucket
  br_flush_every :: nat
  br_max_batch :: nat
  br_inner :: "(string \<times> nat \<times> atom_event list) list"

definition broadcaster_new :: "clock \<Rightarrow> string \<Rightarrow> f64 \<Rightarrow> broadcaster" where
  "broadcaster_new c from_node msgs_per_sec =
     \<lparr>br_from_node = from_node, br_limiter = per_second msgs_per_sec c, br_flush_every = 50 * 1000000,
      br_max_batch = 32, br_inner = []\<rparr>"

definition flush_events ::
  "('b, 'd) swarm_bus \<Rightarrow> nats_lib \<Rightarrow> batch_codec \<Rightarrow> clock \<Rightarrow> string \<Rightarrow> atom_event list \<Rightarrow> ('b, 'd) swarm_net
   \<Rightarrow> (string, unit) result \<times> ('b, 'd) swarm_net" where
  "flush_events B NL C c world events net =
     (if events = [] then (Inr (), net)
      else case new_batch_id NL net of
        (i, net1) \<Rightarrow>
          sbind (encode_event_batch C \<lparr>eb_batch_id = i, eb_events = events\<rparr>, net1) (\<lambda>bytes net2.
          sb_publish B c (world_events_subject NL world) None bytes net2))"

text \<open>
  The clock is read again after the event is filed: a new entry is stamped \<open>c\<close>, and \<open>c'\<close> decides
  whether the batch is due.
\<close>

definition publish_atom ::
  "('b, 'd) swarm_bus \<Rightarrow> nats_lib \<Rightarrow> batch_codec \<Rightarrow> clock \<Rightarrow> clock \<Rightarrow> atom \<Rightarrow> broadcaster \<Rightarrow> ('b, 'd) swarm_net
   \<Rightarrow> (string, unit) result \<times> broadcaster \<times> ('b, 'd) swarm_net" where
  "publish_atom B NL C c c' a W net =
     (case limiter_allow c (br_limiter W) of
        (allowed, lim) \<Rightarrow>
          let W1 = W\<lparr>br_limiter := lim\<rparr>
          in if \<not> allowed then (Inr (), W1, net)
             else
               let world = a_world a;
                   event = \<lparr>ae_world_key = world, ae_from_node = br_from_node W,
                            ae_sent_at_ms = ck_wall c mod 2 ^ 64, ae_atom = a\<rparr>;
                   (t0, events0) = (case map_of (br_inner W) world of None \<Rightarrow> (ck_mono c, []) | Some e \<Rightarrow> e);
                   events = events0 @ [event]
               in if br_max_batch W \<le> length events \<or> br_flush_every W \<le> ck_mono c' - t0
                  then case flush_events B NL C c' world events net of
                         (r, net1) \<Rightarrow> (r, W1\<lparr>br_inner := AList.delete world (br_inner W)\<rparr>, net1)
                  else (Inr (), W1\<lparr>br_inner := AList.update world (t0, events) (br_inner W)\<rparr>, net))"

fun flush_each ::
  "('b, 'd) swarm_bus \<Rightarrow> nats_lib \<Rightarrow> batch_codec \<Rightarrow> clock \<Rightarrow> (string \<times> nat \<times> atom_event list) list \<Rightarrow> ('b, 'd) swarm_net
   \<Rightarrow> (string, unit) result \<times> ('b, 'd) swarm_net" where
  "flush_each B NL C c [] net = (Inr (), net)"
| "flush_each B NL C c ((world, _, events) # es) net =
     sbind (flush_events B NL C c world events net) (\<lambda>_ net1. flush_each B NL C c es net1)"

definition flush_all ::
  "('b, 'd) swarm_bus \<Rightarrow> nats_lib \<Rightarrow> batch_codec \<Rightarrow> clock \<Rightarrow> broadcaster \<Rightarrow> ('b, 'd) swarm_net
   \<Rightarrow> (string, unit) result \<times> broadcaster \<times> ('b, 'd) swarm_net" where
  "flush_all B NL C c W net =
     (case flush_each B NL C c (filter (\<lambda>(_, _, events). events \<noteq> []) (br_inner W)) net of
        (r, net1) \<Rightarrow> (r, W\<lparr>br_inner := []\<rparr>, net1))"

end
