(* ===== verification/Nats_Contract.thy ===== *)
theory Nats_Contract
  imports Nats_Replicator
begin

text \<open>
  What the transport and the replicator need of a bus: publishing runs the handlers of the subject
  and never fails, subscribing adds one handler and nothing else. The in-memory bus meets the
  contract. Inside it: what a sent message, an announcement and a shipped batch do to the queues
  and tables of the other nodes.
\<close>

section \<open>What handlers change\<close>

definition shared_part :: "('b, 'd) swarm_net \<Rightarrow> 'b \<times> nat \<times> nat" where
  "shared_part net = (sw_bus net, sw_next net, sw_draws net)"

lemma run_handler_shared [simp]: "shared_part (run_handler NL F c b r h net) = shared_part net"
  by (cases h)
    (auto simp: shared_part_def push_inbox_def push_reply_def file_intent_def split: sum.split swarm_message.split prod.split)

lemma fold_handlers_shared [simp]: "shared_part (fold (run_handler NL F c b r) hs net) = shared_part net"
  by (induction hs arbitrary: net) auto

lemma fold_handlers_frame [simp]:
  "sw_bus (fold (run_handler NL F c b r) hs net) = sw_bus net"
  "sw_next (fold (run_handler NL F c b r) hs net) = sw_next net"
  "sw_draws (fold (run_handler NL F c b r) hs net) = sw_draws net"
  using fold_handlers_shared [of NL F c b r hs net] by (simp_all add: shared_part_def)

text \<open>An intent changes one table, as if it had been filed directly.\<close>

definition with_intent :: "clock \<Rightarrow> string \<Rightarrow> string list \<Rightarrow> subscription_table \<Rightarrow> subscription_table" where
  "with_intent c i patterns t =
     t\<lparr>tt_records := AList.update i \<lparr>sr_patterns = patterns, sr_last_seen = int (ck_mono c)\<rparr> (tt_records t)\<rparr>"

lemma sub_upsert_fst [simp]: "fst (sub_upsert F c i ps t d) = with_intent c i ps t"
  by (simp add: sub_upsert_def with_intent_def Let_def)

lemma file_intent_effect:
  assumes "nl_env_dec NL bytes = Inr env" "decode_message NL env = Inr (SwSubscriptionIntent ps)"
  shows "sw_rx (file_intent NL F c self a bytes net) = sw_rx net
    \<and> sw_replies (file_intent NL F c self a bytes net) = sw_replies net
    \<and> sw_tables (file_intent NL F c self a bytes net) =
        (if se_from env = self then sw_tables net
         else (sw_tables net)(a := with_intent c (se_from env) ps (sw_tables net a)))"
proof -
  obtain t d where td: "sub_upsert F c (se_from env) ps (sw_tables net a) (sw_disk net) = (t, d)" by fastforce
  then have "t = with_intent c (se_from env) ps (sw_tables net a)" by (metis fst_conv sub_upsert_fst)
  then show ?thesis using td assms by (simp add: file_intent_def)
qed

text \<open>An intent published to the listeners \<open>(self, table)\<close> is filed by each of the others.\<close>

lemma fold_intents:
  assumes "nl_env_dec NL bytes = Inr env" "decode_message NL env = Inr (SwSubscriptionIntent ps)"
  shows "distinct (map snd ls) \<Longrightarrow>
    (let net' = fold (run_handler NL F c bytes r) (map (\<lambda>(i, t). IntentHandler i t) ls) net
     in sw_rx net' = sw_rx net \<and> sw_replies net' = sw_replies net
      \<and> (\<forall>i t. (i, t) \<in> set ls \<longrightarrow> i \<noteq> se_from env \<longrightarrow> sw_tables net' t = with_intent c (se_from env) ps (sw_tables net t))
      \<and> (\<forall>t. (\<forall>i. (i, t) \<in> set ls \<longrightarrow> i = se_from env) \<longrightarrow> sw_tables net' t = sw_tables net t))"
proof (induction ls arbitrary: net)
  case (Cons l ls)
  obtain i0 t0 where l: "l = (i0, t0)" by (cases l)
  let ?net1 = "file_intent NL F c i0 t0 bytes net"
  have t0: "(i, t0) \<notin> set ls" for i using Cons.prems l by (force simp: image_iff)
  have d: "distinct (map snd ls)" using Cons.prems by simp
  note IH = Cons.IH [OF d, of ?net1] and eff = file_intent_effect [OF assms, of F c i0 t0 net]
  show ?case using IH eff t0 by (auto simp: Let_def l)
qed (simp add: Let_def)

section \<open>The bus contract\<close>

text \<open>The envelope a direct message or an announcement travels in.\<close>

definition envelope_of :: "nats_lib \<Rightarrow> clock \<Rightarrow> peer_id \<Rightarrow> peer_id option \<Rightarrow> swarm_message \<Rightarrow> string \<Rightarrow> nat \<Rightarrow> swarm_envelope" where
  "envelope_of NL c from to msg payload n =
     \<lparr>se_kind = message_kind msg, se_from = from, se_to = to, se_correlation_id = nl_hex NL (nl_rng NL n 16),
      se_reply_to = None, se_payload = payload, se_sent_at_ms = ck_wall c mod 2 ^ 64\<rparr>"

locale delivering_bus =
  fixes bus :: "('b, 'd) swarm_bus" and handlers :: "'b \<Rightarrow> string \<Rightarrow> handler list"
    and NL :: nats_lib and F :: "'d file_lib"
  assumes publish_runs:
      "sb_publish bus c s r bytes net = (Inr (), fold (run_handler NL F c bytes r) (handlers (sw_bus net) s) net)"
    and subscribe_adds:
      "\<exists>b'. sb_subscribe bus s h net = (Inr (), net\<lparr>sw_bus := b'\<rparr>)
         \<and> (\<forall>s'. handlers b' s' = (if s' = s then handlers (sw_bus net) s @ [h] else handlers (sw_bus net) s'))"
begin

lemma envelope_new_eq:
  "nl_msg_enc NL msg = Inr payload \<Longrightarrow>
   swarm_envelope_new NL c from to msg None net =
     (Inr (envelope_of NL c from to msg payload (sw_draws net)), net\<lparr>sw_draws := Suc (sw_draws net)\<rparr>)"
  by (simp add: swarm_envelope_new_def new_correlation_id_def draw_def envelope_of_def)

lemma send_runs_inbox:
  assumes "limiter_allow c (tr_limiter T) = (True, lim)" "\<not> transport_backing_off c T"
    and "nl_msg_enc NL msg = Inr payload"
    and "nl_env_enc NL (envelope_of NL c (tr_self T) (Some to) msg payload (sw_draws net)) = Inr bytes"
  shows "send_direct bus NL c to msg T net =
    (Inr (), T\<lparr>tr_limiter := lim\<rparr>,
     fold (run_handler NL F c bytes None) (handlers (sw_bus net) (inbox_subject to)) (net\<lparr>sw_draws := Suc (sw_draws net)\<rparr>))"
  using assms by (simp add: send_direct_def envelope_new_eq transport_backing_off_def publish_runs)

text \<open>Publishing cannot fail here, so a send never puts the transport into backoff.\<close>

lemma send_keeps_backoff:
  "tr_backoff_until (fst (snd (send_direct bus NL c to msg T net))) = tr_backoff_until T"
  by (auto simp: send_direct_def Let_def publish_runs split: prod.split sum.split)

lemma announce_runs_listeners:
  assumes "rp_expiry R div 2 \<le> elapsed c (rp_last_announce R)"
    and "nl_msg_enc NL (SwSubscriptionIntent (rp_self_patterns R)) = Inr payload"
    and "nl_env_enc NL (envelope_of NL c (tr_self (rp_transport R)) None (SwSubscriptionIntent (rp_self_patterns R)) payload
      (sw_draws net)) = Inr bytes"
  shows "announce bus NL c R net =
    (Inr (), R\<lparr>rp_last_announce := int (ck_mono c)\<rparr>,
     fold (run_handler NL F c bytes None) (handlers (sw_bus net) SUBJECT_BROADCAST) (net\<lparr>sw_draws := Suc (sw_draws net)\<rparr>))"
  using assms by (simp add: announce_def envelope_new_eq publish_runs Let_def)

end

interpretation mb: delivering_bus "mock_bus NL F" "\<lambda>b s. b s" NL F for NL :: nats_lib and F :: "'d file_lib"
proof (unfold_locales, goal_cases)
  case (2 s h net)
  show ?case
    by (rule exI [of _ "(sw_bus net)(s := sw_bus net s @ [h])"]) (simp add: mock_bus_def mock_subscribe_def)
qed (simp add: mock_bus_def mock_publish_def)

end
