(* ===== verification/Nats_Claims.thy ===== *)
theory Nats_Claims
  imports Nats_Contract
begin

text \<open>
  What the NATS swarm of \<open>crates/dwbase-swarm-nats\<close> guarantees over the in-memory bus: an announced
  subscription brings new atoms to the subscriber's inbox, the inbox admits nothing else and stays
  bounded, requests return, and the broadcaster loses no event.
\<close>

section \<open>Shipping a batch\<close>

text \<open>The limiter admits \<open>k\<close> messages at this instant.\<close>

fun admits :: "clock \<Rightarrow> nat \<Rightarrow> token_bucket \<Rightarrow> bool" where
  "admits c 0 b = True"
| "admits c (Suc k) b = (case limiter_allow c b of (ok, b') \<Rightarrow> ok \<and> admits c k b')"

lemma admits_le: "admits c k b \<Longrightarrow> j \<le> k \<Longrightarrow> admits c j b"
proof (induction k arbitrary: j b)
  case (Suc k)
  then show ?case by (cases j) (auto split: prod.splits)
qed simp

text \<open>Each node has one queue of its own; nobody listens on the inbox of an unknown node.\<close>

definition inboxes :: "(string \<Rightarrow> handler list) \<Rightarrow> (string \<rightharpoonup> nat) \<Rightarrow> bool" where
  "inboxes hs box \<longleftrightarrow>
     (\<forall>i. hs (inbox_subject i) = (case box i of None \<Rightarrow> [] | Some a \<Rightarrow> [InboxHandler a]))
   \<and> (\<forall>i j a. box i = Some a \<longrightarrow> box j = Some a \<longrightarrow> i = j)"

definition carries :: "nats_lib \<Rightarrow> peer_id \<Rightarrow> atom_batch \<Rightarrow> swarm_envelope \<Rightarrow> bool" where
  "carries NL from batch env \<longleftrightarrow> se_from env = from \<and> decode_message NL env = Inr (SwAtomBatch batch)"

text \<open>The codecs take an envelope with this message from this node through the wire and back.\<close>

definition wire_ok :: "nats_lib \<Rightarrow> clock \<Rightarrow> peer_id \<Rightarrow> swarm_message \<Rightarrow> bool" where
  "wire_ok NL c from msg \<longleftrightarrow>
     (\<exists>payload. nl_msg_enc NL msg = Inr payload \<and> nl_msg_dec NL payload = Inr msg
        \<and> (\<forall>to n. \<exists>bytes. nl_env_enc NL (envelope_of NL c from to msg payload n) = Inr bytes
             \<and> nl_env_dec NL bytes = Inr (envelope_of NL c from to msg payload n)))"

lemma push_inbox_effect:
  "nl_env_dec NL bytes = Inr env \<Longrightarrow>
   sw_rx (push_inbox NL a bytes None net) = (sw_rx net)(a := sw_rx net a @ [([], env)])
   \<and> sw_tables (push_inbox NL a bytes None net) = sw_tables net"
  by (simp add: push_inbox_def)

context delivering_bus
begin

lemma send_delivers:
  assumes "inboxes (handlers (sw_bus net)) box" and "wire_ok NL c (tr_self T) (SwAtomBatch batch)"
    and "limiter_allow c (tr_limiter T) = (True, lim)" and "\<not> transport_backing_off c T"
    and "send_direct bus NL c to (SwAtomBatch batch) T net = (r, T', net')"
  shows "T' = T\<lparr>tr_limiter := lim\<rparr> \<and> sw_bus net' = sw_bus net \<and> sw_tables net' = sw_tables net
    \<and> (\<exists>env. carries NL (tr_self T) batch env
         \<and> sw_rx net' = (case box to of None \<Rightarrow> sw_rx net | Some a \<Rightarrow> (sw_rx net)(a := sw_rx net a @ [([], env)])))"
proof -
  obtain payload bytes where p: "nl_msg_enc NL (SwAtomBatch batch) = Inr payload"
    "nl_msg_dec NL payload = Inr (SwAtomBatch batch)"
    "nl_env_enc NL (envelope_of NL c (tr_self T) (Some to) (SwAtomBatch batch) payload (sw_draws net)) = Inr bytes"
    "nl_env_dec NL bytes = Inr (envelope_of NL c (tr_self T) (Some to) (SwAtomBatch batch) payload (sw_draws net))"
    using assms(2) unfolding wire_ok_def by blast
  let ?net1 = "net\<lparr>sw_draws := Suc (sw_draws net)\<rparr>"
  let ?env = "envelope_of NL c (tr_self T) (Some to) (SwAtomBatch batch) payload (sw_draws net)"
  have c: "carries NL (tr_self T) batch ?env" using p(2) by (simp add: carries_def envelope_of_def decode_message_def)
  have h: "handlers (sw_bus net) (inbox_subject to) = (case box to of None \<Rightarrow> [] | Some a \<Rightarrow> [InboxHandler a])"
    using assms(1) by (simp add: inboxes_def)
  have s: "T' = T\<lparr>tr_limiter := lim\<rparr>"
    "net' = fold (run_handler NL F c bytes None) (handlers (sw_bus net) (inbox_subject to)) ?net1"
    using send_runs_inbox [OF assms(3,4) p(1,3)] assms(5) by auto
  then have "sw_bus net' = sw_bus net" by simp
  moreover have "sw_tables net' = sw_tables net
      \<and> sw_rx net' = (case box to of None \<Rightarrow> sw_rx net | Some a \<Rightarrow> (sw_rx net)(a := sw_rx net a @ [([], ?env)]))"
    using s(2) h by (cases "box to") (auto simp: push_inbox_effect [OF p(4)])
  ultimately show ?thesis using s(1) c by blast
qed

text \<open>What a batch shipped to a list of nodes does to the queue \<open>a\<close> of node \<open>i\<close>.\<close>

definition shipped :: "peer_id \<Rightarrow> (string \<Rightarrow> peer_id \<Rightarrow> bool) \<Rightarrow> atom_batch \<Rightarrow> string list \<Rightarrow> string \<Rightarrow> nat
    \<Rightarrow> ('b, 'd) swarm_net \<Rightarrow> ('b, 'd) swarm_net \<Rightarrow> bool" where
  "shipped self can_send batch nodes i a net net' \<longleftrightarrow>
     (if i \<in> set nodes \<and> i \<noteq> self \<and> can_send (ab_world batch) i
      then \<exists>env. carries NL self batch env \<and> sw_rx net' a = sw_rx net a @ [([], env)]
      else sw_rx net' a = sw_rx net a)"

lemma ship_batch_delivers:
  assumes "wire_ok NL c self (SwAtomBatch batch)"
  shows "inboxes (handlers (sw_bus net)) box \<Longrightarrow> tr_self (rp_transport R) = self \<Longrightarrow> distinct nodes \<Longrightarrow>
    \<not> transport_backing_off c (rp_transport R) \<Longrightarrow> admits c (length nodes) (tr_limiter (rp_transport R)) \<Longrightarrow>
    ship_batch bus NL c batch nodes R net = (R', net') \<Longrightarrow> box i = Some a \<Longrightarrow>
    shipped self (rp_can_send R) batch nodes i a net net' \<and> sw_tables net' = sw_tables net \<and> sw_bus net' = sw_bus net"
proof (induction nodes arbitrary: R net)
  case (Cons j nodes)
  show ?case
  proof (cases "j = self \<or> \<not> rp_can_send R (ab_world batch) j")
    case True
    have "admits c (length nodes) (tr_limiter (rp_transport R))" using Cons.prems(5) by (rule admits_le) simp
    moreover have "ship_batch bus NL c batch nodes R net = (R', net')" using True Cons.prems(2,6) by auto
    ultimately show ?thesis
      using Cons.IH [OF Cons.prems(1,2) _ Cons.prems(4) _ _ Cons.prems(7)] Cons.prems(3) True by (auto simp: shipped_def)
  next
    case False
    obtain lim where lim: "limiter_allow c (tr_limiter (rp_transport R)) = (True, lim)" "admits c (length nodes) lim"
      using Cons.prems(5) by (auto split: prod.splits)
    obtain r T net1 where s: "send_direct bus NL c j (SwAtomBatch batch) (rp_transport R) net = (r, T, net1)"
      by (metis prod_cases3)
    have w: "wire_ok NL c (tr_self (rp_transport R)) (SwAtomBatch batch)" using assms Cons.prems(2) by simp
    obtain env where env: "T = rp_transport R\<lparr>tr_limiter := lim\<rparr>" "sw_bus net1 = sw_bus net" "sw_tables net1 = sw_tables net"
      "carries NL self batch env"
      "sw_rx net1 = (case box j of None \<Rightarrow> sw_rx net | Some b \<Rightarrow> (sw_rx net)(b := sw_rx net b @ [([], env)]))"
      using send_delivers [OF Cons.prems(1) w lim(1) Cons.prems(4) s] Cons.prems(2) by blast
    have rest: "ship_batch bus NL c batch nodes (R\<lparr>rp_transport := T\<rparr>) net1 = (R', net')"
      using Cons.prems(2,6) False s by simp
    have IH: "shipped self (rp_can_send R) batch nodes i a net1 net' \<and> sw_tables net' = sw_tables net1 \<and> sw_bus net' = sw_bus net1"
      using Cons.IH [OF _ _ _ _ _ rest Cons.prems(7)] Cons.prems(1-4) lim(2) env(1,2)
      by (simp add: transport_backing_off_def)
    have "sw_rx net1 a = (if i = j then sw_rx net a @ [([], env)] else sw_rx net a)"
      using env(5) Cons.prems(1,7) by (auto simp: inboxes_def split: option.split)
    then show ?thesis using IH env(2-4) False Cons.prems(3) by (auto simp: shipped_def)
  qed
qed (simp add: shipped_def)

end

context delivering_bus
begin

lemma announce_files:
  assumes "wire_ok NL c (tr_self (rp_transport R)) (SwSubscriptionIntent (rp_self_patterns R))"
    and "handlers (sw_bus net) SUBJECT_BROADCAST = map (\<lambda>(i, t). IntentHandler i t) ls" "distinct (map snd ls)"
    and "rp_expiry R div 2 \<le> elapsed c (rp_last_announce R)"
    and "announce bus NL c R net = (r, R', net')"
  shows "r = Inr () \<and> R' = R\<lparr>rp_last_announce := int (ck_mono c)\<rparr> \<and> sw_bus net' = sw_bus net \<and> sw_rx net' = sw_rx net
    \<and> (\<forall>i t. (i, t) \<in> set ls \<longrightarrow> i \<noteq> tr_self (rp_transport R) \<longrightarrow>
         sw_tables net' t = with_intent c (tr_self (rp_transport R)) (rp_self_patterns R) (sw_tables net t))"
proof -
  let ?self = "tr_self (rp_transport R)" and ?msg = "SwSubscriptionIntent (rp_self_patterns R)"
  obtain payload bytes where p: "nl_msg_enc NL ?msg = Inr payload" "nl_msg_dec NL payload = Inr ?msg"
    "nl_env_enc NL (envelope_of NL c ?self None ?msg payload (sw_draws net)) = Inr bytes"
    "nl_env_dec NL bytes = Inr (envelope_of NL c ?self None ?msg payload (sw_draws net))"
    using assms(1) unfolding wire_ok_def by blast
  let ?env = "envelope_of NL c ?self None ?msg payload (sw_draws net)"
  have d: "decode_message NL ?env = Inr ?msg" "se_from ?env = ?self"
    using p(2) by (simp_all add: decode_message_def envelope_of_def)
  have "r = Inr ()" "R' = R\<lparr>rp_last_announce := int (ck_mono c)\<rparr>"
    "net' = fold (run_handler NL F c bytes None) (map (\<lambda>(i, t). IntentHandler i t) ls) (net\<lparr>sw_draws := Suc (sw_draws net)\<rparr>)"
    using announce_runs_listeners [OF assms(4) p(1,3)] assms(2,5) by auto
  with fold_intents [OF p(4) d(1) assms(3), of F c None "net\<lparr>sw_draws := Suc (sw_draws net)\<rparr>"] d(2)
  show ?thesis by (simp add: Let_def)
qed

end

lemma length_update_le: "length (AList.update k v m) \<le> Suc (length m)"
  by (induction m) auto

lemma subscribed_targets:
  assumes "nodes_subscribed_to_world F c w t d = (targets, t', d')" and "distinct (map fst (tt_records t))"
  shows "distinct targets \<and> length targets \<le> length (tt_records t)
    \<and> (\<forall>i. i \<in> set targets \<longleftrightarrow> (\<exists>r. map_of (tt_records t) i = Some r \<and> fresh_record c (tt_expiry t) r
         \<and> (\<exists>p \<in> set (sr_patterns r). matches_world p w)))"
proof -
  let ?P = "\<lambda>(i, r). fresh_record c (tt_expiry t) r" and ?Q = "\<lambda>(i :: string, r). \<exists>p \<in> set (sr_patterns r). matches_world p w"
  have t: "targets = map fst (filter ?Q (filter ?P (tt_records t)))"
    using assms(1) by (auto simp: nodes_subscribed_to_world_def sub_prune_def Let_def split: prod.splits)
  have "distinct targets" unfolding t using assms(2) by (simp add: distinct_map_filter)
  moreover have "length targets \<le> length (tt_records t)"
    unfolding t by (simp only: length_map) (meson le_trans length_filter_le)
  moreover have "i \<in> set targets \<longleftrightarrow> (\<exists>r. (i, r) \<in> set (tt_records t) \<and> ?P (i, r) \<and> ?Q (i, r))" for i
    unfolding t by force
  ultimately show ?thesis using assms(2) by simp
qed

lemma poll_one_batch:
  assumes "sw_rx net (tr_rx (rp_transport B)) = [(s, env)]" and "carries NL a batch env"
    and "rp_incoming B = []" "rg_seen (rp_replay B) a = []"
    and "should_ingest B (ab_world batch)" "rp_can_receive B (ab_world batch) a"
    and "poll_inbox NL c B net = (r, B', net')"
  shows "r = Inr () \<and> rp_incoming B' = [(a, batch)]"
proof -
  have env: "se_from env = a" "decode_message NL env = Inr (SwAtomBatch batch)" using assms(2) by (auto simp: carries_def)
  have "fst (should_accept (ck_mono c) a (se_correlation_id env) (rp_replay B))"
    using assms(4) by (simp add: should_accept_def Let_def)
  then have t: "fst (take_in NL c env B) = Inr () \<and> rp_incoming (snd (take_in NL c env B)) = [(a, batch)]"
    using env assms(3,5,6) by (auto simp: take_in_def enqueue_batch_def should_ingest_def Let_def split: prod.split)
  obtain B1 where B1: "take_in NL c env B = (Inr (), B1)" "rp_incoming B1 = [(a, batch)]"
    "rp_transport B1 = rp_transport B"
    using t take_in_transport [of NL c env B] by (cases "take_in NL c env B") auto
  let ?net1 = "net\<lparr>sw_rx := (sw_rx net)(tr_rx (rp_transport B) := [])\<rparr>"
  have "poll_inbox NL c B net = poll_inbox NL c B1 ?net1"
    by (subst poll_inbox.simps) (use assms(1) B1(1) in \<open>simp add: transport_poll_def\<close>)
  also have "\<dots> = (Inr (), B1, ?net1)"
    by (subst poll_inbox.simps) (simp add: transport_poll_def B1(3))
  finally show ?thesis using assms(7) B1(2) by simp
qed

text \<open>
  C6: An announced subscription is served. On an in-memory bus where each node listens on its own
  inbox and on the broadcast subject, after node \<open>b\<close> announces its patterns, an atom that node \<open>a\<close>
  replicates before the subscription expires, in a world that \<open>b\<close> takes in and that both policies
  allow, is what \<open>b\<close> finds when it polls its empty inbox: the batch of that one atom, from \<open>a\<close>. It
  needs \<open>a\<close>'s limiter to have tokens for its subscribers and codecs that read back what they write.
\<close>

theorem announced_world_is_replicated:
  fixes net :: "(mock_subs, 'd) swarm_net"
  assumes wiring: "inboxes (sw_bus net) box" "sw_bus net SUBJECT_BROADCAST = map (\<lambda>(i, t). IntentHandler i t) ls"
      "distinct (map snd ls)" "(a, rp_table A) \<in> set ls" "box b = Some (tr_rx (rp_transport B))"
    and ids: "tr_self (rp_transport A) = a" "tr_self (rp_transport B) = b" "a \<noteq> b"
    and sender: "distinct (map fst (tt_records (sw_tables net (rp_table A))))"
      "\<not> transport_backing_off c' (rp_transport A)"
      "admits c' (Suc (length (tt_records (sw_tables net (rp_table A))))) (tr_limiter (rp_transport A))"
    and receiver: "sw_rx net (tr_rx (rp_transport B)) = []" "rp_incoming B = []" "rg_seen (rp_replay B) a = []"
      "rp_expiry B div 2 \<le> elapsed c (rp_last_announce B)" "should_ingest B (a_world x)"
    and fresh: "ck_mono c' - ck_mono c \<le> tt_expiry (sw_tables net (rp_table A))"
    and policies: "rp_can_send A (a_world x) b" "rp_can_receive B (a_world x) a"
    and wire: "wire_ok NL c b (SwSubscriptionIntent (rp_self_patterns B))"
      "wire_ok NL c' a (SwAtomBatch \<lparr>ab_world = a_world x, ab_atoms = [x]\<rparr>)"
    and run: "announce (mock_bus NL F) NL c B net = (r1, B1, net1)"
      "replicate_new_atom (mock_bus NL F) NL F c' x A net1 = (r2, A2, net2)"
      "poll_inbox NL c'' B1 net2 = (r3, B3, net3)"
  shows "r1 = Inr () \<and> r2 = Inr () \<and> r3 = Inr ()
    \<and> poll_atom_batch B3 = (Some (a, \<lparr>ab_world = a_world x, ab_atoms = [x]\<rparr>), B3\<lparr>rp_incoming := []\<rparr>)"
proof -
  let ?batch = "\<lparr>ab_world = a_world x, ab_atoms = [x]\<rparr>" and ?t = "sw_tables net1 (rp_table A)"
  let ?old = "sw_tables net (rp_table A)"
  have ann: "r1 = Inr ()" "B1 = B\<lparr>rp_last_announce := int (ck_mono c)\<rparr>" "sw_bus net1 = sw_bus net" "sw_rx net1 = sw_rx net"
    and filed: "\<forall>i t. (i, t) \<in> set ls \<longrightarrow> i \<noteq> b \<longrightarrow>
      sw_tables net1 t = with_intent c b (rp_self_patterns B) (sw_tables net t)"
    using mb.announce_files [OF _ wiring(2,3) receiver(4) run(1)] wire(1) unfolding ids(2) by simp_all
  have t: "?t = with_intent c b (rp_self_patterns B) ?old"
    using filed [rule_format, OF wiring(4) ids(3)] .
  obtain targets t d where tg: "nodes_subscribed_to_world F c' (a_world x) ?t (sw_disk net1) = (targets, t, d)"
    by (metis prod_cases3)
  have rec: "map_of (tt_records ?t) b = Some \<lparr>sr_patterns = rp_self_patterns B, sr_last_seen = int (ck_mono c)\<rparr>"
    "tt_expiry ?t = tt_expiry ?old" "distinct (map fst (tt_records ?t))" "length (tt_records ?t) \<le> Suc (length (tt_records ?old))"
    using sender(1) length_update_le unfolding t by (auto simp: with_intent_def update_conv' distinct_update)
  let ?r = "\<lparr>sr_patterns = rp_self_patterns B, sr_last_seen = int (ck_mono c)\<rparr>"
  have "fresh_record c' (tt_expiry ?t) ?r"
    using fresh rec(2) by (simp add: fresh_record_def elapsed_def nat_diff_distrib')
  moreover have "\<exists>p \<in> set (sr_patterns ?r). matches_world p (a_world x)"
    using receiver(5) by (simp add: should_ingest_def)
  ultimately have targets: "b \<in> set targets" "distinct targets" "length targets \<le> Suc (length (tt_records ?old))"
    using subscribed_targets [OF tg rec(3)] rec(1,4) by (blast, simp, linarith)
  let ?net = "net1\<lparr>sw_tables := (sw_tables net1)(rp_table A := t), sw_disk := d\<rparr>"
  obtain A3 net3' where ship: "ship_batch (mock_bus NL F) NL c' ?batch targets A ?net = (A3, net3')" by fastforce
  have r2: "r2 = Inr ()" "net2 = net3'"
    using run(2) ship targets(1) by (cases targets; simp add: replicate_new_atom_def tg Let_def)+
  have "inboxes (sw_bus ?net) box" using wiring(1) ann(3) by simp
  from mb.ship_batch_delivers [OF wire(2) this ids(1) targets(2) sender(2) admits_le [OF sender(3) targets(3)] ship wiring(5)]
  have "mb.shipped NL a (rp_can_send A) ?batch targets b (tr_rx (rp_transport B)) ?net net2" using r2(2) by simp
  then obtain env where "carries NL a ?batch env" "sw_rx net2 (tr_rx (rp_transport B)) = [([], env)]"
    using targets(1) ids(3) policies(1) receiver(1) ann(4) by (auto simp: mb.shipped_def)
  then have "r3 = Inr () \<and> rp_incoming B3 = [(a, ?batch)]"
    using poll_one_batch [OF _ _ _ _ _ _ run(3)] receiver policies(2) ann(2) by (auto simp: should_ingest_def)
  then show ?thesis using ann(1) r2(1) by (simp add: poll_atom_batch_def)
qed

lemma inbox_subject_eq [simp]: "inbox_subject i = inbox_subject j \<longleftrightarrow> i = j"
  by (simp add: inbox_subject_def)

lemma inbox_not_broadcast [simp]: "inbox_subject i \<noteq> SUBJECT_BROADCAST" "SUBJECT_BROADCAST \<noteq> inbox_subject i"
proof -
  have "rev (inbox_subject i) \<noteq> rev SUBJECT_BROADCAST" by (simp add: inbox_subject_def SUBJECT_BROADCAST_def)
  then show "inbox_subject i \<noteq> SUBJECT_BROADCAST" "SUBJECT_BROADCAST \<noteq> inbox_subject i" by force+
qed

text \<open>Two nodes on one bus, with codecs for just the messages they exchange.\<close>

definition toy_atom :: atom where
  "toy_atom = \<lparr>a_id = ''atom-1'', a_world = ''w:x'', a_worker = ''k'', a_kind = Observation, a_timestamp = ''t'',
     a_importance = Importance 0, a_payload_json = '''', a_vector = None, a_flags = [], a_labels = [], a_links = []\<rparr>"

definition toy_batch :: atom_batch where
  "toy_batch = \<lparr>ab_world = ''w:x'', ab_atoms = [toy_atom]\<rparr>"

definition toy_envelope :: "peer_id \<Rightarrow> peer_id option \<Rightarrow> string \<Rightarrow> swarm_envelope" where
  "toy_envelope from to kind =
     \<lparr>se_kind = kind, se_from = from, se_to = to, se_correlation_id = '''', se_reply_to = None, se_payload = kind,
      se_sent_at_ms = 0\<rparr>"

fun toy_to :: "peer_id option \<Rightarrow> string" where
  "toy_to None = []"
| "toy_to (Some t) = CHR ''>'' # t"

fun toy_from :: "string \<Rightarrow> peer_id option" where
  "toy_from [] = None"
| "toy_from (c # t) = Some t"

definition toy_nats :: nats_lib where
  "toy_nats = \<lparr>nl_hex = (\<lambda>b. b), nl_rng = (\<lambda>_ _. []),
     nl_msg_enc = (\<lambda>m. if m = SwAtomBatch toy_batch then Inr ''AtomBatch''
        else if m = SwSubscriptionIntent [''w:*''] then Inr ''SubscriptionIntent'' else Inl ''unsupported''),
     nl_msg_dec = (\<lambda>b. if b = ''AtomBatch'' then Inr (SwAtomBatch toy_batch) else Inr (SwSubscriptionIntent [''w:*''])),
     nl_env_enc = (\<lambda>e. if e = toy_envelope ''a'' (se_to e) ''AtomBatch'' then Inr (CHR ''A'' # toy_to (se_to e))
        else if e = toy_envelope ''b'' (se_to e) ''SubscriptionIntent'' then Inr (CHR ''S'' # toy_to (se_to e)) else Inl ''bad''),
     nl_env_dec = (\<lambda>b. case b of [] \<Rightarrow> Inl ''bad''
        | c # t \<Rightarrow> Inr (if c = CHR ''A'' then toy_envelope ''a'' (toy_from t) ''AtomBatch''
                        else toy_envelope ''b'' (toy_from t) ''SubscriptionIntent''))\<rparr>"

definition no_files :: "unit file_lib" where
  "no_files = \<lparr>fl_read = (\<lambda>_ _. Inl ''none''), fl_parent = (\<lambda>_. None), fl_create_dir_all = (\<lambda>_ d. (Inr (), d)),
     fl_write = (\<lambda>_ _ d. (Inr (), d)), fl_state_enc = (\<lambda>_. Inl ''none''), fl_state_dec = (\<lambda>_. Inl ''none'')\<rparr>"

definition toy_node :: "string \<Rightarrow> nat \<Rightarrow> replicator" where
  "toy_node i n =
     \<lparr>rp_transport = \<lparr>tr_self = i, tr_limiter = bucket_new 0x4008000000000000 9, tr_backoff_until = None, tr_rx = n\<rparr>,
      rp_table = n, rp_self_patterns = [''w:*''], rp_expiry = 30, rp_last_announce = -21, rp_incoming = [],
      rp_max_inbox = 8, rp_dropped_inbox = 0, rp_dropped_replay = 0, rp_replay = replay_new 300 2048,
      rp_can_send = allow_all, rp_can_receive = allow_all\<rparr>"

definition toy_net :: "(mock_subs, unit) swarm_net" where
  "toy_net =
     \<lparr>sw_bus = (\<lambda>_. [])(inbox_subject ''a'' := [InboxHandler 0], inbox_subject ''b'' := [InboxHandler 1],
        SUBJECT_BROADCAST := [IntentHandler ''a'' 0, IntentHandler ''b'' 1]),
      sw_rx = (\<lambda>_. []), sw_replies = (\<lambda>_. []),
      sw_tables = (\<lambda>_. \<lparr>tt_records = [], tt_expiry = 30, tt_path = None\<rparr>), sw_disk = (), sw_next = 2, sw_draws = 0\<rparr>"

lemma toy_inboxes: "inboxes (sw_bus toy_net) [''a'' \<mapsto> 0, ''b'' \<mapsto> 1]"
  by (auto simp: inboxes_def toy_net_def split: if_splits)

lemma toy_wire:
  "wire_ok toy_nats \<lparr>ck_mono = 9, ck_wall = 0\<rparr> ''b'' (SwSubscriptionIntent [''w:*''])"
  "wire_ok toy_nats \<lparr>ck_mono = 9, ck_wall = 0\<rparr> ''a'' (SwAtomBatch toy_batch)"
proof -
  have to: "toy_from (toy_to t) = t" for t by (cases t) auto
  have e: "envelope_of toy_nats \<lparr>ck_mono = 9, ck_wall = 0\<rparr> f t m (message_kind m) n = toy_envelope f t (message_kind m)" for f t m n
    by (simp add: envelope_of_def toy_envelope_def toy_nats_def)
  show "wire_ok toy_nats \<lparr>ck_mono = 9, ck_wall = 0\<rparr> ''b'' (SwSubscriptionIntent [''w:*''])"
    unfolding wire_ok_def using e [of _ _ "SwSubscriptionIntent [''w:*'']"]
    by (intro exI [of _ "''SubscriptionIntent''"]) (simp add: toy_nats_def to, simp add: toy_envelope_def)
  show "wire_ok toy_nats \<lparr>ck_mono = 9, ck_wall = 0\<rparr> ''a'' (SwAtomBatch toy_batch)"
    unfolding wire_ok_def using e [of _ _ "SwAtomBatch toy_batch"]
    by (intro exI [of _ "''AtomBatch''"]) (simp add: toy_nats_def to, simp add: toy_envelope_def)
qed

lemma toy_admits: "admits \<lparr>ck_mono = 9, ck_wall = 0\<rparr> (Suc 0) (bucket_new 0x4008000000000000 9)"
proof -
  have "burst_grants 1 9 (bucket_new 0x4008000000000000 9) = min 1 (f64_floor (tb_tokens (bucket_new 0x4008000000000000 9)))"
    by (rule burst_grants_tokens) (simp_all add: bucket_new_def Let_def f64_one_def fl_max_def fl_eval fl_finite_def)
  moreover have "f64_floor (tb_tokens (bucket_new 0x4008000000000000 9)) = 3"
    by (simp add: bucket_new_def Let_def f64_one_def f64_floor_def) (simp add: fl_eval)
  ultimately show ?thesis by (auto simp: limiter_allow_def split: prod.splits if_splits)
qed

theorem announced_world_is_replicated_witness:
  "case announce (mock_bus toy_nats no_files) toy_nats \<lparr>ck_mono = 9, ck_wall = 0\<rparr> (toy_node ''b'' 1) toy_net of
     (_, B1, net1) \<Rightarrow>
   case replicate_new_atom (mock_bus toy_nats no_files) toy_nats no_files \<lparr>ck_mono = 9, ck_wall = 0\<rparr> toy_atom
       (toy_node ''a'' 0) net1 of
     (_, _, net2) \<Rightarrow>
   case poll_inbox toy_nats \<lparr>ck_mono = 9, ck_wall = 0\<rparr> B1 net2 of
     (_, B3, _) \<Rightarrow> fst (poll_atom_batch B3) = Some (''a'', toy_batch)"
proof -
  let ?c = "\<lparr>ck_mono = 9, ck_wall = 0\<rparr>" and ?bus = "mock_bus toy_nats no_files"
  obtain r1 B1 net1 r2 A2 net2 r3 B3 net3 where
    run: "announce ?bus toy_nats ?c (toy_node ''b'' 1) toy_net = (r1, B1, net1)"
      "replicate_new_atom ?bus toy_nats no_files ?c toy_atom (toy_node ''a'' 0) net1 = (r2, A2, net2)"
      "poll_inbox toy_nats ?c B1 net2 = (r3, B3, net3)"
    by (metis prod_cases3)
  have "poll_atom_batch B3 = (Some (''a'', \<lparr>ab_world = a_world toy_atom, ab_atoms = [toy_atom]\<rparr>), B3\<lparr>rp_incoming := []\<rparr>)"
    using announced_world_is_replicated [OF toy_inboxes, of "[(''a'', 0), (''b'', 1)]" "''a''" "toy_node ''a'' 0" "''b''"
        "toy_node ''b'' 1" ?c ?c toy_atom toy_nats no_files, OF _ _ _ _ _ _ _ _ _ _ _ _ _ _ _ _ _ _ _ _ run]
      toy_wire toy_admits
    by (simp add: toy_node_def toy_net_def toy_atom_def toy_batch_def replay_new_def elapsed_def should_ingest_def
        allow_all_def transport_backing_off_def colon_pattern_matches_sibling [of "''w''" "'':x''", simplified])
  then show ?thesis using run by (simp add: toy_batch_def toy_atom_def)
qed

section \<open>The inbox\<close>

text \<open>What the loop of \<open>poll_inbox\<close> never touches.\<close>

definition inbox_frame :: "replicator \<Rightarrow> nats_transport \<times> string list \<times> nat \<times> (string \<Rightarrow> peer_id \<Rightarrow> bool)" where
  "inbox_frame R = (rp_transport R, rp_self_patterns R, rp_max_inbox R, rp_can_receive R)"

lemma inbox_frameD:
  "inbox_frame R' = inbox_frame R \<Longrightarrow> rp_transport R' = rp_transport R \<and> rp_self_patterns R' = rp_self_patterns R
    \<and> rp_max_inbox R' = rp_max_inbox R \<and> rp_can_receive R' = rp_can_receive R"
  by (simp add: inbox_frame_def)

text \<open>\<open>R'\<close> is \<open>R\<close> with the batches \<open>new\<close> behind its inbox and the \<open>k\<close> oldest ones dropped.\<close>

definition admitted :: "replicator \<Rightarrow> (peer_id \<times> atom_batch) list \<Rightarrow> nat \<Rightarrow> replicator \<Rightarrow> bool" where
  "admitted R new k R' \<longleftrightarrow>
     inbox_frame R' = inbox_frame R \<and> k \<le> length (rp_incoming R @ new)
   \<and> rp_incoming R' = drop k (rp_incoming R @ new) \<and> rp_dropped_inbox R' = rp_dropped_inbox R + of_nat k
   \<and> length (rp_incoming R') \<le> rp_max_inbox R"

lemma admitted_cong:
  "inbox_frame R2 = inbox_frame R \<Longrightarrow> rp_incoming R2 = rp_incoming R \<Longrightarrow> rp_dropped_inbox R2 = rp_dropped_inbox R \<Longrightarrow>
   admitted R2 new k R1 = admitted R new k R1"
  using inbox_frameD [of R2 R] unfolding admitted_def by simp

lemma admitted_trans:
  assumes "admitted R new k R1" "admitted R1 new1 k1 R2"
  shows "admitted R (new @ new1) (k + k1) R2"
proof -
  have k: "k \<le> length (rp_incoming R @ new)" and R1: "rp_incoming R1 = drop k (rp_incoming R @ new)"
    using assms(1) by (simp_all only: admitted_def)
  have eq: "rp_incoming R1 @ new1 = drop k (rp_incoming R @ (new @ new1))" unfolding R1 using k by simp
  have "rp_incoming R2 = drop (k + k1) (rp_incoming R @ (new @ new1))"
    using assms(2) unfolding admitted_def eq drop_drop by (simp only: add.commute)
  moreover have "k + k1 \<le> length (rp_incoming R @ (new @ new1))"
    using assms(2) k unfolding admitted_def eq by (simp only: length_drop length_append) linarith
  moreover have "rp_dropped_inbox R2 = rp_dropped_inbox R + of_nat (k + k1)"
    using assms by (simp only: admitted_def of_nat_add add.assoc)
  moreover have fr: "inbox_frame R1 = inbox_frame R" "inbox_frame R2 = inbox_frame R1"
    "length (rp_incoming R2) \<le> rp_max_inbox R1"
    using assms unfolding admitted_def by blast+
  ultimately show ?thesis
    using trans [OF fr(2,1)] inbox_frameD [OF fr(1)] unfolding admitted_def by (metis (no_types))
qed

lemma admitted_enqueue:
  "length (rp_incoming R) \<le> rp_max_inbox R \<Longrightarrow> 0 < rp_max_inbox R \<Longrightarrow>
   \<exists>k. admitted R [(from, batch)] k (enqueue_batch from batch R)"
  by (rule exI [of _ "if rp_max_inbox R \<le> length (rp_incoming R) then 1 else 0"])
    (auto simp: admitted_def enqueue_batch_def inbox_frame_def Let_def drop_Suc)

definition invited :: "nats_lib \<Rightarrow> replicator \<Rightarrow> swarm_envelope \<Rightarrow> peer_id \<times> atom_batch \<Rightarrow> bool" where
  "invited NL R env x \<longleftrightarrow> carries NL (fst x) (snd x) env
     \<and> should_ingest R (ab_world (snd x)) \<and> rp_can_receive R (ab_world (snd x)) (fst x)"

lemma take_in_admits:
  assumes "take_in NL c env R = (r, R1)" "length (rp_incoming R) \<le> rp_max_inbox R" "0 < rp_max_inbox R"
  shows "(\<exists>new k. admitted R new k R1 \<and> (\<forall>x \<in> set new. invited NL R env x))
    \<and> (\<forall>e. r = Inl e \<longrightarrow> decode_message NL env = Inl e)"
proof -
  obtain ok g where g: "should_accept (ck_mono c) (se_from env) (se_correlation_id env) (rp_replay R) = (ok, g)" by fastforce
  let ?R = "R\<lparr>rp_replay := g\<rparr>"
  have skip: "admitted R [] 0 R2" if "inbox_frame R2 = inbox_frame R" "rp_incoming R2 = rp_incoming R"
    "rp_dropped_inbox R2 = rp_dropped_inbox R" for R2
    using that assms(2) by (simp add: admitted_def)
  have same: "should_ingest ?R = should_ingest R" "rp_can_receive ?R = rp_can_receive R" "inbox_frame ?R = inbox_frame R"
    by (auto simp: should_ingest_def inbox_frame_def)
  consider (batch) batch where "ok" "decode_message NL env = Inr (SwAtomBatch batch)" "should_ingest R (ab_world batch)"
      "rp_can_receive R (ab_world batch) (se_from env)" "R1 = enqueue_batch (se_from env) batch ?R" "r = Inr ()"
    | (skip) "inbox_frame R1 = inbox_frame R" "rp_incoming R1 = rp_incoming R" "rp_dropped_inbox R1 = rp_dropped_inbox R"
      "\<forall>e. r = Inl e \<longrightarrow> decode_message NL env = Inl e"
    using assms(1) same
    by (auto simp: take_in_def g Let_def inbox_frame_def split: if_splits sum.splits swarm_message.splits)
  then show ?thesis
  proof cases
    case batch
    obtain k where "admitted ?R [(se_from env, batch)] k R1"
      using admitted_enqueue [of ?R "se_from env" batch] assms(2,3) batch(5) by auto
    then have "admitted R [(se_from env, batch)] k R1"
      using admitted_cong [of ?R R] by (simp add: inbox_frame_def)
    then show ?thesis using batch by (auto simp: invited_def carries_def intro!: exI [of _ "[(se_from env, batch)]"])
  qed (use skip in \<open>auto intro!: exI [of _ "[]"] exI [of _ 0]\<close>)
qed

lemma poll_inbox_run:
  "poll_inbox NL c R net = (r, R', net') \<Longrightarrow> length (rp_incoming R) \<le> rp_max_inbox R \<Longrightarrow> 0 < rp_max_inbox R \<Longrightarrow>
   (\<exists>new k. admitted R new k R'
      \<and> (\<forall>x \<in> set new. \<exists>(s, env) \<in> set (sw_rx net (tr_rx (rp_transport R))). invited NL R env x))
   \<and> (r = Inr () \<longrightarrow> sw_rx net' (tr_rx (rp_transport R)) = [])
   \<and> (\<forall>e. r = Inl e \<longrightarrow> (\<exists>(s, env) \<in> set (sw_rx net (tr_rx (rp_transport R))). decode_message NL env = Inl e))"
proof (induction NL c R net rule: poll_inbox.induct)
  case (1 NL c R net)
  let ?q = "sw_rx net (tr_rx (rp_transport R))"
  show ?case
  proof (cases "?q = []")
    case True
    then have "transport_poll (rp_transport R) net = (None, net)" by (simp add: transport_poll_def)
    then have "r = Inr ()" "R' = R" "net' = net" using "1.prems"(1) by (simp_all add: poll_inbox.simps [of NL c R net])
    then show ?thesis
      using True "1.prems"(2) by (auto simp: admitted_def intro!: exI [of _ "[]"] exI [of _ 0])
  next
    case False
    obtain s env where m: "last ?q = (s, env)" by fastforce
    let ?net1 = "net\<lparr>sw_rx := (sw_rx net)(tr_rx (rp_transport R) := butlast ?q)\<rparr>"
    have poll: "transport_poll (rp_transport R) net = (Some (s, env), ?net1)"
      using False m by (simp add: transport_poll_def)
    obtain t R1 where t: "take_in NL c env R = (t, R1)" by fastforce
    obtain new1 k1 where a1: "admitted R new1 k1 R1" "\<forall>x \<in> set new1. invited NL R env x"
      and err: "\<forall>e. t = Inl e \<longrightarrow> decode_message NL env = Inl e"
      using take_in_admits [OF t "1.prems"(2,3)] by blast
    have mem: "(s, env) \<in> set ?q" using m False by (metis last_in_set)
    show ?thesis
    proof (cases t)
      case (Inl e)
      then have "r = Inl e" "R' = R1" using "1.prems"(1) poll t by (simp_all add: poll_inbox.simps [of NL c R net])
      then show ?thesis using a1 err Inl mem by fastforce
    next
      case (Inr u)
      note fr = inbox_frameD [of R1 R]
      have step: "poll_inbox NL c R1 ?net1 = (r, R', net')"
        using "1.prems"(1) poll t Inr by (simp add: poll_inbox.simps [of NL c R net])
      have R1: "rp_transport R1 = rp_transport R" "rp_max_inbox R1 = rp_max_inbox R" "invited NL R1 = invited NL R"
        "length (rp_incoming R1) \<le> rp_max_inbox R1"
        using a1(1) fr by (auto simp: admitted_def invited_def should_ingest_def fun_eq_iff)
      have q1: "sw_rx ?net1 (tr_rx (rp_transport R)) = butlast ?q" by simp
      have "0 < rp_max_inbox R1" using "1.prems"(3) R1(2) by simp
      note IH = "1.IH" [OF poll [symmetric] refl refl t [symmetric] Inr step R1(4) this, unfolded R1(1,3) q1]
      then obtain new2 k2 where a2: "admitted R1 new2 k2 R'"
        "\<forall>x \<in> set new2. \<exists>(s, env) \<in> set (butlast ?q). invited NL R env x" by blast
      have "admitted R (new1 @ new2) (k1 + k2) R'" using a1(1) a2(1) by (rule admitted_trans)
      moreover have "\<forall>x \<in> set (new1 @ new2). \<exists>(s, env) \<in> set ?q. invited NL R env x"
        using a1(2) a2(2) mem by (fastforce dest: in_set_butlastD)
      moreover have "\<forall>e. r = Inl e \<longrightarrow> (\<exists>(s, env) \<in> set ?q. decode_message NL env = Inl e)"
        using IH by (fastforce dest: in_set_butlastD)
      ultimately show ?thesis using IH by blast
    qed
  qed
qed

text \<open>
  C30: The inbox admits only what the node asked for and stays within its bound. \<open>poll_inbox\<close> puts
  batches \<open>new\<close> behind the inbox and drops the \<open>k\<close> oldest, which it counts; each new batch is what
  a queued envelope carries, in a world that one of the node's patterns covers and that the policy
  lets its sender send. Success leaves the queue empty; the only error is an envelope that does not
  decode.
\<close>

theorem poll_inbox_admits:
  assumes "poll_inbox NL c R net = (r, R', net')"
    and "length (rp_incoming R) \<le> rp_max_inbox R" and "0 < rp_max_inbox R"
  shows "(\<exists>new k. rp_incoming R' = drop k (rp_incoming R @ new) \<and> k \<le> length (rp_incoming R @ new)
        \<and> rp_dropped_inbox R' = rp_dropped_inbox R + of_nat k \<and> length (rp_incoming R') \<le> rp_max_inbox R
        \<and> (\<forall>(from, batch) \<in> set new. \<exists>(s, env) \<in> set (sw_rx net (tr_rx (rp_transport R))).
             carries NL from batch env \<and> should_ingest R (ab_world batch) \<and> rp_can_receive R (ab_world batch) from))
    \<and> (r = Inr () \<longrightarrow> sw_rx net' (tr_rx (rp_transport R)) = [])
    \<and> (\<forall>e. r = Inl e \<longrightarrow> (\<exists>(s, env) \<in> set (sw_rx net (tr_rx (rp_transport R))). decode_message NL env = Inl e))"
proof -
  obtain new k where a: "admitted R new k R'"
    "\<forall>x \<in> set new. \<exists>(s, env) \<in> set (sw_rx net (tr_rx (rp_transport R))). invited NL R env x"
    using poll_inbox_run [OF assms] by blast
  have "\<forall>(from, batch) \<in> set new. \<exists>(s, env) \<in> set (sw_rx net (tr_rx (rp_transport R))).
      carries NL from batch env \<and> should_ingest R (ab_world batch) \<and> rp_can_receive R (ab_world batch) from"
    using a(2) by (force simp: invited_def)
  moreover have "rp_incoming R' = drop k (rp_incoming R @ new)" "k \<le> length (rp_incoming R @ new)"
    "rp_dropped_inbox R' = rp_dropped_inbox R + of_nat k" "length (rp_incoming R') \<le> rp_max_inbox R"
    using a(1) unfolding admitted_def by blast+
  ultimately show ?thesis using poll_inbox_run [OF assms] by blast
qed

text \<open>Node \<open>b\<close> polls an inbox that holds one batch from \<open>a\<close>, in a world that its pattern covers.\<close>

theorem poll_inbox_admits_witness:
  "\<exists>R net'. poll_inbox toy_nats \<lparr>ck_mono = 9, ck_wall = 0\<rparr> (toy_node ''b'' 1)
      (toy_net\<lparr>sw_rx := (\<lambda>_. [('''', toy_envelope ''a'' (Some ''b'') ''AtomBatch'')])\<rparr>) = (Inr (), R, net')
    \<and> rp_incoming R = [(''a'', toy_batch)] \<and> sw_rx net' 1 = []
    \<and> should_ingest (toy_node ''b'' 1) (ab_world toy_batch) \<and> length (rp_incoming R) \<le> 8"
proof -
  let ?env = "toy_envelope ''a'' (Some ''b'') ''AtomBatch''" and ?B = "toy_node ''b'' 1"
  let ?net = "toy_net\<lparr>sw_rx := (\<lambda>_. [('''', ?env)])\<rparr>"
  obtain r R net' where p: "poll_inbox toy_nats \<lparr>ck_mono = 9, ck_wall = 0\<rparr> ?B ?net = (r, R, net')" by (metis prod_cases3)
  have B: "rp_incoming (toy_node i n) = []" "rp_max_inbox (toy_node i n) = 8" "tr_rx (rp_transport (toy_node i n)) = n"
    for i n by (simp_all add: toy_node_def)
  have covered: "should_ingest ?B (ab_world toy_batch)"
    by (simp add: toy_node_def toy_batch_def should_ingest_def colon_pattern_matches_sibling [of "''w''" "'':x''", simplified])
  have r: "r = Inr () \<and> rp_incoming R = [(''a'', toy_batch)]"
    by (rule poll_one_batch [OF _ _ _ _ covered _ p, of "''''" ?env])
      (simp_all add: B carries_def toy_envelope_def decode_message_def toy_nats_def toy_node_def replay_new_def allow_all_def)
  have "length (rp_incoming ?B) \<le> rp_max_inbox ?B" "0 < rp_max_inbox ?B" by (simp_all add: B)
  from poll_inbox_admits [OF p this] have "length (rp_incoming R) \<le> 8 \<and> (r = Inr () \<longrightarrow> sw_rx net' 1 = [])"
    unfolding B by blast
  then show ?thesis using r covered p by blast
qed

section \<open>Requests\<close>

lemma request_wait_skip:
  "\<forall>j. n \<le> j \<and> j < k \<longrightarrow> fst (obs j) < timeout \<and> snd (obs j) = [] \<Longrightarrow> n \<le> k \<Longrightarrow>
   request_wait timeout obs n [] = request_wait timeout obs k []"
proof (induction "k - n" arbitrary: n)
  case (Suc d)
  then have "fst (obs n) < timeout" "snd (obs n) = []" "n < k" by auto
  then have "request_wait timeout obs n [] = request_wait timeout obs (Suc n) []"
    by (simp add: request_wait.simps [of timeout obs n])
  then show ?case using Suc \<open>n < k\<close> by simp
qed simp

lemma request_wait_returns:
  assumes "\<And>n. 5000000 * n \<le> fst (obs n)"
  obtains k where "k \<le> Suc (timeout div 5000000)" "\<forall>j < k. fst (obs j) < timeout \<and> snd (obs j) = []"
    "fst (obs k) < timeout \<Longrightarrow> snd (obs k) \<noteq> []"
    "request_wait timeout obs 0 [] =
       Some (if fst (obs k) < timeout then (Some (last (snd (obs k))), butlast (snd (obs k))) else (None, snd (obs k)))"
proof -
  define P where "P k \<longleftrightarrow> \<not> (fst (obs k) < timeout \<and> snd (obs k) = [])" for k
  let ?m = "Suc (timeout div 5000000)"
  have "timeout < 5000000 * ?m" by simp
  then have "P ?m" using assms [of ?m] unfolding P_def by linarith
  then obtain k where k: "k \<le> ?m" "\<forall>j < k. \<not> P j" "P k" using ex_least_nat_le [of P ?m] by blast
  have skip: "\<forall>j < k. fst (obs j) < timeout \<and> snd (obs j) = []" using k(2) by (simp add: P_def)
  have "request_wait timeout obs 0 [] = request_wait timeout obs k []"
    by (rule request_wait_skip) (use skip in simp_all)
  also have "\<dots> = Some (if fst (obs k) < timeout then (Some (last (snd (obs k))), butlast (snd (obs k))) else (None, snd (obs k)))"
    using k(3) by (subst request_wait.simps) (simp add: P_def)
  finally show thesis using that [OF k(1) skip] k(3) unfolding P_def by blast
qed

lemma fold_keeps_replies:
  "\<forall>h \<in> set hs. h \<noteq> ReplyHandler a \<Longrightarrow> sw_replies (fold (run_handler NL F c b r) hs net) a = sw_replies net a"
proof (induction hs arbitrary: net)
  case (Cons h hs)
  then have "sw_replies (run_handler NL F c b r h net) a = sw_replies net a"
    by (cases h)
      (auto simp: push_inbox_def push_reply_def file_intent_def split: sum.split swarm_message.split prod.split)
  then show ?case using Cons by simp
qed simp

lemma reply_not_inbox:
  assumes "CHR ''x'' \<notin> set rid"
  shows "reply_subject self rid \<noteq> inbox_subject to"
proof
  assume "reply_subject self rid = inbox_subject to"
  then have "rev (reply_subject self rid) = rev (inbox_subject to)" by simp
  then show False using assms by (cases "rev rid") (auto simp: inbox_subject_def reply_subject_def dest: arg_cong [of _ _ set])
qed

text \<open>The request that \<open>request\<close> would send can be encoded: the message, and the envelope around it.\<close>

definition encodes_request ::
  "nats_lib \<Rightarrow> clock \<Rightarrow> nats_transport \<Rightarrow> peer_id \<Rightarrow> swarm_message \<Rightarrow> ('b, 'd) swarm_net \<Rightarrow> bool" where
  "encodes_request NL c T to msg net \<longleftrightarrow>
     is_ok (rbind (fst (swarm_envelope_new NL c (tr_self T) (Some to) msg
          (Some (reply_subject (tr_self T) (nl_hex NL (nl_rng NL (sw_draws net) 8)))) (net\<lparr>sw_draws := Suc (sw_draws net)\<rparr>)))
       (nl_env_enc NL))"

text \<open>
  C31: A request returns. Each turn of its loop reads the clock and the queue of replies and sleeps
  five milliseconds, so whatever the other threads do it ends at turn \<open>timeout div 5 ms\<close> and one more
  at the latest; how late the last reading of the clock is, nothing bounds. It fails at once, with the
  transport unchanged, exactly if the transport is backing off or the request cannot be encoded.
  Else it ends at the first turn that finds the time over or a reply: before the timeout it returns
  the newest reply of that turn, after it the error \<open>request timeout\<close>, and the transport backs off.
\<close>

theorem request_terminates:
  assumes sleep: "\<And>n. 5000000 * n \<le> fst (obs n)"
    and fresh: "\<forall>h \<in> set (sw_bus net (inbox_subject to)). h \<noteq> ReplyHandler (sw_next net)"
    and hex: "CHR ''x'' \<notin> set (nl_hex NL (nl_rng NL (sw_draws net) 8))"
  shows "\<exists>res T' net' k. request (mock_bus NL F) NL c c' obs to msg timeout T net = Some (res, T', net')
    \<and> k \<le> Suc (timeout div 5000000) \<and> (\<forall>j < k. fst (obs j) < timeout \<and> snd (obs j) = [])
    \<and> (if transport_backing_off c T \<or> \<not> encodes_request NL c T to msg net then \<not> is_ok res \<and> T' = T
       else if fst (obs k) < timeout then snd (obs k) \<noteq> [] \<and> res = Inr (last (snd (obs k))) \<and> T' = T
       else res = Inl ''request timeout'' \<and> T' = transport_mark_failure c' T)"
proof (cases "transport_backing_off c T")
  case True
  then show ?thesis by (intro exI [of _ "Inl ''backing off''"] exI [of _ T] exI [of _ net] exI [of _ 0]) (simp add: request_def)
next
  case False
  obtain rid net1 where d: "draw NL 8 net = (rid, net1)" by fastforce
  then have rid: "rid = nl_hex NL (nl_rng NL (sw_draws net) 8)" and net1: "net1 = net\<lparr>sw_draws := Suc (sw_draws net)\<rparr>"
    by (auto simp: draw_def)
  let ?a = "sw_next net" and ?subject = "reply_subject (tr_self T) rid"
  let ?net2 = "net1\<lparr>sw_replies := (sw_replies net1)(?a := []), sw_next := Suc ?a\<rparr>"
  let ?net3 = "?net2\<lparr>sw_bus := (sw_bus net)(?subject := sw_bus net ?subject @ [ReplyHandler ?a])\<rparr>"
  have nx: "sw_next net1 = sw_next net" by (simp add: net1)
  have sub: "sb_subscribe (mock_bus NL F) ?subject (ReplyHandler ?a) ?net2 = (Inr (), ?net3)"
    by (simp add: mock_bus_def mock_subscribe_def net1)
  have enc: "encodes_request NL c T to msg net \<longleftrightarrow>
      is_ok (rbind (fst (swarm_envelope_new NL c (tr_self T) (Some to) msg (Some ?subject) ?net3)) (nl_env_enc NL))"
    by (simp add: encodes_request_def rid net1 swarm_envelope_new_def new_correlation_id_def draw_def split: sum.split)
  show ?thesis
  proof (cases "encodes_request NL c T to msg net")
    case no: False
    obtain e net4 where "request (mock_bus NL F) NL c c' obs to msg timeout T net = Some (Inl e, T, net4)"
    proof (cases "nl_msg_enc NL msg")
      case (Inl e)
      then show thesis using False sub that by (simp add: request_def d nx Let_def swarm_envelope_new_def)
    next
      case (Inr payload)
      obtain env net4 where e: "swarm_envelope_new NL c (tr_self T) (Some to) msg (Some ?subject) ?net3 = (Inr env, net4)"
        by (simp add: swarm_envelope_new_def Inr new_correlation_id_def draw_def)
      obtain err where "nl_env_enc NL env = Inl err" using no enc e by (cases "nl_env_enc NL env") (simp_all add: res_simps)
      then show thesis using False sub e that by (simp add: request_def d nx Let_def)
    qed
    then show ?thesis using no by (intro exI [of _ "Inl e"] exI [of _ T] exI [of _ net4] exI [of _ 0]) simp
  next
    case True
    obtain payload where payload: "nl_msg_enc NL msg = Inr payload"
      using True enc by (cases "nl_msg_enc NL msg") (simp_all add: swarm_envelope_new_def res_simps)
    obtain env net4 where e: "swarm_envelope_new NL c (tr_self T) (Some to) msg (Some ?subject) ?net3 = (Inr env, net4)"
      "sw_bus net4 = sw_bus ?net3" "sw_replies net4 = sw_replies ?net3"
      by (simp add: swarm_envelope_new_def payload new_correlation_id_def draw_def)
    obtain bytes where bytes: "nl_env_enc NL env = Inr bytes"
      using True enc e(1) by (cases "nl_env_enc NL env") (simp_all add: res_simps)
    let ?net6 = "fold (run_handler NL F c bytes (Some ?subject)) (sw_bus net4 (inbox_subject to)) net4"
    have "sw_bus net4 (inbox_subject to) = sw_bus net (inbox_subject to)"
      using reply_not_inbox [OF hex, of "tr_self T" to] e(2) by (simp add: rid)
    then have q: "sw_replies ?net6 ?a = []" using fresh e(3) by (simp add: fold_keeps_replies)
    have pub: "sb_publish (mock_bus NL F) c (inbox_subject to) (Some ?subject) bytes net4 = (Inr (), ?net6)"
      by (rule mb.publish_runs)
    obtain k where k: "k \<le> Suc (timeout div 5000000)" "\<forall>j < k. fst (obs j) < timeout \<and> snd (obs j) = []"
      "fst (obs k) < timeout \<Longrightarrow> snd (obs k) \<noteq> []"
      "request_wait timeout obs 0 [] =
         Some (if fst (obs k) < timeout then (Some (last (snd (obs k))), butlast (snd (obs k))) else (None, snd (obs k)))"
      using request_wait_returns [of obs, OF sleep] by blast
    have "request (mock_bus NL F) NL c c' obs to msg timeout T net =
        map_option (\<lambda>(r, q).
          let net7 = ?net6\<lparr>sw_replies := (sw_replies ?net6)(?a := q)\<rparr>
          in case r of Some env \<Rightarrow> (Inr env, T, net7)
                     | None \<Rightarrow> (Inl ''request timeout'', transport_mark_failure c' T, net7))
          (request_wait timeout obs 0 [])"
      using False sub e(1) bytes pub q by (simp add: request_def d nx Let_def)
    then show ?thesis using k(1-3) False True
      by (cases "fst (obs k) < timeout") (auto simp: k(4) Let_def intro!: exI [of _ k])
  qed
qed

text \<open>
  A codec that encodes every request, and two runs of a request with a timeout of twenty milliseconds:
  two replies found at the third turn, and none at all.
\<close>

definition plain_nats :: nats_lib where
  "plain_nats = toy_nats\<lparr>nl_msg_enc := (\<lambda>m. Inr ''m''), nl_env_enc := (\<lambda>e. Inr ''e''), nl_env_dec := (\<lambda>b. Inl ''bad'')\<rparr>"

definition two_replies :: "nat \<Rightarrow> nat \<times> swarm_envelope list" where
  "two_replies n = (6000000 * n, if n = 2 then [toy_envelope ''b'' None ''first'', toy_envelope ''b'' None ''second''] else [])"

definition no_replies :: "nat \<Rightarrow> nat \<times> swarm_envelope list" where
  "no_replies n = (6000000 * n, [])"

theorem request_terminates_witness:
  "\<exists>T net1 net2. T = rp_transport (toy_node ''a'' 0)
   \<and> request (mock_bus plain_nats no_files) plain_nats \<lparr>ck_mono = 9, ck_wall = 0\<rparr> \<lparr>ck_mono = 99, ck_wall = 0\<rparr>
       two_replies ''b'' (SwPing 1) 20000000 T toy_net = Some (Inr (toy_envelope ''b'' None ''second''), T, net1)
   \<and> request (mock_bus plain_nats no_files) plain_nats \<lparr>ck_mono = 9, ck_wall = 0\<rparr> \<lparr>ck_mono = 99, ck_wall = 0\<rparr>
       no_replies ''b'' (SwPing 1) 20000000 T toy_net
     = Some (Inl ''request timeout'', transport_mark_failure \<lparr>ck_mono = 99, ck_wall = 0\<rparr> T, net2)"
proof -
  let ?T = "rp_transport (toy_node ''a'' 0)" and ?c = "\<lparr>ck_mono = 9, ck_wall = 0\<rparr>" and ?c' = "\<lparr>ck_mono = 99, ck_wall = 0\<rparr>"
  have fresh: "\<forall>h \<in> set (sw_bus toy_net (inbox_subject ''b'')). h \<noteq> ReplyHandler (sw_next toy_net)" by (simp add: toy_net_def)
  have hex: "CHR ''x'' \<notin> set (nl_hex plain_nats (nl_rng plain_nats (sw_draws toy_net) 8))" by (simp add: plain_nats_def toy_nats_def)
  have ready: "\<not> transport_backing_off ?c ?T" "encodes_request plain_nats ?c ?T ''b'' (SwPing 1) toy_net"
    by (simp_all add: transport_backing_off_def toy_node_def encodes_request_def swarm_envelope_new_def plain_nats_def res_simps
        split: prod.split)
  have slow: "5000000 * n \<le> fst (two_replies n)" "5000000 * n \<le> fst (no_replies n)" for n
    by (simp_all add: two_replies_def no_replies_def)
  from request_terminates [of two_replies, OF slow(1) fresh hex, of no_files ?c ?c' "SwPing 1" 20000000 ?T]
  obtain r1 T1 net1 k1 where one: "request (mock_bus plain_nats no_files) plain_nats ?c ?c' two_replies ''b'' (SwPing 1) 20000000 ?T toy_net
        = Some (r1, T1, net1)"
    and k1: "\<forall>j < k1. fst (two_replies j) < 20000000 \<and> snd (two_replies j) = []"
    and "if transport_backing_off ?c ?T \<or> \<not> encodes_request plain_nats ?c ?T ''b'' (SwPing 1) toy_net then \<not> is_ok r1 \<and> T1 = ?T
       else if fst (two_replies k1) < 20000000 then snd (two_replies k1) \<noteq> [] \<and> r1 = Inr (last (snd (two_replies k1))) \<and> T1 = ?T
       else r1 = Inl ''request timeout'' \<and> T1 = transport_mark_failure ?c' ?T"
    by (elim exE conjE)
  then have r1: "if fst (two_replies k1) < 20000000 then snd (two_replies k1) \<noteq> [] \<and> r1 = Inr (last (snd (two_replies k1))) \<and> T1 = ?T
       else r1 = Inl ''request timeout'' \<and> T1 = transport_mark_failure ?c' ?T"
    using ready by (simp only: simp_thms if_False)
  have "k1 \<le> 2" using k1 [rule_format, of 2] by (cases "2 < k1") (simp_all add: two_replies_def)
  then have "r1 = Inr (toy_envelope ''b'' None ''second'')" "T1 = ?T"
    using r1 by (auto simp: two_replies_def split: if_splits)
  moreover from request_terminates [of no_replies, OF slow(2) fresh hex, of no_files ?c ?c' "SwPing 1" 20000000 ?T]
  obtain r2 T2 net2 k2 where two: "request (mock_bus plain_nats no_files) plain_nats ?c ?c' no_replies ''b''
        (SwPing 1) 20000000 ?T toy_net = Some (r2, T2, net2)"
    and "if transport_backing_off ?c ?T \<or> \<not> encodes_request plain_nats ?c ?T ''b'' (SwPing 1) toy_net then \<not> is_ok r2 \<and> T2 = ?T
       else if fst (no_replies k2) < 20000000
         then snd (no_replies k2) \<noteq> [] \<and> r2 = Inr (last (snd (no_replies k2))) \<and> T2 = ?T
       else r2 = Inl ''request timeout'' \<and> T2 = transport_mark_failure ?c' ?T"
    by (elim exE conjE)
  then have "r2 = Inl ''request timeout''" "T2 = transport_mark_failure ?c' ?T"
    using ready by (simp_all add: no_replies_def split: if_splits)
  ultimately show ?thesis using one two by (intro exI [of _ ?T] exI [of _ net1] exI [of _ net2]) simp
qed

end
