(* ===== verification/Nats_Events.thy ===== *)
theory Nats_Events
  imports Nats_Claims
begin

text \<open>
  The broadcaster of \<open>crates/dwbase-swarm-nats/src/world_events.rs\<close> loses no event while its calls
  succeed: what was admitted is published once, in order, in batches of at most 32 events of one
  world. The B is any one that keeps a log of what it published.
\<close>

text \<open>Buffered events of a world, and the events of a world in a log of published messages.\<close>

definition buffered :: "broadcaster \<Rightarrow> string \<Rightarrow> atom_event list" where
  "buffered W w = (case map_of (br_inner W) w of None \<Rightarrow> [] | Some (t, es) \<Rightarrow> es)"

definition logged :: "batch_codec \<Rightarrow> (string \<times> string) list \<Rightarrow> atom_event list" where
  "logged C log = concat (map (\<lambda>(s, b). case bc_dec C b of Inl _ \<Rightarrow> [] | Inr bt \<Rightarrow> eb_events bt) log)"

definition of_world :: "string \<Rightarrow> atom_event list \<Rightarrow> atom_event list" where
  "of_world w es = filter (\<lambda>e. ae_world_key e = w) es"

lemma logged_simps [simp]: "logged C [] = []" "logged C (l @ l') = logged C l @ logged C l'"
  by (simp_all add: logged_def)

lemma of_world_simps [simp]: "of_world w [] = []" "of_world w (es @ es') = of_world w es @ of_world w es'"
  by (simp_all add: of_world_def)

lemma of_world_own: "\<forall>e \<in> set es. ae_world_key e = v \<Longrightarrow> of_world w es = (if w = v then es else [])"
  by (induction es) (auto simp: of_world_def)

text \<open>A buffer holds, per world, between one and \<open>max_batch - 1\<close> events of that world.\<close>

definition buffer_ok :: "broadcaster \<Rightarrow> bool" where
  "buffer_ok W \<longleftrightarrow> distinct (map fst (br_inner W)) \<and> 0 < br_max_batch W
   \<and> (\<forall>(w, t, es) \<in> set (br_inner W). es \<noteq> [] \<and> length es < br_max_batch W \<and> (\<forall>e \<in> set es. ae_world_key e = w))"

text \<open>A message in the log is a batch of one world, on that world's subject.\<close>

definition batch_ok :: "nats_lib \<Rightarrow> batch_codec \<Rightarrow> nat \<Rightarrow> string \<times> string \<Rightarrow> bool" where
  "batch_ok NL C m x \<longleftrightarrow>
     (\<exists>w bt. fst x = world_events_subject NL w \<and> bc_dec C (snd x) = Inr bt \<and> eb_events bt \<noteq> []
        \<and> length (eb_events bt) \<le> m \<and> (\<forall>e \<in> set (eb_events bt). ae_world_key e = w))"

definition event_of :: "string \<Rightarrow> clock \<Rightarrow> atom \<Rightarrow> atom_event" where
  "event_of node c a =
     \<lparr>ae_world_key = a_world a, ae_from_node = node, ae_sent_at_ms = ck_wall c mod 2 ^ 64, ae_atom = a\<rparr>"

text \<open>A B with a log of the subjects and bytes it published, and a codec that reads back what it wrote.\<close>

definition logging_bus ::
  "('b, 'd) swarm_bus \<Rightarrow> (('b, 'd) swarm_net \<Rightarrow> (string \<times> string) list) \<Rightarrow> batch_codec \<Rightarrow> bool" where
  "logging_bus B log C \<longleftrightarrow>
     (\<forall>c s r b net net'. sb_publish B c s r b net = (Inr (), net') \<longrightarrow> log net' = log net @ [(s, b)])
   \<and> (\<forall>net d. log (net\<lparr>sw_draws := d\<rparr>) = log net)
   \<and> (\<forall>bt b. bc_enc C bt = Inr b \<longrightarrow> bc_dec C b = Inr bt)"

lemma logging_busD:
  assumes "logging_bus B log C"
  shows "sb_publish B c s r b net = (Inr (), net') \<Longrightarrow> log net' = log net @ [(s, b)]"
    and "log (net\<lparr>sw_draws := d\<rparr>) = log net" and "bc_enc C bt = Inr b \<Longrightarrow> bc_dec C b = Inr bt"
  using assms unfolding logging_bus_def by blast+

lemma update_all: "P (k, v) \<Longrightarrow> \<forall>x \<in> set m. P x \<Longrightarrow> \<forall>x \<in> set (AList.update k v m). P x"
  using update_entries [of k v m] by blast

lemma flush_logs:
  assumes lb: "logging_bus B log C" and "flush_events B NL C c w es net = (Inr (), net')" "\<forall>e \<in> set es. ae_world_key e = w"
    "es \<noteq> []" "length es \<le> m"
  shows "\<exists>x. log net' = log net @ [x] \<and> batch_ok NL C m x \<and> logged C [x] = es"
proof -
  obtain i net1 where i: "new_batch_id NL net = (i, net1)" by fastforce
  then have l: "log net1 = log net" by (auto simp: new_batch_id_def draw_def logging_busD(2) [OF lb])
  obtain b where b: "bc_enc C \<lparr>eb_batch_id = i, eb_events = es\<rparr> = Inr b"
    "sb_publish B c (world_events_subject NL w) None b net1 = (Inr (), net')"
    using assms(2,4) i by (cases "bc_enc C \<lparr>eb_batch_id = i, eb_events = es\<rparr>")
      (auto simp: flush_events_def encode_event_batch_def)
  then show ?thesis
    using assms(3-5) logging_busD(3) [OF lb b(1)] logging_busD(1) [OF lb b(2)] l
    by (auto simp: batch_ok_def logged_def intro!: exI [of _ w])
qed

text \<open>One successful call, and the flush of everything.\<close>

lemma publish_atom_step:
  assumes "publish_atom B NL C c c' a W net = (Inr (), W', net')" "buffer_ok W" "br_max_batch W \<le> m"
    and lb: "logging_bus B log C"
  shows "buffer_ok W' \<and> br_max_batch W' = br_max_batch W \<and> br_from_node W' = br_from_node W
    \<and> br_limiter W' = snd (limiter_allow c (br_limiter W))
    \<and> (\<exists>xs. log net' = log net @ xs \<and> (\<forall>x \<in> set xs. batch_ok NL C m x)
         \<and> (\<forall>w. of_world w (logged C xs) @ buffered W' w = buffered W w @
               (if fst (limiter_allow c (br_limiter W)) \<and> a_world a = w then [event_of (br_from_node W) c a] else [])))"
proof -
  obtain ok lim where l: "limiter_allow c (br_limiter W) = (ok, lim)" by fastforce
  let ?w = "a_world a" and ?e = "event_of (br_from_node W) c a" and ?W1 = "W\<lparr>br_limiter := lim\<rparr>"
  obtain t0 es0 where old: "(case map_of (br_inner W) ?w of None \<Rightarrow> (ck_mono c, []) | Some x \<Rightarrow> x) = (t0, es0)" by fastforce
  have es0: "es0 = buffered W ?w" using old by (auto simp: buffered_def split: option.splits)
  have own: "\<forall>e \<in> set (es0 @ [?e]). ae_world_key e = ?w" "length es0 < br_max_batch W"
    using old assms(2) map_of_SomeD by (fastforce simp: buffer_ok_def event_of_def split: option.splits)+
  show ?thesis
  proof (cases "ok")
    case False
    then have "W' = ?W1" "net' = net" using assms(1) l by (auto simp: publish_atom_def)
    then show ?thesis using assms(2) l False by (auto simp: buffer_ok_def buffered_def intro!: exI [of _ "[]"])
  next
    case True
    show ?thesis
    proof (cases "br_max_batch W \<le> length (es0 @ [?e]) \<or> br_flush_every W \<le> ck_mono c' - t0")
      case due: True
      have f: "flush_events B NL C c' ?w (es0 @ [?e]) net = (Inr (), net')"
        "W' = ?W1\<lparr>br_inner := AList.delete ?w (br_inner W)\<rparr>"
        using assms(1) l True due old by (auto simp: publish_atom_def event_of_def Let_def split: prod.splits)
      have len: "length (es0 @ [?e]) \<le> m" using own(2) assms(3) by simp
      obtain x where x: "log net' = log net @ [x]" "batch_ok NL C m x" "logged C [x] = es0 @ [?e]"
        using flush_logs [OF lb f(1) own(1) _ len] by auto
      have "buffer_ok W'" using assms(2) unfolding f(2) buffer_ok_def
        by (auto simp: AList.delete_eq distinct_map_filter)
      moreover have "buffered W' w = (if w = ?w then [] else buffered W w)" for w
        by (simp add: f(2) buffered_def delete_conv')
      ultimately show ?thesis using x l True es0 of_world_own [OF own(1)] by (auto simp: f(2) intro!: exI [of _ "[x]"])
    next
      case False
      have f: "net' = net" "W' = ?W1\<lparr>br_inner := AList.update ?w (t0, es0 @ [?e]) (br_inner W)\<rparr>"
        using assms(1) l True False old by (auto simp: publish_atom_def event_of_def Let_def)
      have "buffer_ok W'"
      proof -
        have "\<forall>(w, t, es) \<in> set (AList.update ?w (t0, es0 @ [?e]) (br_inner W)).
            es \<noteq> [] \<and> length es < br_max_batch W \<and> (\<forall>e \<in> set es. ae_world_key e = w)"
          by (rule update_all) (use assms(2) own False in \<open>simp_all add: buffer_ok_def\<close>)
        then show ?thesis using assms(2) unfolding f(2) buffer_ok_def by (simp add: distinct_update)
      qed
      moreover have "buffered W' w = (if w = ?w then es0 @ [?e] else buffered W w)" for w
        by (simp add: f(2) buffered_def update_conv')
      ultimately show ?thesis using l True es0 by (auto simp: f intro!: exI [of _ "[]"])
    qed
  qed
qed

lemma flush_each_logs:
  assumes lb: "logging_bus B log C"
  shows "flush_each B NL C c xs net = (Inr (), net') \<Longrightarrow> distinct (map fst xs) \<Longrightarrow>
   \<forall>(w, t, es) \<in> set xs. es \<noteq> [] \<and> length es \<le> m \<and> (\<forall>e \<in> set es. ae_world_key e = w) \<Longrightarrow>
   \<exists>ys. log net' = log net @ ys \<and> (\<forall>y \<in> set ys. batch_ok NL C m y)
     \<and> (\<forall>w. of_world w (logged C ys) = (case map_of xs w of None \<Rightarrow> [] | Some (t, es) \<Rightarrow> es))"
proof (induction xs arbitrary: net)
  case (Cons x xs)
  obtain v t es where x: "x = (v, t, es)" by (cases x)
  obtain net1 where n: "flush_events B NL C c v es net = (Inr (), net1)" "flush_each B NL C c xs net1 = (Inr (), net')"
    using Cons.prems(1) x by (cases "flush_events B NL C c v es net"; cases "fst (flush_events B NL C c v es net)") auto
  have own: "\<forall>e \<in> set es. ae_world_key e = v" "es \<noteq> []" "length es \<le> m" using Cons.prems(3) x by auto
  obtain y where y: "log net1 = log net @ [y]" "batch_ok NL C m y" "logged C [y] = es"
    using flush_logs [OF lb n(1) own] by blast
  have d: "distinct (map fst xs)" "\<forall>(w, t, es) \<in> set xs. es \<noteq> [] \<and> length es \<le> m \<and> (\<forall>e \<in> set es. ae_world_key e = w)"
    "map_of xs v = None"
    using Cons.prems(2,3) x by (auto simp: map_of_eq_None_iff)
  obtain ys where ys: "log net' = log net1 @ ys" "\<forall>y \<in> set ys. batch_ok NL C m y"
    "\<forall>w. of_world w (logged C ys) = (case map_of xs w of None \<Rightarrow> [] | Some (t, es) \<Rightarrow> es)"
    using Cons.IH [OF n(2) d(1,2)] by blast
  have "logged C (y # ys) = es @ logged C ys" using logged_simps(2) [of C "[y]" ys] y(3) by simp
  then show ?case using y ys d(3) of_world_own [OF own(1)] x by (intro exI [of _ "y # ys"]) auto
qed auto

section \<open>Runs of the broadcaster\<close>

text \<open>A run of calls, each with its two clock readings; it stops at the first error.\<close>

type_synonym broadcast_call = "clock \<times> clock \<times> atom"

fun broadcast_run ::
  "('b, 'd) swarm_bus \<Rightarrow> nats_lib \<Rightarrow> batch_codec \<Rightarrow> broadcast_call list \<Rightarrow> broadcaster \<Rightarrow> ('b, 'd) swarm_net
   \<Rightarrow> (string, unit) result \<times> broadcaster \<times> ('b, 'd) swarm_net" where
  "broadcast_run B NL C [] W net = (Inr (), W, net)"
| "broadcast_run B NL C ((c, c', a) # xs) W net =
     (case publish_atom B NL C c c' a W net of
        (Inl e, W1, net1) \<Rightarrow> (Inl e, W1, net1)
      | (Inr _, W1, net1) \<Rightarrow> broadcast_run B NL C xs W1 net1)"

text \<open>The events of the calls that the rate limiter admits.\<close>

fun admitted_events :: "string \<Rightarrow> token_bucket \<Rightarrow> broadcast_call list \<Rightarrow> atom_event list" where
  "admitted_events node lim [] = []"
| "admitted_events node lim ((c, c', a) # xs) =
     (case limiter_allow c lim of
        (ok, lim') \<Rightarrow> (if ok then [event_of node c a] else []) @ admitted_events node lim' xs)"

lemma broadcast_run_logs:
  assumes lb: "logging_bus B log C"
  shows "broadcast_run B NL C xs W net = (Inr (), W', net') \<Longrightarrow> buffer_ok W \<Longrightarrow> br_max_batch W \<le> m \<Longrightarrow>
   buffer_ok W' \<and> br_max_batch W' = br_max_batch W
   \<and> (\<exists>ys. log net' = log net @ ys \<and> (\<forall>y \<in> set ys. batch_ok NL C m y)
        \<and> (\<forall>w. of_world w (logged C ys) @ buffered W' w
                = buffered W w @ of_world w (admitted_events (br_from_node W) (br_limiter W) xs)))"
proof (induction xs arbitrary: W net)
  case (Cons x xs)
  obtain c c' a where x: "x = (c, c', a)" by (cases x)
  obtain W1 net1 where step: "publish_atom B NL C c c' a W net = (Inr (), W1, net1)"
    "broadcast_run B NL C xs W1 net1 = (Inr (), W', net')"
    using Cons.prems(1) x by (cases "publish_atom B NL C c c' a W net"; cases "fst (publish_atom B NL C c c' a W net)") auto
  obtain ok lim where l: "limiter_allow c (br_limiter W) = (ok, lim)" by fastforce
  obtain ys1 where s1: "buffer_ok W1" "br_max_batch W1 = br_max_batch W" "br_from_node W1 = br_from_node W"
    "br_limiter W1 = lim" "log net1 = log net @ ys1" "\<forall>y \<in> set ys1. batch_ok NL C m y"
    "\<forall>w. of_world w (logged C ys1) @ buffered W1 w = buffered W w @
       (if ok \<and> a_world a = w then [event_of (br_from_node W) c a] else [])"
    using publish_atom_step [OF step(1) Cons.prems(2,3) lb] l by auto
  have m: "br_max_batch W1 \<le> m" using Cons.prems(3) s1(2) by simp
  obtain ys2 where s2: "buffer_ok W'" "br_max_batch W' = br_max_batch W1" "log net' = log net1 @ ys2"
    "\<forall>y \<in> set ys2. batch_ok NL C m y"
    "\<forall>w. of_world w (logged C ys2) @ buffered W' w
       = buffered W1 w @ of_world w (admitted_events (br_from_node W1) (br_limiter W1) xs)"
    using Cons.IH [OF step(2) s1(1) m] by blast
  have "of_world w (logged C (ys1 @ ys2)) @ buffered W' w
      = buffered W w @ of_world w (admitted_events (br_from_node W) (br_limiter W) (x # xs))" for w
  proof -
    have "of_world w (logged C (ys1 @ ys2)) @ buffered W' w
        = (of_world w (logged C ys1) @ buffered W1 w) @ of_world w (admitted_events (br_from_node W1) lim xs)"
      using s2(5) s1(4) by simp
    also have "\<dots> = buffered W w @ of_world w (admitted_events (br_from_node W) (br_limiter W) (x # xs))"
      using s1(3,7) l x by (simp add: of_world_def event_of_def)
    finally show ?thesis .
  qed
  then show ?case using s1 s2 by (auto intro!: exI [of _ "ys1 @ ys2"])
qed (auto intro!: exI [of _ "[]"])

text \<open>
  C32: The broadcaster loses nothing while it succeeds. On a B that logs what it publishes, after
  any run of successful calls of a new broadcaster and a successful \<open>flush_all\<close>, the log has grown by
  batches of one to 32 events of a single world, each on the subject of its world; per world the
  published events are exactly the admitted ones, once each and in order, and nothing is left
  buffered.
\<close>

theorem broadcaster_loses_nothing:
  assumes lb: "logging_bus B log C"
    and run: "broadcast_run B NL C xs (broadcaster_new c0 node rate) net = (Inr (), W1, net1)"
      "flush_all B NL C c W1 net1 = (Inr (), W2, net2)"
  shows "\<exists>ys. log net2 = log net @ ys \<and> (\<forall>y \<in> set ys. batch_ok NL C 32 y)
    \<and> (\<forall>w. of_world w (logged C ys) = of_world w (admitted_events node (per_second rate c0) xs) \<and> buffered W2 w = [])"
proof -
  let ?W0 = "broadcaster_new c0 node rate"
  have W0: "buffer_ok ?W0" "br_max_batch ?W0 \<le> 32" "br_max_batch ?W0 = 32" "\<forall>w. buffered ?W0 w = []"
    "br_from_node ?W0 = node" "br_limiter ?W0 = per_second rate c0"
    by (simp_all add: broadcaster_new_def buffer_ok_def buffered_def)
  obtain ys where ys: "buffer_ok W1" "br_max_batch W1 = 32" "log net1 = log net @ ys" "\<forall>y \<in> set ys. batch_ok NL C 32 y"
    "\<forall>w. of_world w (logged C ys) @ buffered W1 w = of_world w (admitted_events node (per_second rate c0) xs)"
    using broadcast_run_logs [OF lb run(1) W0(1,2)] W0(3-6) by auto
  have kept: "filter (\<lambda>(_, _, events). events \<noteq> []) (br_inner W1) = br_inner W1"
    using ys(1) by (auto simp: buffer_ok_def intro!: filter_True)
  then have fl: "flush_each B NL C c (br_inner W1) net1 = (Inr (), net2)" "W2 = W1\<lparr>br_inner := []\<rparr>"
    using run(2) by (auto simp: flush_all_def split: prod.splits)
  have ok: "distinct (map fst (br_inner W1))"
    "\<forall>(w, t, es) \<in> set (br_inner W1). es \<noteq> [] \<and> length es \<le> 32 \<and> (\<forall>e \<in> set es. ae_world_key e = w)"
    using ys(1,2) by (auto simp: buffer_ok_def)
  obtain zs where zs: "log net2 = log net1 @ zs" "\<forall>z \<in> set zs. batch_ok NL C 32 z"
    "\<forall>w. of_world w (logged C zs) = buffered W1 w"
    using flush_each_logs [OF lb fl(1) ok] by (auto simp: buffered_def)
  show ?thesis
    using ys(3-5) zs fl(2) by (intro exI [of _ "ys @ zs"]) (auto simp: buffered_def)
qed

text \<open>A bus whose state is its log, and a codec for one batch.\<close>

definition log_bus :: "((string \<times> string) list, unit) swarm_bus" where
  "log_bus = \<lparr>sb_publish = (\<lambda>c s r b net. (Inr (), net\<lparr>sw_bus := sw_bus net @ [(s, b)]\<rparr>)),
     sb_subscribe = (\<lambda>s h net. (Inr (), net))\<rparr>"

definition toy_event_batch :: atom_event_batch where
  "toy_event_batch = \<lparr>eb_batch_id = '''', eb_events = [event_of ''n'' \<lparr>ck_mono = 9, ck_wall = 0\<rparr> toy_atom]\<rparr>"

definition toy_batches :: batch_codec where
  "toy_batches = \<lparr>bc_enc = (\<lambda>bt. if bt = toy_event_batch then Inr ''batch'' else Inl ''unsupported''),
     bc_dec = (\<lambda>b. Inr toy_event_batch)\<rparr>"

definition log_net :: "((string \<times> string) list, unit) swarm_net" where
  "log_net = \<lparr>sw_bus = [], sw_rx = (\<lambda>_. []), sw_replies = (\<lambda>_. []),
     sw_tables = (\<lambda>_. \<lparr>tt_records = [], tt_expiry = 30, tt_path = None\<rparr>), sw_disk = (), sw_next = 0, sw_draws = 0\<rparr>"

lemma log_bus_logs: "logging_bus log_bus sw_bus toy_batches"
  by (auto simp: logging_bus_def log_bus_def toy_batches_def split: if_splits)

theorem broadcaster_loses_nothing_witness:
  "\<exists>W1 net1 W2 net2.
     broadcast_run log_bus toy_nats toy_batches [(\<lparr>ck_mono = 9, ck_wall = 0\<rparr>, \<lparr>ck_mono = 9, ck_wall = 0\<rparr>, toy_atom)]
       (broadcaster_new \<lparr>ck_mono = 9, ck_wall = 0\<rparr> ''n'' 0x4008000000000000) log_net = (Inr (), W1, net1)
   \<and> flush_all log_bus toy_nats toy_batches \<lparr>ck_mono = 9, ck_wall = 0\<rparr> W1 net1 = (Inr (), W2, net2)
   \<and> of_world ''w:x'' (logged toy_batches (sw_bus net2)) = [event_of ''n'' \<lparr>ck_mono = 9, ck_wall = 0\<rparr> toy_atom]"
proof -
  let ?c = "\<lparr>ck_mono = 9, ck_wall = 0\<rparr>" and ?W = "broadcaster_new \<lparr>ck_mono = 9, ck_wall = 0\<rparr> ''n'' 0x4008000000000000"
    and ?e = "event_of ''n'' \<lparr>ck_mono = 9, ck_wall = 0\<rparr> toy_atom"
  obtain lim where lim: "limiter_allow ?c (bucket_new 0x4008000000000000 9) = (True, lim)"
    using toy_admits by (auto split: prod.splits)
  let ?W1 = "?W\<lparr>br_limiter := lim, br_inner := [(''w:x'', 9, [?e])]\<rparr>"
  let ?net2 = "log_net\<lparr>sw_draws := 1, sw_bus := [(world_events_subject toy_nats ''w:x'', ''batch'')]\<rparr>"
  have w: "a_world toy_atom = ''w:x''" by (simp add: toy_atom_def)
  have run: "broadcast_run log_bus toy_nats toy_batches [(?c, ?c, toy_atom)] ?W log_net = (Inr (), ?W1, log_net)"
    using lim by (simp add: publish_atom_def broadcaster_new_def per_second_def w event_of_def Let_def)
  have fl: "flush_all log_bus toy_nats toy_batches ?c ?W1 log_net = (Inr (), ?W1\<lparr>br_inner := []\<rparr>, ?net2)"
    by (simp add: flush_all_def flush_events_def new_batch_id_def draw_def toy_nats_def encode_event_batch_def
        toy_batches_def toy_event_batch_def log_bus_def log_net_def)
  have "admitted_events ''n'' (per_second 0x4008000000000000 ?c) [(?c, ?c, toy_atom)] = [?e]"
    using lim by (simp add: per_second_def)
  moreover have "of_world ''w:x'' [?e] = [?e]" by (simp add: of_world_def event_of_def w)
  ultimately have "of_world ''w:x'' (logged toy_batches (sw_bus ?net2)) = [?e]"
    using broadcaster_loses_nothing [OF log_bus_logs run fl] by (auto simp: log_net_def)
  then show ?thesis using run fl by blast
qed

end
