(* ===== verification/Text_Trim.thy ===== *)
theory Text_Trim
  imports Prelude
begin

text \<open>\<open>str::trim\<close>, which the setup component and the command line share, and what trimmed text looks like.\<close>

text \<open>\<open>str::trim\<close> on UTF-8: the encodings of the characters with the property \<open>White_Space\<close>.\<close>

definition white_space :: "string list" where
  "white_space = map (map char_of)
     ([[9 :: nat], [10], [11], [12], [13], [32], [0xC2, 0x85], [0xC2, 0xA0], [0xE1, 0x9A, 0x80]]
      @ map (\<lambda>k. [0xE2, 0x80, k]) [0x80..<0x8B]
      @ [[0xE2, 0x80, 0xA8], [0xE2, 0x80, 0xA9], [0xE2, 0x80, 0xAF], [0xE2, 0x81, 0x9F], [0xE3, 0x80, 0x80]])"

fun strip_any :: "string list \<Rightarrow> string \<Rightarrow> string option" where
  "strip_any [] s = None"
| "strip_any (p # ps) s = (case strip_prefix p s of Some r \<Rightarrow> Some r | None \<Rightarrow> strip_any ps s)"

function strip_all :: "string list \<Rightarrow> string \<Rightarrow> string" where
  "strip_all ps s =
     (case strip_any ps s of
        None \<Rightarrow> s
      | Some r \<Rightarrow> if length r < length s then strip_all ps r else s)"
  by pat_completeness auto

termination by (relation "measure (length \<circ> snd)") auto

declare strip_all.simps [simp del]

definition trim :: "string \<Rightarrow> string" where
  "trim s = rev (strip_all (map rev white_space) (rev (strip_all white_space s)))"

section \<open>Trimmed text\<close>

lemma strip_any_Some: "strip_any ps s = Some r \<Longrightarrow> \<exists>p \<in> set ps. s = p @ r"
  by (induction ps) (auto split: option.splits simp: strip_prefix_Some)

lemma strip_any_None: "strip_any ps s = None \<longleftrightarrow> (\<forall>p \<in> set ps. \<not> starts_with s p)"
  by (induction ps) (auto simp: starts_with_def split: option.splits)

lemma strip_all_suffix: "\<exists>a. s = a @ strip_all ps s"
proof (induction ps s rule: strip_all.induct)
  case (1 ps s)
  show ?case
  proof (cases "strip_any ps s")
    case (Some r)
    then obtain p where p: "s = p @ r" using strip_any_Some by blast
    show ?thesis
    proof (cases "length r < length s")
      case True
      then obtain a where "r = a @ strip_all ps r" using "1" Some by blast
      then have "s = (p @ a) @ strip_all ps s" using p Some True by (subst strip_all.simps) simp
      then show ?thesis by blast
    next
      case False
      then show ?thesis using Some by (subst strip_all.simps) simp
    qed
  qed (subst strip_all.simps, simp)
qed

lemma strip_all_clean: "[] \<notin> set ps \<Longrightarrow> p \<in> set ps \<Longrightarrow> \<not> starts_with (strip_all ps s) p"
proof (induction ps s rule: strip_all.induct)
  case (1 ps s)
  show ?case
  proof (cases "strip_any ps s")
    case None
    then show ?thesis using "1.prems"(2) strip_any_None [of ps s] by (subst strip_all.simps) simp
  next
    case (Some r)
    then have "length r < length s" using strip_any_Some "1.prems"(1) by fastforce
    then show ?thesis using "1.IH" [OF Some] "1.prems" Some by (subst strip_all.simps) simp
  qed
qed

lemma strip_all_id: "\<forall>p \<in> set ps. \<not> starts_with s p \<Longrightarrow> strip_all ps s = s"
  using strip_any_None [of ps s] by (subst strip_all.simps) simp

lemma white_space_nonempty: "[] \<notin> set white_space"
  by (auto simp: white_space_def)

lemma trim_idem [simp]: "trim (trim s) = trim s"
proof -
  let ?t = "strip_all white_space s"
  have ne: "[] \<notin> set (map rev white_space)" using white_space_nonempty by auto
  obtain a where "rev ?t = a @ rev (trim s)" using strip_all_suffix [of "rev ?t" "map rev white_space"] by (auto simp: trim_def)
  then have t: "?t = trim s @ rev a" by (simp add: rev_swap)
  have "\<not> starts_with (trim s) p" if "p \<in> set white_space" for p
    using strip_all_clean [OF white_space_nonempty that, of s] unfolding t by (auto simp: starts_with_iff)
  then have front: "strip_all white_space (trim s) = trim s" by (intro strip_all_id) blast
  have "\<not> starts_with (rev (trim s)) p" if "p \<in> set (map rev white_space)" for p
    using strip_all_clean [OF ne that, of "rev ?t"] by (simp add: trim_def)
  then have "strip_all (map rev white_space) (rev (trim s)) = rev (trim s)" by (intro strip_all_id) blast
  then show ?thesis using front by (simp add: trim_def [of "trim s"])
qed

text \<open>Text that begins and ends with a printable ASCII character is trimmed already.\<close>

definition printable :: "char \<Rightarrow> bool" where
  "printable c \<longleftrightarrow> (of_char c :: nat) \<in> {33..126}"

lemma white_space_ends: "p \<in> set white_space \<Longrightarrow> p \<noteq> [] \<and> \<not> printable (hd p) \<and> \<not> printable (last p)"
  by (auto simp: white_space_def printable_def)

lemma trim_printable:
  assumes "s \<noteq> []" "printable (hd s)" "printable (last s)"
  shows "trim s = s"
proof -
  have "\<not> starts_with s p \<and> \<not> starts_with (rev s) (rev p)" if "p \<in> set white_space" for p
  proof -
    have p: "p \<noteq> []" "\<not> printable (hd p)" "\<not> printable (last p)" using white_space_ends [OF that] by auto
    have "hd (p @ r) = hd p" "hd (rev p @ r) = last p" for r using p(1) by (simp_all add: hd_rev)
    moreover have "hd (rev s) = last s" using assms(1) by (simp add: hd_rev)
    ultimately show ?thesis using assms(2,3) p(2,3) unfolding starts_with_iff by metis
  qed
  then show ?thesis by (simp add: trim_def strip_all_id)
qed

lemma split_on_pieces: "s \<in> set (split_on c t) \<Longrightarrow> c \<notin> set s"
  by (induction c t arbitrary: s rule: split_on.induct) (auto split: list.splits if_splits)

end
