(* ===== verification/Component_Qa.thy ===== *)
theory Component_Qa
  imports Engine_State Text_Trim
begin

text \<open>
  The setup component: \<open>crates/component-dwbase/src/qa.rs\<close> (questions, validation of answers, the
  configuration they produce), \<open>src/i18n.rs\<close> and the operations of \<open>src/lib.rs\<close>. JSON values are those
  of \<open>Engine_State\<close>; a \<open>serde_json\<close> map is an association list. The types of the \<open>greentic_types\<close> crate
  appear with the fields the code sets; how they are written as JSON is the parameter \<open>qa_lib\<close>.
\<close>

section \<open>JSON and text\<close>

fun json_get :: "json \<Rightarrow> string \<Rightarrow> json option" where
  "json_get (JObj m) k = map_of m k"
| "json_get _ k = None"

fun json_as_str :: "json \<Rightarrow> string option" where
  "json_as_str (JStr s) = Some s"
| "json_as_str _ = None"

definition trim_end_slashes :: "string \<Rightarrow> string" where
  "trim_end_slashes s = rev (dropWhile (\<lambda>c. c = CHR ''/'') (rev s))"

section \<open>Modes and questions\<close>

datatype normalized_mode = Setup | Update | Remove

fun mode_as_str :: "normalized_mode \<Rightarrow> string" where
  "mode_as_str Setup = ''setup''"
| "mode_as_str Update = ''update''"
| "mode_as_str Remove = ''remove''"

definition normalize_mode :: "string \<Rightarrow> normalized_mode option" where
  "normalize_mode raw =
     (if raw \<in> {''default'', ''setup'', ''install''} then Some Setup
      else if raw \<in> {''update'', ''upgrade''} then Some Update
      else if raw = ''remove'' then Some Remove else None)"

record qa_question =
  qq_id :: string
  qq_label_key :: string
  qq_help_key :: "string option"
  qq_required :: bool

record qa_lib =
  ql_text :: "string \<Rightarrow> json"
  ql_question :: "qa_question \<Rightarrow> json"
  ql_mode :: "normalized_mode \<Rightarrow> json"
  ql_print :: "json \<Rightarrow> string"
  ql_cbor_dec :: "string \<Rightarrow> json option"
  ql_json_dec :: "string \<Rightarrow> json option"
  ql_cbor_enc :: "json \<Rightarrow> string option"

definition qa_item :: "string \<Rightarrow> string \<Rightarrow> string \<Rightarrow> bool \<Rightarrow> qa_question" where
  "qa_item i label_key help_key required =
     \<lparr>qq_id = i, qq_label_key = label_key, qq_help_key = Some help_key, qq_required = required\<rparr>"

definition field_item :: "string \<Rightarrow> bool \<Rightarrow> qa_question" where
  "field_item f required = qa_item f (''qa.field.'' @ f @ ''.label'') (''qa.field.'' @ f @ ''.help'') required"

fun qa_questions :: "normalized_mode \<Rightarrow> qa_question list" where
  "qa_questions Setup =
     [field_item ''data_dir'' True, field_item ''default_tenant'' True, field_item ''public_base_url'' True,
      field_item ''public_path_prefix'' False, field_item ''nats_url'' False, field_item ''swarm_enable'' False]"
| "qa_questions Update =
     [field_item ''data_dir'' False, field_item ''default_tenant'' False, field_item ''public_base_url'' False,
      field_item ''public_path_prefix'' False, field_item ''nats_url'' False, field_item ''swarm_enable'' False]"
| "qa_questions Remove = [field_item ''confirm_remove'' True]"

fun qa_title :: "normalized_mode \<Rightarrow> string" where
  "qa_title Setup = ''qa.install.title''"
| "qa_title Update = ''qa.update.title''"
| "qa_title Remove = ''qa.remove.title''"

fun qa_description :: "normalized_mode \<Rightarrow> string" where
  "qa_description Setup = ''qa.install.description''"
| "qa_description Update = ''qa.update.description''"
| "qa_description Remove = ''qa.remove.description''"

definition qa_spec_json :: "qa_lib \<Rightarrow> normalized_mode \<Rightarrow> json" where
  "qa_spec_json Q mode =
     JObj [(''mode'', ql_mode Q mode), (''title'', ql_text Q (qa_title mode)),
           (''description'', ql_text Q (qa_description mode)),
           (''questions'', JArr (map (ql_question Q) (qa_questions mode))), (''defaults'', JObj [])]"

definition json_strs :: "string list \<Rightarrow> json" where
  "json_strs xs = JArr (map JStr xs)"

definition requirements_json :: json where
  "requirements_json =
     JObj [(''cap_id'', JStr ''greentic.cap.dwbase.memory.v1''), (''provider_op'', JStr ''dwbase.configure''),
           (''requires_http_ingress'', JBool True),
           (''required_config_keys'', json_strs [''data_dir'', ''default_tenant'', ''public_base_url'']),
           (''optional_config_keys'', json_strs [''public_path_prefix'', ''nats_url'', ''swarm_enable'']),
           (''public_base_url_field'', JStr ''public_base_url''), (''public_path_prefix_default'', JStr ''/dwbase''),
           (''supports'', json_strs [''component_config'']), (''secrets'', JArr [])]"

section \<open>Answers\<close>

definition string_value :: "json \<Rightarrow> string \<Rightarrow> string option" where
  "string_value v k = Option.bind (json_get v k) json_as_str"

definition string_json :: "json \<Rightarrow> string option" where
  "string_json v = map_option trim (json_as_str v)"

fun bool_json :: "json \<Rightarrow> bool option" where
  "bool_json (JBool b) = Some b"
| "bool_json (JStr s) =
     (let t = to_ascii_lowercase (trim s)
      in if t \<in> {''true'', ''1'', ''yes'', ''on''} then Some True
         else if t \<in> {''false'', ''0'', ''no'', ''off''} then Some False else None)"
| "bool_json _ = None"

definition bool_value :: "json \<Rightarrow> string \<Rightarrow> bool option" where
  "bool_value v k = Option.bind (json_get v k) bool_json"

definition qa_error :: "string \<Rightarrow> string \<Rightarrow> json" where
  "qa_error key field = JObj [(''key'', JStr key), (''msg_key'', JStr key), (''fields'', json_strs [field])]"

text \<open>The checks return the errors they push.\<close>

definition validate_non_empty :: "json \<Rightarrow> string \<Rightarrow> string \<Rightarrow> json list" where
  "validate_non_empty answers key error_key =
     (case string_value answers key of
        None \<Rightarrow> []
      | Some v \<Rightarrow> if trim v = [] then [qa_error error_key key] else [])"

definition validate_url :: "json \<Rightarrow> string \<Rightarrow> json list" where
  "validate_url answers key =
     (case string_value answers key of
        None \<Rightarrow> []
      | Some v \<Rightarrow>
          let t = trim v; valid = starts_with t ''https://'' \<or> starts_with t ''http://''
          in if t = [] \<or> \<not> valid then [qa_error ''qa.error.invalid_public_base_url'' key] else [])"

definition validate_nats_url :: "json \<Rightarrow> json list" where
  "validate_nats_url answers =
     (case string_value answers ''nats_url'' of
        None \<Rightarrow> []
      | Some v \<Rightarrow>
          let t = trim v
          in if t = [] \<or> starts_with t ''nats://'' \<or> starts_with t ''tls://'' \<or> starts_with t ''ws://''
                \<or> starts_with t ''wss://''
             then [] else [qa_error ''qa.error.invalid_nats_url'' ''nats_url''])"

fun mode_errors :: "normalized_mode \<Rightarrow> json \<Rightarrow> json list" where
  "mode_errors Setup answers =
     map (qa_error ''qa.error.required'')
       (filter (\<lambda>k. string_value answers k = None) [''data_dir'', ''default_tenant'', ''public_base_url''])"
| "mode_errors Remove answers =
     (if bool_value answers ''confirm_remove'' \<noteq> Some True
      then [qa_error ''qa.error.remove_confirmation'' ''confirm_remove''] else [])"
| "mode_errors Update answers = []"

definition answer_errors :: "normalized_mode \<Rightarrow> json \<Rightarrow> json list" where
  "answer_errors mode answers =
     mode_errors mode answers
     @ validate_non_empty answers ''data_dir'' ''qa.error.invalid_data_dir''
     @ validate_non_empty answers ''default_tenant'' ''qa.error.invalid_default_tenant''
     @ validate_url answers ''public_base_url''
     @ validate_nats_url answers"

section \<open>Configuration\<close>

type_synonym config = "(string \<times> json) list"

definition merge_answer :: "string \<Rightarrow> json \<Rightarrow> config \<Rightarrow> config" where
  "merge_answer k v m =
     (if k \<in> {''data_dir'', ''default_tenant'', ''public_base_url'', ''public_path_prefix''}
      then (case string_json v of None \<Rightarrow> m | Some s \<Rightarrow> AList.update k (JStr s) m)
      else if k = ''nats_url''
      then (case string_json v of
              None \<Rightarrow> m
            | Some s \<Rightarrow> if s = [] then AList.delete k m else AList.update k (JStr s) m)
      else if k \<in> {''swarm_enable'', ''confirm_remove''}
      then (case bool_json v of None \<Rightarrow> m | Some b \<Rightarrow> AList.update k (JBool b) m)
      else AList.update k v m)"

fun merge_answers :: "config \<Rightarrow> (string \<times> json) list \<Rightarrow> config" where
  "merge_answers m [] = m"
| "merge_answers m ((k, v) # as) = merge_answers (merge_answer k v m) as"

definition normalize_path_prefix :: "string \<Rightarrow> string" where
  "normalize_path_prefix value =
     (let t = trim value
      in if t = [] \<or> t = ''/'' then ''/dwbase''
         else trim_end_slashes (if starts_with t ''/'' then t else CHR ''/'' # t))"

definition build_ingress_config :: "config \<Rightarrow> config" where
  "build_ingress_config m =
     (let base = (case Option.bind (map_of m ''public_base_url'') json_as_str of None \<Rightarrow> [] | Some s \<Rightarrow> s);
          base_url = trim_end_slashes base;
          path_prefix = (case Option.bind (map_of m ''public_path_prefix'') json_as_str of None \<Rightarrow> ''/dwbase'' | Some s \<Rightarrow> s);
          path = normalize_path_prefix path_prefix
      in [(''required'', JBool True),
          (''public_base_url'', case map_of m ''public_base_url'' of None \<Rightarrow> JNull | Some v \<Rightarrow> v),
          (''public_path_prefix'', JStr path),
          (''public_api_base_url'', if base_url = [] then JNull else JStr (base_url @ path)),
          (''ingress_enabled'', JBool True)])"

definition insert_default :: "string \<Rightarrow> json \<Rightarrow> config \<Rightarrow> config" where
  "insert_default k v m = (if map_of m k = None then AList.update k v m else m)"

definition finish_config :: "normalized_mode \<Rightarrow> config \<Rightarrow> config" where
  "finish_config mode m =
     (if mode \<noteq> Remove then
        let m1 = insert_default ''public_path_prefix'' (JStr ''/dwbase'') m;
            m2 = insert_default ''swarm_enable'' (JBool False) m1;
            m3 = AList.update ''ingress'' (JObj (build_ingress_config m2)) m2
        in AList.update ''enabled'' (JBool True) m3
      else AList.update ''ingress_enabled'' (JBool False) (AList.update ''enabled'' (JBool False) m))"

definition answers_of :: "json \<Rightarrow> json" where
  "answers_of payload =
     (case json_get payload ''answers'' of
        Some a \<Rightarrow> a
      | None \<Rightarrow> (case json_get payload ''config'' of Some a \<Rightarrow> a | None \<Rightarrow> JObj []))"

definition current_config_of :: "json \<Rightarrow> config" where
  "current_config_of payload = (case json_get payload ''current_config'' of Some (JObj m) \<Rightarrow> m | _ \<Rightarrow> [])"

definition mode_meta :: "normalized_mode \<Rightarrow> json" where
  "mode_meta mode = JObj [(''mode'', JStr (mode_as_str mode)), (''version'', JStr ''v1'')]"

definition apply_answers :: "normalized_mode \<Rightarrow> json \<Rightarrow> (string \<times> json) list" where
  "apply_answers mode payload =
     (let answers = answers_of payload; errors = answer_errors mode answers
      in if errors \<noteq> [] then
           [(''ok'', JBool False), (''warnings'', JArr []), (''errors'', JArr errors), (''meta'', mode_meta mode)]
         else
           let merged = (case answers of JObj as \<Rightarrow> merge_answers (current_config_of payload) as
                                       | _ \<Rightarrow> current_config_of payload)
           in [(''ok'', JBool True), (''config'', JObj (finish_config mode merged)), (''warnings'', JArr []),
               (''errors'', JArr []), (''meta'', mode_meta mode),
               (''audit'', JObj [(''reasons'', json_strs [''qa.apply_answers'', ''dwbase.configure'']),
                               (''timings_ms'', JObj [])])])"

definition configure :: "json \<Rightarrow> (string \<times> json) list" where
  "configure payload =
     (let mode = (case Option.bind (Option.bind (json_get payload ''mode'') json_as_str) normalize_mode of
                    None \<Rightarrow> Setup | Some m \<Rightarrow> m)
      in AList.update ''requirements'' requirements_json (apply_answers mode payload))"

section \<open>Translations\<close>

text \<open>The bundle is built from the asset files: locales with their keys, both in order.\<close>

type_synonym locale_bundle = "(string \<times> (string \<times> string) list) list"

definition locale_chain :: "string \<Rightarrow> string list" where
  "locale_chain loc =
     (let n = map (\<lambda>c. if c = CHR ''_'' then CHR ''-'' else c) loc
      in [n] @ (case split_once (CHR ''-'') n of None \<Rightarrow> [] | Some (base, _) \<Rightarrow> [base]) @ [''en''])"

fun translate_in :: "locale_bundle \<Rightarrow> string list \<Rightarrow> string \<Rightarrow> string" where
  "translate_in B [] key = key"
| "translate_in B (l # ls) key =
     (case Option.bind (map_of B l) (\<lambda>m. map_of m key) of Some v \<Rightarrow> v | None \<Rightarrow> translate_in B ls key)"

definition translate :: "locale_bundle \<Rightarrow> string \<Rightarrow> string \<Rightarrow> string" where
  "translate B loc key = translate_in B (locale_chain loc) key"

definition all_keys :: "locale_bundle \<Rightarrow> string list" where
  "all_keys B = (case map_of B ''en'' of None \<Rightarrow> [] | Some m \<Rightarrow> map fst m)"

definition en_messages :: "locale_bundle \<Rightarrow> (string \<times> string) list" where
  "en_messages B = (case map_of B ''en'' of None \<Rightarrow> [] | Some m \<Rightarrow> m)"

definition qa_i18n_keys :: "locale_bundle \<Rightarrow> string list" where
  "qa_i18n_keys B = all_keys B"

section \<open>Operations of the component\<close>

text \<open>The payload is CBOR or else JSON; what is neither counts as an empty object.\<close>

definition parse_payload :: "qa_lib \<Rightarrow> string \<Rightarrow> json" where
  "parse_payload Q input =
     (case ql_cbor_dec Q input of
        Some v \<Rightarrow> v
      | None \<Rightarrow> (case ql_json_dec Q input of Some v \<Rightarrow> v | None \<Rightarrow> JObj []))"

definition mode_of_payload :: "json \<Rightarrow> normalized_mode" where
  "mode_of_payload payload =
     (let text = (case string_value payload ''mode'' of
                    Some m \<Rightarrow> m
                  | None \<Rightarrow> (case string_value payload ''operation'' of Some m \<Rightarrow> m | None \<Rightarrow> ''setup''))
      in case normalize_mode text of Some m \<Rightarrow> m | None \<Rightarrow> Setup)"

definition handle_message :: "string \<Rightarrow> string \<Rightarrow> string" where
  "handle_message operation input = ''dwbase::'' @ operation @ '' => '' @ trim input"

definition run_component :: "qa_lib \<Rightarrow> locale_bundle \<Rightarrow> string \<Rightarrow> json \<Rightarrow> json" where
  "run_component Q B operation value =
     (if operation = ''dwbase.configure'' then JObj (configure value)
      else if operation = ''dwbase.requirements'' then requirements_json
      else if operation = ''qa-spec'' then qa_spec_json Q (mode_of_payload value)
      else if operation = ''apply-answers'' then JObj (apply_answers (mode_of_payload value) value)
      else if operation = ''i18n-keys'' then json_strs (qa_i18n_keys B)
      else if operation = ''dwbase.echo'' then
        let op_name = (case string_value value ''operation'' of Some o1 \<Rightarrow> o1 | None \<Rightarrow> operation);
            input_text = (case string_value value ''input'' of Some t \<Rightarrow> t | None \<Rightarrow> ql_print Q value)
        in JObj [(''message'', JStr (handle_message op_name input_text))]
      else JObj (configure value))"

text \<open>\<open>None\<close> is the panic of an encoder that fails.\<close>

definition run_component_cbor :: "qa_lib \<Rightarrow> locale_bundle \<Rightarrow> string \<Rightarrow> string \<Rightarrow> string option" where
  "run_component_cbor Q B operation input = ql_cbor_enc Q (run_component Q B operation (parse_payload Q input))"

text \<open>The exported operations. The modes of the interface are those of the component and a default.\<close>

datatype qa_mode = Qa_Default | Qa_Setup | Qa_Update | Qa_Remove

fun mode_of_qa :: "qa_mode \<Rightarrow> normalized_mode" where
  "mode_of_qa Qa_Default = Setup"
| "mode_of_qa Qa_Setup = Setup"
| "mode_of_qa Qa_Update = Update"
| "mode_of_qa Qa_Remove = Remove"

definition guest_qa_spec :: "qa_lib \<Rightarrow> qa_mode \<Rightarrow> string option" where
  "guest_qa_spec Q mode = ql_cbor_enc Q (qa_spec_json Q (mode_of_qa mode))"

text \<open>\<open>apply_answers\<close> puts the fields of the answers over those of the configuration.\<close>

fun overlay :: "config \<Rightarrow> config \<Rightarrow> config" where
  "overlay m [] = m"
| "overlay m ((k, v) # as) = overlay (AList.update k v m) as"

definition guest_apply_answers :: "qa_lib \<Rightarrow> qa_mode \<Rightarrow> string \<Rightarrow> string \<Rightarrow> string option" where
  "guest_apply_answers Q mode current_config answers =
     (let answer_value = parse_payload Q answers;
          payload = (case parse_payload Q current_config of
              JObj m \<Rightarrow> (case answer_value of JObj as \<Rightarrow> JObj (overlay m as) | _ \<Rightarrow> JObj m)
            | _ \<Rightarrow> answer_value)
      in ql_cbor_enc Q (JObj (apply_answers (mode_of_qa mode) payload)))"

end
