(* ===== verification/Component_Claims.thy ===== *)
theory Component_Claims
  imports Component_Qa
begin

text \<open>
  What the setup component guarantees: which answers are accepted, the shape of the path prefix,
  that applying no answers changes nothing, and what removal and the exported entry point lose.
\<close>

section \<open>Path prefixes\<close>

lemma last_trim_slashes: "trim_end_slashes s \<noteq> [] \<Longrightarrow> last (trim_end_slashes s) \<noteq> CHR ''/''"
  using hd_dropWhile [of "\<lambda>c. c = CHR ''/''" "rev s"] by (simp add: trim_end_slashes_def last_rev)

lemma all_slashes: "\<forall>c \<in> set s. c = x \<Longrightarrow> s = replicate (length s) x"
  by (induction s) auto

lemma trim_slashes_prefix: "\<exists>k. s = trim_end_slashes s @ replicate k (CHR ''/'')"
proof -
  let ?w = "takeWhile (\<lambda>c. c = CHR ''/'') (rev s)"
  have "s = rev (?w @ dropWhile (\<lambda>c. c = CHR ''/'') (rev s))" by simp
  also have "\<dots> = trim_end_slashes s @ rev ?w" by (simp only: rev_append trim_end_slashes_def)
  also have "rev ?w = replicate (length (rev ?w)) (CHR ''/'')"
    by (rule all_slashes) (auto dest: set_takeWhileD)
  finally show ?thesis by blast
qed

lemma trim_only_slashes: "trim_end_slashes (replicate k (CHR ''/'')) = []"
  by (simp add: trim_end_slashes_def)

lemma slash_path:
  assumes "t \<noteq> []" "t \<noteq> ''/''" and n: "n = (if starts_with t ''/'' then t else CHR ''/'' # t)"
  shows "(trim_end_slashes n = [] \<longleftrightarrow> (\<exists>j. t = replicate (j + 2) (CHR ''/'')))
    \<and> (trim_end_slashes n \<noteq> [] \<longrightarrow> hd (trim_end_slashes n) = CHR ''/'')"
proof -
  define p where "p = trim_end_slashes n"
  obtain k where k: "n = p @ replicate k (CHR ''/'')" using trim_slashes_prefix [of n] unfolding p_def by blast
  have hn: "hd n = CHR ''/''" using assms(1) unfolding n by (auto simp: starts_with_iff)
  have sl: "starts_with t ''/'' \<longleftrightarrow> hd t = CHR ''/''" using assms(1) by (cases t) auto
  have "p = [] \<longleftrightarrow> (\<exists>j. t = replicate (j + 2) (CHR ''/''))"
  proof
    assume "p = []"
    then have r: "n = replicate k (CHR ''/'')" using k by simp
    then have "set n \<subseteq> {CHR ''/''}" by auto
    moreover have "set t \<subseteq> set n" unfolding n by auto
    ultimately have "\<forall>c \<in> set t. c = CHR ''/''" by blast
    then have t: "t = replicate (length t) (CHR ''/'')" by (rule all_slashes)
    have "length t \<noteq> 0" using assms(1) by simp
    moreover have "length t \<noteq> 1"
    proof
      assume "length t = 1"
      then have "t = ''/''" using t by simp
      then show False using assms(2) by simp
    qed
    ultimately have "length t = (length t - 2) + 2" by linarith
    then obtain j where "length t = j + 2" ..
    then show "\<exists>j. t = replicate (j + 2) (CHR ''/'')" using t by metis
  next
    assume "\<exists>j. t = replicate (j + 2) (CHR ''/'')"
    then obtain j where t: "t = replicate (j + 2) (CHR ''/'')" ..
    then have "hd t = CHR ''/''" by simp
    then have "n = t" using sl unfolding n by (simp only: if_True simp_thms)
    then show "p = []" unfolding p_def t by (simp only: trim_only_slashes)
  qed
  moreover have "hd p = CHR ''/''" if "p \<noteq> []" using that k hn by (cases p) auto
  ultimately show ?thesis unfolding p_def by blast
qed

text \<open>
  The shape of a path prefix. It begins with a slash and does not end in one, and it is empty
  exactly if the input is, white space aside, two or more slashes; the prefix is then lost, where a
  single slash or nothing at all gives the default.
\<close>

theorem path_prefix_shape:
  "(normalize_path_prefix v = [] \<longleftrightarrow> (\<exists>k. trim v = replicate (k + 2) (CHR ''/'')))
   \<and> (normalize_path_prefix v \<noteq> [] \<longrightarrow> hd (normalize_path_prefix v) = CHR ''/'' \<and> last (normalize_path_prefix v) \<noteq> CHR ''/'')"
proof -
  let ?t = "trim v"
  consider (default) "?t = [] \<or> ?t = ''/''" | (other) "?t \<noteq> []" "?t \<noteq> ''/''" by blast
  then show ?thesis
  proof cases
    case default
    have len: "length ?t < 2" using default by (elim disjE) simp_all
    have no: "?t \<noteq> replicate (k + 2) (CHR ''/'')" for k
    proof
      assume "?t = replicate (k + 2) (CHR ''/'')"
      then have "length ?t = k + 2" by (simp only: length_replicate)
      then show False using len by simp
    qed
    have "normalize_path_prefix v = ''/dwbase''" unfolding normalize_path_prefix_def Let_def using default by (simp only: if_True)
    then show ?thesis using no by simp
  next
    case other
    define n where "n = (if starts_with ?t ''/'' then ?t else CHR ''/'' # ?t)"
    have p: "normalize_path_prefix v = trim_end_slashes n"
      using other unfolding normalize_path_prefix_def Let_def n_def by (simp only: if_False simp_thms)
    show ?thesis using slash_path [OF other n_def] last_trim_slashes [of n] unfolding p by blast
  qed
qed

section \<open>Which answers are accepted\<close>

definition non_blank :: "json \<Rightarrow> string \<Rightarrow> bool" where
  "non_blank a k \<longleftrightarrow> (\<exists>s. string_value a k = Some s \<and> trim s \<noteq> [])"

definition web_url :: "string \<Rightarrow> bool" where
  "web_url s \<longleftrightarrow> starts_with (trim s) ''https://'' \<or> starts_with (trim s) ''http://''"

definition bus_url :: "string \<Rightarrow> bool" where
  "bus_url s \<longleftrightarrow> trim s = [] \<or> (\<exists>p \<in> {''nats://'', ''tls://'', ''ws://'', ''wss://''}. starts_with (trim s) p)"

text \<open>
  C33: Which answers are accepted. A first setup is accepted exactly if the data directory and the
  default tenant are non-blank strings, the public base URL is an http or https URL and the NATS URL,
  if it is a string at all, is blank or of a known scheme. A rejected request has no configuration
  in its result and names at least one error.
\<close>

theorem setup_accepts_exactly:
  "map_of (apply_answers Setup payload) ''ok'' = Some (JBool
     (non_blank (answers_of payload) ''data_dir'' \<and> non_blank (answers_of payload) ''default_tenant''
      \<and> (\<exists>u. string_value (answers_of payload) ''public_base_url'' = Some u \<and> web_url u)
      \<and> (\<forall>n. string_value (answers_of payload) ''nats_url'' = Some n \<longrightarrow> bus_url n)))
   \<and> (map_of (apply_answers mode payload) ''ok'' = Some (JBool False) \<longrightarrow>
        map_of (apply_answers mode payload) ''config'' = None
      \<and> (\<exists>e es. map_of (apply_answers mode payload) ''errors'' = Some (JArr (e # es))))"
proof -
  let ?a = "answers_of payload"
  have dir: "validate_non_empty ?a k e = [] \<longleftrightarrow> (\<forall>s. string_value ?a k = Some s \<longrightarrow> trim s \<noteq> [])" for k e
    by (auto simp: validate_non_empty_def split: option.split)
  have url: "validate_url ?a k = [] \<longleftrightarrow> (\<forall>s. string_value ?a k = Some s \<longrightarrow> web_url s)" for k
    by (auto simp: validate_url_def web_url_def Let_def split: option.split)
  have nats: "validate_nats_url ?a = [] \<longleftrightarrow> (\<forall>s. string_value ?a ''nats_url'' = Some s \<longrightarrow> bus_url s)"
    by (auto simp: validate_nats_url_def bus_url_def Let_def split: option.split)
  have "answer_errors Setup ?a = [] \<longleftrightarrow>
      non_blank ?a ''data_dir'' \<and> non_blank ?a ''default_tenant''
      \<and> (\<exists>u. string_value ?a ''public_base_url'' = Some u \<and> web_url u)
      \<and> (\<forall>n. string_value ?a ''nats_url'' = Some n \<longrightarrow> bus_url n)"
    unfolding answer_errors_def append_is_Nil_conv dir url nats
    by (auto simp: non_blank_def)
  moreover have "map_of (apply_answers m payload) ''ok'' = Some (JBool (answer_errors m ?a = []))" for m
    by (simp add: apply_answers_def Let_def)
  moreover have "answer_errors mode ?a \<noteq> [] \<Longrightarrow> map_of (apply_answers mode payload) ''config'' = None
      \<and> (\<exists>e es. map_of (apply_answers mode payload) ''errors'' = Some (JArr (e # es)))"
    by (cases "answer_errors mode ?a") (simp_all add: apply_answers_def)
  ultimately show ?thesis by simp
qed

section \<open>Applying again\<close>

lemma update_same: "map_of m k = Some v \<Longrightarrow> AList.update k v m = m"
  by (induction m) (auto split: if_splits)

lemma update_of [simp]: "map_of (AList.update k v m) j = (if j = k then Some v else map_of m j)"
  by (simp add: update_conv')

lemma ingress_cong:
  "map_of m ''public_base_url'' = map_of m' ''public_base_url'' \<Longrightarrow>
   map_of m ''public_path_prefix'' = map_of m' ''public_path_prefix'' \<Longrightarrow> build_ingress_config m = build_ingress_config m'"
  by (simp add: build_ingress_config_def)

lemma finish_config_of:
  assumes "mode \<noteq> Remove"
  shows "map_of (finish_config mode m) ''public_path_prefix'' \<noteq> None"
    "map_of (finish_config mode m) ''swarm_enable'' \<noteq> None"
    "map_of (finish_config mode m) ''enabled'' = Some (JBool True)"
    "map_of (finish_config mode m) ''ingress'' = Some (JObj (build_ingress_config (finish_config mode m)))"
    "k \<notin> {''public_path_prefix'', ''swarm_enable'', ''ingress'', ''enabled''} \<Longrightarrow> map_of (finish_config mode m) k = map_of m k"
  using assms
  by (simp_all add: finish_config_def insert_default_def Let_def) (auto intro!: ingress_cong)

lemma finish_config_again:
  assumes "mode \<noteq> Remove" "mode' \<noteq> Remove"
  shows "finish_config mode' (finish_config mode m) = finish_config mode m"
proof -
  let ?c = "finish_config mode m"
  have "insert_default ''public_path_prefix'' (JStr ''/dwbase'') ?c = ?c" "insert_default ''swarm_enable'' (JBool False) ?c = ?c"
    using finish_config_of(1,2) [OF assms(1), of m] by (auto simp: insert_default_def)
  moreover have "AList.update ''ingress'' (JObj (build_ingress_config ?c)) ?c = ?c" "AList.update ''enabled'' (JBool True) ?c = ?c"
    using finish_config_of(3,4) [OF assms(1), of m] by (simp_all add: update_same)
  ultimately show ?thesis using assms(2) by (simp add: finish_config_def [of mode'] Let_def)
qed

lemma config_of_success:
  assumes "map_of (apply_answers mode payload) ''config'' = Some cfg"
  shows "answer_errors mode (answers_of payload) = []
    \<and> cfg = JObj (finish_config mode (case answers_of payload of
        JObj as \<Rightarrow> merge_answers (current_config_of payload) as | _ \<Rightarrow> current_config_of payload))"
  using assms by (auto simp: apply_answers_def Let_def split: if_splits)

lemma no_answers [simp]: "answer_errors Update (JObj []) = []"
  by (simp add: answer_errors_def validate_non_empty_def validate_url_def validate_nats_url_def string_value_def)

text \<open>
  C34: Applying nothing changes nothing. The configuration that a setup or an update returned is
  returned as it is by an update of it with no answers: defaults, ingress section and flags are a
  fixed point.
\<close>

theorem update_is_stable:
  assumes "mode \<noteq> Remove" and "map_of (apply_answers mode payload) ''config'' = Some cfg"
  shows "map_of (apply_answers Update (JObj [(''current_config'', cfg), (''answers'', JObj [])])) ''config'' = Some cfg"
proof -
  obtain m where cfg: "cfg = JObj (finish_config mode m)" using config_of_success [OF assms(2)] by blast
  have "finish_config Update (finish_config mode m) = finish_config mode m"
    by (rule finish_config_again) (use assms(1) in simp_all)
  then show ?thesis by (simp add: cfg apply_answers_def answers_of_def current_config_of_def Let_def)
qed

definition sample_answers :: json where
  "sample_answers = JObj [(''answers'', JObj [(''data_dir'', JStr ''d''), (''default_tenant'', JStr ''t''),
     (''public_base_url'', JStr ''http://h/'')])]"

lemma sample_trims: "trim ''d'' = ''d''" "trim ''t'' = ''t''" "trim ''http://h/'' = ''http://h/''"
  by (rule trim_printable; simp add: printable_def)+

theorem update_is_stable_witness:
  "\<exists>cfg. map_of (apply_answers Setup sample_answers) ''config'' = Some cfg
     \<and> map_of (apply_answers Update (JObj [(''current_config'', cfg), (''answers'', JObj [])])) ''config'' = Some cfg"
proof -
  have "map_of (apply_answers Setup sample_answers) ''config'' \<noteq> None"
    by (simp add: apply_answers_def sample_answers_def answers_of_def answer_errors_def validate_non_empty_def
        validate_url_def validate_nats_url_def string_value_def sample_trims Let_def)
  then obtain cfg where cfg: "map_of (apply_answers Setup sample_answers) ''config'' = Some cfg" by blast
  show ?thesis using update_is_stable [OF _ cfg] cfg by blast
qed

lemma slashes_trim: "trim ''//'' = ''//''"
  by (rule trim_printable; simp add: printable_def)

theorem path_prefix_shape_witness: "normalize_path_prefix ''//'' = []"
  using path_prefix_shape [of "''//''"] slashes_trim by (auto simp: numeral_2_eq_2 intro: exI [of _ 0])

theorem setup_accepts_exactly_witness:
  "map_of (apply_answers Setup (JObj [])) ''ok'' = Some (JBool False)
   \<and> map_of (apply_answers Setup (JObj [])) ''config'' = None"
  using setup_accepts_exactly [of "JObj []" Setup] by (simp add: non_blank_def answers_of_def string_value_def)

section \<open>Removal and the exported entry point\<close>

text \<open>Answers that do not touch a key leave it alone.\<close>

lemma merge_answer_other: "j \<noteq> k \<Longrightarrow> map_of (merge_answer k v m) j = map_of m j"
  by (auto simp: merge_answer_def delete_conv' split: option.split)

lemma merge_answers_other: "j \<notin> fst ` set as \<Longrightarrow> map_of (merge_answers m as) j = map_of m j"
  by (induction m as rule: merge_answers.induct) (auto simp: merge_answer_other)

text \<open>
  Removal outlives a new setup. Removing clears the flags \<open>enabled\<close> and \<open>ingress_enabled\<close> of the
  configuration; a setup or update of it that is accepted sets \<open>enabled\<close> again but leaves
  \<open>ingress_enabled\<close> false, whatever it is answered, unless an answer names that key.
\<close>

theorem ingress_stays_removed:
  assumes removed: "map_of (apply_answers Remove payload) ''config'' = Some cfg"
    and again: "map_of (apply_answers mode (JObj [(''current_config'', cfg), (''answers'', JObj as)])) ''config'' = Some (JObj cfg')"
    and "mode \<noteq> Remove" and "''ingress_enabled'' \<notin> fst ` set as"
  shows "(\<exists>m. cfg = JObj m \<and> map_of m ''enabled'' = Some (JBool False) \<and> map_of m ''ingress_enabled'' = Some (JBool False))
    \<and> map_of cfg' ''enabled'' = Some (JBool True) \<and> map_of cfg' ''ingress_enabled'' = Some (JBool False)"
proof -
  obtain m where m: "cfg = JObj (finish_config Remove m)" using config_of_success [OF removed] by blast
  let ?m = "finish_config Remove m"
  have off: "map_of ?m ''enabled'' = Some (JBool False)" "map_of ?m ''ingress_enabled'' = Some (JBool False)"
    by (simp_all add: finish_config_def)
  have "cfg' = finish_config mode (merge_answers ?m as)"
    using config_of_success [OF again] m by (simp add: answers_of_def current_config_of_def)
  then show ?thesis
    using m off finish_config_of(3) [OF assms(3)] finish_config_of(5) [OF assms(3), of "''ingress_enabled''"]
      merge_answers_other [OF assms(4), of ?m] by simp
qed

theorem ingress_stays_removed_witness:
  "\<exists>cfg cfg'. map_of (apply_answers Remove (JObj [(''answers'', JObj [(''confirm_remove'', JBool True)])])) ''config'' = Some cfg
     \<and> map_of (apply_answers Update (JObj [(''current_config'', cfg), (''answers'', JObj [])])) ''config'' = Some (JObj cfg')
     \<and> map_of cfg' ''enabled'' = Some (JBool True) \<and> map_of cfg' ''ingress_enabled'' = Some (JBool False)"
proof -
  have "map_of (apply_answers Remove (JObj [(''answers'', JObj [(''confirm_remove'', JBool True)])])) ''config'' \<noteq> None"
    by (simp add: apply_answers_def answers_of_def answer_errors_def validate_non_empty_def
        validate_url_def validate_nats_url_def string_value_def bool_value_def Let_def)
  then obtain cfg where cfg: "map_of (apply_answers Remove (JObj [(''answers'', JObj [(''confirm_remove'', JBool True)])])) ''config'' = Some cfg"
    by blast
  obtain cfg' where cfg': "map_of (apply_answers Update (JObj [(''current_config'', cfg), (''answers'', JObj [])])) ''config'' = Some (JObj cfg')"
    by (simp add: apply_answers_def answers_of_def Let_def)
  show ?thesis using ingress_stays_removed [OF cfg cfg'] cfg cfg' by auto
qed

lemma overlay_other: "j \<notin> fst ` set as \<Longrightarrow> map_of (overlay m as) j = map_of m j"
  by (induction m as rule: overlay.induct) auto

lemma apply_answers_cong:
  "answers_of p = answers_of p' \<Longrightarrow> current_config_of p = current_config_of p' \<Longrightarrow> apply_answers mode p = apply_answers mode p'"
  by (simp only: apply_answers_def)

text \<open>
  The exported entry point needs wrapped input. Given the bytes of two objects of which neither
  has a field \<open>answers\<close>, \<open>config\<close> or \<open>current_config\<close>, a plain configuration and plain answers for
  instance, the exported \<open>apply_answers\<close> returns what it returns for two empty objects: it refuses
  every setup, and an update forgets the configuration.
\<close>

theorem guest_ignores_plain_input:
  assumes "parse_payload Q current_config = JObj m" and "parse_payload Q answers = JObj as"
    and "(fst ` set m \<union> fst ` set as) \<inter> {''answers'', ''config'', ''current_config''} = {}"
  shows "guest_apply_answers Q mode current_config answers = ql_cbor_enc Q (JObj (apply_answers (mode_of_qa mode) (JObj [])))
    \<and> map_of (apply_answers Setup (JObj [])) ''ok'' = Some (JBool False)
    \<and> map_of (apply_answers Update (JObj [])) ''config'' = Some (JObj (finish_config Update []))"
proof -
  have none: "map_of (overlay m as) k = None" if "k \<in> {''answers'', ''config'', ''current_config''}" for k
  proof -
    have "k \<notin> fst ` set m \<union> fst ` set as"
      by (rule notI, drule IntI [OF _ that]) (simp only: assms(3) empty_iff)
    then show ?thesis by (simp add: overlay_other map_of_eq_None_iff)
  qed
  have "answers_of (JObj (overlay m as)) = answers_of (JObj [])" "current_config_of (JObj (overlay m as)) = current_config_of (JObj [])"
    using none by (simp_all add: answers_of_def current_config_of_def)
  then have "apply_answers n (JObj (overlay m as)) = apply_answers n (JObj [])" for n by (rule apply_answers_cong)
  then have "guest_apply_answers Q mode current_config answers = ql_cbor_enc Q (JObj (apply_answers (mode_of_qa mode) (JObj [])))"
    by (simp add: guest_apply_answers_def assms(1,2) Let_def)
  moreover have empty: "answers_of (JObj []) = JObj []" "current_config_of (JObj []) = []"
    by (simp_all add: answers_of_def current_config_of_def)
  moreover have "answer_errors Setup (JObj []) \<noteq> []" by (simp add: answer_errors_def string_value_def)
  ultimately show ?thesis by (simp add: apply_answers_def Let_def)
qed

text \<open>A codec that knows two payloads, and an encoder that prints whether there is a configuration.\<close>

definition toy_qa :: qa_lib where
  "toy_qa = \<lparr>ql_text = JStr, ql_question = (\<lambda>q. JStr (qq_id q)), ql_mode = (\<lambda>m. JStr (mode_as_str m)),
     ql_print = (\<lambda>_. ''''), ql_cbor_dec = (\<lambda>b. if b = ''C'' then Some (JObj [(''data_dir'', JStr ''d'')]) else None),
     ql_json_dec = (\<lambda>b. if b = ''A'' then Some (JObj [(''public_base_url'', JStr ''http://h'')]) else None),
     ql_cbor_enc = (\<lambda>v. Some (if v = JObj (apply_answers Update (JObj [])) then ''empty'' else ''other''))\<rparr>"

theorem guest_ignores_plain_input_witness:
  "guest_apply_answers toy_qa Qa_Update ''C'' ''A'' = Some ''empty''"
proof -
  have "parse_payload toy_qa ''C'' = JObj [(''data_dir'', JStr ''d'')]"
    "parse_payload toy_qa ''A'' = JObj [(''public_base_url'', JStr ''http://h'')]"
    by (simp_all add: parse_payload_def toy_qa_def)
  from guest_ignores_plain_input [OF this] have "guest_apply_answers toy_qa Qa_Update ''C'' ''A''
      = ql_cbor_enc toy_qa (JObj (apply_answers Update (JObj [])))" by simp
  then show ?thesis by (simp add: toy_qa_def)
qed

end
