(* ===== verification/File_Tree.thy ===== *)
theory File_Tree
  imports Prelude
begin

text \<open>
  The part of \<open>std::fs\<close> and \<open>std::path\<close> that the command line uses. A path is the list of its
  components below the working directory, which is the empty path; symbolic links, permissions and
  \<open>..\<close> are outside. The files and directories are an association list, so that trees can be listed.
\<close>

type_synonym path = "string list"
type_synonym bytes = string

datatype node = Dir | File bytes

type_synonym files = "(path \<times> node) list"

datatype io_error = Not_Found | Not_A_Directory | Is_A_Directory | Not_Empty | Invalid_Input

section \<open>Paths\<close>

text \<open>\<open>file_stem\<close>: the name before its last dot, if that is not its first character.\<close>

definition file_stem :: "string \<Rightarrow> string" where
  "file_stem s = (let e = takeWhile (\<lambda>c. c \<noteq> CHR ''.'') (rev s)
     in if length s \<le> Suc (length e) then s else take (length s - Suc (length e)) s)"

definition with_extension :: "string \<Rightarrow> path \<Rightarrow> path" where
  "with_extension e p = (if p = [] then [] else butlast p @ [file_stem (last p) @ ''.'' @ e])"

fun path_text :: "path \<Rightarrow> string" where
  "path_text [] = ''.''"
| "path_text [c] = c"
| "path_text (c # p) = c @ ''/'' @ path_text p"

section \<open>Operations\<close>

definition fs_get :: "files \<Rightarrow> path \<Rightarrow> node option" where
  "fs_get fs p = (if p = [] then Some Dir else map_of fs p)"

definition fs_exists :: "files \<Rightarrow> path \<Rightarrow> bool" where
  "fs_exists fs p \<longleftrightarrow> fs_get fs p \<noteq> None"

definition fs_children :: "files \<Rightarrow> path \<Rightarrow> string list" where
  "fs_children fs p = map last (filter (\<lambda>k. k \<noteq> [] \<and> butlast k = p) (map fst fs))"

text \<open>Everything below a directory, relative to it.\<close>

definition subtree :: "files \<Rightarrow> path \<Rightarrow> files" where
  "subtree fs p = [(drop (length p) k, n). (k, n) \<leftarrow> fs, strict_prefix p k]"

definition drop_tree :: "path \<Rightarrow> files \<Rightarrow> files" where
  "drop_tree p fs = filter (\<lambda>(k, n). \<not> prefix p k) fs"

definition put :: "path \<Rightarrow> node \<Rightarrow> files \<Rightarrow> files" where
  "put p n fs = AList.update p n fs"

definition read_dir :: "files \<Rightarrow> path \<Rightarrow> (io_error, string list) result" where
  "read_dir fs p = (case fs_get fs p of None \<Rightarrow> Inl Not_Found | Some (File b) \<Rightarrow> Inl Not_A_Directory | Some Dir \<Rightarrow> Inr (fs_children fs p))"

definition fs_read :: "files \<Rightarrow> path \<Rightarrow> (io_error, bytes) result" where
  "fs_read fs p = (case fs_get fs p of None \<Rightarrow> Inl Not_Found | Some Dir \<Rightarrow> Inl Is_A_Directory | Some (File b) \<Rightarrow> Inr b)"

text \<open>\<open>fs::write\<close>, and with empty contents \<open>File::create\<close>: the parent must be a directory.\<close>

definition fs_write :: "path \<Rightarrow> bytes \<Rightarrow> files \<Rightarrow> (io_error, unit) result \<times> files" where
  "fs_write p b fs =
     (if fs_get fs p = Some Dir then (Inl Is_A_Directory, fs)
      else case fs_get fs (butlast p) of
        None \<Rightarrow> (Inl Not_Found, fs)
      | Some (File c) \<Rightarrow> (Inl Not_A_Directory, fs)
      | Some Dir \<Rightarrow> (Inr (), put p (File b) fs))"

fun create_dirs :: "path \<Rightarrow> path \<Rightarrow> files \<Rightarrow> (io_error, unit) result \<times> files" where
  "create_dirs pre [] fs = (Inr (), fs)"
| "create_dirs pre (c # p) fs =
     (case fs_get fs (pre @ [c]) of
        Some Dir \<Rightarrow> create_dirs (pre @ [c]) p fs
      | Some (File b) \<Rightarrow> (Inl Not_A_Directory, fs)
      | None \<Rightarrow> create_dirs (pre @ [c]) p (put (pre @ [c]) Dir fs))"

definition create_dir_all :: "path \<Rightarrow> files \<Rightarrow> (io_error, unit) result \<times> files" where
  "create_dir_all p = create_dirs [] p"

text \<open>The working directory itself cannot be removed, but its contents are by then.\<close>

definition remove_dir_all :: "path \<Rightarrow> files \<Rightarrow> (io_error, unit) result \<times> files" where
  "remove_dir_all p fs =
     (case fs_get fs p of
        None \<Rightarrow> (Inl Not_Found, fs)
      | Some (File b) \<Rightarrow> (Inl Not_A_Directory, fs)
      | Some Dir \<Rightarrow> (if p = [] then Inl Invalid_Input else Inr (), drop_tree p fs))"

definition remove_file :: "path \<Rightarrow> files \<Rightarrow> (io_error, unit) result \<times> files" where
  "remove_file p fs =
     (case fs_get fs p of
        None \<Rightarrow> (Inl Not_Found, fs)
      | Some Dir \<Rightarrow> (Inl Is_A_Directory, fs)
      | Some (File b) \<Rightarrow> (Inr (), drop_tree p fs))"

definition move_tree :: "path \<Rightarrow> path \<Rightarrow> files \<Rightarrow> files" where
  "move_tree a b fs = map (\<lambda>(k, n). (if prefix a k then b @ drop (length a) k else k, n)) (drop_tree b fs)"

definition fs_rename :: "path \<Rightarrow> path \<Rightarrow> files \<Rightarrow> (io_error, unit) result \<times> files" where
  "fs_rename a b fs =
     (if fs_get fs a = None then (Inl Not_Found, fs)
      else if a = [] \<or> b = [] \<or> strict_prefix a b then (Inl Invalid_Input, fs)
      else if a = b then (Inr (), fs)
      else case fs_get fs (butlast b) of
        None \<Rightarrow> (Inl Not_Found, fs)
      | Some (File c) \<Rightarrow> (Inl Not_A_Directory, fs)
      | Some Dir \<Rightarrow>
          (case (fs_get fs a, fs_get fs b) of
             (Some Dir, Some (File c)) \<Rightarrow> (Inl Not_A_Directory, fs)
           | (Some (File c), Some Dir) \<Rightarrow> (Inl Is_A_Directory, fs)
           | (Some Dir, Some Dir) \<Rightarrow> (if fs_children fs b = [] then (Inr (), move_tree a b fs) else (Inl Not_Empty, fs))
           | _ \<Rightarrow> (Inr (), move_tree a b fs)))"

section \<open>Well-formed trees\<close>

text \<open>Every file and directory has one entry, and its parent is a directory.\<close>

definition wf_files :: "files \<Rightarrow> bool" where
  "wf_files fs \<longleftrightarrow> distinct (map fst fs) \<and> (\<forall>k \<in> set (map fst fs). k \<noteq> [] \<and> fs_get fs (butlast k) = Some Dir)"

section \<open>What is found after an operation\<close>

lemma fs_get_Nil [simp]: "fs_get fs [] = Some Dir"
  by (simp add: fs_get_def)

lemma fs_get_put [simp]: "p \<noteq> [] \<Longrightarrow> fs_get (put p n fs) q = (if q = p then Some n else fs_get fs q)"
  by (simp add: fs_get_def put_def update_conv')

lemma map_of_drop_tree: "map_of (drop_tree p fs) q = (if prefix p q then None else map_of fs q)"
  by (induction fs) (auto simp: drop_tree_def)

lemma fs_get_drop: "fs_get (drop_tree p fs) q = (if q \<noteq> [] \<and> prefix p q then None else fs_get fs q)"
  by (simp add: fs_get_def map_of_drop_tree)

lemma map_of_subtree: "map_of (subtree fs p) r = (if r = [] then None else map_of fs (p @ r))"
  by (induction fs) (auto simp: subtree_def strict_prefix_def prefix_def)

lemma map_of_move:
  assumes "a \<parallel> b"
  shows "map_of (move_tree a b fs) q =
    (if prefix b q then map_of fs (a @ drop (length b) q) else if prefix a q then None else map_of fs q)"
proof (induction fs)
  case (Cons e fs)
  have apart: "\<not> (prefix a q \<and> prefix b q)" for q
    using assms by (metis parallelE prefix_same_cases)
  show ?case
    using Cons apart assms
    by (cases e) (auto simp: move_tree_def drop_tree_def prefix_def)
qed (simp add: move_tree_def drop_tree_def)

lemma fs_get_move:
  assumes "a \<parallel> b"
  shows "fs_get (move_tree a b fs) q =
    (if prefix b q then fs_get fs (a @ drop (length b) q) else if prefix a q then None else fs_get fs q)"
  using assms by (auto simp: fs_get_def map_of_move)

section \<open>Well-formed trees stay well-formed\<close>

lemma fs_get_key: "p \<noteq> [] \<Longrightarrow> fs_get fs p \<noteq> None \<longleftrightarrow> p \<in> set (map fst fs)"
  by (auto simp: fs_get_def map_of_eq_None_iff dest: map_of_SomeD)

lemma wf_filesI:
  assumes "distinct (map fst fs)" "\<And>p. p \<noteq> [] \<Longrightarrow> fs_get fs p \<noteq> None \<Longrightarrow> fs_get fs (butlast p) = Some Dir" "[] \<notin> set (map fst fs)"
  shows "wf_files fs"
  using assms fs_get_key unfolding wf_files_def by metis

lemma wf_parent: "wf_files fs \<Longrightarrow> p \<noteq> [] \<Longrightarrow> fs_get fs p \<noteq> None \<Longrightarrow> fs_get fs (butlast p) = Some Dir"
  using fs_get_key unfolding wf_files_def by blast

lemma wf_ancestor: "wf_files fs \<Longrightarrow> fs_get fs (p @ r) \<noteq> None \<Longrightarrow> r \<noteq> [] \<Longrightarrow> fs_get fs p = Some Dir"
proof (induction r rule: rev_induct)
  case (snoc x r)
  then have "fs_get fs (p @ r) = Some Dir" using wf_parent [of fs "p @ r @ [x]"] by (simp add: butlast_append)
  then show ?case using snoc by (cases "r = []") simp_all
qed simp

lemma wf_not_below_file: "wf_files fs \<Longrightarrow> fs_get fs p \<noteq> Some Dir \<Longrightarrow> r \<noteq> [] \<Longrightarrow> fs_get fs (p @ r) = None"
  using wf_ancestor by blast

lemma wf_keys: "wf_files fs \<Longrightarrow> distinct (map fst fs)" "wf_files fs \<Longrightarrow> [] \<notin> set (map fst fs)"
  by (auto simp: wf_files_def)

lemma wf_put:
  assumes "wf_files fs" "p \<noteq> []" "fs_get fs (butlast p) = Some Dir" "n = Dir \<or> fs_get fs p \<noteq> Some Dir"
  shows "wf_files (put p n fs)"
proof (rule wf_filesI)
  show "distinct (map fst (put p n fs))" unfolding put_def by (rule distinct_update [OF wf_keys(1) [OF assms(1)]])
  show "[] \<notin> set (map fst (put p n fs))" using wf_keys(2) [OF assms(1)] assms(2) by (auto simp: put_def update_keys)
  fix q :: path assume q: "q \<noteq> []" "fs_get (put p n fs) q \<noteq> None"
  have "fs_get fs (butlast q) = Some Dir" using q assms by (auto split: if_splits intro: wf_parent)
  then show "fs_get (put p n fs) (butlast q) = Some Dir" using assms(2,4) by auto
qed

lemma prefix_butlast: "prefix p (butlast q) \<Longrightarrow> prefix p q"
  by (metis butlast.simps(1) append_butlast_last_id prefix_prefix)

lemma strict_prefix_butlast: "strict_prefix p q \<Longrightarrow> prefix p (butlast q)"
  by (cases q rule: rev_cases) (auto simp: strict_prefix_def)

lemma wf_drop: "wf_files fs \<Longrightarrow> wf_files (drop_tree p fs)"
proof (rule wf_filesI)
  assume wf: "wf_files fs"
  have "map fst (drop_tree p fs) = filter (\<lambda>k. \<not> prefix p k) (map fst fs)"
    by (simp add: drop_tree_def filter_map comp_def case_prod_beta')
  then show "distinct (map fst (drop_tree p fs))" "[] \<notin> set (map fst (drop_tree p fs))"
    using wf_keys [OF wf] by auto
  fix q :: path assume q: "q \<noteq> []" "fs_get (drop_tree p fs) q \<noteq> None"
  then have "fs_get fs (butlast q) = Some Dir" "\<not> prefix p q"
    using wf_parent [OF wf, of q] by (auto simp: fs_get_drop split: if_splits)
  then show "fs_get (drop_tree p fs) (butlast q) = Some Dir" using prefix_butlast by (auto simp: fs_get_drop)
qed

lemma not_prefix_butlast: "b \<noteq> [] \<Longrightarrow> \<not> prefix b (butlast b)"
  by (cases b rule: rev_cases) (auto dest: prefix_length_le)

lemma wf_move:
  assumes "wf_files fs" "a \<parallel> b" "fs_get fs (butlast b) = Some Dir"
  shows "wf_files (move_tree a b fs)"
proof (rule wf_filesI)
  have apart: "\<not> (prefix a q \<and> prefix b q)" for q
    using assms(2) by (metis parallelE prefix_same_cases)
  have ab: "a \<noteq> []" "b \<noteq> []" "\<not> prefix a (butlast b)"
    using assms(2) prefix_butlast by auto
  let ?f = "\<lambda>k. if prefix a k then b @ drop (length a) k else k"
  have keys: "map fst (move_tree a b fs) = map ?f (filter (\<lambda>k. \<not> prefix b k) (map fst fs))"
    by (simp add: move_tree_def drop_tree_def filter_map comp_def case_prod_beta')
  have "inj_on ?f (set (filter (\<lambda>k. \<not> prefix b k) (map fst fs)))"
    by (auto simp: inj_on_def prefix_def split: if_splits)
  then show "distinct (map fst (move_tree a b fs))"
    unfolding keys using wf_keys(1) [OF assms(1)] by (simp add: distinct_map)
  show "[] \<notin> set (map fst (move_tree a b fs))" unfolding keys using wf_keys(2) [OF assms(1)] ab by auto
  fix q :: path assume q: "q \<noteq> []" "fs_get (move_tree a b fs) q \<noteq> None"
  show "fs_get (move_tree a b fs) (butlast q) = Some Dir"
  proof (cases "prefix b q")
    case True
    then obtain r where r: "q = b @ r" by (auto simp: prefix_def)
    then have old: "fs_get fs (a @ r) \<noteq> None" using q by (simp add: fs_get_move [OF assms(2)])
    show ?thesis
    proof (cases "r = []")
      case True
      then show ?thesis using assms(3) ab r q(1) not_prefix_butlast [of b] by (simp add: fs_get_move [OF assms(2)])
    next
      case False
      then show ?thesis
        using wf_parent [OF assms(1), of "a @ r"] old ab r by (simp add: butlast_append fs_get_move [OF assms(2)])
    qed
  next
    case False
    then have "fs_get fs (butlast q) = Some Dir" "\<not> prefix a q"
      using q wf_parent [OF assms(1), of q] by (auto simp: fs_get_move [OF assms(2)] split: if_splits)
    then show ?thesis using False prefix_butlast by (auto simp: fs_get_move [OF assms(2)])
  qed
qed

text \<open>Creating directories succeeds unless a file is in the way, and adds directories only.\<close>

lemma create_dirs_ok:
  "(\<And>r b. prefix r p \<Longrightarrow> r \<noteq> [] \<Longrightarrow> fs_get fs (pre @ r) \<noteq> Some (File b)) \<Longrightarrow>
   fst (create_dirs pre p fs) = Inr () \<and>
   (\<forall>q. fs_get (snd (create_dirs pre p fs)) q = (if strict_prefix pre q \<and> prefix q (pre @ p) then Some Dir else fs_get fs q))"
proof (induction pre p fs rule: create_dirs.induct)
  case (1 pre fs)
  then show ?case by (auto dest: prefix_order.dual_order.strict_implies_not_eq)
next
  case (2 pre c p fs)
  have here: "fs_get fs (pre @ [c]) \<noteq> Some (File b)" for b using 2(3) [of "[c]"] by simp
  have step: "strict_prefix pre q \<and> prefix q (pre @ c # p) \<longleftrightarrow> q = pre @ [c] \<or> strict_prefix (pre @ [c]) q \<and> prefix q ((pre @ [c]) @ p)" for q
    by (auto simp: strict_prefix_def prefix_def Cons_eq_append_conv append_eq_Cons_conv)
  have tail: "fs_get fs ((pre @ [c]) @ r) \<noteq> Some (File b)" if "prefix r p" "r \<noteq> []" for r b
    using 2(3) [of "c # r" b] that by simp
  show ?case
  proof (cases "fs_get fs (pre @ [c])")
    case None
    have "fs_get (put (pre @ [c]) Dir fs) ((pre @ [c]) @ r) \<noteq> Some (File b)" if "prefix r p" "r \<noteq> []" for r b
      using tail that by simp
    from 2(1) [OF None this] show ?thesis using None by (simp add: step)
  next
    case (Some n)
    then have n: "fs_get fs (pre @ [c]) = Some Dir" using here by (cases n) auto
    from 2(2) [OF n refl tail] show ?thesis using n by (auto simp: step)
  qed
qed

lemma create_dirs_wf: "wf_files fs \<Longrightarrow> fs_get fs pre = Some Dir \<Longrightarrow> wf_files (snd (create_dirs pre p fs))"
proof (induction pre p fs rule: create_dirs.induct)
  case (2 pre c p fs)
  show ?case
  proof (cases "fs_get fs (pre @ [c])")
    case None
    have "wf_files (put (pre @ [c]) Dir fs)" using 2(3,4) by (intro wf_put) simp_all
    then show ?thesis using 2(1) [OF None] None by simp
  next
    case (Some n)
    then show ?thesis using 2 by (cases n) auto
  qed
qed simp

lemmas create_dir_all_ok = create_dirs_ok [where pre = "[]", folded create_dir_all_def, simplified]

lemma create_dir_all_wf: "wf_files fs \<Longrightarrow> wf_files (snd (create_dir_all p fs))"
  unfolding create_dir_all_def by (rule create_dirs_wf) simp_all

text \<open>Nothing is created where everything is there already.\<close>

lemma create_dirs_there: "(\<And>r. prefix r p \<Longrightarrow> fs_get fs (pre @ r) = Some Dir) \<Longrightarrow> create_dirs pre p fs = (Inr (), fs)"
proof (induction pre p fs rule: create_dirs.induct)
  case (2 pre c p fs)
  have n: "fs_get fs (pre @ [c]) = Some Dir" using 2(3) [of "[c]"] by simp
  have "fs_get fs ((pre @ [c]) @ r) = Some Dir" if "prefix r p" for r using 2(3) [of "c # r"] that by simp
  from 2(2) [OF n refl this] show ?case using n by simp
qed simp

text \<open>A tree copied into an empty directory.\<close>

definition graft :: "path \<Rightarrow> files \<Rightarrow> files \<Rightarrow> files" where
  "graft p t fs = fs @ map (\<lambda>(k, n). (p @ k, n)) t"

lemma map_of_shift: "map_of (map (\<lambda>(k, n). (p @ k, n)) t) q = (if prefix p q then map_of t (drop (length p) q) else None)"
  by (induction t) (auto simp: prefix_def)

lemma fs_get_graft:
  assumes "\<And>r. r \<noteq> [] \<Longrightarrow> fs_get fs (p @ r) = None" "fs_get fs p = Some Dir" "wf_files t"
  shows "fs_get (graft p t fs) q = (if prefix p q then fs_get t (drop (length p) q) else fs_get fs q)"
proof (cases "prefix p q")
  case True
  then obtain r where r: "q = p @ r" by (auto simp: prefix_def)
  have "map_of t [] = None" using wf_keys(2) [OF assms(3)] by (simp add: map_of_eq_None_iff)
  then show ?thesis
    using assms(1) [of r] assms(2) r by (auto simp: fs_get_def graft_def map_of_shift map_add_def split: option.splits if_splits)
next
  case False
  then have "map_of (map (\<lambda>(k, n). (p @ k, n)) t) q = None" by (simp add: map_of_shift)
  then show ?thesis using False by (simp add: fs_get_def graft_def map_add_def split: option.split)
qed

lemma wf_graft:
  assumes fs: "\<And>r. r \<noteq> [] \<Longrightarrow> fs_get fs (p @ r) = None" "fs_get fs p = Some Dir" "wf_files fs" and t: "wf_files t"
  shows "wf_files (graft p t fs)"
proof (rule wf_filesI)
  have keys: "map fst (graft p t fs) = map fst fs @ map (\<lambda>k. p @ k) (map fst t)"
    by (simp add: graft_def comp_def case_prod_beta')
  have "p @ k \<notin> set (map fst fs)" if "k \<in> set (map fst t)" for k
  proof -
    have "k \<noteq> []" using that wf_keys(2) [OF t] by blast
    then show ?thesis using fs(1) [of k] fs_get_key [of "p @ k" fs] by simp
  qed
  then have "set (map fst fs) \<inter> (\<lambda>k. p @ k) ` set (map fst t) = {}" by blast
  then show "distinct (map fst (graft p t fs))"
    unfolding keys using wf_keys(1) [OF fs(3)] wf_keys(1) [OF t]
    by (simp only: distinct_append distinct_map [of "\<lambda>k. p @ k"] set_map image_image inj_on_def simp_thms same_append_eq) simp
  have "[] \<notin> set (map (\<lambda>k. p @ k) ks)" if "[] \<notin> set ks" for ks using that by auto
  then show "[] \<notin> set (map fst (graft p t fs))" unfolding keys set_append Un_iff using wf_keys(2) [OF fs(3)] wf_keys(2) [OF t] by blast
  fix q :: path assume q: "q \<noteq> []" "fs_get (graft p t fs) q \<noteq> None"
  note get = fs_get_graft [OF fs(1,2) t]
  show "fs_get (graft p t fs) (butlast q) = Some Dir"
  proof (cases "strict_prefix p q")
    case True
    then obtain r where r: "q = p @ r" "r \<noteq> []" by (auto simp: strict_prefix_def prefix_def)
    then show ?thesis using q wf_parent [OF t, of r] by (simp add: get butlast_append)
  next
    case False
    then have n: "q = p \<or> \<not> prefix p q" by (auto simp: strict_prefix_def)
    then have "\<not> prefix p (butlast q)" using q(1) prefix_butlast by (metis length_butlast length_greater_0_conv diff_less less_one not_less prefix_length_le)
    moreover have "fs_get fs q \<noteq> None" using n q fs(2) by (auto simp: get)
    ultimately show ?thesis using wf_parent [OF fs(3) q(1)] by (simp add: get)
  qed
qed

end
