(* ===== verification/Component_Build.thy ===== *)
theory Component_Build
  imports File_Tree Component_Qa
begin

text \<open>
  How the setup component gets its translations: \<open>crates/component-dwbase/build.rs\<close> loads the locale
  files of \<open>assets/i18n\<close> and packs them, and \<open>src/i18n.rs\<close> unpacks them once at run time. The JSON parser
  and the CBOR crate are parameters.
\<close>

record build_lib =
  bl_parse :: "bytes \<Rightarrow> (string, (string \<times> string) list) result"
  bl_pack :: "locale_bundle \<Rightarrow> (string, bytes) result"
  bl_unpack :: "bytes \<Rightarrow> (string, locale_bundle) result"
  bl_io_text :: "io_error \<Rightarrow> string"

text \<open>\<open>extension\<close>: what follows the last dot of the name, if that is not its first character.\<close>

definition path_extension :: "string \<Rightarrow> string option" where
  "path_extension s = (let e = takeWhile (\<lambda>c. c \<noteq> CHR ''.'') (rev s)
     in if length s \<le> Suc (length e) then None else Some (rev e))"

fun load_entries :: "build_lib \<Rightarrow> path \<Rightarrow> files \<Rightarrow> string list \<Rightarrow> locale_bundle \<Rightarrow> (string, locale_bundle) result" where
  "load_entries L dir fs [] B = Inr B"
| "load_entries L dir fs (name # names) B =
     (if path_extension name \<noteq> Some ''json'' \<or> file_stem name = ''locales'' then load_entries L dir fs names B
      else rbind (rmap_err (bl_io_text L) (fs_read fs (dir @ [name]))) (\<lambda>raw.
           rbind (bl_parse L raw) (\<lambda>m.
             load_entries L dir fs names (AList.update (file_stem name) m B))))"

definition load_locale_files :: "build_lib \<Rightarrow> path \<Rightarrow> files \<Rightarrow> (string, locale_bundle) result" where
  "load_locale_files L dir fs =
     (if \<not> fs_exists fs dir then Inr []
      else rbind (rmap_err (bl_io_text L) (read_dir fs dir)) (\<lambda>names. load_entries L dir fs names []))"

definition pack_locales_to_cbor :: "build_lib \<Rightarrow> locale_bundle \<Rightarrow> (string, bytes) result" where
  "pack_locales_to_cbor L B = bl_pack L B"

definition unpack_locales_from_cbor :: "build_lib \<Rightarrow> bytes \<Rightarrow> (string, locale_bundle) result" where
  "unpack_locales_from_cbor L b = bl_unpack L b"

text \<open>The build script; a panic of the build is an error here.\<close>

definition build_bundle :: "build_lib \<Rightarrow> files \<Rightarrow> (string, bytes) result" where
  "build_bundle L fs =
     rbind (rmap_err (\<lambda>e. ''failed to load locale files: '' @ e) (load_locale_files L [''assets'', ''i18n''] fs)) (\<lambda>B.
       rmap_err (\<lambda>e. ''failed to pack locale bundle: '' @ e) (pack_locales_to_cbor L B))"

definition runtime_bundle :: "build_lib \<Rightarrow> bytes \<Rightarrow> locale_bundle" where
  "runtime_bundle L b = (case unpack_locales_from_cbor L b of Inl e \<Rightarrow> [] | Inr B \<Rightarrow> B)"

section \<open>Names of locale files\<close>

lemma take_ext: "takeWhile (\<lambda>c. c \<noteq> CHR ''.'') (rev (l @ ''.json'')) = ''nosj''"
  by simp

lemma file_stem_json: "l \<noteq> [] \<Longrightarrow> file_stem (l @ ''.json'') = l"
  unfolding file_stem_def take_ext Let_def by simp

lemma extension_json: "path_extension s = Some ''json'' \<longleftrightarrow> (\<exists>l. l \<noteq> [] \<and> s = l @ ''.json'')"
proof
  assume ext: "path_extension s = Some ''json''"
  define e where "e = takeWhile (\<lambda>c. c \<noteq> CHR ''.'') (rev s)"
  have e: "\<not> length s \<le> Suc (length e)" "rev e = ''json''"
    using ext by (auto simp: path_extension_def Let_def e_def [symmetric] split: if_splits)
  have split: "rev s = e @ dropWhile (\<lambda>c. c \<noteq> CHR ''.'') (rev s)" by (simp add: e_def)
  then have len: "length s = length e + length (dropWhile (\<lambda>c. c \<noteq> CHR ''.'') (rev s))" by (metis length_append length_rev)
  then obtain c r where cr: "dropWhile (\<lambda>c. c \<noteq> CHR ''.'') (rev s) = c # r" "r \<noteq> []"
    using e(1) by (cases "dropWhile (\<lambda>c. c \<noteq> CHR ''.'') (rev s)") auto
  have "c = CHR ''.''" using cr(1) by (metis (mono_tags, lifting) hd_dropWhile list.discI list.sel(1))
  then have "rev s = e @ CHR ''.'' # r" using split cr(1) by simp
  then have "s = rev r @ CHR ''.'' # rev e" by (metis append_Cons append_Nil append_assoc rev.simps(2) rev_append rev_rev_ident)
  then have "s = rev r @ ''.json''" by (simp only: e(2))
  then show "\<exists>l. l \<noteq> [] \<and> s = l @ ''.json''" using cr(2) by (intro exI [of _ "rev r"]) simp
next
  assume "\<exists>l. l \<noteq> [] \<and> s = l @ ''.json''"
  then obtain l where l: "l \<noteq> []" "s = l @ ''.json''" by blast
  show "path_extension s = Some ''json''" unfolding l(2) path_extension_def take_ext Let_def using l(1) by simp
qed

text \<open>The locale of a file name, if it names one.\<close>

definition locale_of :: "string \<Rightarrow> string option" where
  "locale_of name = (if path_extension name \<noteq> Some ''json'' \<or> file_stem name = ''locales'' then None else Some (file_stem name))"

lemma locale_of_eq: "locale_of name = Some l \<longleftrightarrow> l \<noteq> [] \<and> l \<noteq> ''locales'' \<and> name = l @ ''.json''"
  by (auto simp: locale_of_def extension_json file_stem_json)

definition locale_at :: "build_lib \<Rightarrow> path \<Rightarrow> files \<Rightarrow> string \<Rightarrow> (string \<times> string) list option" where
  "locale_at L dir fs l =
     (if l = [] \<or> l = ''locales'' then None
      else case fs_get fs (dir @ [l @ ''.json'']) of
        Some (File c) \<Rightarrow> (case bl_parse L c of Inr m \<Rightarrow> Some m | Inl e \<Rightarrow> None)
      | _ \<Rightarrow> None)"

lemma load_entries_get:
  assumes "load_entries L dir fs names B = Inr B'"
  shows "map_of B' l = (if l \<noteq> [] \<and> l \<noteq> ''locales'' \<and> l @ ''.json'' \<in> set names then locale_at L dir fs l else map_of B l)"
  using assms
proof (induction names arbitrary: B)
  case (Cons name names)
  show ?case
  proof (cases "locale_of name")
    case None
    then have "load_entries L dir fs names B = Inr B'" using Cons(2) by (simp add: locale_of_def split: if_splits)
    moreover have "l \<noteq> [] \<Longrightarrow> l \<noteq> ''locales'' \<Longrightarrow> name \<noteq> l @ ''.json''"
      using None locale_of_eq [of name l] by auto
    ultimately show ?thesis using Cons(1) [of B] by auto
  next
    case (Some k)
    then have k: "k \<noteq> []" "k \<noteq> ''locales''" "name = k @ ''.json''" by (simp_all add: locale_of_eq)
    have use: "\<not> (path_extension name \<noteq> Some ''json'' \<or> file_stem name = ''locales'')" "file_stem name = k"
      using Some by (auto simp: locale_of_def split: if_splits)
    obtain c m where c: "fs_get fs (dir @ [name]) = Some (File c)" "bl_parse L c = Inr m"
      and rest: "load_entries L dir fs names (AList.update k m B) = Inr B'"
      using Cons(2) use by (auto simp: fs_read_def res_simps split: option.splits node.splits)
    have "locale_at L dir fs k = Some m" using c k by (simp add: locale_at_def)
    then show ?thesis using Cons(1) [OF rest] k by (auto simp: update_conv')
  qed
qed simp

lemma load_entries_ok:
  "is_ok (load_entries L dir fs names B) \<longleftrightarrow> (\<forall>name \<in> set names. \<forall>l. locale_of name = Some l \<longrightarrow> locale_at L dir fs l \<noteq> None)"
proof (induction names arbitrary: B)
  case (Cons name names)
  show ?case
  proof (cases "locale_of name")
    case None
    then have skip: "path_extension name \<noteq> Some ''json'' \<or> file_stem name = ''locales''"
      by (auto simp: locale_of_def split: if_splits)
    have "load_entries L dir fs (name # names) B = load_entries L dir fs names B"
      unfolding load_entries.simps if_P [OF skip] ..
    then show ?thesis using Cons None by simp
  next
    case (Some k)
    then have k: "k \<noteq> []" "k \<noteq> ''locales''" "name = k @ ''.json''" by (simp_all add: locale_of_eq)
    have use: "\<not> (path_extension name \<noteq> Some ''json'' \<or> file_stem name = ''locales'')" "file_stem name = k"
      using Some by (auto simp: locale_of_def split: if_splits)
    have step: "load_entries L dir fs (name # names) B =
        rbind (rmap_err (bl_io_text L) (fs_read fs (dir @ [name]))) (\<lambda>raw. rbind (bl_parse L raw) (\<lambda>m.
          load_entries L dir fs names (AList.update k m B)))"
      unfolding load_entries.simps if_not_P [OF use(1)] unfolding use(2) ..
    have at: "locale_at L dir fs k = (case fs_get fs (dir @ [name]) of
        Some (File c) \<Rightarrow> (case bl_parse L c of Inr m \<Rightarrow> Some m | Inl e \<Rightarrow> None) | _ \<Rightarrow> None)"
      using k by (simp add: locale_at_def)
    show ?thesis
    proof (cases "fs_get fs (dir @ [name])")
      case none: None
      then show ?thesis unfolding step using Some at by (simp add: fs_read_def)
    next
      case there: (Some n)
      show ?thesis
      proof (cases n)
        case Dir
        then show ?thesis unfolding step using there Some at by (simp add: fs_read_def)
      next
        case (File c)
        then show ?thesis unfolding step using there Some at Cons by (cases "bl_parse L c") (simp_all add: fs_read_def)
      qed
    qed
  qed
qed simp

lemma in_children: "name \<in> set (fs_children fs dir) \<longleftrightarrow> fs_get fs (dir @ [name]) \<noteq> None"
proof -
  have "name \<in> set (fs_children fs dir) \<longleftrightarrow> dir @ [name] \<in> set (map fst fs)"
    unfolding fs_children_def by (force simp: image_iff)
  then show ?thesis using fs_get_key [of "dir @ [name]" fs] by simp
qed

lemma load_locale_files_get:
  assumes wf: "wf_files fs" and load: "load_locale_files L dir fs = Inr B"
  shows "map_of B l = locale_at L dir fs l"
proof (cases "fs_exists fs dir")
  case True
  then obtain names where "names = fs_children fs dir" "load_entries L dir fs names [] = Inr B"
    using load by (auto simp: load_locale_files_def read_dir_def res_simps split: option.splits node.splits)
  then have "map_of B l = (if l \<noteq> [] \<and> l \<noteq> ''locales'' \<and> fs_get fs (dir @ [l @ ''.json'']) \<noteq> None then locale_at L dir fs l else None)"
    using load_entries_get [of L dir fs names "[]" B l] by (simp add: in_children)
  then show ?thesis by (auto simp: locale_at_def split: option.splits)
next
  case False
  then have none: "fs_get fs (dir @ [l @ ''.json'']) = None"
    using wf_not_below_file [OF wf, of dir "[l @ ''.json'']"] by (simp add: fs_exists_def)
  have "B = []" using load False by (simp add: load_locale_files_def)
  then show ?thesis using none by (simp add: locale_at_def)
qed

text \<open>The first of some locales whose file has the key.\<close>

fun first_message :: "build_lib \<Rightarrow> path \<Rightarrow> files \<Rightarrow> string list \<Rightarrow> string \<Rightarrow> string" where
  "first_message L dir fs [] key = key"
| "first_message L dir fs (l # ls) key =
     (case Option.bind (locale_at L dir fs l) (\<lambda>m. map_of m key) of Some v \<Rightarrow> v | None \<Rightarrow> first_message L dir fs ls key)"

text \<open>
  Translations come from the files. Loading the locale files succeeds exactly if the directory is
  absent, or is a directory in which every file \<open><locale>.json\<close> (but \<open>locales.json\<close>) reads and parses.
  What the component built from it then says for a key is what the first file in the chain of its
  locale has for it: the locale with its underscores as dashes, its part before the first dash, and
  English; or the key itself.
\<close>

theorem translations_from_files:
  assumes wf: "wf_files fs" and codec: "\<forall>B c. bl_pack L B = Inr c \<longrightarrow> bl_unpack L c = Inr B"
  shows "(is_ok (load_locale_files L dir fs) \<longleftrightarrow>
            \<not> fs_exists fs dir \<or> fs_get fs dir = Some Dir \<and>
              (\<forall>l. l \<noteq> [] \<and> l \<noteq> ''locales'' \<and> fs_exists fs (dir @ [l @ ''.json'']) \<longrightarrow> locale_at L dir fs l \<noteq> None))
    \<and> (build_bundle L fs = Inr b \<longrightarrow>
         translate (runtime_bundle L b) loc key = first_message L [''assets'', ''i18n''] fs (locale_chain loc) key)"
proof (intro conjI impI)
  show "is_ok (load_locale_files L dir fs) \<longleftrightarrow>
            \<not> fs_exists fs dir \<or> fs_get fs dir = Some Dir \<and>
              (\<forall>l. l \<noteq> [] \<and> l \<noteq> ''locales'' \<and> fs_exists fs (dir @ [l @ ''.json'']) \<longrightarrow> locale_at L dir fs l \<noteq> None)"
  proof (cases "fs_get fs dir")
    case None
    then show ?thesis by (simp add: load_locale_files_def fs_exists_def)
  next
    case (Some n)
    show ?thesis
    proof (cases n)
      case Dir
      have "is_ok (load_locale_files L dir fs) \<longleftrightarrow> is_ok (load_entries L dir fs (fs_children fs dir) [])"
        using Some Dir by (simp add: load_locale_files_def fs_exists_def read_dir_def)
      also have "\<dots> \<longleftrightarrow> (\<forall>l. l \<noteq> [] \<and> l \<noteq> ''locales'' \<and> fs_exists fs (dir @ [l @ ''.json'']) \<longrightarrow> locale_at L dir fs l \<noteq> None)"
        unfolding load_entries_ok Ball_def in_children locale_of_eq fs_exists_def by blast
      finally show ?thesis using Some Dir by (simp add: fs_exists_def)
    qed (use Some in \<open>simp add: load_locale_files_def fs_exists_def read_dir_def\<close>)
  qed
next
  assume build: "build_bundle L fs = Inr b"
  then obtain B where "load_locale_files L [''assets'', ''i18n''] fs = Inr B" "bl_pack L B = Inr b"
    by (auto simp: build_bundle_def pack_locales_to_cbor_def res_simps)
  then have B: "runtime_bundle L b = B" "\<And>l. map_of B l = locale_at L [''assets'', ''i18n''] fs l"
    using codec load_locale_files_get [OF wf] by (auto simp: runtime_bundle_def unpack_locales_from_cbor_def)
  have "translate_in B ls key = first_message L [''assets'', ''i18n''] fs ls key" for ls
    by (induction ls) (simp_all add: B(2) split: option.split)
  then show "translate (runtime_bundle L b) loc key = first_message L [''assets'', ''i18n''] fs (locale_chain loc) key"
    by (simp add: translate_def B(1))
qed

section \<open>Example\<close>

definition sample_assets :: files where
  "sample_assets = [([''assets''], Dir), ([''assets'', ''i18n''], Dir),
     ([''assets'', ''i18n'', ''en.json''], File ''hello''), ([''assets'', ''i18n'', ''locales.json''], File [])]"

text \<open>A locale file holds the message of its only key; the bundle is the message of English.\<close>

definition sample_build :: build_lib where
  "sample_build = \<lparr>bl_parse = (\<lambda>raw. if raw = [] then Inl ''EOF'' else Inr [(''greet'', raw)]),
     bl_pack = (\<lambda>B. case B of [(l, [(k, v)])] \<Rightarrow> if l = ''en'' \<and> k = ''greet'' then Inr v else Inl ''unsupported'' | _ \<Rightarrow> Inl ''unsupported''),
     bl_unpack = (\<lambda>b. Inr [(''en'', [(''greet'', b)])]), bl_io_text = (\<lambda>e. ''error'')\<rparr>"

lemma sample_pack: "\<forall>B c. bl_pack sample_build B = Inr c \<longrightarrow> bl_unpack sample_build c = Inr B"
  by (auto simp: sample_build_def split: list.splits prod.splits if_splits)

lemma sample_assets_wf: "wf_files sample_assets"
  by code_simp

lemma sample_bundle: "build_bundle sample_build sample_assets = Inr ''hello''"
  by code_simp

theorem translations_from_files_witness:
  "translate (runtime_bundle sample_build ''hello'') ''pt_BR'' ''greet'' = ''hello''
   \<and> is_ok (load_locale_files sample_build [''assets'', ''i18n''] sample_assets)"
proof -
  have "locale_chain ''pt_BR'' = [''pt-BR'', ''pt'', ''en'']" by code_simp
  moreover have "first_message sample_build [''assets'', ''i18n''] sample_assets [''pt-BR'', ''pt'', ''en''] ''greet'' = ''hello''"
    by code_simp
  moreover have "translate (runtime_bundle sample_build ''hello'') ''pt_BR'' ''greet''
      = first_message sample_build [''assets'', ''i18n''] sample_assets (locale_chain ''pt_BR'') ''greet''"
    using translations_from_files [OF sample_assets_wf sample_pack, THEN conjunct2, rule_format, OF sample_bundle] .
  moreover have "is_ok (load_locale_files sample_build [''assets'', ''i18n''] sample_assets)" by code_simp
  ultimately show ?thesis by simp
qed

end
