(* ===== verification/Component_Describe.thy ===== *)
theory Component_Describe
  imports Component_Claims
begin

text \<open>
  How the setup component of \<open>crates/component-dwbase/src/lib.rs\<close> describes itself to its host: its
  operations with their schemas, and the invocation. Only the schema forms the code builds are
  modelled, and \<open>additional\<close> is always \<open>Forbid\<close>; the encoding of a schema is a parameter.
\<close>

section \<open>Schemas\<close>

datatype schema_ir =
    Schema_Object "(string \<times> schema_ir) list" "string list"
  | Schema_String "nat option" "nat option"

definition input_schema :: schema_ir where
  "input_schema = Schema_Object [(''input'', Schema_String (Some 0) None)] [''input'']"

definition output_schema :: schema_ir where
  "output_schema = Schema_Object [(''message'', Schema_String (Some 0) None)] [''message'']"

definition config_schema :: schema_ir where
  "config_schema = Schema_Object [] []"

section \<open>The descriptor\<close>

record component_info =
  ci_id :: string
  ci_version :: string
  ci_role :: string
  ci_display_name :: "string \<times> string"

text \<open>\<open>version\<close> is the package version at build time.\<close>

definition component_info_of :: "string \<Rightarrow> component_info" where
  "component_info_of version =
     \<lparr>ci_id = ''ai.greentic.dwbase'', ci_version = version, ci_role = ''tool'',
      ci_display_name = (''component.display_name'', ''dwbase'')\<rparr>"

record described_op =
  op_name :: string
  op_summary :: string
  op_input :: string
  op_output :: string
  op_content_type :: string

definition described :: "string \<Rightarrow> string \<Rightarrow> string \<Rightarrow> string \<Rightarrow> described_op" where
  "described input_cbor output_cbor name summary =
     \<lparr>op_name = name, op_summary = summary, op_input = input_cbor, op_output = output_cbor,
      op_content_type = ''application/cbor''\<rparr>"

record component_descriptor =
  cd_name :: string
  cd_version :: string
  cd_summary :: string
  cd_ops :: "described_op list"

text \<open>\<open>None\<close> is the panic of an encoder that fails.\<close>

definition describe :: "(schema_ir \<Rightarrow> string option) \<Rightarrow> string \<Rightarrow> component_descriptor option" where
  "describe enc version =
     (case (enc input_schema, enc output_schema) of
        (Some i, Some out) \<Rightarrow> Some
          \<lparr>cd_name = ''dwbase'', cd_version = version,
           cd_summary = ''DWBase Greentic capability provider with ingress-aware QA and configuration.'',
           cd_ops =
             [described i out ''dwbase.configure'' ''Validate and normalize DWBase capability-pack configuration.'',
              described i out ''dwbase.requirements'' ''Report DWBase capability and public ingress requirements.'',
              described i out ''dwbase.echo'' ''Echo a DWBase request envelope for smoke testing.'']
             @ [described i out ''qa-spec'' ''Return QA spec for requested mode.'',
                described i out ''apply-answers'' ''Apply QA answers and return a config patch.'',
                described i out ''i18n-keys'' ''Return i18n keys referenced by QA/setup.'']\<rparr>
      | _ \<Rightarrow> None)"

text \<open>An invocation always succeeds: an unknown operation is taken for \<open>dwbase.configure\<close>.\<close>

record invocation_result =
  ir_ok :: bool
  ir_output_cbor :: string

definition invoke :: "qa_lib \<Rightarrow> locale_bundle \<Rightarrow> string \<Rightarrow> string \<Rightarrow> invocation_result option" where
  "invoke Q B operation payload_cbor =
     map_option (\<lambda>output. \<lparr>ir_ok = True, ir_output_cbor = output\<rparr>) (run_component_cbor Q B operation payload_cbor)"

section \<open>What the schemas say, and what the operations do\<close>

text \<open>The values a schema admits: the required fields are there, and no others than those named.\<close>

fun conforms :: "schema_ir \<Rightarrow> json \<Rightarrow> bool" where
  "conforms (Schema_String lo hi) v =
     (case v of
        JStr s \<Rightarrow> (case lo of None \<Rightarrow> True | Some n \<Rightarrow> n \<le> length s) \<and> (case hi of None \<Rightarrow> True | Some n \<Rightarrow> length s \<le> n)
      | _ \<Rightarrow> False)"
| "conforms (Schema_Object ps required) v =
     (case v of
        JObj m \<Rightarrow> list_all (\<lambda>k. k \<in> fst ` set m) required
          \<and> list_all (\<lambda>(k, x). list_ex (\<lambda>(k', s). k' = k \<and> conforms s x) ps) m
      | _ \<Rightarrow> False)"

lemma conforms_fields:
  assumes "conforms (Schema_Object ps required) (JObj m)"
  shows "fst ` set m \<subseteq> fst ` set ps" "set required \<subseteq> fst ` set m"
proof -
  show "fst ` set m \<subseteq> fst ` set ps"
  proof
    fix k assume "k \<in> fst ` set m"
    then obtain x where "(k, x) \<in> set m" by auto
    then have "list_ex (\<lambda>(k', s). k' = k \<and> conforms s x) ps"
      using assms by (auto simp: list_all_iff)
    then show "k \<in> fst ` set ps" by (force simp: list_ex_iff)
  qed
qed (use assms in \<open>auto simp: list_all_iff\<close>)

lemma conforms_message: "conforms output_schema (JObj m) \<Longrightarrow> ''message'' \<in> fst ` set m"
  using conforms_fields(2) [of _ "[''message'']" m] unfolding output_schema_def by simp

lemma conforms_input:
  assumes "conforms input_schema v"
  shows "\<exists>m. v = JObj m \<and> fst ` set m = {''input''}"
proof -
  obtain m where m: "v = JObj m" using assms by (cases v) (simp_all add: input_schema_def)
  then have "fst ` set m = {''input''}"
    using conforms_fields [OF assms [unfolded m input_schema_def]] by (intro equalityI) simp_all
  then show ?thesis using m by simp
qed

lemma no_message:
  "''message'' \<notin> fst ` set (apply_answers mode p)" "''message'' \<notin> fst ` set (configure p)"
proof -
  show a: "''message'' \<notin> fst ` set (apply_answers mode p)" for mode
    by (simp add: apply_answers_def Let_def)
  show "''message'' \<notin> fst ` set (configure p)"
    using a by (simp add: configure_def Let_def dom_update)
qed

text \<open>
  The descriptor misstates the operations. It names six distinct operations, each with one handler;
  of all operations only \<open>dwbase.echo\<close> returns what the one output schema admits. An input that the
  one input schema admits means nothing to the others: they return what they return for an empty
  object, which for \<open>dwbase.configure\<close> and \<open>apply-answers\<close> is a refusal.
\<close>

theorem descriptor_misstates_operations:
  assumes "describe enc version = Some D" and "conforms input_schema v"
  shows "distinct (map op_name (cd_ops D)) \<and> length (cd_ops D) = 6
    \<and> (conforms output_schema (run_component Q B op v) \<longleftrightarrow> op = ''dwbase.echo'')
    \<and> (op \<noteq> ''dwbase.echo'' \<longrightarrow> run_component Q B op v = run_component Q B op (JObj []))
    \<and> map_of (configure v) ''ok'' = Some (JBool False)"
proof -
  obtain m where m: "v = JObj m" "fst ` set m = {''input''}" using conforms_input [OF assms(2)] by blast
  have none: "map_of m k = None" if "k \<noteq> ''input''" for k using that m(2) by (simp add: map_of_eq_None_iff)
  have same: "answers_of v = answers_of (JObj [])" "current_config_of v = current_config_of (JObj [])"
    "mode_of_payload v = mode_of_payload (JObj [])" "json_get v ''mode'' = json_get (JObj []) ''mode''"
    using none by (simp_all add: m(1) answers_of_def current_config_of_def mode_of_payload_def string_value_def)
  have ans: "apply_answers n v = apply_answers n (JObj [])" for n by (rule apply_answers_cong [OF same(1,2)])
  then have conf: "configure v = configure (JObj [])" by (simp add: configure_def same(4) del: map_of.simps)
  have names: "distinct (map op_name (cd_ops D)) \<and> length (cd_ops D) = 6"
    using assms(1) by (auto simp: describe_def described_def split: option.splits)
  have out: "conforms output_schema (run_component Q B op v) \<longleftrightarrow> op = ''dwbase.echo''"
  proof
    assume c: "conforms output_schema (run_component Q B op v)"
    show "op = ''dwbase.echo''"
    proof (rule ccontr)
      assume "op \<noteq> ''dwbase.echo''"
      then show False
        using c conforms_message no_message(2) [of v] no_message(1) [of "mode_of_payload v" v]
        by (auto simp: run_component_def requirements_json_def qa_spec_json_def json_strs_def output_schema_def
            split: if_splits)
    qed
  qed (simp add: run_component_def output_schema_def Let_def)
  have "run_component Q B op v = run_component Q B op (JObj [])" if "op \<noteq> ''dwbase.echo''"
    unfolding run_component_def conf ans same(3) using that by (simp only: if_False if_cancel cong: if_cong)
  moreover have "map_of (configure (JObj [])) ''ok'' = Some (JBool False)"
    by (simp add: configure_def apply_answers_def answers_of_def answer_errors_def string_value_def Let_def update_conv')
  ultimately show ?thesis using names out conf by simp
qed

theorem descriptor_misstates_operations_witness:
  "conforms input_schema (JObj [(''input'', JStr ''hi'')])
   \<and> \<not> conforms output_schema (run_component toy_qa [] ''qa-spec'' (JObj [(''input'', JStr ''hi'')]))"
proof -
  have i: "conforms input_schema (JObj [(''input'', JStr ''hi'')])" by (simp add: input_schema_def)
  obtain D where "describe (\<lambda>_. Some []) ''1'' = Some D" by (simp add: describe_def)
  from descriptor_misstates_operations [OF this i, of toy_qa "[]" "''qa-spec''"]
  have "conforms output_schema (run_component toy_qa [] ''qa-spec'' (JObj [(''input'', JStr ''hi'')])) \<longleftrightarrow> ''qa-spec'' = ''dwbase.echo''"
    by (elim conjE)
  moreover have "''qa-spec'' \<noteq> ''dwbase.echo''" by simp
  ultimately show ?thesis using i by (simp only: not_False_eq_True simp_thms)
qed

end
