(* ===== verification/Cli_Commands.thy ===== *)
theory Cli_Commands
  imports Node_Http_Claims Text_Trim
begin

text \<open>
  The command line, \<open>crates/dwbase-cli/src/main.rs\<close>, towards a node: which request a command sends
  (argument parsing is the \<open>clap\<close> crate's, the HTTP client the \<open>reqwest\<close> crate's), the line that
  reports a policy, and the percentiles of the soak report.
\<close>

section \<open>Commands that talk to a node\<close>

definition parse_csv :: "string option \<Rightarrow> string list" where
  "parse_csv input =
     filter (\<lambda>s. s \<noteq> []) (map trim (split_on (CHR '','') (case input of None \<Rightarrow> [] | Some s \<Rightarrow> s)))"

datatype world_command =
    World_Create world_key "string option" "string option"
  | World_Archive world_key
  | World_Resume world_key
  | World_Policy world_key "nat option" "f32 option" "string option" "string option"

datatype cli_command =
    Cli_List_Worlds
  | Cli_Ask world_key "string option"
  | Cli_Replay world_key "nat option" "string option"
  | Cli_Inspect string
  | Cli_Index_Status
  | Cli_World world_command

text \<open>\<open>line\<close> is the line read from the terminal; an I/O error of the terminal is \<open>Err\<close>.\<close>

definition prompt :: "(string, string) result \<Rightarrow> (string, string) result" where
  "prompt line = rbind line (\<lambda>buf. if trim buf = [] then Inl ''input cannot be empty'' else Inr (trim buf))"

definition ask_request :: "(string, string) result \<Rightarrow> world_key \<Rightarrow> string option \<Rightarrow> (string, http_request) result" where
  "ask_request line w q =
     rmap (\<lambda>text. Post_Ask \<lparr>q_world = w, q_text = text, q_filter = None\<rparr>)
       (case q of Some s \<Rightarrow> if trim s \<noteq> [] then Inr s else prompt line | None \<Rightarrow> prompt line)"

definition replay_request :: "world_key \<Rightarrow> nat option \<Rightarrow> string option \<Rightarrow> http_request" where
  "replay_request w limit since = Post_Replay w (default_filter\<lparr>f_limit := limit, f_since := since\<rparr>)"

definition manage_command :: "string \<Rightarrow> world_key \<Rightarrow> string option \<Rightarrow> string list \<Rightarrow> http_request" where
  "manage_command action w description labels =
     Post_Manage \<lparr>mr_action = action, mr_world = w, mr_description = description, mr_labels = labels\<rparr>"

definition set_policy ::
  "world_key \<Rightarrow> nat option \<Rightarrow> f32 option \<Rightarrow> string list \<Rightarrow> string list \<Rightarrow> (string, http_request) result" where
  "set_policy w days imp allow denied =
     (if days = None \<and> imp = None \<and> allow = [] \<and> denied = [] then Inl ''set at least one policy field''
      else Inr (Post_Policy \<lparr>pr_world = w, pr_retention_days = days, pr_min_importance = imp,
                             pr_replication_allow = allow, pr_replication_deny = denied\<rparr>))"

fun world_request :: "world_command \<Rightarrow> (string, http_request) result" where
  "world_request (World_Create w description labels) = Inr (manage_command ''create'' w description (parse_csv labels))"
| "world_request (World_Archive w) = Inr (manage_command ''archive'' w None [])"
| "world_request (World_Resume w) = Inr (manage_command ''resume'' w None [])"
| "world_request (World_Policy w days imp allow denied) = set_policy w days imp (parse_csv allow) (parse_csv denied)"

fun cli_request :: "(string, string) result \<Rightarrow> cli_command \<Rightarrow> (string, http_request) result" where
  "cli_request line Cli_List_Worlds = Inr Get_Worlds"
| "cli_request line (Cli_Ask w q) = ask_request line w q"
| "cli_request line (Cli_Replay w limit since) = Inr (replay_request w limit since)"
| "cli_request line (Cli_Inspect i) = Inr (Get_Atom i)"
| "cli_request line Cli_Index_Status = Inr Get_Index_Status"
| "cli_request line (Cli_World c) = world_request c"

text \<open>
  The line that reports a policy: \<open>id["0"]\<close> of the returned JSON, as a string or else empty. An
  identifier is a newtype of a string, which \<open>serde\<close> writes as the string.
\<close>

definition json_index :: "json \<Rightarrow> string \<Rightarrow> json" where
  "json_index v k = (case v of JObj m \<Rightarrow> (case map_of m k of Some x \<Rightarrow> x | None \<Rightarrow> JNull) | _ \<Rightarrow> JNull)"

definition policy_line :: "json \<Rightarrow> string" where
  "policy_line i = ''Policy atom id: '' @ (case json_index i ''0'' of JStr s \<Rightarrow> s | _ \<Rightarrow> [])"

fun inspect_line :: "(atom \<Rightarrow> string) \<Rightarrow> string \<Rightarrow> atom option \<Rightarrow> string" where
  "inspect_line show i (Some a) = show a"
| "inspect_line show i None = ''Atom '' @ i @ '' not found''"

section \<open>Percentiles\<close>

text \<open>\<open>f64::round\<close> of a value that is not negative: to nearest, halves up; \<open>as usize\<close> saturates, NaN is zero.\<close>

definition f64_round_nat :: "f64 \<Rightarrow> nat" where
  "f64_round_nat x =
     (if f64_is_nan x \<or> fl_sign x then 0
      else min (2 ^ 64 - 1) ((2 * mag_val 52 (fl_mag x) + 2 ^ fl_scale 52 TYPE(64)) div (2 * 2 ^ fl_scale 52 TYPE(64))))"

definition f64_cmp :: "f64 \<Rightarrow> f64 \<Rightarrow> ordering" where
  "f64_cmp x y = (if f64_lt x y then Less else if f64_lt y x then Greater else Equal)"

text \<open>\<open>None\<close> is the panic of an index out of range.\<close>

definition percentile_index :: "f64 \<Rightarrow> nat \<Rightarrow> nat" where
  "percentile_index pct n =
     f64_round_nat (f64_mul (f64_div pct (f64_of_nat 100)) (f64_sub (f64_of_nat n) f64_one))"

definition percentile :: "f64 list \<Rightarrow> f64 \<Rightarrow> f64 option" where
  "percentile values pct =
     (if values = [] then Some 0
      else let vs = sort_by f64_cmp values; idx = percentile_index pct (length vs)
           in if idx < length vs then Some (vs ! idx) else None)"

section \<open>Which commands reach the node\<close>

lemma parse_csv_items: "s \<in> set (parse_csv input) \<Longrightarrow> s \<noteq> [] \<and> trim s = s"
  by (auto simp: parse_csv_def)

lemma world_request_sound: "world_request c = Inr req \<Longrightarrow> \<not> malformed req"
  by (cases c) (auto simp: manage_command_def set_policy_def split: if_splits)

lemma cli_request_sound: "cli_request line c = Inr req \<Longrightarrow> \<not> malformed req"
  by (cases c) (auto simp: ask_request_def replay_request_def res_simps dest: world_request_sound)

text \<open>
  The command line asks nothing the node calls malformed. A command that is not refused locally
  is never answered 400; a policy command is refused locally exactly if no field is left after
  splitting its lists at commas and dropping blank items, a question exactly if neither the argument
  nor the line typed holds text. Whatever identifier the node returns for a policy, the line printed
  ends without one.
\<close>

theorem cli_requests_well_formed:
  "(cli_request line c = Inr req \<longrightarrow> fst (fst (serve P H T req app)) \<noteq> 400)
   \<and> (is_ok (cli_request line (Cli_World (World_Policy w days imp allow denied))) \<longleftrightarrow>
        days \<noteq> None \<or> imp \<noteq> None \<or> parse_csv allow \<noteq> [] \<or> parse_csv denied \<noteq> [])
   \<and> (is_ok (cli_request line (Cli_Ask w q)) \<longleftrightarrow>
        (\<exists>s. q = Some s \<and> trim s \<noteq> []) \<or> (\<exists>s. line = Inr s \<and> trim s \<noteq> []))
   \<and> policy_line (JStr i) = ''Policy atom id: ''"
proof (intro conjI impI)
  assume "cli_request line c = Inr req"
  then have "\<not> malformed req" by (rule cli_request_sound)
  then show "fst (fst (serve P H T req app)) \<noteq> 400" using serve_malformed [of P H T req app] by blast
next
  show "is_ok (cli_request line (Cli_World (World_Policy w days imp allow denied))) \<longleftrightarrow>
        days \<noteq> None \<or> imp \<noteq> None \<or> parse_csv allow \<noteq> [] \<or> parse_csv denied \<noteq> []"
    by (simp add: set_policy_def)
  show "is_ok (cli_request line (Cli_Ask w q)) \<longleftrightarrow>
        (\<exists>s. q = Some s \<and> trim s \<noteq> []) \<or> (\<exists>s. line = Inr s \<and> trim s \<noteq> [])"
    by (auto simp: ask_request_def prompt_def res_simps split: option.splits if_splits)
qed (simp add: policy_line_def json_index_def)

theorem cli_requests_well_formed_witness:
  "\<exists>req. cli_request (Inl ''eof'') (Cli_World (World_Policy ''w'' (Some 30) None None None)) = Inr req
    \<and> fst (fst (serve sample_platform (one_disk 0 0) sample_time req sample_app)) \<noteq> 400"
proof -
  obtain req where "cli_request (Inl ''eof'') (Cli_World (World_Policy ''w'' (Some 30) None None None)) = Inr req"
    by (simp add: set_policy_def)
  then show ?thesis using cli_requests_well_formed by blast
qed

section \<open>Percentiles of a report\<close>

lemma f64_of_nat_exact:
  assumes "n < 2 ^ 53"
  obtains k where "f64_of_nat n = fl_mk False k" "mag_val 52 k = n * 2 ^ 1074" "k < inf_mag 52 TYPE(64)"
proof -
  obtain k where k: "mag_val 52 k = n * 2 ^ 1074" using mag_val_repr [of n 52 1074] assms by auto
  have "mag_val 52 (inf_mag 52 TYPE(64)) = 2 ^ 52 * 2 ^ 2046"
    using mag_val_split [of "2 ^ 52" 52 2046] by (simp add: inf_mag_def fl_top_def)
  moreover have "n * (2::nat) ^ 1074 < 2 ^ 53 * 2 ^ 1074" using assms by (rule mult_less_mono1) simp
  moreover have "(2::nat) ^ 53 * 2 ^ 1074 \<le> 2 ^ 52 * 2 ^ 2046" by (simp only: power_add [symmetric]) (rule power_increasing, simp_all)
  ultimately have "mag_val 52 k < mag_val 52 (inf_mag 52 TYPE(64))" using k by linarith
  then have lt: "k < inf_mag 52 TYPE(64)" by simp
  have scale: "fl_scale 52 TYPE(64) = 1074" by (simp add: fl_scale_def)
  have "f64_of_nat n = fl_mk False (min (inf_mag 52 TYPE(64)) (mag_round 52 (mag_val 52 k) 1))"
    by (simp only: fl_of_nat_def fl_of_rat_def fl_of_units_def scale k)
  then have "f64_of_nat n = fl_mk False k" using lt by simp
  then show ?thesis using that k lt by blast
qed

lemma f64_scale: "fl_scale 52 TYPE(64) = 1074"
  by (simp add: fl_scale_def)

lemma mag_round_whole: "0 < d \<Longrightarrow> n \<le> mag_val m k * d \<Longrightarrow> mag_round m n d \<le> k"
  using mag_round_mono [of d d n "mag_val m k * d" m] by (simp add: mag_round_val)

text \<open>The share of a percentage is at most one.\<close>

lemma share_le_one:
  assumes "\<not> fl_sign p" "f64_le p (f64_of_nat 100)"
  shows "\<exists>k. f64_div p (f64_of_nat 100) = fl_mk False k \<and> mag_val 52 k \<le> 2 ^ 1074 \<and> k < inf_mag 52 TYPE(64)"
proof -
  obtain h where h: "f64_of_nat 100 = fl_mk False h" "mag_val 52 h = 100 * 2 ^ 1074" "h < inf_mag 52 TYPE(64)"
    by (rule f64_of_nat_exact [of 100]) simp
  have top: "h < fl_top TYPE(64)" by (rule less_trans [OF h(3) inf_mag_less])
  have le: "fl_mag p \<le> h" and nan: "\<not> f64_is_nan p"
    using assms top unfolding h(1) by (auto simp: fl_le_def fl_key_def)
  have vp: "mag_val 52 (fl_mag p) \<le> 100 * 2 ^ 1074" using le h(2) by (metis mag_val_le_iff)
  have pos: "0 < mag_val 52 h" unfolding h(2) by simp
  then have h0: "h \<noteq> 0" by (metis mag_val_0 less_irrefl)
  define k where "k = mag_round 52 (mag_val 52 (fl_mag p) * 2 ^ 1074) (mag_val 52 h)"
  have "mag_val 52 (fl_mag p) * 2 ^ 1074 \<le> mag_val 52 0x3FF0000000000000 * mag_val 52 h"
    unfolding mag_val_one h(2) using mult_le_mono1 [OF vp, of "2 ^ 1074"] by (simp only: mult.commute)
  from mag_round_whole [OF pos this] have k: "k \<le> 0x3FF0000000000000" unfolding k_def .
  have inf: "0x3FF0000000000000 < inf_mag 52 TYPE(64)" by (simp add: inf_mag_def fl_top_def)
  have "f64_div p (f64_of_nat 100) = fl_mk False (min (inf_mag 52 TYPE(64)) k)"
    using assms(1) nan le h(3) h0 top
    by (simp add: h(1) fl_div_def fl_of_units_def fl_is_inf_def f64_scale k_def Let_def del: power_numeral)
  moreover have "mag_val 52 k \<le> 2 ^ 1074" using k mag_val_one by (metis mag_val_le_iff)
  ultimately show ?thesis using k inf by (intro exI [of _ k]) simp
qed

lemma percentile_index_bound:
  assumes "\<not> fl_sign p" "f64_le p (f64_of_nat 100)" "0 < n" "n < 2 ^ 53"
  shows "percentile_index p n < n"
proof -
  define D :: nat where "D = 2 ^ 1074"
  have D: "0 < D" by (simp add: D_def)
  obtain k where k: "f64_div p (f64_of_nat 100) = fl_mk False k" "mag_val 52 k \<le> D" "k < inf_mag 52 TYPE(64)"
    using share_le_one [OF assms(1,2)] unfolding D_def by blast
  obtain a where a: "f64_of_nat n = fl_mk False a" "mag_val 52 a = n * D" "a < inf_mag 52 TYPE(64)"
    using f64_of_nat_exact [OF assms(4)] unfolding D_def by blast
  have atop: "a < fl_top TYPE(64)" and ktop: "k < fl_top TYPE(64)"
    by (rule less_trans [OF a(3) inf_mag_less], rule less_trans [OF k(3) inf_mag_less])
  have "D \<le> mag_val 52 (fl_mag (f64_of_nat n))" "mag_val 52 (fl_mag (f64_of_nat n)) < 2 ^ 53 * D"
    using assms(3,4) D atop by (simp_all add: a)
  then obtain b where b: "f64_sub (f64_of_nat n) f64_one = fl_mk False b" "mag_val 52 b = n * D - D" "b \<le> a"
    using sub_one_exact [of "f64_of_nat n"] a atop unfolding D_def by (auto simp: fl_finite_def)
  have btop: "b < fl_top TYPE(64)" using b(3) atop by simp
  define r where "r = mag_round 52 (mag_val 52 k * mag_val 52 b) D"
  have "mag_val 52 k * mag_val 52 b \<le> mag_val 52 b * D" using mult_le_mono2 [OF k(2), of "mag_val 52 b"] by (simp only: mult.commute)
  then have r: "r \<le> b" unfolding r_def by (rule mag_round_whole [OF D])
  have "f64_mul (fl_mk False k) (fl_mk False b) = fl_mk False (min (inf_mag 52 TYPE(64)) r)"
    using k(3) a(3) b(3) ktop btop
    by (simp add: fl_mul_def fl_is_nan_def fl_is_inf_def fl_of_units_def f64_scale r_def D_def Let_def del: power_numeral)
  moreover have "min (inf_mag 52 TYPE(64)) r = r" "r < fl_top TYPE(64)" using r b(3) a(3) btop by simp_all
  ultimately have i: "percentile_index p n = min (2 ^ 64 - 1) ((2 * mag_val 52 r + D) div (2 * D))"
    using r b(3) a(3) by (simp add: percentile_index_def k(1) b(1) f64_round_nat_def f64_scale D_def [symmetric] del: power_numeral)
  have "mag_val 52 r \<le> n * D - D" using r b(2) by (metis mag_val_le_iff)
  then have "2 * mag_val 52 r + D < n * (2 * D)" using D assms(3) by (cases n) (simp_all add: algebra_simps)
  then have "(2 * mag_val 52 r + D) div (2 * D) < n" using D by (simp add: div_less_iff_less_mult)
  then show ?thesis unfolding i by simp
qed

text \<open>
  A percentile never indexes out of range. For a percentage from zero to a hundred and fewer than
  \<open>2 ^ 53\<close> measurements, rounding included, the percentile of a report is zero if there are none and
  else one of them.
\<close>

theorem percentile_total:
  assumes "\<not> fl_sign p" "f64_le p (f64_of_nat 100)" "length values < 2 ^ 53"
  shows "\<exists>v. percentile values p = Some v \<and> (if values = [] then v = 0 else v \<in> set values)"
proof (cases "values = []")
  case False
  let ?vs = "sort_by f64_cmp values"
  have len: "length ?vs = length values" by (metis mset_sort_by size_mset)
  then have "percentile_index p (length ?vs) < length ?vs"
    using percentile_index_bound [OF assms(1,2), of "length values"] assms(3) False by simp
  then show ?thesis using False nth_mem [of "percentile_index p (length ?vs)" ?vs] by (simp add: percentile_def Let_def)
qed (simp add: percentile_def)

theorem percentile_total_witness: "\<exists>v. percentile [f64_one] (f64_of_nat 95) = Some v \<and> v = f64_one"
proof -
  have "\<not> fl_sign (f64_of_nat 95)" "f64_le (f64_of_nat 95) (f64_of_nat 100)" by (simp_all add: fl_eval)
  then show ?thesis using percentile_total [of "f64_of_nat 95" "[f64_one]"] by auto
qed

end
