(* ===== verification/Cli_Backup.thy ===== *)
theory Cli_Backup
  imports File_Tree Engine_State
begin

text \<open>
  Backup and restore of a data directory, \<open>create_snapshot\<close> and \<open>restore_snapshot\<close> of
  \<open>crates/dwbase-cli/src/main.rs\<close>. The archive format (the \<open>tar\<close> and \<open>zstd\<close> crates) and the JSON of the
  metadata are parameters. A snapshot written into the directory it is taken of, where the archiver
  would read the file it writes, is outside: the entry of the output is left out.
\<close>

record snapshot_meta =
  sm_format_version :: nat
  sm_created_at :: string
  sm_index_metadata :: "index_metadata list"

text \<open>\<open>sc_unpack\<close> is what extraction leaves below its destination, and whether it succeeded.\<close>

record snapshot_codec =
  sc_pack :: "files \<Rightarrow> bytes"
  sc_unpack :: "bytes \<Rightarrow> files \<times> bool"
  sc_meta_bytes :: "snapshot_meta \<Rightarrow> bytes"
  sc_meta_of :: "bytes \<Rightarrow> (string, snapshot_meta) result"

fun io_text :: "io_error \<Rightarrow> string" where
  "io_text Not_Found = ''No such file or directory (os error 2)''"
| "io_text Not_A_Directory = ''Not a directory (os error 20)''"
| "io_text Is_A_Directory = ''Is a directory (os error 21)''"
| "io_text Not_Empty = ''Directory not empty (os error 39)''"
| "io_text Invalid_Input = ''Invalid argument (os error 22)''"

definition with_context :: "string \<Rightarrow> (io_error, 'a) result \<times> 's \<Rightarrow> (string, 'a) result \<times> 's" where
  "with_context msg r = (rmap_err (\<lambda>e. msg) (fst r), snd r)"

definition no_context :: "(io_error, 'a) result \<times> 's \<Rightarrow> (string, 'a) result \<times> 's" where
  "no_context r = (rmap_err io_text (fst r), snd r)"

definition meta_file :: string where "meta_file = ''metadata.json''"

definition audit_file :: string where "audit_file = ''.snapshot_metadata.json''"

definition payload_dir :: string where "payload_dir = ''data''"

section \<open>Creating a snapshot\<close>

definition snapshot_entries :: "snapshot_codec \<Rightarrow> path \<Rightarrow> path \<Rightarrow> snapshot_meta \<Rightarrow> files \<Rightarrow> files" where
  "snapshot_entries K data out meta fs =
     ([payload_dir], Dir) #
     [(payload_dir # k, n). (k, n) \<leftarrow> subtree fs data, data @ k \<noteq> out] @
     [([meta_file], File (sc_meta_bytes K meta))]"

definition create_snapshot ::
  "snapshot_codec \<Rightarrow> path \<Rightarrow> path \<Rightarrow> snapshot_meta \<Rightarrow> files \<Rightarrow> (string, unit) result \<times> files" where
  "create_snapshot K data out meta fs =
     (if \<not> fs_exists fs data then (Inl (''data dir '' @ path_text data @ '' not found''), fs)
      else if fs_exists fs out then
        (Inl (''output snapshot '' @ path_text out @ '' already exists; delete or choose another path''), fs)
      else sbind (with_context (''create '' @ path_text out) (fs_write out [] fs)) (\<lambda>_ fs.
        (case read_dir fs data of
           Inl e \<Rightarrow> (Inl (''add '' @ path_text data), fs)
         | Inr names \<Rightarrow> (Inr (), put out (File (sc_pack K (snapshot_entries K data out meta fs))) fs))))"

section \<open>Restoring\<close>

definition staging_of :: "path \<Rightarrow> path" where
  "staging_of data = with_extension ''restore_tmp'' data"

definition stage_snapshot :: "snapshot_codec \<Rightarrow> path \<Rightarrow> path \<Rightarrow> files \<Rightarrow> (string, unit) result \<times> files" where
  "stage_snapshot K input staging fs =
     sbind (if fs_exists fs staging
            then with_context (''remove existing staging '' @ path_text staging) (remove_dir_all staging fs)
            else (Inr (), fs)) (\<lambda>_ fs.
     sbind (no_context (create_dir_all staging fs)) (\<lambda>_ fs.
       (case fs_get fs input of
          None \<Rightarrow> (Inl (''open '' @ path_text input), fs)
        | Some Dir \<Rightarrow> (Inl ''unpack snapshot'', fs)
        | Some (File b) \<Rightarrow>
            (if snd (sc_unpack K b) then Inr () else Inl ''unpack snapshot'', graft staging (fst (sc_unpack K b)) fs))))"

definition read_meta :: "snapshot_codec \<Rightarrow> path \<Rightarrow> files \<Rightarrow> (string, snapshot_meta) result" where
  "read_meta K staging fs =
     (if fs_exists fs (staging @ [meta_file])
      then rbind (rmap_err io_text (fs_read fs (staging @ [meta_file]))) (sc_meta_of K)
      else Inr \<lparr>sm_format_version = 1, sm_created_at = ''unknown'', sm_index_metadata = []\<rparr>)"

definition target_in_use :: "path \<Rightarrow> files \<Rightarrow> (string, bool) result" where
  "target_in_use data fs =
     (if fs_exists fs data then rmap (\<lambda>names. names \<noteq> []) (rmap_err io_text (read_dir fs data)) else Inr False)"

definition install_snapshot ::
  "snapshot_codec \<Rightarrow> path \<Rightarrow> path \<Rightarrow> snapshot_meta \<Rightarrow> files \<Rightarrow> (string, snapshot_meta) result \<times> files" where
  "install_snapshot K staging data meta fs =
     sbind (if fs_exists fs data then with_context (''remove '' @ path_text data) (remove_dir_all data fs)
            else (Inr (), fs)) (\<lambda>_ fs.
       if \<not> fs_exists fs (staging @ [payload_dir]) then (Inl ''snapshot missing data/ payload'', fs)
       else
         sbind (if data = [] then (Inr (), fs) else no_context (create_dir_all (butlast data) fs)) (\<lambda>_ fs.
         sbind (with_context (''move restored data into '' @ path_text data)
                 (fs_rename (staging @ [payload_dir]) data fs)) (\<lambda>_ fs.
           (Inr meta, snd (remove_dir_all staging
                       (snd (fs_write (data @ [audit_file]) (sc_meta_bytes K meta) fs)))))))"

definition restore_snapshot ::
  "snapshot_codec \<Rightarrow> path \<Rightarrow> path \<Rightarrow> bool \<Rightarrow> files \<Rightarrow> (string, snapshot_meta) result \<times> files" where
  "restore_snapshot K input data force fs =
     (if \<not> fs_exists fs input then (Inl (''snapshot '' @ path_text input @ '' not found''), fs)
      else sbind (stage_snapshot K input (staging_of data) fs) (\<lambda>_ fs.
        sbind (read_meta K (staging_of data) fs, fs) (\<lambda>meta fs.
        sbind (target_in_use data fs, fs) (\<lambda>in_use fs.
          if in_use \<and> \<not> force
          then (Inl (''data dir '' @ path_text data @ '' is not empty; pass --force to overwrite''), fs)
          else install_snapshot K (staging_of data) data meta fs))))"

section \<open>The commands\<close>

text \<open>\<open>fetched\<close> is the node's index metadata; without it the snapshot is made all the same.\<close>

definition backup_create ::
  "snapshot_codec \<Rightarrow> string \<Rightarrow> (string, index_metadata list) result \<Rightarrow> path \<Rightarrow> path \<Rightarrow> files \<Rightarrow> (string, unit) result \<times> files" where
  "backup_create K now fetched data out fs =
     create_snapshot K data out
       \<lparr>sm_format_version = 1, sm_created_at = now,
        sm_index_metadata = (case fetched of Inl e \<Rightarrow> [] | Inr m \<Rightarrow> m)\<rparr> fs"

definition backup_restore ::
  "snapshot_codec \<Rightarrow> path \<Rightarrow> path \<Rightarrow> bool \<Rightarrow> files \<Rightarrow> (string, string) result \<times> files" where
  "backup_restore K input data force fs =
     (case restore_snapshot K input data force fs of (r, fs') \<Rightarrow>
        (rmap (\<lambda>m. ''restored snapshot into '' @ path_text data @ '' (created '' @ sm_created_at m @ '', ''
                   @ dec_text (length (sm_index_metadata m)) @ '' index records)'') r, fs'))"

section \<open>Staging\<close>

lemma sbind_split: "sbind p f = (case p of (Inl e, s) \<Rightarrow> (Inl e, s) | (Inr x, s) \<Rightarrow> f x s)"
  by (cases "(p, f)" rule: sbind.cases) simp_all

lemma sbindE:
  assumes "sbind p f = (r, s')"
  obtains (err) e where "p = (Inl e, s')" "r = Inl e" | (ok) x s where "p = (Inr x, s)" "f x s = (r, s')"
  using assms by (cases "(p, f)" rule: sbind.cases) auto

lemma staging_apart:
  assumes "data \<noteq> []" "staging_of data \<noteq> data"
  shows "staging_of data \<parallel> data" "butlast (staging_of data) = butlast data" "staging_of data \<noteq> []"
proof -
  show b: "butlast (staging_of data) = butlast data" "staging_of data \<noteq> []"
    using assms(1) by (simp_all add: staging_of_def with_extension_def)
  have "length (staging_of data) = length data"
    using assms(1) by (simp add: staging_of_def with_extension_def)
  then show "staging_of data \<parallel> data" by (rule not_equal_is_parallel [OF assms(2)])
qed

text \<open>What removing an old staging directory and creating it again leaves: an empty directory.\<close>

definition fresh_staging :: "path \<Rightarrow> files \<Rightarrow> (string, unit) result \<times> files" where
  "fresh_staging staging fs =
     sbind (if fs_exists fs staging
            then with_context (''remove existing staging '' @ path_text staging) (remove_dir_all staging fs)
            else (Inr (), fs)) (\<lambda>_ fs. no_context (create_dir_all staging fs))"

lemma stage_snapshot_fresh:
  "stage_snapshot K input staging fs = sbind (fresh_staging staging fs) (\<lambda>_ fs.
       (case fs_get fs input of
          None \<Rightarrow> (Inl (''open '' @ path_text input), fs)
        | Some Dir \<Rightarrow> (Inl ''unpack snapshot'', fs)
        | Some (File b) \<Rightarrow>
            (if snd (sc_unpack K b) then Inr () else Inl ''unpack snapshot'', graft staging (fst (sc_unpack K b)) fs)))"
  by (simp add: stage_snapshot_def fresh_staging_def sbind_split split: prod.splits sum.splits)

lemma fresh_staging_ok:
  assumes wf: "wf_files fs" and s: "staging \<noteq> []" "\<And>b. fs_get fs staging \<noteq> Some (File b)"
    and above: "\<And>r b. strict_prefix r staging \<Longrightarrow> fs_get fs r \<noteq> Some (File b)"
  shows "\<exists>fs'. fresh_staging staging fs = (Inr (), fs') \<and> wf_files fs' \<and>
    (\<forall>q. fs_get fs' q = (if prefix q staging then Some Dir else if prefix staging q then None else fs_get fs q))"
proof -
  define old where "old = (if fs_exists fs staging then drop_tree staging fs else fs)"
  have first: "(if fs_exists fs staging then with_context msg (remove_dir_all staging fs) else (Inr (), fs)) = (Inr (), old)" for msg
    using s by (auto simp: old_def fs_exists_def with_context_def remove_dir_all_def split: node.split)
  have old: "fs_get old q = (if prefix staging q then None else fs_get fs q)" for q
  proof (cases "fs_exists fs staging")
    case False
    then have "fs_get fs (staging @ r) = None" for r
      using wf_not_below_file [OF wf, of staging r] by (cases "r = []") (auto simp: fs_exists_def)
    then show ?thesis using False by (auto simp: old_def prefix_def)
  qed (use s(1) in \<open>auto simp: old_def fs_get_drop\<close>)
  have wf_old: "wf_files old" using wf wf_drop by (simp add: old_def)
  have free: "fs_get old r \<noteq> Some (File b)" if "prefix r staging" "r \<noteq> []" for r b
    using that above [of r b] old [of r] by (cases "r = staging") (auto simp: strict_prefix_def)
  note made = create_dir_all_ok [of staging old, OF free]
  have "fresh_staging staging fs = no_context (create_dir_all staging old)"
    by (simp add: fresh_staging_def first)
  then have "fresh_staging staging fs = (Inr (), snd (create_dir_all staging old))"
    using made by (simp add: no_context_def)
  moreover have "fs_get (snd (create_dir_all staging old)) q =
      (if prefix q staging then Some Dir else if prefix staging q then None else fs_get fs q)" for q
    using made old [of q] by (cases "q = []") (auto simp: strict_prefix_def)
  ultimately show ?thesis using create_dir_all_wf [OF wf_old] by blast
qed

lemma fresh_staging_other:
  assumes wf: "wf_files fs" and s: "staging \<noteq> []" and there: "\<And>r. strict_prefix r staging \<Longrightarrow> fs_get fs r = Some Dir"
    and run: "fresh_staging staging fs = (r, fs')" and q: "\<not> prefix staging q"
  shows "fs_get fs' q = fs_get fs q"
proof (cases "\<exists>b. fs_get fs staging = Some (File b)")
  case True
  then show ?thesis using run by (auto simp: fresh_staging_def fs_exists_def with_context_def remove_dir_all_def)
next
  case False
  then show ?thesis
    using fresh_staging_ok [OF wf s, unfolded there, of] run q there by (auto simp: strict_prefix_def)
qed

lemma stage_snapshot_other:
  assumes "wf_files fs" "staging \<noteq> []" "\<And>r. strict_prefix r staging \<Longrightarrow> fs_get fs r = Some Dir"
    and "stage_snapshot K input staging fs = (r, fs')" "\<not> prefix staging q"
  shows "fs_get fs' q = fs_get fs q"
proof -
  obtain s fs1 where f: "fresh_staging staging fs = (s, fs1)" by fastforce
  have "fs_get (graft staging t fs1) q = fs_get fs1 q" for t
    using assms(5) by (cases "map_of fs1 q") (auto simp: fs_get_def graft_def map_of_shift map_add_def)
  moreover have "fs_get fs1 q = fs_get fs q" using fresh_staging_other [OF assms(1-3) f assms(5)] .
  ultimately show ?thesis
    using assms(4) by (auto simp: stage_snapshot_fresh f sbind_split split: sum.splits option.splits node.splits)
qed

lemma stage_snapshot_ok:
  assumes wf: "wf_files fs" and s: "staging \<noteq> []" "\<And>b. fs_get fs staging \<noteq> Some (File b)"
    and above: "\<And>r b. strict_prefix r staging \<Longrightarrow> fs_get fs r \<noteq> Some (File b)"
    and input: "fs_get fs input = Some (File b)" "\<not> prefix staging input"
    and t: "sc_unpack K b = (t, True)" "wf_files t"
  shows "\<exists>fs'. stage_snapshot K input staging fs = (Inr (), fs') \<and> wf_files fs' \<and>
    (\<forall>q. fs_get fs' q = (if prefix staging q then fs_get t (drop (length staging) q)
                         else if prefix q staging then Some Dir else fs_get fs q))"
proof -
  obtain fs1 where f: "fresh_staging staging fs = (Inr (), fs1)" "wf_files fs1"
    and get: "\<And>q. fs_get fs1 q = (if prefix q staging then Some Dir else if prefix staging q then None else fs_get fs q)"
    using fresh_staging_ok [OF wf s above] by blast
  have "\<not> prefix input staging" using above [of input b] input s(2) by (auto simp: strict_prefix_def)
  then have "stage_snapshot K input staging fs = (Inr (), graft staging t fs1)"
    using input by (simp add: stage_snapshot_fresh f get t(1))
  moreover have empty: "fs_get fs1 (staging @ r) = None" if "r \<noteq> []" for r using that by (simp add: get)
  moreover have there: "fs_get fs1 staging = Some Dir" by (simp add: get)
  moreover have "fs_get (graft staging t fs1) q = (if prefix staging q then fs_get t (drop (length staging) q)
                         else if prefix q staging then Some Dir else fs_get fs q)" for q
    using fs_get_graft [OF empty there t(2), of q] by (auto simp: get)
  ultimately show ?thesis using wf_graft [OF empty there f(2) t(2)] by blast
qed

section \<open>Installing\<close>

lemma rename_ok:
  assumes "fs_get fs a = Some n" "a \<noteq> []" "a \<parallel> b" "fs_get fs b = None" "fs_get fs (butlast b) = Some Dir"
  shows "fs_rename a b fs = (Inr (), move_tree a b fs)"
  using assms by (cases n) (auto simp: fs_rename_def strict_prefix_def)

definition audited :: "snapshot_codec \<Rightarrow> snapshot_meta \<Rightarrow> (path \<Rightarrow> node option) \<Rightarrow> path \<Rightarrow> node option" where
  "audited K meta t r =
     (if r = [audit_file] \<and> t [] = Some Dir \<and> t [audit_file] \<noteq> Some Dir
      then Some (File (sc_meta_bytes K meta)) else t r)"

lemma write_audit:
  "fs_get (snd (fs_write (data @ [audit_file]) b fs)) q =
     (if q = data @ [audit_file] \<and> fs_get fs data = Some Dir \<and> fs_get fs (data @ [audit_file]) \<noteq> Some Dir
      then Some (File b) else fs_get fs q)"
  by (auto simp: fs_write_def split: option.split node.split)

lemma install_snapshot_ok:
  assumes wf: "wf_files fs" and p: "data \<noteq> []" "staging \<parallel> data" "butlast staging = butlast data" "staging \<noteq> []"
    and there: "fs_get fs staging = Some Dir" "fs_get fs (staging @ [payload_dir]) = Some n" "\<And>b. fs_get fs data \<noteq> Some (File b)"
  shows "\<exists>fs'. install_snapshot K staging data meta fs = (Inr meta, fs') \<and>
    (\<forall>q. fs_get fs' q = (if prefix staging q then None
       else if prefix data q then audited K meta (\<lambda>r. fs_get fs (staging @ payload_dir # r)) (drop (length data) q)
       else fs_get fs q))"
proof -
  let ?p = "staging @ [payload_dir]"
  define fs1 where "fs1 = (if fs_exists fs data then drop_tree data fs else fs)"
  have first: "(if fs_exists fs data then with_context msg (remove_dir_all data fs) else (Inr (), fs)) = (Inr (), fs1)" for msg
    using there(3) p(1) by (auto simp: fs1_def fs_exists_def with_context_def remove_dir_all_def split: node.split)
  have get1: "fs_get fs1 q = (if prefix data q then None else fs_get fs q)" for q
  proof (cases "fs_exists fs data")
    case False
    then have "fs_get fs (data @ r) = None" for r
      using wf_not_below_file [OF wf, of data r] by (cases "r = []") (auto simp: fs_exists_def)
    then show ?thesis using False by (auto simp: fs1_def prefix_def)
  qed (use p(1) in \<open>auto simp: fs1_def fs_get_drop\<close>)
  have apart: "\<not> prefix data (staging @ r)" "\<not> prefix staging (data @ r)" for r
    using parallel_append [OF p(2), of r "[]"] parallel_append [OF p(2), of "[]" r] by (auto simp: parallel_def)
  have apart_p: "?p \<parallel> data" using parallel_append [OF p(2), of "[payload_dir]" "[]"] by simp
  have not_prefix: "\<not> prefix data (butlast data)" using not_prefix_butlast [OF p(1)] .
  have parent: "fs_get fs r = Some Dir" if r: "prefix r (butlast data)" for r
  proof -
    obtain u where "butlast staging = r @ u" using r p(3) by (auto simp: prefix_def)
    then have "staging = r @ u @ [last staging]" using append_butlast_last_id [OF p(4)] by simp
    then show ?thesis using wf_ancestor [OF wf, of r "u @ [last staging]"] there(1) by simp
  qed
  have parent1: "fs_get fs1 r = Some Dir" if "prefix r (butlast data)" for r
    using that parent not_prefix prefix_order.trans by (auto simp: get1)
  have made: "create_dir_all (butlast data) fs1 = (Inr (), fs1)"
    unfolding create_dir_all_def using parent1 by (intro create_dirs_there) simp
  have moved: "fs_rename ?p data fs1 = (Inr (), move_tree ?p data fs1)"
  proof (rule rename_ok [OF _ _ apart_p])
    show "fs_get fs1 ?p = Some n" using there(2) apart(1) by (simp only: get1 if_False)
    show "fs_get fs1 data = None" by (simp add: get1)
    show "fs_get fs1 (butlast data) = Some Dir" by (rule parent1) simp
  qed simp
  define fs2 where "fs2 = move_tree ?p data fs1"
  have get2: "fs_get fs2 q = (if prefix data q then fs_get fs (?p @ drop (length data) q)
      else if prefix ?p q then None else fs_get fs q)" for q
    using apart [of "payload_dir # drop (length data) q"] by (simp add: fs2_def fs_get_move [OF apart_p] get1)
  define fs3 where "fs3 = snd (fs_write (data @ [audit_file]) (sc_meta_bytes K meta) fs2)"
  have there1: "fs_exists fs1 ?p" using there(2) apart(1) by (simp only: fs_exists_def get1 if_False option.distinct simp_thms)
  have "install_snapshot K staging data meta fs = (Inr meta, snd (remove_dir_all staging fs3))"
    unfolding install_snapshot_def first by (simp only: sbind.simps there1 p(1) simp_thms if_True if_False made no_context_def
        moved with_context_def fst_conv snd_conv rmap_err_simps fs2_def fs3_def)
  moreover have "fs_get fs3 staging = Some Dir"
    using there(1) apart(1) [of "[]"] p(2) by (auto simp: fs3_def write_audit get2)
  then have "fs_get (snd (remove_dir_all staging fs3)) q = (if prefix staging q then None else fs_get fs3 q)" for q
    using p(4) by (auto simp: remove_dir_all_def fs_get_drop)
  moreover have "fs_get fs3 q = (if prefix data q then audited K meta (\<lambda>r. fs_get fs (staging @ payload_dir # r)) (drop (length data) q)
       else fs_get fs q)" if "\<not> prefix staging q" for q
    using that apart by (auto simp: fs3_def write_audit get2 audited_def prefix_def)
  ultimately show ?thesis by auto
qed

section \<open>Backup and restore\<close>

lemma fs_get_shifted:
  "map_of [(c # k, n). (k, n) \<leftarrow> xs, P k] (d # r) = (if c = d \<and> P r then map_of xs r else None)"
  by (induction xs) auto

lemma map_of_shifted_Nil [simp]: "map_of [(c # k, n). (k, n) \<leftarrow> xs, P k] [] = None"
  by (induction xs) auto

lemma snapshot_get:
  "fs_get (snapshot_entries K data out meta fs) (c # k) =
     (if c = payload_dir then if k = [] then Some Dir else if data @ k = out then None else fs_get fs (data @ k)
      else if c = meta_file \<and> k = [] then Some (File (sc_meta_bytes K meta)) else None)"
  by (auto simp: fs_get_def snapshot_entries_def map_add_def fs_get_shifted map_of_subtree payload_dir_def meta_file_def
      split: option.splits)

lemma subtree_keys: "map fst (subtree fs p) = map (drop (length p)) (filter (strict_prefix p) (map fst fs))"
  by (induction fs) (auto simp: subtree_def)

lemma snapshot_wf:
  assumes wf: "wf_files fs" and data: "fs_get fs data = Some Dir" and out: "\<not> prefix data out"
  shows "wf_files (snapshot_entries K data out meta fs)"
proof (rule wf_filesI)
  let ?t = "snapshot_entries K data out meta fs"
  define ks where "ks = map (drop (length data)) (filter (strict_prefix data) (map fst fs))"
  have "inj_on (drop (length data)) (set (filter (strict_prefix data) (map fst fs)))"
    by (auto simp: inj_on_def strict_prefix_def prefix_def)
  then have ks: "distinct ks" unfolding ks_def using wf_keys(1) [OF wf] by (simp add: distinct_map)
  have "map fst [(payload_dir # k, n). (k, n) \<leftarrow> xs, data @ k \<noteq> out] = map ((#) payload_dir) (map fst xs)" for xs
    using out by (induction xs) (auto simp: prefix_def)
  then have keys: "map fst ?t = [payload_dir] # map ((#) payload_dir) ks @ [[meta_file]]"
    by (simp add: snapshot_entries_def subtree_keys [symmetric] ks_def del: map_map)
  have "[] \<notin> set ks" by (auto simp: ks_def strict_prefix_def prefix_def)
  then show "distinct (map fst ?t)"
    unfolding keys using ks by (auto simp: distinct_map payload_dir_def meta_file_def)
  show "[] \<notin> set (map fst ?t)" unfolding keys by auto
  fix q :: path assume q: "q \<noteq> []" "fs_get ?t q \<noteq> None"
  obtain c k where ck: "q = c # k" using q by (cases q) auto
  show "fs_get ?t (butlast q) = Some Dir"
  proof (cases "k = []")
    case False
    have c: "c = payload_dir" and there: "fs_get fs (data @ k) \<noteq> None"
      using q(2) False by (auto simp: ck snapshot_get split: if_splits)
    have "fs_get fs (data @ butlast k) = Some Dir"
      using wf_parent [OF wf, of "data @ k"] there False by (simp add: butlast_append)
    moreover have "data @ butlast k \<noteq> out" using out by auto
    ultimately show ?thesis using False data by (simp add: ck c snapshot_get)
  qed (simp add: ck)
qed

lemma children_Nil: "fs_children fs p = [] \<longleftrightarrow> (\<forall>c. fs_get fs (p @ [c]) = None)"
proof -
  have "k \<noteq> [] \<and> butlast k = p \<longleftrightarrow> (\<exists>c. k = p @ [c])" for k :: path
    by (cases k rule: rev_cases) auto
  then have "fs_children fs p = [] \<longleftrightarrow> (\<forall>k \<in> set (map fst fs). \<not> (\<exists>c. k = p @ [c]))"
    unfolding fs_children_def by (simp add: filter_empty_conv)
  also have "\<dots> \<longleftrightarrow> (\<forall>c. p @ [c] \<notin> set (map fst fs))" by blast
  also have "\<dots> \<longleftrightarrow> (\<forall>c. fs_get fs (p @ [c]) = None)" using fs_get_key [of "p @ [_]" fs] by blast
  finally show ?thesis .
qed

definition lossless :: "snapshot_codec \<Rightarrow> bool" where
  "lossless K \<longleftrightarrow> (\<forall>t. sc_unpack K (sc_pack K t) = (t, True)) \<and> (\<forall>m. sc_meta_of K (sc_meta_bytes K m) = Inr m)"

lemma create_snapshot_out:
  assumes "create_snapshot K data out meta fs = (Inr (), fs1)" "fs_get fs data = Some Dir" "\<not> prefix data out"
    and wf: "wf_files fs"
  shows "\<exists>t. fs_get fs1 out = Some (File (sc_pack K t)) \<and> wf_files t
    \<and> fs_get t [meta_file] = Some (File (sc_meta_bytes K meta))
    \<and> (\<forall>k. fs_get t (payload_dir # k) = fs_get fs (data @ k))"
proof -
  have new: "out \<noteq> []" "fs_get fs out = None" "fs_get fs (butlast out) = Some Dir"
    using assms(1) by (auto simp: create_snapshot_def fs_exists_def fs_write_def with_context_def split: if_splits option.splits node.splits)
  define fs' where "fs' = put out (File []) fs"
  have ne: "out \<noteq> data @ k" for k using assms(3) by auto
  have get: "fs_get fs' (data @ k) = fs_get fs (data @ k)" for k
    using ne [of k] new(1) by (simp add: fs'_def)
  have "fs1 = put out (File (sc_pack K (snapshot_entries K data out meta fs'))) fs'"
    using assms(1,2) new get [of "[]"]
    by (auto simp: create_snapshot_def fs_exists_def fs_write_def with_context_def fs'_def read_dir_def)
  moreover have "wf_files fs'" unfolding fs'_def using wf new by (intro wf_put) simp_all
  then have "wf_files (snapshot_entries K data out meta fs')"
    using get [of "[]"] assms(2) by (intro snapshot_wf [OF _ _ assms(3)]) simp_all
  moreover have "fs_get (snapshot_entries K data out meta fs') (payload_dir # k) = fs_get fs (data @ k)" for k
    using get [of k] assms(2) ne [of k] by (auto simp: snapshot_get)
  ultimately show ?thesis using new(1) by (intro exI [of _ "snapshot_entries K data out meta fs'"]) (simp add: snapshot_get payload_dir_def meta_file_def)
qed

text \<open>
  C23: Backup and restore round trip. Restoring a snapshot that was taken of a data directory, at any
  later time at which the snapshot file is still what it was and nothing but an unused (or, with
  force, any) directory is in the way, succeeds with the snapshot's metadata: the target holds every
  file and directory that was backed up, and the metadata as an audit file; the staging directory is
  gone, and nothing outside the target has changed.
\<close>

theorem backup_round_trip:
  assumes wf: "wf_files fs" and data: "fs_get fs data = Some Dir" "data \<noteq> []" "\<not> prefix data out"
    and staging: "staging_of data \<noteq> data" "\<not> prefix (staging_of data) out"
    and made: "create_snapshot K data out meta fs = (Inr (), fs1)"
    and later: "wf_files fs2" "fs_get fs2 out = fs_get fs1 out"
    and free: "force \<or> fs_children fs2 data = []"
      "\<forall>p b. prefix p data \<or> p = staging_of data \<longrightarrow> fs_get fs2 p \<noteq> Some (File b)"
    and codec: "\<forall>t. sc_unpack K (sc_pack K t) = (t, True)" "sc_meta_of K (sc_meta_bytes K meta) = Inr meta"
  shows "\<exists>fs3. restore_snapshot K out data force fs2 = (Inr meta, fs3)
    \<and> (\<forall>r. fs_get fs3 (data @ r) = audited K meta (\<lambda>r. fs_get fs (data @ r)) r)
    \<and> fs_get fs3 (staging_of data) = None
    \<and> (\<forall>q. \<not> prefix data q \<and> \<not> prefix (staging_of data) q \<and> \<not> prefix q data \<longrightarrow> fs_get fs3 q = fs_get fs2 q)"
proof -
  let ?s = "staging_of data"
  note apart = staging_apart [OF data(2) staging(1)]
  obtain t where t: "fs_get fs1 out = Some (File (sc_pack K t))" "wf_files t"
    "fs_get t [meta_file] = Some (File (sc_meta_bytes K meta))" "\<And>k. fs_get t (payload_dir # k) = fs_get fs (data @ k)"
    using create_snapshot_out [OF made data(1,3) wf] by blast
  have above: "prefix p data" if "strict_prefix p ?s" for p
    using strict_prefix_butlast [OF that] prefix_butlast [of p data] apart(2) by simp
  have input: "fs_get fs2 out = Some (File (sc_pack K t))" using later(2) t(1) by simp
  obtain fs' where staged: "stage_snapshot K out ?s fs2 = (Inr (), fs')" "wf_files fs'"
    and get: "\<And>q. fs_get fs' q = (if prefix ?s q then fs_get t (drop (length ?s) q)
                         else if prefix q ?s then Some Dir else fs_get fs2 q)"
    using stage_snapshot_ok [OF later(1) apart(3) _ _ input staging(2) codec(1) [rule_format] t(2)] free(2) above by blast
  have sub: "fs_get fs' (?s @ r) = fs_get t r" for r by (simp add: get)
  have outside: "\<not> prefix ?s (data @ r)" "\<not> prefix data ?s" for r
    using parallel_append [OF apart(1), of "[]" r] apart(1) by (auto simp: parallel_def)
  have at_data: "fs_get fs' (data @ r) = fs_get fs2 (data @ r)" for r
    using outside prefix_order.trans [of data "data @ r" ?s] by (auto simp: get)
  have meta: "read_meta K ?s fs' = Inr meta"
    using t(3) codec(2) by (simp add: read_meta_def fs_exists_def fs_read_def sub)
  have not_file: "fs_get fs' data \<noteq> Some (File b)" for b using at_data [of "[]"] free(2) by simp
  obtain in_use where use: "target_in_use data fs' = Inr in_use" "in_use \<longrightarrow> force"
  proof
    show "target_in_use data fs' = Inr (fs_exists fs' data \<and> fs_children fs' data \<noteq> [])"
      using not_file by (auto simp: target_in_use_def fs_exists_def read_dir_def split: option.splits node.splits)
    show "fs_exists fs' data \<and> fs_children fs' data \<noteq> [] \<longrightarrow> force"
      using free(1) at_data by (auto simp: children_Nil)
  qed
  have there: "fs_get fs' ?s = Some Dir" "fs_get fs' (?s @ [payload_dir]) = Some Dir"
    using sub [of "[]"] sub [of "[payload_dir]"] t(4) [of "[]"] data(1) by simp_all
  obtain fs3 where fs3: "install_snapshot K ?s data meta fs' = (Inr meta, fs3)"
    and get3: "\<And>q. fs_get fs3 q = (if prefix ?s q then None
       else if prefix data q then audited K meta (\<lambda>r. fs_get fs' (?s @ payload_dir # r)) (drop (length data) q)
       else fs_get fs' q)"
    using install_snapshot_ok [OF staged(2) data(2) apart there not_file] by blast
  have "restore_snapshot K out data force fs2 = (Inr meta, fs3)"
    using input use by (simp add: restore_snapshot_def fs_exists_def staged(1) meta fs3)
  moreover have "fs_get fs3 (data @ r) = audited K meta (\<lambda>r. fs_get fs (data @ r)) r" for r
    using outside(1) by (simp add: get3 sub t(4))
  moreover have "fs_get fs3 q = fs_get fs2 q" if "\<not> prefix data q" "\<not> prefix ?s q" "\<not> prefix q data" for q
    using that above [of q] by (auto simp: get3 get strict_prefix_def)
  ultimately show ?thesis by (simp add: get3)
qed

section \<open>Refused and failed restores\<close>

lemma wf_prefix_None: "wf_files fs \<Longrightarrow> fs_get fs p = None \<Longrightarrow> fs_get fs q = Some n \<Longrightarrow> \<not> prefix p q"
proof
  assume a: "wf_files fs" "fs_get fs p = None" "fs_get fs q = Some n" "prefix p q"
  then obtain r where "q = p @ r" by (auto simp: prefix_def)
  then show False using a wf_not_below_file [OF a(1), of p r] by (cases "r = []") auto
qed

lemma ancestors_exist:
  assumes "wf_files fs" "fs_get fs data \<noteq> None" "data \<noteq> []" "strict_prefix r (staging_of data)" "staging_of data \<noteq> data"
  shows "fs_get fs r = Some Dir"
proof -
  obtain u where "butlast data = r @ u"
    using strict_prefix_butlast [OF assms(4)] staging_apart(2) [OF assms(3,5)] by (auto simp: prefix_def)
  then have "data = r @ u @ [last data]" using append_butlast_last_id [OF assms(3)] by simp
  then show ?thesis using wf_ancestor [OF assms(1), of r "u @ [last data]"] assms(2) by simp
qed

text \<open>
  C24: A restore without force spares the target. If the target is a file or a directory that is not
  empty, and is not itself what staging is called, the restore fails, and the only thing it may have
  changed is the staging directory.
\<close>

theorem restore_spares_data:
  assumes wf: "wf_files fs" and data: "data \<noteq> []" "staging_of data \<noteq> data"
    and in_use: "fs_get fs data = Some n" "n = Dir \<longrightarrow> fs_children fs data \<noteq> []"
    and run: "restore_snapshot K input data False fs = (r, fs')"
  shows "\<not> is_ok r \<and> (\<forall>q. \<not> prefix (staging_of data) q \<longrightarrow> fs_get fs' q = fs_get fs q)"
proof (cases "fs_exists fs input")
  case True
  let ?s = "staging_of data"
  note apart = staging_apart [OF data]
  obtain s fs1 where staged: "stage_snapshot K input ?s fs = (s, fs1)" by fastforce
  have "fs_get fs data \<noteq> None" using in_use(1) by simp
  from ancestors_exist [OF wf this data(1) _ data(2)]
  have same: "fs_get fs1 q = fs_get fs q" if "\<not> prefix ?s q" for q
    using that stage_snapshot_other [OF wf apart(3) _ staged] by blast
  have at_data: "fs_get fs1 (data @ k) = fs_get fs (data @ k)" for k
    using same parallel_append [OF apart(1), of "[]" k] by (auto simp: parallel_def)
  have "target_in_use data fs1 \<noteq> Inr False"
    using in_use at_data at_data [of "[]"]
    by (auto simp: target_in_use_def fs_exists_def read_dir_def children_Nil split: node.splits)
  then have "fs' = fs1 \<and> \<not> is_ok r"
    using run True by (auto simp: restore_snapshot_def staged elim!: sbindE split: if_splits)
  then show ?thesis using same by simp
qed (use run in \<open>auto simp: restore_snapshot_def\<close>)

lemma install_without_payload:
  assumes "fs_get fs data = Some Dir" "data \<noteq> []" "fs_get (drop_tree data fs) (staging @ [payload_dir]) = None"
  shows "install_snapshot K staging data meta fs = (Inl ''snapshot missing data/ payload'', drop_tree data fs)"
  unfolding install_snapshot_def
  by (simp add: assms remove_dir_all_def with_context_def fs_exists_def)

lemma forced_restore_without_payload:
  assumes wf: "wf_files fs" and data: "fs_get fs data = Some Dir" "data \<noteq> []" "staging_of data \<noteq> data"
    and input: "fs_get fs input = Some (File b)" "\<not> prefix (staging_of data) input" "fs_get fs (staging_of data) = None"
    and t: "sc_unpack K b = (t, True)" "wf_files t" "fs_get t [payload_dir] = None" "fs_get t [meta_file] = None"
    and run: "restore_snapshot K input data True fs = (r, fs')"
  shows "r = Inl ''snapshot missing data/ payload''" "fs_get fs' (data @ k) = None"
proof -
  let ?s = "staging_of data"
  note apart = staging_apart [OF data(2,3)]
  have "fs_get fs q \<noteq> Some (File c)" if "strict_prefix q ?s" for q c
    using ancestors_exist [OF wf _ data(2) that data(3)] data(1) by simp
  then obtain fs1 where staged: "stage_snapshot K input ?s fs = (Inr (), fs1)"
    and get: "\<And>q. fs_get fs1 q = (if prefix ?s q then fs_get t (drop (length ?s) q)
                         else if prefix q ?s then Some Dir else fs_get fs q)"
    using stage_snapshot_ok [OF wf apart(3) _ _ input(1,2) t(1,2)] input(3) by auto
  have outside: "\<not> prefix ?s (data @ k)" "\<not> prefix data (?s @ k)" for k
    using parallel_append [OF apart(1), of "[]" k] parallel_append [OF apart(1), of k "[]"] by (auto simp: parallel_def)
  have meta: "is_ok (read_meta K ?s fs1)"
    using t(4) by (simp add: read_meta_def fs_exists_def get)
  have there: "fs_get fs1 data = Some Dir"
    using data(1) outside(1) [of "[]"] outside(2) [of "[]"] by (auto simp: get)
  then have use: "is_ok (target_in_use data fs1)" by (simp add: target_in_use_def fs_exists_def read_dir_def)
  have "fs_get (drop_tree data fs1) (?s @ [payload_dir]) = None"
    using t(3) outside(2) by (simp add: fs_get_drop get)
  from install_without_payload [OF there data(2) this]
  have "(r, fs') = (Inl ''snapshot missing data/ payload'', drop_tree data fs1)"
    using run input(1) meta use by (auto simp: restore_snapshot_def fs_exists_def staged is_ok_iff)
  then show "r = Inl ''snapshot missing data/ payload''" "fs_get fs' (data @ k) = None"
    using data(2) by (simp_all add: fs_get_drop)
qed

lemma restore_into_staging:
  assumes wf: "wf_files fs" and data: "fs_get fs data = Some Dir" "data \<noteq> []" "staging_of data = data"
    and input: "fs_get fs input = Some (File b)" "wf_files (fst (sc_unpack K b))"
    and run: "restore_snapshot K input data force fs = (r, fs')"
  shows "\<not> is_ok r \<and> (\<forall>k. k \<noteq> [] \<and> fs_get fs' (data @ k) \<noteq> None \<longrightarrow> fs_get (fst (sc_unpack K b)) k \<noteq> None)"
proof -
  let ?t = "fst (sc_unpack K b)"
  have above: "fs_get fs q \<noteq> Some (File c)" if "strict_prefix q data" for q c
    using wf_ancestor [OF wf, of q "drop (length q) data"] data(1) that by (auto simp: strict_prefix_def prefix_def)
  obtain fs0 where fresh: "fresh_staging data fs = (Inr (), fs0)"
    and get0: "\<And>q. fs_get fs0 q = (if prefix q data then Some Dir else if prefix data q then None else fs_get fs q)"
    using fresh_staging_ok [OF wf data(2) _ above] data(1) by auto
  have empty: "fs_get fs0 (data @ k) = None" if "k \<noteq> []" for k using that by (simp add: get0)
  have there: "fs_get fs0 data = Some Dir" by (simp add: get0)
  have grafted: "fs_get (graft data ?t fs0) (data @ k) = fs_get ?t k" for k
    by (simp add: fs_get_graft [OF empty there input(2)])
  obtain s fs1 where staged: "stage_snapshot K input data fs = (s, fs1)" by fastforce
  have not_above: "\<not> prefix input data"
    using above [of input b] input(1) data(1) by (cases "input = data") (auto simp: strict_prefix_def)
  have cases1: "\<not> is_ok s \<and> fs1 = fs0 \<or> fs1 = graft data ?t fs0"
  proof (cases "prefix data input")
    case True
    then have "fs_get fs0 input = None" using not_above by (simp add: get0)
    then show ?thesis using staged by (auto simp: stage_snapshot_fresh fresh)
  next
    case False
    then have "fs_get fs0 input = Some (File b)" using not_above input(1) by (simp add: get0)
    then show ?thesis using staged by (auto simp: stage_snapshot_fresh fresh)
  qed
  have held: "k \<noteq> [] \<Longrightarrow> fs_get fs1 (data @ k) \<noteq> None \<Longrightarrow> fs_get ?t k \<noteq> None" for k
    using cases1 grafted empty by auto
  have data1: "fs_get fs1 data = Some Dir" using cases1 there grafted [of "[]"] by auto
  have gone: "install_snapshot K data data m fs1 = (Inl ''snapshot missing data/ payload'', drop_tree data fs1)" for m
    by (rule install_without_payload [OF data1 data(2)]) (simp add: fs_get_drop)
  have "\<not> is_ok r \<and> (fs' = fs1 \<or> fs' = drop_tree data fs1)"
    using run input(1) unfolding restore_snapshot_def data(3) staged
    by (auto simp: fs_exists_def gone elim!: sbindE split: if_splits)
  then show ?thesis using held data(2) by (auto simp: fs_get_drop)
qed

text \<open>
  C25: A restore can lose the target. With force, a snapshot without a data directory makes the restore
  fail after it has removed the target. And a target whose name ends in \<open>.restore_tmp\<close> is its own
  staging directory: restoring into it fails, with or without force, and what it held is gone; at
  most the contents of the snapshot are there.
\<close>

theorem restore_can_lose_data:
  assumes wf: "wf_files fs" and data: "fs_get fs data = Some Dir" "data \<noteq> []"
    and input: "fs_get fs input = Some (File b)" "sc_unpack K b = (t, True)" "wf_files t"
    and run: "restore_snapshot K input data force fs = (r, fs')"
  shows "(force \<and> staging_of data \<noteq> data \<and> fs_get fs (staging_of data) = None
            \<and> fs_get t [payload_dir] = None \<and> fs_get t [meta_file] = None \<longrightarrow>
          r = Inl ''snapshot missing data/ payload'' \<and> (\<forall>k. fs_get fs' (data @ k) = None))
       \<and> (staging_of data = data \<longrightarrow>
          \<not> is_ok r \<and> (\<forall>k. k \<noteq> [] \<and> fs_get fs' (data @ k) \<noteq> None \<longrightarrow> fs_get t k \<noteq> None))"
proof (intro conjI [OF impI impI])
  assume a: "force \<and> staging_of data \<noteq> data \<and> fs_get fs (staging_of data) = None
            \<and> fs_get t [payload_dir] = None \<and> fs_get t [meta_file] = None"
  have "\<not> prefix (staging_of data) input"
    using wf_prefix_None [OF wf] a input(1) by blast
  then show "r = Inl ''snapshot missing data/ payload'' \<and> (\<forall>k. fs_get fs' (data @ k) = None)"
    using forced_restore_without_payload [OF wf data _ input(1) _ _ input(2,3)] run a by auto
next
  assume "staging_of data = data"
  then show "\<not> is_ok r \<and> (\<forall>k. k \<noteq> [] \<and> fs_get fs' (data @ k) \<noteq> None \<longrightarrow> fs_get t k \<noteq> None)"
    using restore_into_staging [OF wf data _ input(1) _ run] input(2,3) by auto
qed

section \<open>An archive format\<close>

text \<open>Lengths in unary before every string and list: a format that loses nothing, for the examples.\<close>

definition enc_nat :: "nat \<Rightarrow> bytes" where "enc_nat n = replicate n (CHR ''1'') @ ''0''"

fun dec_nat :: "bytes \<Rightarrow> nat \<times> bytes" where
  "dec_nat [] = (0, [])"
| "dec_nat (c # s) = (if c = CHR ''1'' then map_prod Suc id (dec_nat s) else (0, s))"

definition enc_str :: "string \<Rightarrow> bytes" where "enc_str s = enc_nat (length s) @ s"

definition dec_str :: "bytes \<Rightarrow> string \<times> bytes" where
  "dec_str b = (case dec_nat b of (n, r) \<Rightarrow> (take n r, drop n r))"

fun dec_times :: "(bytes \<Rightarrow> 'a \<times> bytes) \<Rightarrow> nat \<Rightarrow> bytes \<Rightarrow> 'a list \<times> bytes" where
  "dec_times d 0 b = ([], b)"
| "dec_times d (Suc n) b = (case d b of (x, r) \<Rightarrow> case dec_times d n r of (xs, r') \<Rightarrow> (x # xs, r'))"

definition enc_list :: "('a \<Rightarrow> bytes) \<Rightarrow> 'a list \<Rightarrow> bytes" where
  "enc_list e xs = enc_nat (length xs) @ concat (map e xs)"

definition dec_list :: "(bytes \<Rightarrow> 'a \<times> bytes) \<Rightarrow> bytes \<Rightarrow> 'a list \<times> bytes" where
  "dec_list d b = (case dec_nat b of (n, r) \<Rightarrow> dec_times d n r)"

fun enc_entry :: "path \<times> node \<Rightarrow> bytes" where
  "enc_entry (p, Dir) = enc_list enc_str p @ ''0''"
| "enc_entry (p, File b) = enc_list enc_str p @ ''1'' @ enc_str b"

definition dec_entry :: "bytes \<Rightarrow> (path \<times> node) \<times> bytes" where
  "dec_entry b = (case dec_list dec_str b of (p, r) \<Rightarrow>
     (case r of c # r' \<Rightarrow> if c = CHR ''1'' then (case dec_str r' of (s, r'') \<Rightarrow> ((p, File s), r'')) else ((p, Dir), r')
      | [] \<Rightarrow> ((p, Dir), [])))"

definition unary_archive :: snapshot_codec where
  "unary_archive = \<lparr>sc_pack = enc_list enc_entry, sc_unpack = (\<lambda>b. (fst (dec_list dec_entry b), True)),
     sc_meta_bytes = sm_created_at, sc_meta_of = (\<lambda>b. Inr \<lparr>sm_format_version = 1, sm_created_at = b, sm_index_metadata = []\<rparr>)\<rparr>"

lemma dec_enc_nat: "dec_nat (enc_nat n @ r) = (n, r)"
  by (induction n) (simp_all add: enc_nat_def)

lemma dec_enc_str: "dec_str (enc_str s @ r) = (s, r)"
  by (simp add: dec_str_def enc_str_def dec_enc_nat)

lemma dec_enc_list:
  assumes "\<And>x r. d (e x @ r) = (x, r)"
  shows "dec_list d (enc_list e xs @ r) = (xs, r)"
proof -
  have "dec_times d (length xs) (concat (map e xs) @ r) = (xs, r)" by (induction xs) (simp_all add: assms)
  then show ?thesis by (simp add: dec_list_def enc_list_def dec_enc_nat)
qed

lemma dec_enc_entry: "dec_entry (enc_entry x @ r) = (x, r)"
  by (cases x rule: enc_entry.cases) (simp_all add: dec_entry_def dec_enc_list [of dec_str enc_str, OF dec_enc_str] dec_enc_str)

lemma unary_archive_lossless: "sc_unpack unary_archive (sc_pack unary_archive t) = (t, True)"
  using dec_enc_list [of dec_entry enc_entry t "[]", OF dec_enc_entry] by (simp add: unary_archive_def)

definition sample_files :: files where
  "sample_files = [([''data''], Dir), ([''data'', ''db''], File ''log'')]"

definition sample_meta :: snapshot_meta where
  "sample_meta = \<lparr>sm_format_version = 1, sm_created_at = ''now'', sm_index_metadata = []\<rparr>"

definition sample_snapshot :: files where
  "sample_snapshot = snd (create_snapshot unary_archive [''data''] [''s.tzst''] sample_meta sample_files)"

lemma sample_snapshot_made:
  "create_snapshot unary_archive [''data''] [''s.tzst''] sample_meta sample_files = (Inr (), sample_snapshot)"
  by (simp add: create_snapshot_def sample_snapshot_def sample_files_def fs_exists_def fs_write_def with_context_def read_dir_def
      fs_get_def put_def)

lemma sample_staging: "staging_of [''data''] = [''data.restore_tmp'']"
  by (simp add: staging_of_def with_extension_def file_stem_def)

lemma sample_wf: "wf_files sample_files" "wf_files (drop_tree [''data''] sample_snapshot)"
  by code_simp+

lemma sample_no_staging: "fs_get sample_snapshot [''data.restore_tmp''] = None"
  by code_simp

theorem backup_round_trip_witness:
  "\<exists>fs3. restore_snapshot unary_archive [''s.tzst''] [''data''] False (drop_tree [''data''] sample_snapshot) = (Inr sample_meta, fs3)
    \<and> fs_get fs3 [''data'', ''db''] = Some (File ''log'')"
proof -
  have out: "fs_get (drop_tree [''data''] sample_snapshot) [''s.tzst''] = fs_get sample_snapshot [''s.tzst'']"
    by (simp add: fs_get_drop)
  have free: "\<forall>p b. prefix p [''data''] \<or> p = staging_of [''data''] \<longrightarrow>
      fs_get (drop_tree [''data''] sample_snapshot) p \<noteq> Some (File b)"
    by (auto simp: sample_staging sample_no_staging fs_get_drop prefix_Cons)
  have empty: "fs_children (drop_tree [''data''] sample_snapshot) [''data''] = []"
    by (simp add: children_Nil fs_get_drop)
  have data: "fs_get sample_files [''data''] = Some Dir" "fs_get sample_files [''data'', ''db''] = Some (File ''log'')"
    by (simp_all add: sample_files_def fs_get_def)
  have meta: "sc_meta_of unary_archive (sc_meta_bytes unary_archive sample_meta) = Inr sample_meta"
    by (simp add: unary_archive_def sample_meta_def)
  note fact = backup_round_trip [of _ _ _ unary_archive, OF sample_wf(1) data(1) _ _ _ _ sample_snapshot_made sample_wf(2) out _ free _ meta]
  obtain fs3 where "restore_snapshot unary_archive [''s.tzst''] [''data''] False (drop_tree [''data''] sample_snapshot) = (Inr sample_meta, fs3)"
    and held: "\<forall>r. fs_get fs3 ([''data''] @ r) = audited unary_archive sample_meta (\<lambda>r. fs_get sample_files ([''data''] @ r)) r"
    using fact [of False] empty by (auto simp: sample_staging unary_archive_lossless)
  moreover have "fs_get fs3 [''data'', ''db''] = Some (File ''log'')"
    using held [rule_format, of "[''db'']"] data(2) by (simp add: audited_def audit_file_def)
  ultimately show ?thesis by blast
qed

definition sample_target :: files where
  "sample_target = [([''data''], Dir), ([''data'', ''db''], File ''log''), ([''s.tzst''], File (sc_pack unary_archive []))]"

lemma sample_target_wf: "wf_files sample_target"
  by code_simp

lemma sample_target_get:
  "fs_get sample_target [''data''] = Some Dir" "fs_get sample_target [''s.tzst''] = Some (File (sc_pack unary_archive []))"
  "fs_get sample_target [''data.restore_tmp''] = None" "fs_children sample_target [''data''] = [''db'']"
  "fs_get sample_target [''data'', ''db''] = Some (File ''log'')"
  by (simp_all add: sample_target_def fs_get_def fs_children_def)

theorem restore_spares_data_witness:
  "fs_get (snd (restore_snapshot unary_archive [''s.tzst''] [''data''] False sample_target)) [''data'', ''db''] = Some (File ''log'')"
proof -
  obtain r fs' where run: "restore_snapshot unary_archive [''s.tzst''] [''data''] False sample_target = (r, fs')" by fastforce
  have "fs_get fs' [''data'', ''db''] = fs_get sample_target [''data'', ''db'']"
    using restore_spares_data [OF sample_target_wf _ _ sample_target_get(1) _ run] by (simp add: sample_staging sample_target_get)
  then show ?thesis by (simp add: run sample_target_get)
qed

theorem restore_can_lose_data_witness:
  "fst (restore_snapshot unary_archive [''s.tzst''] [''data''] True sample_target) = Inl ''snapshot missing data/ payload''
   \<and> fs_get (snd (restore_snapshot unary_archive [''s.tzst''] [''data''] True sample_target)) [''data'', ''db''] = None"
proof -
  obtain r fs' where run: "restore_snapshot unary_archive [''s.tzst''] [''data''] True sample_target = (r, fs')" by fastforce
  have "wf_files []" and none: "fs_get [] [c] = None" for c by (code_simp, simp add: fs_get_def)
  from restore_can_lose_data [OF sample_target_wf sample_target_get(1) _ sample_target_get(2) unary_archive_lossless this(1) run]
  have "r = Inl ''snapshot missing data/ payload''" "fs_get fs' ([''data''] @ [''db'']) = None"
    by (simp_all add: sample_staging sample_target_get none)
  then show ?thesis by (simp add: run)
qed

end
