(* ===== verification/Cli_Devnet.thy ===== *)
theory Cli_Devnet
  imports Cli_Backup "HOL-Library.Word"
begin

text \<open>
  Local networks of nodes, the \<open>deploy\<close> commands of \<open>crates/dwbase-cli/src/main.rs\<close>. The host has files
  and processes; the outcomes of the spawns to come are part of it, and the processes that may not be
  signalled. Sending a signal ends a process at once. The TOML and JSON formats are parameters.
  Port numbers are \<open>u16\<close> and wrap, as in a release build.
\<close>

datatype toml =
    T_String string
  | T_Integer int
  | T_Float f64
  | T_Boolean bool
  | T_Array "toml list"
  | T_Table "(string \<times> toml) list"

record devnet_node =
  dn_id :: string
  dn_port :: "16 word"
  dn_pid :: nat
  dn_data_dir :: path
  dn_log_path :: path
  dn_config_path :: path

record node_preview =
  np_listen :: "string option"
  np_data_dir :: "path option"

record devnet_codec =
  dc_state_bytes :: "devnet_node list \<Rightarrow> bytes"
  dc_state_of :: "bytes \<Rightarrow> (string, devnet_node list) result"
  dc_toml_text :: "toml \<Rightarrow> (string, bytes) result"
  dc_toml_of :: "bytes \<Rightarrow> (string, toml) result"
  dc_preview_of :: "bytes \<Rightarrow> (string, node_preview option) result"

record host =
  h_base :: path
  h_files :: files
  h_running :: "nat list"
  h_protected :: "nat list"
  h_spawns :: "(string, nat) result list"
  h_handler_free :: bool

definition on_files :: "(files \<Rightarrow> (string, 'a) result \<times> files) \<Rightarrow> host \<Rightarrow> (string, 'a) result \<times> host" where
  "on_files f h = (case f (h_files h) of (r, fs) \<Rightarrow> (r, h\<lparr>h_files := fs\<rparr>))"

section \<open>Processes\<close>

definition pid_running :: "nat \<Rightarrow> host \<Rightarrow> bool" where
  "pid_running pid h \<longleftrightarrow> pid \<in> set (h_running h) \<and> pid \<notin> set (h_protected h)"

definition kill_pid :: "nat \<Rightarrow> host \<Rightarrow> bool \<times> host" where
  "kill_pid pid h =
     (if pid_running pid h then (True, h\<lparr>h_running := removeAll pid (h_running h)\<rparr>) else (False, h))"

fun kill_all :: "nat list \<Rightarrow> host \<Rightarrow> host" where
  "kill_all [] h = h"
| "kill_all (pid # pids) h = kill_all pids (snd (kill_pid pid h))"

section \<open>Paths and the configuration\<close>

definition devnet_root :: "host \<Rightarrow> path" where
  "devnet_root h = h_base h @ [''devnet'']"

definition state_path :: "host \<Rightarrow> path" where
  "state_path h = devnet_root h @ [''state.json'']"

definition ensure_dir :: "path \<Rightarrow> files \<Rightarrow> (string, unit) result \<times> files" where
  "ensure_dir p fs = with_context (''create dir '' @ path_text p) (create_dir_all p fs)"

definition listen_text :: "16 word \<Rightarrow> string" where
  "listen_text port = ''127.0.0.1:'' @ dec_text (unat port)"

definition default_devnet_config :: "16 word \<Rightarrow> path \<Rightarrow> toml" where
  "default_devnet_config listen data =
     T_Table [(''node'', T_Table
       [(''listen'', T_String (listen_text listen)),
        (''data_dir'', T_String (path_text data)),
        (''embedder'', T_String ''dummy''),
        (''security'', T_Table
          [(''read_worlds'', T_Array []), (''write_worlds'', T_Array []), (''importance_cap'', T_Float (f64_of_nat 1)),
           (''remember_per_sec'', T_Float (f64_of_nat 10)), (''ask_per_min'', T_Float (f64_of_nat 60))]),
        (''health'', T_Table [(''disk_usage_degraded'', T_Float (f64_div (f64_of_nat 9) (f64_of_nat 10)))])])]"

fun as_table :: "string \<Rightarrow> toml \<Rightarrow> (string, (string \<times> toml) list) result" where
  "as_table msg (T_Table t) = Inr t"
| "as_table msg v = Inl msg"

definition or_insert :: "string \<Rightarrow> toml \<Rightarrow> (string \<times> toml) list \<Rightarrow> (string \<times> toml) list" where
  "or_insert k v t = (if map_of t k = None then AList.update k v t else t)"

definition template_path :: path where
  "template_path = [''deploy'', ''devnet.toml'']"

definition config_template :: "devnet_codec \<Rightarrow> 16 word \<Rightarrow> path \<Rightarrow> files \<Rightarrow> (string, toml) result" where
  "config_template C listen data fs =
     (if fs_exists fs template_path
      then rbind (rmap_err (\<lambda>e. ''read template '' @ path_text template_path) (fs_read fs template_path)) (\<lambda>raw.
           rmap_err (\<lambda>e. ''parse template '' @ path_text template_path) (dc_toml_of C raw))
      else Inr (default_devnet_config listen data))"

definition fill_config :: "16 word \<Rightarrow> path \<Rightarrow> toml \<Rightarrow> (string, toml) result" where
  "fill_config listen data doc =
     rbind (as_table ''config root must be a table'' doc) (\<lambda>table.
     let table = or_insert ''node'' (T_Table []) table in
     rmap (\<lambda>node. T_Table (AList.update ''node'' (T_Table
             (or_insert ''embedder'' (T_String ''dummy'')
               (AList.update ''data_dir'' (T_String (path_text data))
                 (AList.update ''listen'' (T_String (listen_text listen)) node)))) table))
       (as_table ''node config must be a table'' (the (map_of table ''node''))))"

definition write_config :: "devnet_codec \<Rightarrow> path \<Rightarrow> 16 word \<Rightarrow> path \<Rightarrow> files \<Rightarrow> (string, unit) result \<times> files" where
  "write_config C p listen data fs =
     sbind (rbind (config_template C listen data fs) (\<lambda>doc.
            rbind (fill_config listen data doc) (dc_toml_text C)), fs) (\<lambda>rendered fs.
       with_context (''write config '' @ path_text p) (fs_write p rendered fs))"

section \<open>Nodes and the state file\<close>

definition spawn_node :: "path \<Rightarrow> path \<Rightarrow> host \<Rightarrow> (string, nat) result \<times> host" where
  "spawn_node config log_path h =
     sbind (on_files (ensure_dir (butlast log_path)) h) (\<lambda>_ h.
     sbind (on_files (\<lambda>fs. no_context (fs_write log_path [] fs)) h) (\<lambda>_ h.
       (case h_spawns h of
          Inr pid # rest \<Rightarrow> (Inr pid, h\<lparr>h_running := pid # h_running h, h_spawns := rest\<rparr>)
        | Inl e # rest \<Rightarrow> (Inl ''spawn dwbase-node'', h\<lparr>h_spawns := rest\<rparr>)
        | [] \<Rightarrow> (Inl ''spawn dwbase-node'', h))))"

definition load_state :: "devnet_codec \<Rightarrow> host \<Rightarrow> (string, devnet_node list option) result" where
  "load_state C h =
     (if fs_exists (h_files h) (state_path h)
      then rmap Some (rbind (rmap_err io_text (fs_read (h_files h) (state_path h))) (dc_state_of C))
      else Inr None)"

definition save_state :: "devnet_codec \<Rightarrow> devnet_node list \<Rightarrow> host \<Rightarrow> (string, unit) result \<times> host" where
  "save_state C nodes h =
     sbind (on_files (ensure_dir (butlast (state_path h))) h) (\<lambda>_ h.
       on_files (\<lambda>fs. no_context (fs_write (state_path h) (dc_state_bytes C nodes) fs)) h)"

definition clear_state_file :: "host \<Rightarrow> (string, unit) result \<times> host" where
  "clear_state_file h =
     (if fs_exists (h_files h) (state_path h)
      then on_files (\<lambda>fs. with_context (''remove '' @ path_text (state_path h)) (remove_file (state_path h) fs)) h
      else (Inr (), h))"

definition load_state_pruned :: "devnet_codec \<Rightarrow> host \<Rightarrow> (string, devnet_node list option) result \<times> host" where
  "load_state_pruned C h =
     sbind (load_state C h, h) (\<lambda>st h.
       (case st of
          None \<Rightarrow> (Inr None, h)
        | Some nodes \<Rightarrow>
            (let live = filter (\<lambda>n. pid_running (dn_pid n) h) nodes in
             if live = [] then (Inr None, snd (clear_state_file h))
             else if length live \<noteq> length nodes then sbind (save_state C live h) (\<lambda>_ h. (Inr (Some live), h))
             else (Inr (Some live), h))))"

section \<open>Deploying\<close>

definition deploy_local :: "devnet_codec \<Rightarrow> path option \<Rightarrow> host \<Rightarrow> (string, nat \<times> node_preview option) result \<times> host" where
  "deploy_local C config h =
     (let cfg = (case config of Some p \<Rightarrow> p | None \<Rightarrow> [''deploy'', ''local.toml'']) in
      if \<not> fs_exists (h_files h) cfg then (Inl (''config '' @ path_text cfg @ '' not found''), h)
      else sbind (rbind (rmap_err io_text (fs_read (h_files h) cfg)) (\<lambda>raw.
                    rmap_err (\<lambda>e. ''parse config preview '' @ path_text cfg) (dc_preview_of C raw)), h) (\<lambda>preview h.
        sbind (on_files (ensure_dir (h_base h @ [''local''])) h) (\<lambda>_ h.
        sbind (spawn_node cfg (h_base h @ [''local'', ''dwbase-node.log'']) h) (\<lambda>pid h.
          (Inr (pid, preview), h)))))"

definition devnet_node_of :: "path \<Rightarrow> nat \<Rightarrow> 16 word \<Rightarrow> nat \<Rightarrow> devnet_node" where
  "devnet_node_of base idx port pid =
     (let id = ''node-'' @ dec_text (idx + 1); dir = base @ [id] in
      \<lparr>dn_id = id, dn_port = port, dn_pid = pid, dn_data_dir = dir @ [''data''],
       dn_log_path = dir @ [''dwbase-node.log''], dn_config_path = dir @ [''config.toml'']\<rparr>)"

text \<open>One turn of the loop; \<open>st\<close> holds the nodes so far, whose processes the tracker has recorded.\<close>

definition deploy_node :: "devnet_codec \<Rightarrow> path \<Rightarrow> 16 word \<Rightarrow> nat \<Rightarrow> host \<Rightarrow> (string, devnet_node) result \<times> host" where
  "deploy_node C base base_port idx h =
     (let port = base_port + of_nat idx; n = devnet_node_of base idx port 0 in
      sbind (on_files (ensure_dir (dn_data_dir n)) h) (\<lambda>_ h.
      sbind (on_files (write_config C (dn_config_path n) port (dn_data_dir n)) h) (\<lambda>_ h.
      sbind (spawn_node (dn_config_path n) (dn_log_path n) h) (\<lambda>pid h.
        (Inr (devnet_node_of base idx port pid), h)))))"

fun deploy_loop ::
  "devnet_codec \<Rightarrow> path \<Rightarrow> 16 word \<Rightarrow> nat list \<Rightarrow> devnet_node list \<Rightarrow> host \<Rightarrow> (string, unit) result \<times> devnet_node list \<times> host" where
  "deploy_loop C base base_port [] st h = (Inr (), st, h)"
| "deploy_loop C base base_port (idx # idxs) st h =
     (case deploy_node C base base_port idx h of
        (Inl e, h') \<Rightarrow> (Inl e, st, h')
      | (Inr n, h') \<Rightarrow> deploy_loop C base base_port idxs (st @ [n]) h')"

text \<open>Whenever the function returns early the armed tracker is dropped, which kills what it recorded.\<close>

definition deploy_nodes :: "devnet_codec \<Rightarrow> path \<Rightarrow> 16 word \<Rightarrow> nat \<Rightarrow> host \<Rightarrow> (string, unit) result \<times> host" where
  "deploy_nodes C base base_port nodes h =
     (case deploy_loop C base base_port [0..<nodes] [] h of
        (Inl e, st, h) \<Rightarrow> (Inl e, kill_all (map dn_pid st) h)
      | (Inr u, st, h) \<Rightarrow>
          (case save_state C st h of
             (Inl e, h) \<Rightarrow> (Inl e, kill_all (map dn_pid st) h)
           | (Inr u, h) \<Rightarrow> (Inr (), h)))"

definition deploy_devnet :: "devnet_codec \<Rightarrow> nat \<Rightarrow> 16 word \<Rightarrow> host \<Rightarrow> (string, unit) result \<times> host" where
  "deploy_devnet C nodes base_port h =
     (if nodes = 0 then (Inl ''--nodes must be > 0'', h)
      else sbind (load_state_pruned C h) (\<lambda>existing h.
        if existing \<noteq> None then
          (Inl (''devnet state exists at '' @ path_text (state_path h)
                @ ''; run `dwbase deploy stop` or `dwbase deploy clean --yes` first''), h)
        else sbind (on_files (ensure_dir (devnet_root h)) h) (\<lambda>_ h.
          if \<not> h_handler_free h then (Inl ''install Ctrl+C handler'', h)
          else deploy_nodes C (devnet_root h) base_port nodes (h\<lparr>h_handler_free := False\<rparr>))))"

section \<open>Stopping and cleaning\<close>

definition stop_devnet :: "devnet_codec \<Rightarrow> host \<Rightarrow> (string, unit) result \<times> host" where
  "stop_devnet C h =
     sbind (load_state C h, h) (\<lambda>st h.
       (case st of
          None \<Rightarrow> (Inr (), h)
        | Some nodes \<Rightarrow>
            (let live = filter (\<lambda>n. pid_running (dn_pid n) h) nodes in
             if live = [] then clear_state_file h
             else clear_state_file (kill_all (map dn_pid live) h))))"

definition clean_devnet :: "devnet_codec \<Rightarrow> bool \<Rightarrow> host \<Rightarrow> (string, unit) result \<times> host" where
  "clean_devnet C yes h =
     (if \<not> yes then (Inl ''refusing to clean without --yes'', h)
      else
        (let h = snd (stop_devnet C h) in
         sbind (if fs_exists (h_files h) (devnet_root h)
                then on_files (\<lambda>fs. with_context (''remove '' @ path_text (devnet_root h)) (remove_dir_all (devnet_root h) fs)) h
                else (Inr (), h)) (\<lambda>_ h. (Inr (), snd (clear_state_file h)))))"

section \<open>What the steps keep\<close>

lemma on_files_keeps [simp]:
  "h_base (snd (on_files f h)) = h_base h" "h_running (snd (on_files f h)) = h_running h"
  "h_protected (snd (on_files f h)) = h_protected h" "h_spawns (snd (on_files f h)) = h_spawns h"
  "h_handler_free (snd (on_files f h)) = h_handler_free h"
  by (simp_all add: on_files_def split: prod.split)

lemma on_files_eq:
  assumes "on_files f h = (r, h')"
  shows "h_base h' = h_base h \<and> h_running h' = h_running h \<and> h_protected h' = h_protected h \<and> h_spawns h' = h_spawns h
    \<and> f (h_files h) = (r, h_files h')"
  using on_files_keeps [of f h] assms by (auto simp: on_files_def split: prod.splits)

lemma kill_pid_effect:
  "h_running (snd (kill_pid pid h)) = filter (\<lambda>p. p \<noteq> pid \<or> p \<in> set (h_protected h)) (h_running h)"
  "h_protected (snd (kill_pid pid h)) = h_protected h" "h_files (snd (kill_pid pid h)) = h_files h"
  "h_base (snd (kill_pid pid h)) = h_base h"
proof -
  show "h_running (snd (kill_pid pid h)) = filter (\<lambda>p. p \<noteq> pid \<or> p \<in> set (h_protected h)) (h_running h)"
  proof (cases "pid_running pid h")
    case True
    then show ?thesis by (auto simp: kill_pid_def pid_running_def removeAll_filter_not_eq intro!: filter_cong)
  next
    case False
    then have "\<forall>p \<in> set (h_running h). p \<noteq> pid \<or> p \<in> set (h_protected h)" by (auto simp: pid_running_def)
    then show ?thesis using False by (simp add: kill_pid_def)
  qed
qed (simp_all add: kill_pid_def)

lemma kill_all_effect:
  "h_running (kill_all pids h) = filter (\<lambda>p. p \<notin> set pids \<or> p \<in> set (h_protected h)) (h_running h)
   \<and> h_protected (kill_all pids h) = h_protected h \<and> h_files (kill_all pids h) = h_files h \<and> h_base (kill_all pids h) = h_base h"
proof (induction pids arbitrary: h)
  case (Cons pid pids)
  show ?case unfolding kill_all.simps using Cons [of "snd (kill_pid pid h)"]
    by (simp only: kill_pid_effect filter_filter list.set insert_iff) (auto intro!: filter_cong)
qed simp

text \<open>The processes that the coming spawns will start.\<close>

definition spawn_pids :: "host \<Rightarrow> nat list" where
  "spawn_pids h = [pid. Inr pid \<leftarrow> h_spawns h]"

text \<open>A step either starts the next process or leaves the processes alone.\<close>

definition same_host :: "host \<Rightarrow> host \<Rightarrow> bool" where
  "same_host h h' \<longleftrightarrow> h_base h' = h_base h \<and> h_running h' = h_running h \<and> h_protected h' = h_protected h \<and> h_spawns h' = h_spawns h"

definition started :: "nat \<Rightarrow> host \<Rightarrow> host \<Rightarrow> bool" where
  "started pid h h' \<longleftrightarrow> h_base h' = h_base h \<and> h_protected h' = h_protected h
     \<and> h_running h' = pid # h_running h \<and> spawn_pids h = pid # spawn_pids h'"

definition idle :: "host \<Rightarrow> host \<Rightarrow> bool" where
  "idle h h' \<longleftrightarrow> h_base h' = h_base h \<and> h_protected h' = h_protected h
     \<and> h_running h' = h_running h \<and> spawn_pids h' = spawn_pids h"

lemma same_host_on_files: "on_files f h = (r, h') \<Longrightarrow> same_host h h'"
  unfolding same_host_def by (blast dest: on_files_eq)

lemma same_host_idle: "same_host h h' \<Longrightarrow> idle h h'"
  by (simp add: same_host_def idle_def spawn_pids_def)

lemma idle_trans: "idle h h1 \<Longrightarrow> idle h1 h2 \<Longrightarrow> idle h h2"
  by (simp add: idle_def)

lemma idle_started: "idle h h1 \<Longrightarrow> started pid h1 h2 \<Longrightarrow> started pid h h2"
  by (simp add: idle_def started_def)

lemmas idle_on_files = same_host_on_files [THEN same_host_idle]

lemma sbind_on_files:
  assumes "sbind (on_files f h) g = (r, h')"
  shows "(\<exists>e. r = Inl e) \<and> idle h h' \<or> (\<exists>x h1. idle h h1 \<and> g x h1 = (r, h'))"
  using assms
proof (cases rule: sbindE)
  case (err e)
  then show ?thesis using idle_on_files [OF err(1)] by blast
next
  case (ok x s)
  then show ?thesis using idle_on_files [OF ok(1)] by blast
qed

lemma sbind_on_files2:
  assumes "sbind (on_files f h) (\<lambda>_ h. sbind (on_files g h) (\<lambda>_. k)) = (r, h')"
  shows "(\<exists>e. r = Inl e) \<and> idle h h' \<or> (\<exists>h2. idle h h2 \<and> k h2 = (r, h'))"
  using sbind_on_files [OF assms]
proof (elim disjE exE conjE)
  fix x h1 assume h1: "idle h h1" and g: "sbind (on_files g h1) (\<lambda>_. k) = (r, h')"
  show ?thesis using sbind_on_files [OF g] idle_trans [OF h1] by blast
qed simp

lemma spawn_node_effect:
  assumes "spawn_node config log_path h = (r, h')"
  shows "(\<exists>e. r = Inl e) \<and> idle h h' \<or> (\<exists>pid. r = Inr pid \<and> started pid h h')"
proof -
  have last: "(\<exists>e. r = Inl e) \<and> idle h2 h' \<or> (\<exists>pid. r = Inr pid \<and> started pid h2 h')"
    if "(case h_spawns h2 of
          Inr pid # rest \<Rightarrow> (Inr pid, h2\<lparr>h_running := pid # h_running h2, h_spawns := rest\<rparr>)
        | Inl e # rest \<Rightarrow> (Inl ''spawn dwbase-node'', h2\<lparr>h_spawns := rest\<rparr>)
        | [] \<Rightarrow> (Inl ''spawn dwbase-node'', h2)) = (r, h')" for h2
    using that by (auto simp: idle_def started_def spawn_pids_def split: list.splits sum.splits)
  show ?thesis
    using sbind_on_files2 [OF assms [unfolded spawn_node_def]] last idle_trans idle_started by blast
qed

lemma deploy_node_effect:
  assumes "deploy_node C base base_port idx h = (r, h')"
  shows "(\<exists>e. r = Inl e) \<and> idle h h'
    \<or> (\<exists>pid. r = Inr (devnet_node_of base idx (base_port + of_nat idx) pid) \<and> started pid h h')"
proof -
  define n where "n = devnet_node_of base idx (base_port + of_nat idx) 0"
  have last: "(\<exists>e. r = Inl e) \<and> idle h2 h'
    \<or> (\<exists>pid. r = Inr (devnet_node_of base idx (base_port + of_nat idx) pid) \<and> started pid h2 h')"
    if "sbind (spawn_node (dn_config_path n) (dn_log_path n) h2) (\<lambda>pid h.
        (Inr (devnet_node_of base idx (base_port + of_nat idx) pid), h)) = (r, h')" for h2
    using that
  proof (cases rule: sbindE)
    case (err e)
    then show ?thesis using spawn_node_effect [OF err(1)] by auto
  next
    case (ok pid h3)
    then show ?thesis using spawn_node_effect [OF ok(1)] by auto
  qed
  note run = assms [unfolded deploy_node_def Let_def, folded n_def]
  show ?thesis using sbind_on_files2 [OF run] last idle_trans idle_started by blast
qed

lemma deploy_loop_effect:
  assumes "deploy_loop C base base_port idxs st h = (r, st', h')"
  shows "\<exists>k \<le> length idxs. k \<le> length (spawn_pids h) \<and> (is_ok r \<longrightarrow> k = length idxs)
    \<and> st' = st @ map (\<lambda>i. devnet_node_of base (idxs ! i) (base_port + of_nat (idxs ! i)) (spawn_pids h ! i)) [0..<k]
    \<and> h_running h' = rev (take k (spawn_pids h)) @ h_running h \<and> h_protected h' = h_protected h \<and> h_base h' = h_base h"
  using assms
proof (induction idxs arbitrary: st h)
  case (Cons idx idxs)
  obtain s h1 where d: "deploy_node C base base_port idx h = (s, h1)" by fastforce
  note eff = deploy_node_effect [OF d]
  show ?case
  proof (cases s)
    case (Inl e)
    then show ?thesis using Cons(2) d eff by (intro exI [of _ 0]) (auto simp: idle_def)
  next
    case (Inr n)
    then obtain pid where n: "n = devnet_node_of base idx (base_port + of_nat idx) pid" "h_running h1 = pid # h_running h"
      "spawn_pids h = pid # spawn_pids h1" "h_protected h1 = h_protected h" "h_base h1 = h_base h"
      using eff unfolding started_def by auto
    have "deploy_loop C base base_port idxs (st @ [n]) h1 = (r, st', h')" using Cons(2) d Inr by simp
    from Cons(1) [OF this] obtain k where k: "k \<le> length idxs" "k \<le> length (spawn_pids h1)" "is_ok r \<longrightarrow> k = length idxs"
      "st' = (st @ [n]) @ map (\<lambda>i. devnet_node_of base (idxs ! i) (base_port + of_nat (idxs ! i)) (spawn_pids h1 ! i)) [0..<k]"
      "h_running h' = rev (take k (spawn_pids h1)) @ h_running h1" "h_protected h' = h_protected h1" "h_base h' = h_base h1"
      by blast
    have "map (\<lambda>i. devnet_node_of base ((idx # idxs) ! i) (base_port + of_nat ((idx # idxs) ! i)) (spawn_pids h ! i)) [0..<Suc k] =
        n # map (\<lambda>i. devnet_node_of base (idxs ! i) (base_port + of_nat (idxs ! i)) (spawn_pids h1 ! i)) [0..<k]"
      unfolding n(1,3) by (rule nth_equalityI) (simp_all add: nth_Cons' del: upt_Suc)
    then show ?thesis using k n by (intro exI [of _ "Suc k"]) (simp del: upt_Suc)
  qed
qed auto

lemma deploy_loop_pids:
  "map dn_pid (map (\<lambda>i. devnet_node_of base (f i) (g i) (ps ! i)) [0..<k]) = map ((!) ps) [0..<k]"
  by (simp add: devnet_node_of_def Let_def)

section \<open>Processes of a deployment\<close>

lemma state_path_base: "idle h h' \<Longrightarrow> state_path h' = state_path h" "idle h h' \<Longrightarrow> devnet_root h' = devnet_root h"
  by (simp_all add: idle_def state_path_def devnet_root_def)

lemma fs_write_Inr: "no_context (fs_write p b fs) = (Inr u, fs') \<Longrightarrow> fs_get fs' p = Some (File b)"
  by (cases "p = []") (auto simp: no_context_def fs_write_def split: if_splits option.splits node.splits)

lemma save_state_idle: "save_state C ns h = (r, h') \<Longrightarrow> idle h h'"
  unfolding save_state_def by (drule sbind_on_files) (auto dest: idle_on_files intro: idle_trans)

lemma save_state_load:
  assumes "save_state C ns h = (Inr u, h')" "dc_state_of C (dc_state_bytes C ns) = Inr ns"
  shows "load_state C h' = Inr (Some ns)"
proof -
  obtain h1 where h1: "idle h h1"
    and w: "on_files (\<lambda>fs. no_context (fs_write (state_path h1) (dc_state_bytes C ns) fs)) h1 = (Inr u, h')"
    using sbind_on_files [OF assms(1) [unfolded save_state_def]] by auto
  then have "no_context (fs_write (state_path h1) (dc_state_bytes C ns) (h_files h1)) = (Inr u, h_files h')"
    by (blast dest: on_files_eq)
  from fs_write_Inr [OF this] have "fs_get (h_files h') (state_path h') = Some (File (dc_state_bytes C ns))"
    using state_path_base(1) [OF idle_on_files [OF w]] by simp
  then show ?thesis by (simp add: load_state_def fs_exists_def fs_read_def assms(2))
qed

lemma clear_state_idle: "clear_state_file h = (r, h') \<Longrightarrow> idle h h'"
  by (auto simp: clear_state_file_def idle_def dest!: idle_on_files split: if_splits)

lemma load_state_pruned_idle:
  assumes "load_state_pruned C h = (r, h')"
  shows "idle h h'" and "load_state C h = Inr (Some ns) \<Longrightarrow> n \<in> set ns \<Longrightarrow> pid_running (dn_pid n) h \<Longrightarrow> r \<noteq> Inr None"
proof -
  have refl: "idle h h" by (simp add: idle_def)
  have clear: "idle h (snd (clear_state_file h))" using clear_state_idle [of h] by (cases "clear_state_file h") auto
  show "idle h h'"
    using assms refl clear
    by (auto simp: load_state_pruned_def Let_def elim!: sbindE dest!: save_state_idle split: option.splits if_splits)
  show "r \<noteq> Inr None" if "load_state C h = Inr (Some ns)" "n \<in> set ns" "pid_running (dn_pid n) h"
    using assms that
    by (auto simp: load_state_pruned_def Let_def filter_empty_conv elim!: sbindE split: option.splits if_splits)
qed

lemma kill_fresh:
  assumes "h_running h' = rev (take k ps) @ run" "k \<le> length ps" "set ps \<inter> (set run \<union> set (h_protected h')) = {}"
  shows "h_running (kill_all (map ((!) ps) [0..<k]) h') = run"
proof -
  have pids: "map ((!) ps) [0..<k] = take k ps" using assms(2) by (intro nth_equalityI) simp_all
  have "p \<notin> set (take k ps)" if "p \<in> set run" for p using that assms(3) set_take_subset [of k ps] by auto
  then have keep: "filter (\<lambda>p. p \<notin> set (take k ps) \<or> p \<in> set (h_protected h')) run = run" by simp
  have "p \<notin> set (h_protected h')" if "p \<in> set (take k ps)" for p using that assms(3) set_take_subset [of k ps] by auto
  then have gone: "filter (\<lambda>p. p \<notin> set (take k ps) \<or> p \<in> set (h_protected h')) (rev (take k ps)) = []"
    by (simp add: filter_empty_conv)
  show ?thesis using kill_all_effect [of "take k ps" h'] unfolding pids assms(1) by (simp only: filter_append keep gone append.simps)
qed

lemma deploy_started:
  assumes new: "set (spawn_pids h) \<inter> (set (h_running h) \<union> set (h_protected h)) = {}"
    and codec: "\<forall>ns. dc_state_of C (dc_state_bytes C ns) = Inr ns"
    and run: "deploy_nodes C base base_port nodes h = (r, h')"
  shows "if is_ok r
    then h_running h' = rev (take nodes (spawn_pids h)) @ h_running h
      \<and> load_state C h' = Inr (Some (map (\<lambda>i. devnet_node_of base i (base_port + of_nat i) (spawn_pids h ! i)) [0..<nodes]))
    else h_running h' = h_running h"
proof -
  obtain s st h1 where loop: "deploy_loop C base base_port [0..<nodes] [] h = (s, st, h1)" by (metis prod_cases3)
  obtain k where k: "k \<le> nodes" "k \<le> length (spawn_pids h)" "is_ok s \<longrightarrow> k = nodes"
    and st: "st = map (\<lambda>i. devnet_node_of base (([0..<nodes]) ! i) (base_port + of_nat (([0..<nodes]) ! i)) (spawn_pids h ! i)) [0..<k]"
    and h1: "h_running h1 = rev (take k (spawn_pids h)) @ h_running h" "h_protected h1 = h_protected h"
    using deploy_loop_effect [OF loop] by auto
  have st: "st = map (\<lambda>i. devnet_node_of base i (base_port + of_nat i) (spawn_pids h ! i)) [0..<k]"
    unfolding st using k(1) by (intro map_cong) simp_all
  have pids: "map dn_pid st = map ((!) (spawn_pids h)) [0..<k]"
    unfolding st using deploy_loop_pids [of base "\<lambda>i. i" "\<lambda>i. base_port + of_nat i"] by simp
  have killed: "h_running (kill_all (map dn_pid st) h2) = h_running h" if "idle h1 h2" for h2
    unfolding pids using that h1 new k(2) by (intro kill_fresh) (simp_all add: idle_def)
  have refl: "idle h1 h1" by (simp add: idle_def)
  show ?thesis
  proof (cases s)
    case (Inl e)
    then show ?thesis using run [unfolded deploy_nodes_def] loop killed [OF refl] by auto
  next
    case (Inr u)
    obtain v h2 where save: "save_state C st h1 = (v, h2)" by fastforce
    note i = save_state_idle [OF save]
    show ?thesis
    proof (cases v)
      case (Inl e)
      then show ?thesis using run [unfolded deploy_nodes_def] loop Inr save killed [OF i] by auto
    next
      case v: (Inr w)
      then have "r = Inr ()" "h' = h2" using run [unfolded deploy_nodes_def] loop Inr save by auto
      moreover have "load_state C h2 = Inr (Some st)" using save_state_load codec save v by blast
      moreover have "h_running h2 = rev (take nodes (spawn_pids h)) @ h_running h" using i h1 k(3) Inr by (simp add: idle_def)
      ultimately show ?thesis using st k(3) Inr by simp
    qed
  qed
qed

text \<open>
  C26: A deployment is all or nothing. If the processes to be started are new, a deployment that fails
  at any step leaves exactly the processes that ran before; one that succeeds has started one process
  per node, and the state file holds the nodes with their numbers, ports (modulo \<open>2 ^ 16\<close>) and
  processes. Nothing is deployed while a recorded node runs.
\<close>

theorem deploy_all_or_nothing:
  assumes new: "set (spawn_pids h) \<inter> (set (h_running h) \<union> set (h_protected h)) = {}"
    and codec: "\<forall>ns. dc_state_of C (dc_state_bytes C ns) = Inr ns"
    and run: "deploy_devnet C nodes base_port h = (r, h')"
  shows "if is_ok r
    then h_running h' = rev (take nodes (spawn_pids h)) @ h_running h
      \<and> load_state C h' = Inr (Some (map (\<lambda>i. devnet_node_of (devnet_root h) i (base_port + of_nat i) (spawn_pids h ! i)) [0..<nodes]))
      \<and> \<not> (\<exists>ns n. load_state C h = Inr (Some ns) \<and> n \<in> set ns \<and> pid_running (dn_pid n) h)
    else h_running h' = h_running h"
proof (cases "nodes = 0")
  case False
  obtain ex h1 where pruned: "load_state_pruned C h = (ex, h1)" by fastforce
  note i1 = load_state_pruned_idle [OF pruned]
  note run = run [unfolded deploy_devnet_def pruned if_not_P [OF False]]
  show ?thesis
  proof (cases "ex = Inr None")
    case False
    then have "\<not> is_ok r" "h' = h1" using run by (cases ex; auto)+
    then show ?thesis using i1(1) by (simp add: idle_def)
  next
    case True
    from sbind_on_files [OF run [unfolded True sbind.simps, simplified]] consider
        "\<not> is_ok r" "idle h1 h'"
      | h2 where "idle h1 h2" "h' = h2" "\<not> is_ok r"
      | h2 where "idle h1 h2" "deploy_nodes C (devnet_root h2) base_port nodes (h2\<lparr>h_handler_free := False\<rparr>) = (r, h')"
      by (auto split: if_splits)
    then show ?thesis
    proof cases
      case 1
      then show ?thesis using idle_trans [OF i1(1)] by (auto simp: idle_def)
    next
      case 2
      then show ?thesis using idle_trans [OF i1(1)] by (auto simp: idle_def)
    next
      case (3 h2)
      let ?h = "h2\<lparr>h_handler_free := False\<rparr>"
      have i: "idle h h2" by (rule idle_trans [OF i1(1) 3(1)])
      have same: "spawn_pids ?h = spawn_pids h" "h_running ?h = h_running h" "h_protected ?h = h_protected h"
        using i by (simp_all add: idle_def spawn_pids_def)
      have "\<not> (\<exists>ns n. load_state C h = Inr (Some ns) \<and> n \<in> set ns \<and> pid_running (dn_pid n) h)"
        using i1(2) True by blast
      then show ?thesis
        using deploy_started [OF _ codec 3(2)] new unfolding same state_path_base(2) [OF i] by simp
    qed
  qed
qed (use run in \<open>auto simp: deploy_devnet_def\<close>)

text \<open>
  Stopping forgets every node. Stopping a recorded network succeeds and ends exactly the recorded
  processes that may be signalled; the record is gone afterwards, also of a recorded process that may
  not be signalled and goes on running.
\<close>

theorem stop_forgets_all:
  assumes state: "load_state C h = Inr (Some ns)" and run: "stop_devnet C h = (r, h')"
  shows "r = Inr () \<and> load_state C h' = Inr None
    \<and> h_running h' = filter (\<lambda>p. p \<in> dn_pid ` set ns \<longrightarrow> p \<in> set (h_protected h)) (h_running h)"
proof -
  define live where "live = filter (\<lambda>n. pid_running (dn_pid n) h) ns"
  define h1 where "h1 = kill_all (map dn_pid live) h"
  have stop: "stop_devnet C h = clear_state_file h1"
    using state by (simp add: stop_devnet_def live_def h1_def Let_def)
  have kept: "h_files h1 = h_files h" "h_base h1 = h_base h" "h_protected h1 = h_protected h"
    and run1: "h_running h1 = filter (\<lambda>p. p \<notin> set (map dn_pid live) \<or> p \<in> set (h_protected h)) (h_running h)"
    using kill_all_effect [of "map dn_pid live" h] by (simp_all add: h1_def)
  have path: "state_path h1 = state_path h" by (simp add: state_path_def devnet_root_def kept)
  obtain b where stored: "fs_get (h_files h) (state_path h) = Some (File b)"
    using state by (auto simp: load_state_def fs_exists_def fs_read_def res_simps split: if_splits node.splits)
  have "clear_state_file h1 = (Inr (), h1\<lparr>h_files := drop_tree (state_path h) (h_files h)\<rparr>)"
    using stored by (simp add: clear_state_file_def on_files_def with_context_def remove_file_def fs_exists_def path kept)
  then have r: "r = Inr ()" "h' = h1\<lparr>h_files := drop_tree (state_path h) (h_files h)\<rparr>" using run stop by auto
  have "load_state C h' = Inr None"
    by (simp add: r load_state_def fs_exists_def fs_get_drop) (simp add: state_path_def devnet_root_def kept)
  moreover have "h_running h1 = filter (\<lambda>p. p \<in> dn_pid ` set ns \<longrightarrow> p \<in> set (h_protected h)) (h_running h)"
    unfolding run1 by (rule filter_cong) (auto simp: live_def pid_running_def)
  ultimately show ?thesis by (simp add: r)
qed

section \<open>Configurations of nodes\<close>

lemma or_insert_get: "map_of (or_insert k v t) x = (if x = k \<and> map_of t k = None then Some v else map_of t x)"
  by (auto simp: or_insert_def update_conv')

lemma as_table_Inr [res_simps]: "as_table msg v = Inr t \<longleftrightarrow> v = T_Table t"
  by (cases v) auto

text \<open>
  The configuration of a node is the template with the node's address and directory. After
  \<open>write_config\<close> succeeds on a template, the file parses to a table that agrees with the template
  but for the node table, where the address and the data directory are the node's, an embedder is
  named, and every other entry is the template's; no other file has changed.
\<close>

theorem write_config_fills_template:
  assumes run: "write_config C p listen data fs = (Inr u, fs')"
    and template: "config_template C listen data fs = Inr (T_Table t)"
    and codec: "\<forall>d b. dc_toml_text C d = Inr b \<longrightarrow> dc_toml_of C b = Inr d"
  shows "\<exists>b t' node. fs_get fs' p = Some (File b) \<and> dc_toml_of C b = Inr (T_Table t')
    \<and> map_of t' ''node'' = Some (T_Table node) \<and> (\<forall>k. k \<noteq> ''node'' \<longrightarrow> map_of t' k = map_of t k)
    \<and> map_of node ''listen'' = Some (T_String (listen_text listen))
    \<and> map_of node ''data_dir'' = Some (T_String (path_text data))
    \<and> (\<forall>k. k \<noteq> ''listen'' \<and> k \<noteq> ''data_dir'' \<longrightarrow>
         map_of node k = (case map_of t ''node'' of
             Some (T_Table old) \<Rightarrow> (if k = ''embedder'' \<and> map_of old k = None then Some (T_String ''dummy'') else map_of old k)
           | _ \<Rightarrow> if k = ''embedder'' then Some (T_String ''dummy'') else None))
    \<and> (\<forall>q. q \<noteq> p \<longrightarrow> fs_get fs' q = fs_get fs q)"
proof -
  obtain doc b where doc: "fill_config listen data (T_Table t) = Inr doc" "dc_toml_text C doc = Inr b"
    and saved: "with_context (''write config '' @ path_text p) (fs_write p b fs) = (Inr u, fs')"
    using run template by (auto simp: write_config_def res_simps elim!: sbindE)
  have written: "fs_get fs' p = Some (File b)" and others: "\<forall>q. q \<noteq> p \<longrightarrow> fs_get fs' q = fs_get fs q"
    using saved by (cases "p = []"; auto simp: with_context_def fs_write_def split: if_splits option.splits node.splits)+
  obtain old where old: "map_of (or_insert ''node'' (T_Table []) t) ''node'' = Some (T_Table old)"
    and filled: "doc = T_Table (AList.update ''node'' (T_Table
             (or_insert ''embedder'' (T_String ''dummy'')
               (AList.update ''data_dir'' (T_String (path_text data))
                 (AList.update ''listen'' (T_String (listen_text listen)) old)))) (or_insert ''node'' (T_Table []) t))"
    using doc(1) by (auto simp: fill_config_def Let_def res_simps or_insert_get split: if_splits)
  define node where "node = or_insert ''embedder'' (T_String ''dummy'')
               (AList.update ''data_dir'' (T_String (path_text data)) (AList.update ''listen'' (T_String (listen_text listen)) old))"
  define t' where "t' = AList.update ''node'' (T_Table node) (or_insert ''node'' (T_Table []) t)"
  have "dc_toml_of C b = Inr (T_Table t')" using codec doc(2) by (simp add: filled node_def t'_def)
  moreover have "map_of t' ''node'' = Some (T_Table node)" "\<forall>k. k \<noteq> ''node'' \<longrightarrow> map_of t' k = map_of t k"
    by (simp_all add: t'_def update_conv' or_insert_get)
  moreover have "map_of node ''listen'' = Some (T_String (listen_text listen))" "map_of node ''data_dir'' = Some (T_String (path_text data))"
    by (simp_all add: node_def update_conv' or_insert_get)
  moreover have "map_of t ''node'' = Some (T_Table old) \<or> map_of t ''node'' = None \<and> old = []"
    using old by (auto simp: or_insert_get split: if_splits)
  then have "\<forall>k. k \<noteq> ''listen'' \<and> k \<noteq> ''data_dir'' \<longrightarrow>
         map_of node k = (case map_of t ''node'' of
             Some (T_Table old) \<Rightarrow> (if k = ''embedder'' \<and> map_of old k = None then Some (T_String ''dummy'') else map_of old k)
           | _ \<Rightarrow> if k = ''embedder'' then Some (T_String ''dummy'') else None)"
    by (auto simp: node_def update_conv' or_insert_get)
  ultimately show ?thesis using written others by blast
qed

section \<open>A small network\<close>

text \<open>Formats for the examples, in the style of \<open>unary_archive\<close>: nodes, and documents of one table of strings.\<close>

definition enc_node :: "devnet_node \<Rightarrow> bytes" where
  "enc_node n = enc_str (dn_id n) @ enc_nat (unat (dn_port n)) @ enc_nat (dn_pid n)
     @ enc_list enc_str (dn_data_dir n) @ enc_list enc_str (dn_log_path n) @ enc_list enc_str (dn_config_path n)"

definition dec_node :: "bytes \<Rightarrow> devnet_node \<times> bytes" where
  "dec_node b = (case dec_str b of (i, b) \<Rightarrow> case dec_nat b of (p, b) \<Rightarrow> case dec_nat b of (q, b) \<Rightarrow>
     case dec_list dec_str b of (d, b) \<Rightarrow> case dec_list dec_str b of (l, b) \<Rightarrow> case dec_list dec_str b of (c, b) \<Rightarrow>
       (\<lparr>dn_id = i, dn_port = of_nat p, dn_pid = q, dn_data_dir = d, dn_log_path = l, dn_config_path = c\<rparr>, b))"

fun enc_row :: "string \<times> toml \<Rightarrow> bytes" where
  "enc_row (k, T_String s) = enc_str k @ enc_str s"
| "enc_row (k, v) = []"

definition dec_row :: "bytes \<Rightarrow> (string \<times> toml) \<times> bytes" where
  "dec_row b = (case dec_str b of (k, b) \<Rightarrow> case dec_str b of (s, b) \<Rightarrow> ((k, T_String s), b))"

fun is_string :: "toml \<Rightarrow> bool" where
  "is_string (T_String s) = True"
| "is_string v = False"

fun enc_doc :: "toml \<Rightarrow> (string, bytes) result" where
  "enc_doc (T_Table [(c, T_Table rows)]) =
     (if c = ''node'' \<and> list_all (is_string \<circ> snd) rows then Inr (enc_list enc_row rows) else Inl ''unsupported'')"
| "enc_doc v = Inl ''unsupported''"

definition unary_devnet :: devnet_codec where
  "unary_devnet = \<lparr>dc_state_bytes = enc_list enc_node, dc_state_of = (\<lambda>b. Inr (fst (dec_list dec_node b))),
     dc_toml_text = enc_doc, dc_toml_of = (\<lambda>b. Inr (T_Table [(''node'', T_Table (fst (dec_list dec_row b)))])),
     dc_preview_of = (\<lambda>b. Inr None)\<rparr>"

lemma dec_enc_node: "dec_node (enc_node n @ r) = (n, r)"
  by (simp add: dec_node_def enc_node_def dec_enc_str dec_enc_nat dec_enc_list [of dec_str enc_str, OF dec_enc_str])

lemma unary_state: "dc_state_of unary_devnet (dc_state_bytes unary_devnet ns) = Inr ns"
  using dec_enc_list [of dec_node enc_node ns "[]", OF dec_enc_node] by (simp add: unary_devnet_def)

lemma dec_enc_rows: "list_all (is_string \<circ> snd) rows \<Longrightarrow> dec_list dec_row (enc_list enc_row rows) = (rows, [])"
proof -
  assume "list_all (is_string \<circ> snd) rows"
  then have "dec_times dec_row (length rows) (concat (map enc_row rows)) = (rows, [])"
  proof (induction rows)
    case (Cons e rows)
    then obtain k s where "e = (k, T_String s)" by (cases e) (auto elim: is_string.elims)
    then show ?case using Cons by (simp add: dec_row_def dec_enc_str)
  qed simp
  then show ?thesis by (simp add: dec_list_def enc_list_def dec_enc_nat)
qed

lemma unary_toml: "dc_toml_text unary_devnet d = Inr b \<Longrightarrow> dc_toml_of unary_devnet b = Inr d"
  by (induction d rule: enc_doc.induct) (auto simp: unary_devnet_def dec_enc_rows split: if_splits)

definition sample_host :: host where
  "sample_host = \<lparr>h_base = [''dw''],
     h_files = [([''deploy''], Dir), (template_path, File (enc_list enc_row [(''name'', T_String ''n'')]))],
     h_running = [3], h_protected = [], h_spawns = [Inr 1, Inl ''limit''], h_handler_free = True\<rparr>"

lemma sample_deploys:
  "is_ok (fst (deploy_devnet unary_devnet 1 5 sample_host))"
  "\<not> is_ok (fst (deploy_devnet unary_devnet 2 5 sample_host))"
  by code_simp+

lemma sample_new: "set (spawn_pids sample_host) \<inter> (set (h_running sample_host) \<union> set (h_protected sample_host)) = {}"
  "spawn_pids sample_host = [1]" "h_running sample_host = [3]"
  by (simp_all add: spawn_pids_def sample_host_def)

lemma unary_states: "\<forall>ns. dc_state_of unary_devnet (dc_state_bytes unary_devnet ns) = Inr ns"
  using unary_state by blast

theorem deploy_all_or_nothing_witness:
  "h_running (snd (deploy_devnet unary_devnet 1 5 sample_host)) = [1, 3]
   \<and> h_running (snd (deploy_devnet unary_devnet 2 5 sample_host)) = [3]"
  using deploy_all_or_nothing [OF sample_new(1) unary_states prod.collapse [symmetric], of 1 5]
    deploy_all_or_nothing [OF sample_new(1) unary_states prod.collapse [symmetric], of 2 5] sample_deploys
  by (simp add: sample_new(2,3))

text \<open>A recorded network of two nodes, one of which may not be signalled.\<close>

definition sample_network :: host where
  "sample_network = sample_host\<lparr>h_files :=
     [([''dw''], Dir), ([''dw'', ''devnet''], Dir),
      ([''dw'', ''devnet'', ''state.json''], File (enc_list enc_node [devnet_node_of [] 0 5 1, devnet_node_of [] 1 6 2]))],
     h_running := [2, 1, 3], h_protected := [2]\<rparr>"

lemma sample_network_state: "load_state unary_devnet sample_network = Inr (Some [devnet_node_of [] 0 5 1, devnet_node_of [] 1 6 2])"
  using unary_state [of "[devnet_node_of [] 0 5 1, devnet_node_of [] 1 6 2]"]
  by (simp add: load_state_def sample_network_def sample_host_def state_path_def devnet_root_def fs_exists_def fs_read_def fs_get_def unary_devnet_def)

theorem stop_forgets_all_witness:
  "h_running (snd (stop_devnet unary_devnet sample_network)) = [2, 3]
   \<and> load_state unary_devnet (snd (stop_devnet unary_devnet sample_network)) = Inr None"
  using stop_forgets_all [OF sample_network_state prod.collapse [symmetric]]
  by (simp add: sample_network_def devnet_node_of_def Let_def)

theorem write_config_fills_template_witness:
  "\<exists>b node. fs_get (snd (write_config unary_devnet [''c''] 5 [''d''] (h_files sample_host))) [''c''] = Some (File b)
    \<and> dc_toml_of unary_devnet b = Inr (T_Table [(''node'', T_Table node)])
    \<and> map_of node ''listen'' = Some (T_String (listen_text 5)) \<and> map_of node ''name'' = Some (T_String ''n'')"
proof -
  let ?fs = "h_files sample_host"
  have rows: "dc_toml_of unary_devnet (enc_list enc_row [(''name'', T_String ''n'')]) = Inr (T_Table [(''node'', T_Table [(''name'', T_String ''n'')])])"
    using dec_enc_rows [of "[(''name'', T_String ''n'')]"] by (simp add: unary_devnet_def)
  have template: "config_template unary_devnet 5 [''d''] ?fs = Inr (T_Table [(''node'', T_Table [(''name'', T_String ''n'')])])"
    using rows by (simp add: config_template_def sample_host_def fs_exists_def fs_read_def fs_get_def template_path_def)
  have "is_ok (fst (write_config unary_devnet [''c''] 5 [''d''] ?fs))" by code_simp
  then obtain u where run: "write_config unary_devnet [''c''] 5 [''d''] ?fs = (Inr u, snd (write_config unary_devnet [''c''] 5 [''d''] ?fs))"
    by (metis is_ok_iff prod.collapse)
  have law: "\<forall>d b. dc_toml_text unary_devnet d = Inr b \<longrightarrow> dc_toml_of unary_devnet b = Inr d" using unary_toml by blast
  obtain b t' node where out: "fs_get (snd (write_config unary_devnet [''c''] 5 [''d''] ?fs)) [''c''] = Some (File b)"
      "dc_toml_of unary_devnet b = Inr (T_Table t')" "map_of t' ''node'' = Some (T_Table node)"
      "map_of node ''listen'' = Some (T_String (listen_text 5))"
    and kept: "\<forall>k. k \<noteq> ''listen'' \<and> k \<noteq> ''data_dir'' \<longrightarrow>
         map_of node k = (case map_of [(''node'', T_Table [(''name'', T_String ''n'')])] ''node'' of
             Some (T_Table old) \<Rightarrow> (if k = ''embedder'' \<and> map_of old k = None then Some (T_String ''dummy'') else map_of old k)
           | _ \<Rightarrow> if k = ''embedder'' then Some (T_String ''dummy'') else None)"
    using write_config_fills_template [OF run template law] by (elim exE conjE) (rule that; assumption)
  have "map_of node ''name'' = Some (T_String ''n'')" using kept [rule_format, of "''name''"] by simp
  moreover have "t' = [(''node'', T_Table node)]" using out(2,3) by (auto simp: unary_devnet_def)
  ultimately show ?thesis using out by blast
qed

end
