(* ===== verification/Cli_Storage.thy ===== *)
theory Cli_Storage
  imports Sled_Ops Text_Trim
begin

text \<open>
  The storage commands of \<open>crates/dwbase-cli/src/main.rs\<close>: checking a database, which is opening it and so
  repairs its logs and rebuilds its index, reindexing, and the corruption that the soak test injects.
  \<open>opened\<close> is the outcome of opening the database file, with the wait for its lock.
\<close>

definition cli_config :: sled_config where
  "cli_config = sled_config_new\<lparr>sc_flush_on_write := False\<rparr>"

definition storage_check :: "'db sled_env \<Rightarrow> key_provider \<Rightarrow> (dw_error, 'db) result \<Rightarrow> (dw_error, 'db sled_storage) result" where
  "storage_check E kp opened = sled_open E cli_config kp opened"

definition storage_reindex :: "'db sled_env \<Rightarrow> key_provider \<Rightarrow> (dw_error, 'db) result \<Rightarrow> (dw_error, nat \<times> 'db sled_storage) result" where
  "storage_reindex E kp opened =
     rbind (sled_open E cli_config kp opened) (\<lambda>st.
       case rebuild_index E st of (r, st') \<Rightarrow> rmap (\<lambda>n. (n, st')) r)"

text \<open>The last entry of the log gets a body that is not a frame; an error of the scan is passed over.\<close>

definition corrupt_tail :: "'db sled_env \<Rightarrow> world_key \<Rightarrow> 'db \<Rightarrow> (string, unit) result \<times> 'db" where
  "corrupt_tail E w db =
     (let es = sl_scan E db (log_prefix w) in
      if es = [] then (Inr (), db)
      else case last es of
        Inl e \<Rightarrow> (Inr (), db)
      | Inr (k, v) \<Rightarrow> sbind (sl_insert E k ''badframe'' db) (\<lambda>_ db. sl_flush E db))"

section \<open>Opening repairs every log\<close>

lemma world_from_key_slash_free: "world_from_key k = Some w \<Longrightarrow> slash_free w"
  using split_on_pieces [of w "CHR ''/''" k]
  by (auto simp: world_from_key_def slash_free_def split: list.splits if_splits)

text \<open>All log keys, of every world, are keys that \<open>log_key\<close> writes.\<close>

definition tree_keyed :: "'db sled_env \<Rightarrow> 'db sled_storage \<Rightarrow> bool" where
  "tree_keyed E st \<longleftrightarrow> (\<forall>w. slash_free w \<longrightarrow> log_keyed w (log_items E st w))"

definition sound_prefix :: "'db sled_env \<Rightarrow> 'db sled_storage \<Rightarrow> world_key \<Rightarrow> (string \<times> string) list" where
  "sound_prefix E st w = takeWhile (frame_good E st w) (log_items E st w)"

text \<open>Repairing one world: its log becomes its sound prefix, all else stays.\<close>

definition only_logs :: "'db sled_env \<Rightarrow> 'db sled_storage \<Rightarrow> 'db sled_storage \<Rightarrow> bool" where
  "only_logs E st st' \<longleftrightarrow> same_config st st' \<and>
     (\<forall>k. (\<forall>w. slash_free w \<longrightarrow> \<not> starts_with k (log_prefix w)) \<longrightarrow> kv E st' k = kv E st k)"

lemma only_logs_trans: "only_logs E a b \<Longrightarrow> only_logs E b c \<Longrightarrow> only_logs E a c"
  by (auto simp: only_logs_def intro: same_config_trans)

lemma only_logs_good:
  assumes "only_logs E st st'" "slash_free w"
  shows "frame_good E st' w = frame_good E st w"
proof
  fix e show "frame_good E st' w e = frame_good E st w e"
    using assms atom_key_not_log_prefix [OF _ assms(2)] by (intro frame_good_same) (auto simp: only_logs_def)
qed

lemma repair_one:
  assumes t: "tree_ok E" and keyed: "tree_keyed E st" and w: "slash_free w"
  shows "\<exists>st'. repair_world_log E w st = (Inr (), st') \<and> only_logs E st st'
    \<and> (\<forall>w'. slash_free w' \<longrightarrow> log_items E st' w' = (if w' = w then sound_prefix E st w else log_items E st w'))"
proof -
  have k: "log_keyed w (log_items E st w)" using keyed w by (simp add: tree_keyed_def)
  obtain st' where st': "repair_world_log E w st = (Inr (), st')" "same_config st st'"
    and kv': "\<And>k. kv E st' k =
      (if k \<in> fst ` set (dropWhile (frame_good E st w) (log_items E st w)) then None else kv E st k)"
    using repair_world_log_ok [OF t k] by blast
  have dropped: "starts_with k (log_prefix w) \<and> (\<exists>n. k = log_key w n)"
    if "k \<in> fst ` set (dropWhile (frame_good E st w) (log_items E st w))" for k
    using that k by (auto simp: log_keyed_def log_items_kv [OF t] dest!: set_dropWhileD)
  have only: "only_logs E st st'"
    using st'(2) w dropped by (auto simp: only_logs_def kv')
  have "log_items E st' w' = log_items E st w'" if "slash_free w'" "w' \<noteq> w" for w'
  proof (rule log_items_same [OF t])
    fix k assume "starts_with k (log_prefix w')"
    then have "k \<notin> fst ` set (dropWhile (frame_good E st w) (log_items E st w))"
      using dropped [of k] log_prefix_world [OF that(1) w] that(2) by metis
    then show "kv E st' k = kv E st k" by (simp add: kv')
  qed
  moreover have "log_items E st' w = sound_prefix E st w"
    unfolding sound_prefix_def by (rule repaired_items [OF t kv'])
  ultimately show ?thesis using st'(1) only by auto
qed

lemma repair_many:
  assumes t: "tree_ok E"
  shows "tree_keyed E st \<Longrightarrow> \<forall>w \<in> set ws. slash_free w \<Longrightarrow>
    \<exists>st'. repair_worlds E ws st = (Inr (), st') \<and> only_logs E st st'
      \<and> (\<forall>w. slash_free w \<longrightarrow> log_items E st' w = (if w \<in> set ws then sound_prefix E st w else log_items E st w))"
proof (induction ws arbitrary: st)
  case Nil
  then show ?case by (auto simp: only_logs_def)
next
  case (Cons w ws)
  then obtain st1 where st1: "repair_world_log E w st = (Inr (), st1)" "only_logs E st st1"
    and items1: "\<And>w'. slash_free w' \<Longrightarrow> log_items E st1 w' = (if w' = w then sound_prefix E st w else log_items E st w')"
    using repair_one [OF t Cons(2), of w] by auto
  have prefix1: "sound_prefix E st1 w' = sound_prefix E st w'" if "slash_free w'" for w'
    using that items1 [OF that] unfolding sound_prefix_def only_logs_good [OF st1(2) that]
    by (auto simp: sound_prefix_def)
  have "tree_keyed E st1"
    using Cons(2) items1 set_takeWhileD [of _ "frame_good E st w" "log_items E st w"]
    unfolding tree_keyed_def log_keyed_def sound_prefix_def by metis
  then obtain st2 where st2: "repair_worlds E ws st1 = (Inr (), st2)" "only_logs E st1 st2"
    and items2: "\<And>w'. slash_free w' \<Longrightarrow> log_items E st2 w' = (if w' \<in> set ws then sound_prefix E st1 w' else log_items E st1 w')"
    using Cons(1) [of st1] Cons(3) by auto
  have "log_items E st2 w' = (if w' \<in> set (w # ws) then sound_prefix E st w' else log_items E st w')" if "slash_free w'" for w'
    using items1 [OF that] items2 [OF that] prefix1 [OF that] by auto
  then show ?case using st1(1) st2(1) only_logs_trans [OF st1(2) st2(2)] by auto
qed

lemma world_names_log: "tree_ok E \<Longrightarrow> slash_free w \<Longrightarrow> log_keyed w (log_items E st w) \<Longrightarrow> w \<notin> world_names E st \<Longrightarrow> log_items E st w = []"
proof (rule ccontr)
  assume a: "tree_ok E" "slash_free w" "log_keyed w (log_items E st w)" "w \<notin> world_names E st" "log_items E st w \<noteq> []"
  then obtain e where e: "e \<in> set (log_items E st w)" by (cases "log_items E st w") auto
  then obtain n where n: "fst e = log_key w n" using a(3) by (auto simp: log_keyed_def)
  have "kv E st (fst e) = Some (snd e)" "starts_with (fst e) (log_prefix w)"
    using e by (simp_all add: log_items_kv [OF a(1)])
  moreover have "world_from_key (fst e) = Some w"
    using world_from_log_key [of w n] takeWhile_slash_free [OF a(2)] n by simp
  ultimately have "w \<in> world_names E st"
    using log_prefix_world_prefix unfolding world_names_def by blast
  then show False using a(4) by simp
qed

definition checked_store :: "key_provider \<Rightarrow> 'db \<Rightarrow> 'db sled_storage" where
  "checked_store kp db = \<lparr>ss_db = db, ss_flush_on_write = False, ss_encryption_enabled = False, ss_key_id = None, ss_key_provider = kp\<rparr>"

lemma same_checked: "same_config (checked_store kp db) st \<Longrightarrow> st = checked_store kp (ss_db st)"
  by (auto simp: same_config_def checked_store_def)

text \<open>The keys that repairing and indexing leave alone: bodies, and logs of worlds with a slash.\<close>

definition unchecked_key :: "string \<Rightarrow> bool" where
  "unchecked_key k \<longleftrightarrow> \<not> starts_with k ''idx/atom/'' \<and> (\<forall>w. slash_free w \<longrightarrow> \<not> starts_with k (log_prefix w))"

lemma check_effect:
  assumes t: "tree_ok E" and keyed: "tree_keyed E (checked_store kp db)"
  shows "\<exists>st'. storage_check E kp (Inr db) = Inr st' \<and> st' = checked_store kp (ss_db st')
    \<and> (\<forall>w. slash_free w \<longrightarrow> log_items E st' w = sound_prefix E (checked_store kp db) w
         \<and> frame_good E st' w = frame_good E (checked_store kp db) w
         \<and> (\<forall>i. kv E st' (atom_key w i) = kv E (checked_store kp db) (atom_key w i)))
    \<and> (\<forall>k. unchecked_key k \<longrightarrow> kv E st' k = kv E (checked_store kp db) k)"
proof -
  let ?st = "checked_store kp db"
  obtain ws where ws: "sled_worlds E ?st = Inr ws" "set ws = world_names E ?st"
    using sled_worlds_names [OF t] by metis
  have "\<forall>w \<in> set ws. slash_free w" using ws(2) world_from_key_slash_free by (auto simp: world_names_def)
  then obtain st1 where st1: "repair_worlds E ws ?st = (Inr (), st1)" "only_logs E ?st st1"
    and items1: "\<And>w. slash_free w \<Longrightarrow> log_items E st1 w = (if w \<in> set ws then sound_prefix E ?st w else log_items E ?st w)"
    using repair_many [OF t keyed, of ws] by auto
  define st2 where "st2 = snd (rebuild_index E st1)"
  have index: "index_only E st1 st2" unfolding st2_def by (rule rebuild_index_only [OF t])
  have opened: "storage_check E kp (Inr db) = Inr st2"
    using st1(1) ws(1) by (simp add: storage_check_def sled_open_def cli_config_def sled_config_new_def checked_store_def [symmetric]
        repair_logs_def sled_worlds_def st2_def)
  have "st2 = checked_store kp (ss_db st2)"
    using index st1(2) by (intro same_checked) (auto simp: index_only_def only_logs_def intro: same_config_trans)
  moreover have atoms2: "kv E st2 (atom_key w i) = kv E st1 (atom_key w i)" for w i
    using index by (auto simp: index_only_def atom_key_def)
  moreover have "kv E st1 (atom_key w i) = kv E ?st (atom_key w i)" if "slash_free w" for w i
    using st1(2) atom_key_not_log_prefix [OF _ that] by (simp add: only_logs_def)
  moreover have "frame_good E st2 w = frame_good E ?st w" if "slash_free w" for w
    using frame_good_same [of E _ st2 w st1] atoms2 only_logs_good [OF st1(2) that] by (auto simp: fun_eq_iff)
  moreover have "log_items E st2 w = sound_prefix E ?st w" if w: "slash_free w" for w
  proof (cases "w \<in> set ws")
    case False
    then have "log_items E ?st w = []"
      using world_names_log [OF t w] keyed w ws(2) by (simp add: tree_keyed_def)
    then show ?thesis using items1 [OF w] False index_only_log(1) [OF t index] by (simp add: sound_prefix_def)
  qed (use items1 [OF w] index_only_log(1) [OF t index] in simp)
  moreover have "kv E st2 k = kv E ?st k" if "unchecked_key k" for k
    using that index st1(2) by (auto simp: unchecked_key_def index_only_def only_logs_def)
  ultimately show ?thesis using opened by auto
qed

text \<open>
  C10: Checking the storage repairs the worlds it visits. Opening a tree whose log keys, under worlds
  without a slash in their names, are those that \<open>log_key\<close> writes succeeds, whatever its entries hold.
  Afterwards the log of every such world is its longest sound prefix, and checking again changes no
  log. Only these logs and the index of identifiers change: bodies stay, and so do the logs of worlds
  with a slash, such as \<open>tenant:<id>/<name>\<close>, which are never visited, sound or not.
\<close>

theorem storage_check_repairs:
  assumes "sled_env_ok E" and "tree_keyed E (checked_store kp db)"
  shows "\<exists>st' st''. storage_check E kp (Inr db) = Inr st' \<and> storage_check E kp (Inr (ss_db st')) = Inr st''
    \<and> (\<forall>w. slash_free w \<longrightarrow> log_items E st' w = sound_prefix E (checked_store kp db) w
         \<and> (\<forall>i. kv E st' (atom_key w i) = kv E (checked_store kp db) (atom_key w i))
         \<and> log_items E st'' w = log_items E st' w)
    \<and> (\<forall>k. unchecked_key k \<longrightarrow> kv E st' k = kv E (checked_store kp db) k)"
proof -
  have t: "tree_ok E" using assms(1) by (simp add: sled_env_ok_def)
  obtain st' where st': "storage_check E kp (Inr db) = Inr st'" "st' = checked_store kp (ss_db st')"
    and out: "\<And>w. slash_free w \<Longrightarrow> log_items E st' w = sound_prefix E (checked_store kp db) w
         \<and> frame_good E st' w = frame_good E (checked_store kp db) w
         \<and> (\<forall>i. kv E st' (atom_key w i) = kv E (checked_store kp db) (atom_key w i))"
    and rest: "\<forall>k. unchecked_key k \<longrightarrow> kv E st' k = kv E (checked_store kp db) k"
    using check_effect [OF t assms(2)] by blast
  have again: "sound_prefix E st' w = log_items E st' w" if "slash_free w" for w
    using out [OF that] by (simp add: sound_prefix_def takeWhile_idem)
  have "tree_keyed E st'"
    using assms(2) out set_takeWhileD [of _ "frame_good E (checked_store kp db) _"]
    unfolding tree_keyed_def log_keyed_def sound_prefix_def by metis
  then have "tree_keyed E (checked_store kp (ss_db st'))" using st'(2) by simp
  from check_effect [OF t this] obtain st'' where "storage_check E kp (Inr (ss_db st')) = Inr st''"
    and "\<And>w. slash_free w \<Longrightarrow> log_items E st'' w = sound_prefix E st' w"
    using st'(2) by metis
  then have "\<exists>st''. storage_check E kp (Inr (ss_db st')) = Inr st''
      \<and> (\<forall>w. slash_free w \<longrightarrow> log_items E st'' w = log_items E st' w)" using again by metis
  then show ?thesis using st'(1) out rest by blast
qed

section \<open>The corruption that the soak test injects\<close>

lemma corrupt_tail_items:
  assumes env: "sled_env_ok E" and w: "slash_free w"
    and log: "log_items E (checked_store kp db) w = items @ [e]"
  shows "\<exists>db'. corrupt_tail E w db = (Inr (), db')
    \<and> kv E (checked_store kp db') = (kv E (checked_store kp db))(fst e \<mapsto> ''badframe'')
    \<and> log_items E (checked_store kp db') w = items @ [(fst e, ''badframe'')]"
proof -
  have t: "tree_ok E" using env by (simp add: sled_env_ok_def)
  have scan: "sl_scan E db (log_prefix w) = map Inr (items @ [e])"
    using t log by (simp add: tree_ok_def log_items_def checked_store_def)
  obtain d1 where d1: "sl_insert E (fst e) ''badframe'' db = (Inr (), d1)"
    "map_of (entries E d1) = (map_of (entries E db))(fst e \<mapsto> ''badframe'')"
    using t unfolding tree_ok_def by blast
  obtain d2 where d2: "sl_flush E d1 = (Inr (), d2)" "entries E d2 = entries E d1"
    using t unfolding tree_ok_def by blast
  have run: "corrupt_tail E w db = (Inr (), d2)"
    by (cases e) (use d1(1) d2(1) in \<open>simp add: corrupt_tail_def scan\<close>)
  have kv: "kv E (checked_store kp d2) = (kv E (checked_store kp db))(fst e \<mapsto> ''badframe'')"
    by (simp add: kv_def checked_store_def d2(2) d1(2))
  have pre: "starts_with (fst e) (log_prefix w)"
    using log_items_kv [OF t, of e "checked_store kp db" w] by (simp add: log)
  have "log_items E (checked_store kp d2) w = items @ [(fst e, ''badframe'')]"
  proof (rule sorted_alist_unique)
    show "sorted_wrt (<) (map fst (log_items E (checked_store kp d2) w))" by (rule log_items_sorted [OF t])
    show "sorted_wrt (<) (map fst (items @ [(fst e, ''badframe'')]))"
      using log_items_sorted [OF t, of "checked_store kp db" w] by (simp add: log)
    have old: "map_of (items @ [e]) k = (if starts_with k (log_prefix w) then kv E (checked_store kp db) k else None)" for k
      unfolding log [symmetric] by (simp add: log_items_def map_of_filter_key [where P = "\<lambda>k. starts_with k (log_prefix w)"] kv_def)
    have new: "map_of (log_items E (checked_store kp d2) w) k = (if k = fst e then Some ''badframe'' else map_of (items @ [e]) k)" for k
      unfolding old using pre
      by (simp add: log_items_def map_of_filter_key [where P = "\<lambda>k. starts_with k (log_prefix w)"] kv [unfolded kv_def] kv_def)
    have "distinct (map fst (items @ [e]))"
      using log_items_sorted [OF t, of "checked_store kp db" w] strict_sorted_iff unfolding log by blast
    then have "map_of items (fst e) = None" by (simp add: map_of_eq_None_iff)
    then have "map_of (items @ [(fst e, ''badframe'')]) k = (if k = fst e then Some ''badframe'' else map_of (items @ [e]) k)" for k
      by (cases e) (auto simp: map_add_def split: option.split)
    then show "map_of (log_items E (checked_store kp d2) w) = map_of (items @ [(fst e, ''badframe'')])" using new by auto
  qed
  then show ?thesis using run kv by blast
qed

text \<open>
  The injected corruption costs one entry. If the world's log is clean, corrupting its tail
  succeeds, and the next check cuts exactly the last entry of that log; every other world keeps the
  sound prefix it had.
\<close>

theorem corrupt_tail_costs_one:
  assumes env: "sled_env_ok E" and bad: "frame_of E ''badframe'' = None" and w: "slash_free w"
    and keyed: "tree_keyed E (checked_store kp db)" and clean: "log_clean E (checked_store kp db) w"
    and some: "log_items E (checked_store kp db) w \<noteq> []"
  shows "\<exists>db' st'. corrupt_tail E w db = (Inr (), db') \<and> storage_check E kp (Inr db') = Inr st'
    \<and> log_items E st' w = butlast (log_items E (checked_store kp db) w)
    \<and> (\<forall>w'. slash_free w' \<and> w' \<noteq> w \<longrightarrow> log_items E st' w' = sound_prefix E (checked_store kp db) w')"
proof -
  let ?st = "checked_store kp db"
  have t: "tree_ok E" using env by (simp add: sled_env_ok_def)
  obtain items e where log: "log_items E ?st w = items @ [e]" using some by (cases "log_items E ?st w" rule: rev_cases) auto
  obtain db' where run: "corrupt_tail E w db = (Inr (), db')"
    and kv': "kv E (checked_store kp db') = (kv E ?st)(fst e \<mapsto> ''badframe'')"
    and log': "log_items E (checked_store kp db') w = items @ [(fst e, ''badframe'')]"
    using corrupt_tail_items [OF env w log] by blast
  let ?st' = "checked_store kp db'"
  obtain n where n: "fst e = log_key w n" "n \<le> u64_max"
  proof -
    have "e \<in> set (log_items E ?st w)" by (simp add: log)
    then show ?thesis using that keyed w unfolding tree_keyed_def log_keyed_def by blast
  qed
  have atoms: "kv E ?st' (atom_key w' i) = kv E ?st (atom_key w' i)" if "slash_free w'" for w' i
    using atom_key_neq_log_key [OF that w, of i n] by (simp add: kv' n)
  have good: "frame_good E ?st' w' = frame_good E ?st w'" if "slash_free w'" for w'
    using atoms [OF that] frame_good_same [of E _ ?st' w' ?st] by (simp add: fun_eq_iff)
  have others: "log_items E ?st' w' = log_items E ?st w'" if "slash_free w'" "w' \<noteq> w" for w'
    using log_prefix_world [OF that(1) w, of n] that(2) by (intro log_items_same [OF t]) (auto simp: kv' n)
  have "tree_keyed E ?st'"
    unfolding tree_keyed_def
  proof (intro allI impI)
    fix w' assume w': "slash_free w'"
    show "log_keyed w' (log_items E ?st' w')"
      using keyed w' others [OF w'] log log' n by (cases "w' = w") (auto simp: tree_keyed_def log_keyed_def)
  qed
  from check_effect [OF t this] obtain st' where st': "storage_check E kp (Inr db') = Inr st'"
    "\<And>w. slash_free w \<Longrightarrow> log_items E st' w = sound_prefix E ?st' w" by blast
  have "sound_prefix E ?st' w = items"
    using clean bad unfolding sound_prefix_def log' good [OF w] log_clean_def log
    by (subst takeWhile_append2) (auto simp: frame_good_def)
  then show ?thesis
    using run st' others good log w by (auto simp: sound_prefix_def)
qed

section \<open>Examples\<close>

lemma checked_same:
  "log_items E (checked_store kp (ss_db st)) w = log_items E st w"
  "kv E (checked_store kp (ss_db st)) = kv E st"
  "frame_good E (checked_store kp (ss_db st)) w = frame_good E st w"
proof -
  show kv: "kv E (checked_store kp (ss_db st)) = kv E st" by (simp add: kv_def checked_store_def)
  show "log_items E (checked_store kp (ss_db st)) w = log_items E st w" by (simp add: log_items_def checked_store_def)
  show "frame_good E (checked_store kp (ss_db st)) w = frame_good E st w" by (rule ext) (rule frame_good_same, simp add: kv)
qed

text \<open>Two logs that hold a broken frame: one of the world \<open>w\<close>, one of the world \<open>a/b\<close>.\<close>

definition mixed_tree :: alist_db where
  "mixed_tree = [(log_key ''w'' 0, ''?''), (log_key ''a/b'' 0, ''?'')]"

lemma slash_log_apart: "slash_free w \<Longrightarrow> \<not> starts_with (log_key ''a/b'' 0) (log_prefix w)"
proof
  assume w: "slash_free w" and pre: "starts_with (log_key ''a/b'' 0) (log_prefix w)"
  then obtain r where "log_key ''a/b'' 0 = log_prefix w @ r" by (auto simp: starts_with_iff)
  then have eq: "''a'' @ CHR ''/'' # ''b/log/'' @ dec_pad LOG_SEQ_WIDTH 0 = w @ CHR ''/'' # ''log/'' @ r"
    by (simp add: log_key_def log_prefix_def)
  have "slash_free ''a''" by (simp add: slash_free_def)
  then have "''a'' = w" "''b/log/'' @ dec_pad LOG_SEQ_WIDTH 0 = ''log/'' @ r" using slash_split [OF _ w eq] by simp_all
  then show False by simp
qed

lemma mixed_keys: "kv alist_env (checked_store kp mixed_tree) k =
    (if k = log_key ''w'' 0 \<or> k = log_key ''a/b'' 0 then Some ''?'' else None)"
  by (simp add: kv_alist checked_store_def mixed_tree_def)

lemma mixed_tree_keyed: "tree_keyed alist_env (checked_store kp mixed_tree)"
proof -
  have t: "tree_ok alist_env" using alist_env_ok by (simp add: sled_env_ok_def)
  have "\<exists>n \<le> u64_max. fst e = log_key w n"
    if w: "slash_free w" and e: "e \<in> set (log_items alist_env (checked_store kp mixed_tree) w)" for w e
  proof -
    have pre: "starts_with (fst e) (log_prefix w)" and "kv alist_env (checked_store kp mixed_tree) (fst e) = Some (snd e)"
      using e by (simp_all add: log_items_kv [OF t])
    then have k: "fst e = log_key ''w'' 0"
      using slash_log_apart [OF w] by (auto simp: mixed_keys split: if_splits)
    then have "w = ''w''" using log_prefix_world [OF w, of "''w''" 0] pre by simp
    then show ?thesis using k by auto
  qed
  then show ?thesis unfolding tree_keyed_def log_keyed_def by blast
qed

theorem storage_check_repairs_witness:
  "\<exists>st'. storage_check alist_env (dummy_key_bytes Map.empty) (Inr mixed_tree) = Inr st'
    \<and> kv alist_env (checked_store (dummy_key_bytes Map.empty) mixed_tree) (log_key ''w'' 0) = Some ''?''
    \<and> log_items alist_env st' ''w'' = [] \<and> kv alist_env st' (log_key ''a/b'' 0) = Some ''?''"
proof -
  let ?kp = "dummy_key_bytes Map.empty" and ?k = "log_key ''a/b'' 0"
  have t: "tree_ok alist_env" using alist_env_ok by (simp add: sled_env_ok_def)
  obtain st' where st': "storage_check alist_env ?kp (Inr mixed_tree) = Inr st'"
    and log: "log_items alist_env st' ''w'' = sound_prefix alist_env (checked_store ?kp mixed_tree) ''w''"
    and rest: "unchecked_key ?k \<longrightarrow> kv alist_env st' ?k = kv alist_env (checked_store ?kp mixed_tree) ?k"
    using storage_check_repairs [OF alist_env_ok mixed_tree_keyed, of ?kp] slash_free_simps by auto
  have "\<not> frame_good alist_env (checked_store ?kp mixed_tree) ''w'' e"
    if "e \<in> set (log_items alist_env (checked_store ?kp mixed_tree) ''w'')" for e
  proof -
    have "snd e = ''?''" using that by (auto simp: log_items_kv [OF t] mixed_keys split: if_splits)
    moreover have "frame_of alist_env ''?'' = None" by code_simp
    ultimately show ?thesis by (simp add: frame_good_def)
  qed
  then have "log_items alist_env st' ''w'' = []"
    unfolding log sound_prefix_def by (cases "log_items alist_env (checked_store ?kp mixed_tree) ''w''") auto
  moreover have "unchecked_key ?k"
    using slash_log_apart by (simp add: unchecked_key_def log_key_def starts_with_def)
  then have "kv alist_env st' ?k = Some ''?''" using rest by (simp add: mixed_keys)
  ultimately show ?thesis using st' by (simp add: mixed_keys)
qed

theorem corrupt_tail_costs_one_witness:
  "log_items alist_env one_atom ''w'' \<noteq> []
   \<and> (\<exists>db' st'. corrupt_tail alist_env ''w'' (ss_db one_atom) = (Inr (), db')
        \<and> storage_check alist_env (dummy_key_bytes Map.empty) (Inr db') = Inr st'
        \<and> log_items alist_env st' ''w'' = butlast (log_items alist_env one_atom ''w''))"
proof -
  let ?st = "checked_store (dummy_key_bytes Map.empty) (ss_db one_atom)"
  have t: "tree_ok alist_env" using alist_env_ok by (simp add: sled_env_ok_def)
  have some: "log_items alist_env ?st ''w'' \<noteq> []" using one_atom_append(4) by (auto simp: log_end_def checked_same)
  have bad: "frame_of alist_env ''badframe'' = None" by code_simp
  have keyed: "tree_keyed alist_env ?st"
    using log_keyed_store [OF t one_atom_append(2)] by (simp add: tree_keyed_def checked_same)
  have clean: "log_clean alist_env ?st ''w''" using one_atom_clean by (simp add: log_clean_def checked_same)
  have "slash_free ''w''" by simp
  from corrupt_tail_costs_one [OF alist_env_ok bad this keyed clean some] some show ?thesis
    by (auto simp: checked_same)
qed

end
