(* ===== verification/Cli_Soak.thy ===== *)
theory Cli_Soak
  imports Cli_Storage Cli_Backup Cli_Commands Node_Runs
begin

text \<open>
  The soak test of \<open>crates/dwbase-cli/src/main.rs\<close>: an engine over a database is driven in rounds until
  a duration has passed, with a corruption, a restart and a pause on the way, and a report is written.
  A round's clock readings, the outcomes of opening the database in it and its random text are
  arguments, and the rounds to come are a list. Clock readings are nanoseconds since the start.
\<close>

section \<open>The engine under test\<close>

definition soak_world :: world_key where
  "soak_world = ''soak''"

definition soak_config :: sled_config where
  "soak_config = sled_config_new\<lparr>sc_flush_on_write := True\<rparr>"

definition soak_engine :: "'db sled_storage \<Rightarrow> ('db, 'h) node_state" where
  "soak_engine storage =
     engine_new storage Map.empty stream_new
       (gatekeeper_new default_caps \<lparr>worker_scores = Map.empty, node_scores = Map.empty\<rparr>)"

definition soak_open :: "('db, 'h) platform \<Rightarrow> key_provider \<Rightarrow> (dw_error, 'db) result \<Rightarrow> (string, ('db, 'h) node_state) result" where
  "soak_open P kp opened = rmap_err dw_error_text (rmap soak_engine (sled_open (pf_sled P) soak_config kp opened))"

section \<open>One round\<close>

record 'db soak_input =
  si_check :: nat
  si_uuid :: string
  si_remember :: op_clock
  si_remember_took :: nat
  si_ask :: op_clock
  si_ask_took :: nat
  si_elapsed :: nat
  si_second_open :: "(string, unit) result"
  si_reopened :: "'db \<Rightarrow> (dw_error, 'db) result"

record ('db, 'h) soak =
  sk_engine :: "('db, 'h) node_state"
  sk_remember_lat :: "f64 list"
  sk_ask_lat :: "f64 list"
  sk_errors :: "string list"
  sk_restart :: bool
  sk_corrupt :: bool
  sk_pause :: nat

definition soak_start :: "('db, 'h) node_state \<Rightarrow> ('db, 'h) soak" where
  "soak_start en =
     \<lparr>sk_engine = en, sk_remember_lat = [], sk_ask_lat = [], sk_errors = [], sk_restart = False,
      sk_corrupt = False, sk_pause = 0\<rparr>"

definition soak_submission :: "string \<Rightarrow> new_atom" where
  "soak_submission uuid =
     \<lparr>n_world = soak_world, n_worker = ''soak-worker'', n_kind = Observation, n_timestamp = [],
      n_importance = importance_clamped (f32_lit 1 2),
      n_payload_json = CHR ''{'' # CHR 0x22 # ''id'' @ CHR 0x22 # CHR '':'' # CHR 0x22 # ''soak-'' @ uuid @ CHR 0x22 # ''}'',
      n_vector = None, n_flags = [], n_labels = [], n_links = []\<rparr>"

definition latency_ms :: "nat \<Rightarrow> f64" where
  "latency_ms ns = f64_mul (as_secs_f64 ns) (f64_of_nat 1000)"

definition soak_remember :: "('db, 'h) platform \<Rightarrow> 'db soak_input \<Rightarrow> ('db, 'h) soak \<Rightarrow> ('db, 'h) soak" where
  "soak_remember P r st =
     (case engine_remember (node_env P (oc_mono (si_remember r))) (si_remember r) (soak_submission (si_uuid r)) (sk_engine st) of
        (Inr i, en) \<Rightarrow> st\<lparr>sk_engine := en, sk_remember_lat := sk_remember_lat st @ [latency_ms (si_remember_took r)]\<rparr>
      | (Inl e, en) \<Rightarrow> st\<lparr>sk_engine := en, sk_errors := sk_errors st @ [''remember: '' @ dw_error_text e]\<rparr>)"

definition soak_ask :: "('db, 'h) platform \<Rightarrow> 'db soak_input \<Rightarrow> ('db, 'h) soak \<Rightarrow> ('db, 'h) soak" where
  "soak_ask P r st =
     (case engine_ask (node_env P (oc_mono (si_ask r))) (si_ask r)
             \<lparr>q_world = soak_world, q_text = ''status?'', q_filter = None\<rparr> (sk_engine st) of
        (Inr a, en) \<Rightarrow> st\<lparr>sk_engine := en, sk_ask_lat := sk_ask_lat st @ [latency_ms (si_ask_took r)]\<rparr>
      | (Inl e, en) \<Rightarrow> st\<lparr>sk_engine := en, sk_errors := sk_errors st @ [''ask: '' @ dw_error_text e]\<rparr>)"

text \<open>The database is opened a second time beside the engine's handle; what is written reaches the same tree.\<close>

definition soak_corrupt :: "('db, 'h) platform \<Rightarrow> nat \<Rightarrow> 'db soak_input \<Rightarrow> ('db, 'h) soak \<Rightarrow> ('db, 'h) soak" where
  "soak_corrupt P d r st =
     (if \<not> sk_corrupt st \<and> d div 3 < si_elapsed r then
        (let en = sk_engine st; db = ss_db (en_storage en) in
         case sbind (si_second_open r, db) (\<lambda>_. corrupt_tail (pf_sled P) soak_world) of
           (res, db') \<Rightarrow>
             let st' = st\<lparr>sk_engine := en\<lparr>en_storage := (en_storage en)\<lparr>ss_db := db'\<rparr>\<rparr>\<rparr> in
             case res of
               Inl e \<Rightarrow> st'\<lparr>sk_errors := sk_errors st @ [''corrupt: '' @ e]\<rparr>
             | Inr _ \<Rightarrow> st'\<lparr>sk_corrupt := True\<rparr>)
      else st)"

definition soak_restart :: "('db, 'h) platform \<Rightarrow> key_provider \<Rightarrow> nat \<Rightarrow> 'db soak_input \<Rightarrow> ('db, 'h) soak
  \<Rightarrow> (string, unit) result \<times> ('db, 'h) soak" where
  "soak_restart P kp d r st =
     (if \<not> sk_restart st \<and> d * 2 div 3 < si_elapsed r then
        (let st = st\<lparr>sk_restart := True\<rparr> in
         case soak_open P kp (si_reopened r (ss_db (en_storage (sk_engine st)))) of
           Inl e \<Rightarrow> (Inl e, st)
         | Inr en \<Rightarrow> (Inr (), st\<lparr>sk_engine := en\<rparr>))
      else (Inr (), st))"

definition soak_partition :: "nat \<Rightarrow> 'db soak_input \<Rightarrow> ('db, 'h) soak \<Rightarrow> ('db, 'h) soak" where
  "soak_partition d r st = (if d div 2 < si_elapsed r \<and> sk_pause st = 0 then st\<lparr>sk_pause := 2000000000\<rparr> else st)"

definition soak_round :: "('db, 'h) platform \<Rightarrow> key_provider \<Rightarrow> nat \<Rightarrow> 'db soak_input \<Rightarrow> ('db, 'h) soak
  \<Rightarrow> (string, unit) result \<times> ('db, 'h) soak" where
  "soak_round P kp d r st =
     sbind (soak_restart P kp d r (soak_corrupt P d r (soak_ask P r (soak_remember P r st)))) (\<lambda>_ st.
       (Inr (), soak_partition d r st))"

text \<open>\<open>None\<close>: the rounds given do not reach the end of the test.\<close>

fun soak_loop :: "('db, 'h) platform \<Rightarrow> key_provider \<Rightarrow> nat \<Rightarrow> 'db soak_input list \<Rightarrow> ('db, 'h) soak
  \<Rightarrow> ((string, unit) result \<times> ('db, 'h) soak) option" where
  "soak_loop P kp d [] st = None"
| "soak_loop P kp d (r # rs) st =
     (if d \<le> si_check r then Some (Inr (), st)
      else case soak_round P kp d r st of
        (Inl e, st) \<Rightarrow> Some (Inl e, st)
      | (Inr _, st) \<Rightarrow> soak_loop P kp d rs st)"

section \<open>The report\<close>

fun file_bytes :: "node \<Rightarrow> nat" where
  "file_bytes Dir = 0"
| "file_bytes (File b) = length b"

definition dir_size_bytes :: "files \<Rightarrow> path \<Rightarrow> nat" where
  "dir_size_bytes fs p =
     foldl (\<lambda>total (k, n). if prefix p k then min (2 ^ 64 - 1) (total + file_bytes n) else total) 0 fs"

definition rss_bytes :: nat where
  "rss_bytes = 0"

record soak_report =
  sr_duration_secs :: nat
  sr_remembers :: nat
  sr_asks :: nat
  sr_remember_p50_ms :: f64
  sr_remember_p95_ms :: f64
  sr_ask_p50_ms :: f64
  sr_ask_p95_ms :: f64
  sr_disk_bytes_start :: nat
  sr_disk_bytes_end :: nat
  sr_memory_bytes_end :: nat
  sr_restart_injected :: bool
  sr_corruption_injected :: bool
  sr_partition_simulated_secs :: nat
  sr_errors :: "string list"

text \<open>\<open>None\<close> is the panic of an index out of range in one of the percentiles.\<close>

definition soak_report_of :: "nat \<Rightarrow> nat \<Rightarrow> nat \<Rightarrow> ('db, 'h) soak \<Rightarrow> soak_report option" where
  "soak_report_of d start_disk end_disk st =
     (case (percentile (sk_remember_lat st) (f64_of_nat 50), percentile (sk_remember_lat st) (f64_of_nat 95),
            percentile (sk_ask_lat st) (f64_of_nat 50), percentile (sk_ask_lat st) (f64_of_nat 95)) of
        (Some r50, Some r95, Some a50, Some a95) \<Rightarrow> Some
          \<lparr>sr_duration_secs = d div 1000000000, sr_remembers = length (sk_remember_lat st), sr_asks = length (sk_ask_lat st),
           sr_remember_p50_ms = r50, sr_remember_p95_ms = r95, sr_ask_p50_ms = a50, sr_ask_p95_ms = a95,
           sr_disk_bytes_start = start_disk, sr_disk_bytes_end = end_disk, sr_memory_bytes_end = rss_bytes,
           sr_restart_injected = sk_restart st, sr_corruption_injected = sk_corrupt st,
           sr_partition_simulated_secs = sk_pause st div 1000000000, sr_errors = sk_errors st\<rparr>
      | _ \<Rightarrow> None)"

text \<open>
  What the test meets: a new temporary directory, the outcome of opening the database, the files once
  it is open and at the end, which the database writes, and the JSON text of the report.
\<close>

record 'db soak_host =
  sh_tempdir :: "(string, path) result"
  sh_opened :: "(dw_error, 'db) result"
  sh_files_open :: "files \<Rightarrow> files"
  sh_files_end :: "files \<Rightarrow> files"
  sh_report_text :: "soak_report \<Rightarrow> bytes"

definition soak_base :: "(string, path) result \<Rightarrow> path option \<Rightarrow> files \<Rightarrow> (string, path) result \<times> files" where
  "soak_base tempdir data_dir fs =
     (case data_dir of
        Some dir \<Rightarrow> sbind (no_context (create_dir_all dir fs)) (\<lambda>_ fs. (Inr dir, fs))
      | None \<Rightarrow> (tempdir, fs))"

text \<open>\<open>None\<close>: the rounds do not reach the end, or the report panics.\<close>

definition soak_test :: "('db, 'h) platform \<Rightarrow> key_provider \<Rightarrow> 'db soak_host \<Rightarrow> nat \<Rightarrow> path option \<Rightarrow> path
  \<Rightarrow> 'db soak_input list \<Rightarrow> files \<Rightarrow> ((string, soak_report) result \<times> files) option" where
  "soak_test P kp H d data_dir report rounds fs =
     (case soak_base (sh_tempdir H) data_dir fs of
        (Inl e, fs) \<Rightarrow> Some (Inl e, fs)
      | (Inr base, fs) \<Rightarrow>
          (case soak_open P kp (sh_opened H) of
             Inl e \<Rightarrow> Some (Inl e, fs)
           | Inr en \<Rightarrow>
               (let fs = sh_files_open H fs; start_disk = dir_size_bytes fs base
                in case soak_loop P kp d rounds (soak_start en) of
                     None \<Rightarrow> None
                   | Some (Inl e, st) \<Rightarrow> Some (Inl e, sh_files_end H fs)
                   | Some (Inr _, st) \<Rightarrow>
                       (let fs = sh_files_end H fs in
                        case soak_report_of d start_disk (dir_size_bytes fs base) st of
                          None \<Rightarrow> None
                        | Some rep \<Rightarrow> Some (sbind (no_context (fs_write report (sh_report_text H rep) fs)) (\<lambda>_ fs. (Inr rep, fs)))))))"

section \<open>The test ends, and its report adds up\<close>

definition tally :: "string \<Rightarrow> string list \<Rightarrow> nat" where
  "tally what errors = length (filter (\<lambda>e. starts_with e what) errors)"

lemma tally_snoc [simp]: "tally what (es @ [e]) = tally what es + (if starts_with e what then 1 else 0)"
  by (simp add: tally_def)

lemma error_kinds [simp]:
  "starts_with (''remember: '' @ e) ''remember: ''" "\<not> starts_with (''remember: '' @ e) ''ask: ''" "\<not> starts_with (''remember: '' @ e) ''corrupt: ''"
  "starts_with (''ask: '' @ e) ''ask: ''" "\<not> starts_with (''ask: '' @ e) ''remember: ''" "\<not> starts_with (''ask: '' @ e) ''corrupt: ''"
  "starts_with (''corrupt: '' @ e) ''corrupt: ''" "\<not> starts_with (''corrupt: '' @ e) ''remember: ''" "\<not> starts_with (''corrupt: '' @ e) ''ask: ''"
  by (simp_all add: starts_with_iff)

definition remember_calls :: "('db, 'h) soak \<Rightarrow> nat" where
  "remember_calls st = length (sk_remember_lat st) + tally ''remember: '' (sk_errors st)"

definition ask_calls :: "('db, 'h) soak \<Rightarrow> nat" where
  "ask_calls st = length (sk_ask_lat st) + tally ''ask: '' (sk_errors st)"

definition corrupt_errors :: "('db, 'h) soak \<Rightarrow> nat" where
  "corrupt_errors st = tally ''corrupt: '' (sk_errors st)"

lemmas soak_counts = remember_calls_def ask_calls_def corrupt_errors_def

lemma soak_remember_counts:
  "remember_calls (soak_remember P r st) = Suc (remember_calls st)" "ask_calls (soak_remember P r st) = ask_calls st"
  "corrupt_errors (soak_remember P r st) = corrupt_errors st" "sk_corrupt (soak_remember P r st) = sk_corrupt st"
  by (simp_all add: soak_remember_def soak_counts split: prod.split sum.split)

lemma soak_ask_counts:
  "remember_calls (soak_ask P r st) = remember_calls st" "ask_calls (soak_ask P r st) = Suc (ask_calls st)"
  "corrupt_errors (soak_ask P r st) = corrupt_errors st" "sk_corrupt (soak_ask P r st) = sk_corrupt st"
  by (simp_all add: soak_ask_def soak_counts split: prod.split sum.split)

lemma soak_corrupt_counts:
  "remember_calls (soak_corrupt P d r st) = remember_calls st" "ask_calls (soak_corrupt P d r st) = ask_calls st"
  by (simp_all add: soak_corrupt_def soak_counts Let_def split: prod.split sum.split)

lemma soak_corrupt_locked:
  assumes "\<not> is_ok (si_second_open r)" "\<not> sk_corrupt st"
  shows "\<not> sk_corrupt (soak_corrupt P d r st)"
    "corrupt_errors (soak_corrupt P d r st) = corrupt_errors st + (if d div 3 < si_elapsed r then 1 else 0)"
  using assms by (cases "si_second_open r"; simp add: soak_corrupt_def soak_counts Let_def)+

lemma soak_restart_counts:
  "remember_calls (snd (soak_restart P kp d r st)) = remember_calls st" "ask_calls (snd (soak_restart P kp d r st)) = ask_calls st"
  "corrupt_errors (snd (soak_restart P kp d r st)) = corrupt_errors st" "sk_corrupt (snd (soak_restart P kp d r st)) = sk_corrupt st"
  by (simp_all add: soak_restart_def soak_counts Let_def split: sum.split)

lemma soak_partition_counts:
  "remember_calls (soak_partition d r st) = remember_calls st" "ask_calls (soak_partition d r st) = ask_calls st"
  "corrupt_errors (soak_partition d r st) = corrupt_errors st" "sk_corrupt (soak_partition d r st) = sk_corrupt st"
  by (simp_all add: soak_partition_def soak_counts)

lemma soak_round_state:
  assumes "soak_round P kp d r st = (res, st')"
  shows "\<exists>st1. st1 = snd (soak_restart P kp d r (soak_corrupt P d r (soak_ask P r (soak_remember P r st))))
    \<and> (st' = st1 \<or> st' = soak_partition d r st1)"
  using assms
  by (cases "soak_restart P kp d r (soak_corrupt P d r (soak_ask P r (soak_remember P r st)))"; cases "fst (soak_restart P kp d r (soak_corrupt P d r (soak_ask P r (soak_remember P r st))))")
    (auto simp: soak_round_def)

lemma soak_round_counts:
  assumes "soak_round P kp d r st = (res, st')"
  shows "remember_calls st' = Suc (remember_calls st)" "ask_calls st' = Suc (ask_calls st)"
    "\<not> is_ok (si_second_open r) \<Longrightarrow> \<not> sk_corrupt st \<Longrightarrow> \<not> sk_corrupt st'"
    "\<not> is_ok (si_second_open r) \<Longrightarrow> \<not> sk_corrupt st \<Longrightarrow>
      corrupt_errors st' = corrupt_errors st + (if d div 3 < si_elapsed r then 1 else 0)"
  using soak_round_state [OF assms]
  by (auto simp: soak_remember_counts soak_ask_counts soak_corrupt_counts soak_corrupt_locked soak_restart_counts soak_partition_counts)

text \<open>The rounds before the clock passes the duration are run, unless a restart fails.\<close>

definition rounds_run :: "nat \<Rightarrow> 'db soak_input list \<Rightarrow> 'db soak_input list" where
  "rounds_run d rs = takeWhile (\<lambda>r. si_check r < d) rs"

definition locked_tries :: "nat \<Rightarrow> 'db soak_input list \<Rightarrow> nat" where
  "locked_tries d rs = length (filter (\<lambda>r. d div 3 < si_elapsed r) (rounds_run d rs))"

lemma soak_loop_ends: "\<exists>r \<in> set rs. d \<le> si_check r \<Longrightarrow> soak_loop P kp d rs st \<noteq> None"
  by (induction rs arbitrary: st) (auto split: prod.split sum.split)

lemma soak_loop_counts:
  "soak_loop P kp d rs st = Some (Inr u, st') \<Longrightarrow>
     remember_calls st' = remember_calls st + length (rounds_run d rs)
     \<and> ask_calls st' = ask_calls st + length (rounds_run d rs)
     \<and> ((\<forall>r \<in> set rs. \<not> is_ok (si_second_open r)) \<longrightarrow> \<not> sk_corrupt st \<longrightarrow>
          \<not> sk_corrupt st' \<and> corrupt_errors st' = corrupt_errors st + locked_tries d rs)"
proof (induction rs arbitrary: st)
  case (Cons r rs)
  show ?case
  proof (cases "d \<le> si_check r")
    case False
    then obtain v st1 where round: "soak_round P kp d r st = (Inr v, st1)" and rest: "soak_loop P kp d rs st1 = Some (Inr u, st')"
      using Cons.prems by (auto split: prod.splits sum.splits)
    show ?thesis
      using Cons.IH [OF rest] soak_round_counts [OF round] False by (auto simp: rounds_run_def locked_tries_def)
  qed (use Cons.prems in \<open>auto simp: rounds_run_def locked_tries_def\<close>)
qed simp

lemma two_percentiles:
  assumes "length values < 2 ^ 53"
  shows "\<exists>v. percentile values (f64_of_nat 50) = Some v" "\<exists>v. percentile values (f64_of_nat 95) = Some v"
proof -
  have "\<not> fl_sign (f64_of_nat 50)" "f64_le (f64_of_nat 50) (f64_of_nat 100)"
    "\<not> fl_sign (f64_of_nat 95)" "f64_le (f64_of_nat 95) (f64_of_nat 100)" by (simp_all add: fl_eval)
  then show "\<exists>v. percentile values (f64_of_nat 50) = Some v" "\<exists>v. percentile values (f64_of_nat 95) = Some v"
    using percentile_total [OF _ _ assms] by blast+
qed

lemma soak_report_adds_up:
  assumes "length (sk_remember_lat st) < 2 ^ 53" "length (sk_ask_lat st) < 2 ^ 53"
  shows "\<exists>rep. soak_report_of d a b st = Some rep \<and> sr_remembers rep = length (sk_remember_lat st)
    \<and> sr_asks rep = length (sk_ask_lat st) \<and> sr_errors rep = sk_errors st \<and> sr_corruption_injected rep = sk_corrupt st"
  using two_percentiles [OF assms(1)] two_percentiles [OF assms(2)] by (auto simp: soak_report_of_def)

lemma start_counts: "remember_calls (soak_start en) = 0" "ask_calls (soak_start en) = 0"
  "corrupt_errors (soak_start en) = 0" "sk_corrupt (soak_start en) = False"
  by (simp_all add: soak_start_def soak_counts tally_def)

text \<open>Every round sleeps fifty milliseconds at its end.\<close>

definition paced :: "'db soak_input list \<Rightarrow> bool" where
  "paced rs \<longleftrightarrow> (\<forall>i < length rs. 50000000 * i \<le> si_check (rs ! i))"

lemma paced_passes:
  assumes "paced rs" "d div 50000000 + 1 < length rs"
  shows "\<exists>r \<in> set rs. d \<le> si_check r"
proof
  have "50000000 * (d div 50000000 + 1) \<le> si_check (rs ! (d div 50000000 + 1))"
    using assms(1) [unfolded paced_def, rule_format, OF assms(2)] .
  moreover have "d \<le> 50000000 * (d div 50000000 + 1)"
    using div_mult_mod_eq [of d 50000000] mod_less_divisor [of 50000000 d] by simp
  ultimately show "d \<le> si_check (rs ! (d div 50000000 + 1))" by (rule order_trans [rotated])
qed (use assms(2) in simp)

text \<open>
  The soak test ends, and its report adds up. With rounds at least fifty milliseconds apart, as many
  rounds as the duration holds of these and two more are enough, whatever fails in them. A report
  that is returned counts, with the errors it lists, one submission and one question for each round
  that began before the duration had passed. If the database cannot be opened a second time while
  the engine has it open, which is how sled locks it, no corruption is ever injected: each round
  after a third of the duration adds an error instead.
\<close>

theorem soak_test_ends:
  assumes "paced rounds" and "d div 50000000 + 1 < length rounds" and "length rounds < 2 ^ 53"
  shows "\<exists>res fs'. soak_test P kp H d data_dir report rounds fs = Some (res, fs')
    \<and> (\<forall>rep. res = Inr rep \<longrightarrow>
        sr_remembers rep + tally ''remember: '' (sr_errors rep) = length (rounds_run d rounds)
      \<and> sr_asks rep + tally ''ask: '' (sr_errors rep) = length (rounds_run d rounds)
      \<and> ((\<forall>r \<in> set rounds. \<not> is_ok (si_second_open r)) \<longrightarrow>
           \<not> sr_corruption_injected rep \<and> tally ''corrupt: '' (sr_errors rep) = locked_tries d rounds))"
proof (cases "soak_base (sh_tempdir H) data_dir fs")
  case (Pair b fs0)
  show ?thesis
  proof (cases "\<exists>base en. b = Inr base \<and> soak_open P kp (sh_opened H) = Inr en")
    case False
    then show ?thesis using Pair by (cases b; cases "soak_open P kp (sh_opened H)") (auto simp: soak_test_def)
  next
    case True
    then obtain base en where ok: "b = Inr base" "soak_open P kp (sh_opened H) = Inr en" by blast
    obtain r st where loop: "soak_loop P kp d rounds (soak_start en) = Some (r, st)"
      using soak_loop_ends [OF paced_passes [OF assms(1,2)], of P kp "soak_start en"] by auto
    show ?thesis
    proof (cases r)
      case (Inl e)
      then show ?thesis using Pair ok loop by (auto simp: soak_test_def Let_def)
    next
      case (Inr u)
      have run: "length (rounds_run d rounds) < 2 ^ 53"
        using assms(3) length_takeWhile_le [of "\<lambda>r. si_check r < d" rounds] by (simp add: rounds_run_def)
      note counts = soak_loop_counts [OF loop [unfolded Inr], unfolded start_counts]
      then have "length (sk_remember_lat st) < 2 ^ 53" "length (sk_ask_lat st) < 2 ^ 53"
        using run by (auto simp: soak_counts)
      then obtain rep where rep: "soak_report_of d (dir_size_bytes (sh_files_open H fs0) base)
            (dir_size_bytes (sh_files_end H (sh_files_open H fs0)) base) st = Some rep"
          "sr_remembers rep = length (sk_remember_lat st)" "sr_asks rep = length (sk_ask_lat st)"
          "sr_errors rep = sk_errors st" "sr_corruption_injected rep = sk_corrupt st"
        using soak_report_adds_up by blast
      then have out: "soak_test P kp H d data_dir report rounds fs =
          Some (sbind (no_context (fs_write report (sh_report_text H rep) (sh_files_end H (sh_files_open H fs0)))) (\<lambda>_ fs. (Inr rep, fs)))"
        using Pair ok loop Inr by (simp add: soak_test_def Let_def)
      obtain w fs1 where w: "no_context (fs_write report (sh_report_text H rep) (sh_files_end H (sh_files_open H fs0))) = (w, fs1)"
        by (rule prod.exhaust)
      show ?thesis
        using out rep(2-5) counts by (cases w) (auto simp: w soak_counts)
    qed
  qed
qed


section \<open>What a fast soak test writes\<close>

lemma index_suspicions [simp]:
  "en_suspicions (ensure_index_entry X now w en) = en_suspicions en"
  "en_gate (ensure_index_entry X now w en) = en_gate en"
  "en_suspicions (maybe_rebuild_index X utc w en) = en_suspicions en"
  "en_gate (maybe_rebuild_index X utc w en) = en_gate en"
  by (simp_all add: maybe_rebuild_index_def ensure_index_entry_def Let_def split: option.split)

lemma commit_suspicions:
  "commit_atom X a en = (r, en') \<Longrightarrow> en_suspicions en' = en_suspicions en \<and> en_gate en' = en_gate en"
  by (auto simp: commit_atom_def upsert_vector_def on_vector_def on_storage_def engine_reflex_insert_def on_stream_def
      register_conflicts_def sbind_split split: option.splits prod.splits sum.splits)

definition free_caps :: "('db, 'h) node_state \<Rightarrow> bool" where
  "free_caps en \<longleftrightarrow> gk_caps (en_gate en) = default_caps"

lemma free_gate_passes:
  assumes "gk_caps g = default_caps"
  shows "check_remember now n g = (Inr (), g)" "check_ask now q g = (Inr (), g)"
  using assms by (simp_all add: default_caps_def check_remember_def check_ask_def gate_defs rate_limit_def)

lemma record_suspicion_effect:
  assumes "en_suspicions en' = en_suspicions en"
  shows "en_suspicions (snd (record_suspicion w now en')) = en_suspicions (snd (record_suspicion w now en))"
    "fst (record_suspicion w now en') = fst (record_suspicion w now en)"
    "en_gate (snd (record_suspicion w now en')) = en_gate en'"
  using assms by (simp_all add: record_suspicion_def Let_def)

lemma should_quarantine_state: "snd (should_quarantine n now en) = snd (record_suspicion (n_worker n) now en)"
  by (simp add: should_quarantine_def Let_def split: prod.split)

lemma remember_suspicions:
  assumes "free_caps en" "engine_remember (node_env P now) clk n en = (r, en')"
  shows "en_suspicions en' = en_suspicions (snd (record_suspicion (n_worker n) (oc_mono clk) en)) \<and> free_caps en'"
proof -
  have pass: "on_gate (ga_remember (ee_gate (node_env P now)) n) en = (Inr (), en)"
    using assms(1) free_gate_passes(1) [of "en_gate en" now n] by (simp add: on_gate_def local_gate_api_def free_caps_def)
  define n1 where "n1 = (if n_timestamp n = [] then n\<lparr>n_timestamp := now_timestamp (ee_time (node_env P now)) (oc_utc clk 0)\<rparr> else n)"
  define en4 where "en4 = maybe_rebuild_index (node_env P now) (\<lambda>k. oc_utc clk (k + 2)) (n_world n1)
    (ensure_index_entry (node_env P now) (oc_utc clk 1) (n_world n1) (snd (new_id en)))"
  have en4: "en_suspicions en4 = en_suspicions en" "en_gate en4 = en_gate en" by (simp_all add: en4_def new_id_def)
  have w: "n_worker n1 = n_worker n" by (simp add: n1_def)
  obtain q en5 where q: "should_quarantine n1 (oc_mono clk) en4 = (q, en5)" by fastforce
  then have "en5 = snd (record_suspicion (n_worker n) (oc_mono clk) en4)"
    using should_quarantine_state [of n1 "oc_mono clk" en4] w by simp
  then have en5: "en_suspicions en5 = en_suspicions (snd (record_suspicion (n_worker n) (oc_mono clk) en))" "en_gate en5 = en_gate en"
    using record_suspicion_effect [OF en4(1)] en4(2) by simp_all
  let ?n2 = "if q then quarantine_atom n1 else n1"
  have "engine_remember (node_env P now) clk n en =
      (case em_embed (ee_embed (node_env P now)) (n_payload_json ?n2) of
         Inl e \<Rightarrow> (Inl e, en5)
       | Inr emb \<Rightarrow> sbind (commit_atom (node_env P now) (atom_from_new (fst (new_id en))
             (if n_vector ?n2 = None then ?n2\<lparr>n_vector := emb\<rparr> else ?n2)) en5) (\<lambda>_ en6. (Inr (fst (new_id en)), en6)))"
    using q pass unfolding engine_remember_def en4_def n1_def
    by (simp only: sbind.simps Let_def split_beta fst_conv snd_conv)
  then have "en' = en5 \<or> (\<exists>a r'. commit_atom (node_env P now) a en5 = (r', en'))"
    using assms(2) by (auto simp: sbind_split split: sum.splits prod.splits)
  then show ?thesis using en5 commit_suspicions assms(1) unfolding free_caps_def by metis
qed

lemma ask_suspicions:
  assumes "free_caps en" "engine_ask (node_env P now) clk q en = (r, en')"
  shows "en_suspicions en' = en_suspicions en \<and> free_caps en'"
proof -
  have "on_gate (ga_ask (ee_gate (node_env P now)) q) en = (Inr (), en)"
    using assms(1) free_gate_passes(2) [of "en_gate en" now q] by (simp add: on_gate_def local_gate_api_def free_caps_def)
  then have "en_suspicions en' = en_suspicions en \<and> en_gate en' = en_gate en"
    using assms(2) unfolding engine_ask_def by (auto simp: Let_def split: sum.splits)
  then show ?thesis using assms(1) by (simp add: free_caps_def)
qed

text \<open>
  Rounds of one engine: every log has room, no restart falls into them, and the database is locked
  against a second opening.
\<close>

inductive soak_life :: "('db, 'h) platform \<Rightarrow> key_provider \<Rightarrow> nat \<Rightarrow> ('db, 'h) soak \<Rightarrow> 'db soak_input list \<Rightarrow> ('db, 'h) soak \<Rightarrow> bool"
  for P :: "('db, 'h) platform" and kp :: key_provider and d :: nat where
  life_over: "soak_life P kp d st [] st"
| life_round: "\<forall>w. slash_free w \<longrightarrow> log_room (pf_sled P) (en_storage (sk_engine st)) w 1 \<Longrightarrow>
    \<not> is_ok (si_second_open r) \<Longrightarrow> soak_round P kp d r st = (Inr u, st1) \<Longrightarrow> sk_restart st1 = sk_restart st \<Longrightarrow>
    soak_life P kp d st1 rs st2 \<Longrightarrow> soak_life P kp d st (r # rs) st2"

inductive_cases soak_life_Cons: "soak_life P kp d st (r # rs) st'"

lemma corrupt_locked_engine: "\<not> is_ok (si_second_open r) \<Longrightarrow> sk_engine (soak_corrupt P d r st) = sk_engine st"
  by (cases "si_second_open r") (simp_all add: soak_corrupt_def Let_def)

lemma round_engine:
  assumes "soak_round P kp d r st = (Inr u, st1)" "sk_restart st1 = sk_restart st" "\<not> is_ok (si_second_open r)"
  shows "sk_engine st1 = sk_engine (soak_ask P r (soak_remember P r st))"
proof -
  let ?st = "soak_corrupt P d r (soak_ask P r (soak_remember P r st))"
  have r0: "sk_restart ?st = sk_restart st"
    by (simp add: soak_corrupt_def soak_ask_def soak_remember_def Let_def split: prod.split sum.split)
  have p: "sk_engine (soak_partition d r s) = sk_engine s" "sk_restart (soak_partition d r s) = sk_restart s" for s :: "('a, 'b) soak"
    by (simp_all add: soak_partition_def)
  obtain st2 where st2: "soak_restart P kp d r ?st = (Inr (), st2)" "st1 = soak_partition d r st2"
    using assms(1) unfolding soak_round_def by (auto elim: sbindE)
  then have "sk_restart st2 = sk_restart ?st" using assms(2) r0 p by simp
  then have "st2 = ?st"
    using st2(1) by (auto simp: soak_restart_def Let_def split: if_splits sum.splits)
  then show ?thesis using st2(2) p corrupt_locked_engine [OF assms(3)] by simp
qed

text \<open>The worker of the test.\<close>

abbreviation soaker :: worker_key where
  "soaker \<equiv> ''soak-worker''"

lemma soak_world_name: "slash_free soak_world" "soak_world \<noteq> ''quarantine:'' @ soak_world"
  by (simp_all add: soak_world_def slash_free_def)

lemma length_log_put: "length (log_put a as) \<le> Suc (length as)"
  by (simp add: log_put_def)

lemma round_effect:
  assumes inv: "node_inv P (sk_engine st)" and free: "free_caps (sk_engine st)"
    and room: "\<forall>w. slash_free w \<longrightarrow> log_room (pf_sled P) (en_storage (sk_engine st)) w 1"
    and round: "soak_round P kp d r st = (Inr u, st1)" "sk_restart st1 = sk_restart st" "\<not> is_ok (si_second_open r)"
  shows "node_inv P (sk_engine st1) \<and> free_caps (sk_engine st1)
    \<and> en_suspicions (sk_engine st1) = en_suspicions (snd (record_suspicion soaker (oc_mono (si_remember r)) (sk_engine st)))
    \<and> length (node_log P (sk_engine st1) soak_world) \<le>
        length (node_log P (sk_engine st) soak_world)
          + (if 5 < fst (record_suspicion soaker (oc_mono (si_remember r)) (sk_engine st)) then 0 else 1)"
proof -
  let ?en = "sk_engine st" and ?clk = "si_remember r" and ?n = "soak_submission (si_uuid r)"
  have n: "n_world ?n = soak_world" "n_worker ?n = soaker" by (simp_all add: soak_submission_def)
  have t: "slash_free (target_world ?clk ?n ?en)" using soak_world_name(1) by (simp add: target_world_def n)
  obtain res en1 where en1: "engine_remember (node_env P (oc_mono ?clk)) ?clk ?n ?en = (res, en1)" "node_inv P en1"
    and logs: "\<forall>w. slash_free w \<longrightarrow> node_log P en1 w = node_log P ?en w
         \<or> w = target_world ?clk ?n ?en
           \<and> (\<exists>emb. node_log P en1 w = log_put (remember_atom (node_env P (oc_mono ?clk)) ?clk ?n emb ?en) (node_log P ?en w))"
    using node.remember_log [of P ?en ?clk ?n "oc_mono ?clk"] inv room t unfolding einv_node_inv elog_node_log by blast
  have s1: "en_suspicions en1 = en_suspicions (snd (record_suspicion soaker (oc_mono ?clk) ?en))" "free_caps en1"
    using remember_suspicions [OF free en1(1)] by (simp_all add: n)
  have e1: "sk_engine (soak_remember P r st) = en1" using en1(1) by (cases res) (simp_all add: soak_remember_def)
  obtain ra en2 where en2: "engine_ask (node_env P (oc_mono (si_ask r))) (si_ask r)
      \<lparr>q_world = soak_world, q_text = ''status?'', q_filter = None\<rparr> en1 = (ra, en2)" by fastforce
  have st1: "sk_engine st1 = en2"
    using round_engine [OF round] en2 e1 by (cases ra) (simp_all add: soak_ask_def)
  have k: "node_inv P en2" "en_storage en2 = en_storage en1"
    using node.ask_keeps [of P en1 "oc_mono (si_ask r)"] en1(2) en2 unfolding einv_node_inv by blast+
  have log: "node_log P en2 soak_world = node_log P en1 soak_world" using k(2) by (simp add: node_log_def)
  have grow: "length (node_log P en1 soak_world) \<le> Suc (length (node_log P ?en soak_world))"
    using logs [rule_format, OF soak_world_name(1)] length_log_put by auto
  have "node_log P en1 soak_world = node_log P ?en soak_world" if "5 < fst (record_suspicion soaker (oc_mono ?clk) ?en)"
  proof -
    have "suspicious ?clk ?n ?en"
      using that by (simp add: suspicious_def should_quarantine_def n Let_def split: prod.split) auto
    then have "target_world ?clk ?n ?en \<noteq> soak_world" using soak_world_name(2) by (simp add: target_world_def n)
    then show ?thesis using logs [rule_format, OF soak_world_name(1)] by auto
  qed
  then show ?thesis using k(1) s1 ask_suspicions [OF s1(2) en2] grow log st1 by auto
qed

lemma suspicion_run_snoc: "suspicion_run w (ts @ [t]) en = snd (record_suspicion w t (suspicion_run w ts en))"
  by (induction w ts en rule: suspicion_run.induct) simp_all

lemma record_suspicion_calls:
  assumes "calls_of en w = calls_of en' w"
  shows "fst (record_suspicion w t en) = fst (record_suspicion w t en')"
    "calls_of (snd (record_suspicion w t en)) w = calls_of (snd (record_suspicion w t en')) w"
  using assms by (simp_all add: record_suspicion_def calls_of_def Let_def)

text \<open>No six calls in a row take more than a second.\<close>

definition fast :: "nat list \<Rightarrow> bool" where
  "fast ts \<longleftrightarrow> (\<forall>i. i + 5 < length ts \<longrightarrow> ts ! (i + 5) \<le> ts ! i + 1000000000)"

lemma fast_append: "fast (ts @ us) \<Longrightarrow> fast ts"
  unfolding fast_def
proof (intro allI impI)
  fix i assume "\<forall>i. i + 5 < length (ts @ us) \<longrightarrow> (ts @ us) ! (i + 5) \<le> (ts @ us) ! i + 1000000000" "i + 5 < length ts"
  then have "(ts @ us) ! (i + 5) \<le> (ts @ us) ! i + 1000000000" by simp
  with \<open>i + 5 < length ts\<close> show "ts ! (i + 5) \<le> ts ! i + 1000000000" by (simp add: nth_append)
qed

lemma fast_recent:
  assumes "fast (ts @ [now])" "sorted (ts @ [now])" "5 \<le> length ts"
  shows "5 < length (recent now (ts @ [now]))"
proof -
  let ?all = "ts @ [now]" and ?k = "length ts - 5"
  have "?k + 5 = length ts" using assms(3) by simp
  moreover have "?k + 5 < length ?all \<longrightarrow> ?all ! (?k + 5) \<le> ?all ! ?k + 1000000000" using assms(1) unfolding fast_def by blast
  ultimately have now: "now \<le> ?all ! ?k + 1000000000" by (simp add: nth_append)
  have "now - t \<le> 1000000000" if t: "t \<in> set (drop ?k ?all)" for t
  proof -
    obtain j where j: "j < length (drop ?k ?all)" "t = drop ?k ?all ! j" using t unfolding in_set_conv_nth by blast
    have "?all ! ?k \<le> ?all ! (?k + j)" by (rule sorted_nth_mono [OF assms(2)]) (use j(1) in auto)
    moreover have "?k \<le> length ?all" by simp
    then have "t = ?all ! (?k + j)" using j(2) by (simp only: nth_drop)
    ultimately show ?thesis using now by linarith
  qed
  then have "recent now (drop ?k ?all) = drop ?k ?all" by (simp add: recent_def)
  moreover have "recent now ?all = recent now (take ?k ?all) @ recent now (drop ?k ?all)"
    unfolding recent_def by (subst append_take_drop_id [symmetric, of ?all ?k]) (rule filter_append)
  ultimately show ?thesis using assms(3) by simp
qed

lemma soak_life_effect:
  assumes "soak_life P kp d st rs st'" "node_inv P (sk_engine st)" "free_caps (sk_engine st)"
    and "calls_of (sk_engine st) soaker = calls_of (suspicion_run soaker ts en0) soaker" "calls_of en0 soaker = []"
    and "sorted (ts @ map (oc_mono \<circ> si_remember) rs)" "fast (ts @ map (oc_mono \<circ> si_remember) rs)"
  shows "length (node_log P (sk_engine st') soak_world) \<le> length (node_log P (sk_engine st) soak_world) + (5 - length ts)"
  using assms
proof (induction arbitrary: ts rule: soak_life.induct)
  case (life_round st r u st1 rs st2)
  let ?t = "oc_mono (si_remember r)"
  note effect = round_effect [OF life_round.prems(1,2) life_round.hyps(1,3,4,2)]
  have split: "ts @ map (oc_mono \<circ> si_remember) (r # rs) = (ts @ [?t]) @ map (oc_mono \<circ> si_remember) rs" by simp
  have s: "sorted (ts @ [?t])" "fast (ts @ [?t])"
    using life_round.prems(5,6) fast_append unfolding split by (auto simp: sorted_append)
  have count: "fst (record_suspicion soaker ?t (sk_engine st)) = length (recent ?t (ts @ [?t]))"
    using record_suspicion_calls(1) [OF life_round.prems(3)] burst_count [OF s(1) life_round.prems(4)] by simp
  have "calls_of (sk_engine st1) soaker = calls_of (snd (record_suspicion soaker ?t (sk_engine st))) soaker"
    using effect by (simp add: calls_of_def)
  then have calls: "calls_of (sk_engine st1) soaker = calls_of (suspicion_run soaker (ts @ [?t]) en0) soaker"
    using record_suspicion_calls(2) [OF life_round.prems(3)] by (simp add: suspicion_run_snoc)
  have "length (node_log P (sk_engine st2) soak_world) \<le> length (node_log P (sk_engine st1) soak_world) + (5 - length (ts @ [?t]))"
    using life_round.IH [OF _ _ calls life_round.prems(4)] effect life_round.prems(5,6) unfolding split by blast
  moreover have "5 < length (recent ?t (ts @ [?t]))" if "5 \<le> length ts" using fast_recent [OF s(2,1) that] .
  ultimately show ?case using effect count by (cases "5 \<le> length ts") (auto split: if_splits)
qed simp

text \<open>
  A fast soak test hardly writes to the world it tests. The engine takes more than five submissions
  of one worker in a second for spam; when no six rounds in a row take more than a second, at most
  the first five atoms of an engine reach the world the test asks about and corrupts, however long it
  runs, and all others go to its quarantine world.
\<close>

theorem soak_feeds_quarantine:
  assumes "soak_life P kp d st rs st'" and "sk_engine st = soak_engine storage" and "node_inv P (sk_engine st)"
    and "sorted (map (oc_mono \<circ> si_remember) rs)" and "fast (map (oc_mono \<circ> si_remember) rs)"
  shows "length (node_log P (sk_engine st') soak_world) \<le> length (node_log P (sk_engine st) soak_world) + 5"
proof -
  have "free_caps (sk_engine st)" "calls_of (sk_engine st) soaker = []"
    by (simp_all add: assms(2) soak_engine_def engine_new_def engine_with_reflex_index_def free_caps_def
        gatekeeper_new_def calls_of_def)
  then show ?thesis using soak_life_effect [OF assms(1,3), of "[]" "sk_engine st"] assms(4,5) by simp
qed

section \<open>Samples\<close>

definition sample_round :: "nat \<Rightarrow> alist_db soak_input" where
  "sample_round t =
     \<lparr>si_check = t, si_uuid = ''0'', si_remember = sample_clock, si_remember_took = 1, si_ask = sample_clock, si_ask_took = 1,
      si_elapsed = 2, si_second_open = Inl ''locked'', si_reopened = Inr\<rparr>"

definition sample_soak_host :: "alist_db soak_host" where
  "sample_soak_host =
     \<lparr>sh_tempdir = Inr [''tmp''], sh_opened = Inr [], sh_files_open = id, sh_files_end = id, sh_report_text = (\<lambda>r. ''{}'')\<rparr>"

lemma sample_round_simps [simp]:
  "si_check (sample_round t) = t" "si_remember (sample_round t) = sample_clock" "si_elapsed (sample_round t) = 2"
  "si_second_open (sample_round t) = Inl ''locked''"
  by (simp_all add: sample_round_def)

lemma sample_soak_open: "\<exists>s. soak_open sample_platform (dummy_key_bytes Map.empty) (Inr []) = Inr (soak_engine s)"
proof -
  let ?st = "(plain_store [])\<lparr>ss_flush_on_write := True\<rparr>"
  have same: "kv alist_env ?st = kv alist_env (plain_store [])" "ss_db ?st = []"
    by (simp_all add: kv_def plain_store_def)
  have "store_ok alist_env ?st" using empty_store_ok same by (simp add: store_ok_def keys_ok_def)
  moreover have "store_clean alist_env ?st"
    by (simp add: store_clean_def log_clean_def log_items_def plain_store_def alist_entries canon_def)
  moreover have "tree_ok alist_env" using alist_env_ok by (simp add: sled_env_ok_def)
  ultimately obtain st' where "sled_open alist_env \<lparr>sc_flush_on_write = ss_flush_on_write ?st,
      sc_encryption_enabled = ss_encryption_enabled ?st, sc_key_id = ss_key_id ?st\<rparr>
      (ss_key_provider ?st) (Inr (ss_db ?st)) = Inr st'"
    using reopen_logs by blast
  then show ?thesis
    by (auto simp: soak_open_def soak_config_def sled_config_new_def plain_store_def res_simps)
qed

text \<open>A test of three nanoseconds runs one round, whose corruption fails.\<close>

theorem soak_test_ends_witness:
  "\<exists>rep fs'. soak_test sample_platform (dummy_key_bytes Map.empty) sample_soak_host 3 None [''report'']
      [sample_round 0, sample_round 50000000, sample_round 100000000] [] = Some (Inr rep, fs')
    \<and> sr_remembers rep + tally ''remember: '' (sr_errors rep) = 1 \<and> \<not> sr_corruption_injected rep
    \<and> tally ''corrupt: '' (sr_errors rep) = 1"
proof -
  let ?rs = "[sample_round 0, sample_round 50000000, sample_round 100000000]"
  obtain s where s: "soak_open sample_platform (dummy_key_bytes Map.empty) (Inr []) = Inr (soak_engine s)"
    using sample_soak_open by blast
  have round: "\<exists>st'. soak_round sample_platform (dummy_key_bytes Map.empty) 3 (sample_round 0) st = (Inr (), st')" for st
    by (simp add: soak_round_def soak_restart_def)
  then have loop: "\<exists>st'. soak_loop sample_platform (dummy_key_bytes Map.empty) 3 ?rs st = Some (Inr (), st')" for st
    using round [of st] by (elim exE) simp
  have paced: "paced ?rs" unfolding paced_def by (auto simp: nth_Cons less_Suc_eq split: nat.split)
  obtain res fs' where run: "soak_test sample_platform (dummy_key_bytes Map.empty) sample_soak_host 3 None [''report''] ?rs [] = Some (res, fs')"
    and adds: "\<forall>rep. res = Inr rep \<longrightarrow>
        sr_remembers rep + tally ''remember: '' (sr_errors rep) = length (rounds_run 3 ?rs)
      \<and> sr_asks rep + tally ''ask: '' (sr_errors rep) = length (rounds_run 3 ?rs)
      \<and> ((\<forall>r \<in> set ?rs. \<not> is_ok (si_second_open r)) \<longrightarrow>
           \<not> sr_corruption_injected rep \<and> tally ''corrupt: '' (sr_errors rep) = locked_tries 3 ?rs)"
    using soak_test_ends [OF paced, of 3 sample_platform "dummy_key_bytes Map.empty" sample_soak_host None "[''report'']" "[]"]
    by auto
  have "\<exists>rep. res = Inr rep"
    using run loop [of "soak_start (soak_engine s)"] s
    by (auto simp: soak_test_def soak_base_def sample_soak_host_def Let_def fs_write_def fs_get_def no_context_def res_simps
        split: option.splits)
  then show ?thesis using run adds by (auto simp: rounds_run_def locked_tries_def)
qed

theorem soak_feeds_quarantine_witness:
  "\<exists>st'. soak_life sample_platform (dummy_key_bytes Map.empty) 3 (soak_start (soak_engine (plain_store []))) [sample_round 0] st'
    \<and> length (node_log sample_platform (sk_engine st') soak_world) \<le> 5"
proof -
  let ?st = "soak_start (soak_engine (plain_store [])) :: (alist_db, unit) soak" and ?kp = "dummy_key_bytes Map.empty"
  obtain st1 where round: "soak_round sample_platform ?kp 3 (sample_round 0) ?st = (Inr (), st1)" "sk_restart st1 = sk_restart ?st"
    by (simp add: soak_round_def soak_restart_def soak_partition_def soak_corrupt_def soak_ask_def soak_remember_def Let_def
        split: prod.split sum.split)
  have en: "sk_engine ?st = node_on (plain_store [])"
    by (simp add: soak_start_def soak_engine_def node_on_def free_gate_def)
  have inv: "node_inv sample_platform (sk_engine ?st)" unfolding en by (rule node_on_inv [OF empty_sled_inv])
  have life: "soak_life sample_platform ?kp 3 ?st [sample_round 0] st1"
    by (rule life_round [OF _ _ round life_over]) (simp_all add: en log_room_def)
  have "length (node_log sample_platform (sk_engine st1) soak_world) \<le> length (node_log sample_platform (sk_engine ?st) soak_world) + 5"
    by (rule soak_feeds_quarantine [OF life _ inv]) (simp_all add: soak_start_def fast_def)
  moreover have "node_log sample_platform (sk_engine ?st) soak_world = []" by (simp add: en node_log_def)
  ultimately show ?thesis using life by auto
qed

end
