(* ===== verification/Wit_Host.thy ===== *)
theory Wit_Host
  imports Contracts
begin

text \<open>
  The host side of the WIT interface, \<open>crates/dwbase-wit-host/src/lib.rs\<close>: the WIT-shaped types, their
  conversions, and the adapter that hands calls to an engine. The interface carries the importance as
  a bare \<open>f32\<close>, so the conversions towards the engine validate it.
\<close>

record wit_link =
  wl_target :: atom_id
  wl_kind :: link_kind

record wit_new_atom =
  wn_world_key :: world_key
  wn_worker :: worker_key
  wn_kind :: atom_kind
  wn_timestamp :: timestamp
  wn_importance :: f32
  wn_payload_json :: string
  wn_vector :: "f32 list option"
  wn_flags_list :: "string list"
  wn_labels :: "string list"
  wn_links :: "wit_link list"

record wit_atom =
  wa_id :: atom_id
  wa_world_key :: world_key
  wa_worker :: worker_key
  wa_kind :: atom_kind
  wa_timestamp :: timestamp
  wa_importance :: f32
  wa_payload_json :: string
  wa_vector :: "f32 list option"
  wa_flags_list :: "string list"
  wa_labels :: "string list"
  wa_links :: "wit_link list"

datatype wit_host_error = Mapping string

fun importance_error_text :: "importance_error \<Rightarrow> string" where
  "importance_error_text (OutOfRange v) = ''importance must be between 0.0 and 1.0 inclusive, got '' @ show_f32 v"
| "importance_error_text NotANumber = ''importance cannot be NaN''"

definition wit_importance :: "f32 \<Rightarrow> (wit_host_error, importance) result" where
  "wit_importance v = rmap_err (Mapping \<circ> importance_error_text) (importance_new v)"

definition wit_of_atom :: "atom \<Rightarrow> wit_atom" where
  "wit_of_atom a =
     \<lparr>wa_id = a_id a, wa_world_key = a_world a, wa_worker = a_worker a, wa_kind = a_kind a,
      wa_timestamp = a_timestamp a, wa_importance = imp_get (a_importance a), wa_payload_json = a_payload_json a,
      wa_vector = a_vector a, wa_flags_list = a_flags a, wa_labels = a_labels a,
      wa_links = map (\<lambda>l. \<lparr>wl_target = l_target l, wl_kind = l_kind l\<rparr>) (a_links a)\<rparr>"

definition atom_of_wit :: "wit_atom \<Rightarrow> (wit_host_error, atom) result" where
  "atom_of_wit v =
     rmap (\<lambda>i.
       let b0 = atom_builder_new (wa_id v) (wa_world_key v) (wa_worker v) (wa_kind v) (wa_timestamp v) i (wa_payload_json v);
           b1 = builder_vector (wa_vector v) b0;
           b2 = fold builder_add_flag (wa_flags_list v) b1;
           b3 = fold builder_add_label (wa_labels v) b2;
           b4 = fold (\<lambda>l. builder_add_typed_link (wl_target l) (wl_kind l)) (wa_links v) b3
       in builder_build b4) (wit_importance (wa_importance v))"

definition new_atom_of_wit :: "wit_new_atom \<Rightarrow> (wit_host_error, new_atom) result" where
  "new_atom_of_wit v =
     rmap (\<lambda>i.
       \<lparr>n_world = wn_world_key v, n_worker = wn_worker v, n_kind = wn_kind v, n_timestamp = wn_timestamp v,
        n_importance = i, n_payload_json = wn_payload_json v, n_vector = wn_vector v, n_flags = wn_flags_list v,
        n_labels = wn_labels v, n_links = map (\<lambda>l. link_new (wl_target l) (wl_kind l)) (wn_links v)\<rparr>)
       (wit_importance (wn_importance v))"

text \<open>The trait the adapter calls, and the adapter; an engine keeps its state behind the methods.\<close>

record 'e engine_api =
  ea_remember :: "new_atom \<Rightarrow> 'e \<Rightarrow> (dw_error, atom_id) result \<times> 'e"
  ea_ask :: "question \<Rightarrow> 'e \<Rightarrow> (dw_error, answer) result \<times> 'e"
  ea_observe :: "atom \<Rightarrow> 'e \<Rightarrow> (dw_error, unit) result \<times> 'e"
  ea_replay :: "world_key \<Rightarrow> atom_filter \<Rightarrow> 'e \<Rightarrow> (dw_error, atom list) result \<times> 'e"

definition adapter_remember where "adapter_remember A n e = ea_remember A n e"

definition adapter_ask where "adapter_ask A q e = ea_ask A q e"

definition adapter_observe where "adapter_observe A a e = ea_observe A a e"

definition adapter_replay where "adapter_replay A w f e = ea_replay A w f e"

section \<open>Conversions\<close>

lemma fold_wit_links:
  "fold (\<lambda>l. builder_add_typed_link (wl_target l) (wl_kind l)) ls b =
     b\<lparr>b_links := b_links b @ map (\<lambda>l. link_new (wl_target l) (wl_kind l)) ls\<rparr>"
  by (induction ls arbitrary: b) (simp_all add: builder_add_typed_link_def)

lemma same_links [simp]:
  "map (\<lambda>l. \<lparr>l_target = l_target l, l_kind = l_kind l\<rparr>) ls = ls"
  "map (\<lambda>l. \<lparr>wl_target = wl_target l, wl_kind = wl_kind l\<rparr>) vs = vs"
  by (induction ls, simp_all, induction vs, simp_all)

lemma wit_importance_Inr: "wit_importance v = Inr i \<longleftrightarrow> i = Importance v \<and> importance_ok (Importance v)"
  by (auto simp: wit_importance_def res_simps importance_new_Inr)

lemma wit_importance_cases:
  "wit_importance v = (if importance_ok (Importance v) then Inr (Importance v)
     else Inl (Mapping (if f32_is_nan v then ''importance cannot be NaN''
                        else ''importance must be between 0.0 and 1.0 inclusive, got '' @ show_f32 v)))"
proof (cases "importance_ok (Importance v)")
  case True
  then show ?thesis using wit_importance_Inr [of v "Importance v"] by simp
next
  case False
  then show ?thesis
    by (auto simp: wit_importance_def importance_new_def importance_ok_def fl_le_def)
qed

text \<open>
  C22: Atoms survive the interface. Every atom whose importance is a number from zero to one comes
  back unchanged from its WIT form; a WIT atom is accepted exactly if its importance is in that
  range, an accepted one is given back by converting again, and a refused one names the reason.
\<close>

theorem wit_atoms_survive:
  "(importance_ok (a_importance a) \<longrightarrow> atom_of_wit (wit_of_atom a) = Inr a)
   \<and> (\<forall>b. atom_of_wit v = Inr b \<longrightarrow> wit_of_atom b = v \<and> importance_ok (a_importance b))
   \<and> (\<not> importance_ok (Importance (wa_importance v)) \<longrightarrow>
        atom_of_wit v = Inl (Mapping (if f32_is_nan (wa_importance v) then ''importance cannot be NaN''
          else ''importance must be between 0.0 and 1.0 inclusive, got '' @ show_f32 (wa_importance v))))"
proof (intro conjI impI allI)
  assume "importance_ok (a_importance a)"
  then have "wit_importance (imp_get (a_importance a)) = Inr (a_importance a)" by (simp add: wit_importance_Inr)
  then show "atom_of_wit (wit_of_atom a) = Inr a"
    by (simp add: atom_of_wit_def wit_of_atom_def fold_add_flag fold_add_label fold_wit_links builder_defs Let_def comp_def)
next
  fix b assume "atom_of_wit v = Inr b"
  then obtain i where i: "i = Importance (wa_importance v)" "importance_ok i"
    and b: "b = builder_build (fold (\<lambda>l. builder_add_typed_link (wl_target l) (wl_kind l)) (wa_links v)
        (fold builder_add_label (wa_labels v) (fold builder_add_flag (wa_flags_list v) (builder_vector (wa_vector v)
          (atom_builder_new (wa_id v) (wa_world_key v) (wa_worker v) (wa_kind v) (wa_timestamp v) i (wa_payload_json v))))))"
    by (auto simp: atom_of_wit_def res_simps wit_importance_Inr Let_def)
  show "wit_of_atom b = v"
    by (simp add: b i wit_of_atom_def fold_add_flag fold_add_label fold_wit_links builder_defs comp_def)
  show "importance_ok (a_importance b)"
    using i(2) by (simp add: b fold_add_flag fold_add_label fold_wit_links builder_defs)
qed (simp add: atom_of_wit_def wit_importance_cases)

definition wit_sample :: wit_atom where
  "wit_sample = \<lparr>wa_id = ''a'', wa_world_key = ''w'', wa_worker = ''k'', wa_kind = Plan, wa_timestamp = ''5'',
     wa_importance = 0x40000000, wa_payload_json = ''{}'', wa_vector = None, wa_flags_list = [''f''],
     wa_labels = [], wa_links = [\<lparr>wl_target = ''b'', wl_kind = Supersedes\<rparr>]\<rparr>"

theorem wit_atoms_survive_witness:
  "(\<exists>a. atom_of_wit (wit_sample\<lparr>wa_importance := 0x3F000000\<rparr>) = Inr a
      \<and> wit_of_atom a = wit_sample\<lparr>wa_importance := 0x3F000000\<rparr> \<and> atom_of_wit (wit_of_atom a) = Inr a)
   \<and> atom_of_wit wit_sample = Inl (Mapping (''importance must be between 0.0 and 1.0 inclusive, got '' @ show_f32 0x40000000))"
proof
  have "importance_ok (Importance 0x3F000000)" by (simp add: importance_ok_def f32_one_def fl_eval)
  then have "\<exists>a. atom_of_wit (wit_sample\<lparr>wa_importance := 0x3F000000\<rparr>) = Inr a"
    by (simp add: atom_of_wit_def wit_importance_cases)
  then obtain a where a: "atom_of_wit (wit_sample\<lparr>wa_importance := 0x3F000000\<rparr>) = Inr a" by blast
  then show "\<exists>a. atom_of_wit (wit_sample\<lparr>wa_importance := 0x3F000000\<rparr>) = Inr a
      \<and> wit_of_atom a = wit_sample\<lparr>wa_importance := 0x3F000000\<rparr> \<and> atom_of_wit (wit_of_atom a) = Inr a"
    using wit_atoms_survive [of a "wit_sample\<lparr>wa_importance := 0x3F000000\<rparr>"] by blast
  have two: "wa_importance wit_sample = 0x40000000" by (simp add: wit_sample_def)
  have bad: "\<not> importance_ok (Importance 0x40000000)" and num: "f32_is_nan 0x40000000 = False"
    by (simp_all add: importance_ok_def f32_one_def fl_eval)
  note out = wit_atoms_survive [of a wit_sample, THEN conjunct2, THEN conjunct2, unfolded two num if_False]
  show "atom_of_wit wit_sample = Inl (Mapping (''importance must be between 0.0 and 1.0 inclusive, got '' @ show_f32 0x40000000))"
    by (rule out [rule_format]) (rule bad)
qed

end
