(* ===== verification/Spec2Isabelle.thy ===== *)
theory Spec2Isabelle
  imports Node_Policy Nats_Events Swarm_Peers Component_Claims Component_Build Component_Describe
    Cli_Commands Cli_Devnet Cli_Storage Cli_Soak Wit_Host
begin

text \<open>
  DWBase (\<open>greentic-dwbase\<close>) is a memory store for agents: workers submit atoms (observations, thoughts,
  actions, plans) to named worlds, ask questions about a world, subscribe to it, and nodes exchange the
  atoms of their worlds. This development models the Rust crates under \<open>src/crates\<close> and proves what
  makes them correct; where the code does something else than it means to, a theorem states what it
  does. Every definition follows the function, type or lines of the source it is named after.

  \<^bold>\<open>Parts and how they interact.\<close>
  A node (\<open>dwbase-node\<close>) answers HTTP requests by calls of an engine (\<open>dwbase-engine\<close>), which
  orchestrates five components behind traits: storage (\<open>dwbase-storage-sled\<close>: one append-only log per
  world in an ordered tree, bodies beside it, an index of identifiers), vectors (\<open>dwbase-vector-hnsw\<close>),
  streams (\<open>dwbase-stream-local\<close>), the gatekeeper (\<open>dwbase-security\<close>: capabilities, token buckets, trust)
  and an embedder (\<open>dwbase-embedder-dummy\<close>). Remembering asks the gatekeeper, gives the atom an
  identifier, diverts suspicious submissions to a quarantine world, writes storage, then the vector,
  reflex and conflict indexes, and publishes; asking reads the reflex index first, then storage, and
  ranks; policies are atoms that garbage collection reads back. Nodes find each other and replicate
  over NATS (\<open>dwbase-swarm-nats\<close>) or plain UDP gossip (\<open>dwbase-swarm\<close>). The command line
  (\<open>dwbase-cli\<close>) talks to a node, runs local networks of nodes, and checks, backs up and restores data
  directories. \<open>component-dwbase\<close> is the setup component of a host application, and \<open>dwbase-wit-host\<close>
  converts atoms at the WebAssembly interface.

  \<^bold>\<open>Theories, in the order of the code.\<close>
  \<^item> \<open>Prelude\<close>, \<open>Floats\<close>, \<open>Float_Text\<close>, \<open>Text_Trim\<close>, \<open>File_Tree\<close>: results as sums, strings as byte strings, the
    stable sort, binary32 and binary64 arithmetic by exact rounding, number text, \<open>str::trim\<close>, and trees
    of files with the operations of \<open>std::fs\<close>.
  \<^item> \<open>Core_Model\<close>: \<open>dwbase-core/src/lib.rs\<close>. \<open>Engine_Types\<close>, \<open>Reflex_Index\<close>, \<open>Conflict_Index\<close>, \<open>Engine_State\<close>,
    \<open>Engine_Ops\<close>: \<open>dwbase-engine/src/lib.rs\<close>, its types, its two indexes, the record of its state with the
    traits as records of functions, and its operations.
  \<^item> \<open>Sled_Keys\<close>, \<open>Sled_Store\<close>: \<open>dwbase-storage-sled/src/lib.rs\<close>; \<open>Sled_Log\<close>, \<open>Sled_Ops\<close> and \<open>Sled_Provider\<close>
    hold its invariant, its properties and its contract, \<open>Sled_Instance\<close> a concrete environment.
  \<^item> \<open>Gatekeeper\<close>, \<open>Stream_Local\<close>, \<open>Vector_Hnsw\<close>: the other components, each with its invariant.
  \<^item> \<open>Contracts\<close>, \<open>Engine_Laws\<close>, \<open>Gc_Laws\<close>: the interfaces as locales, and the engine's lemmas inside them.
    \<open>Node_Engine\<close> assembles the engine the node and the command line build and interprets the locales;
    \<open>Node_Claims\<close>, \<open>Node_Runs\<close>, \<open>Node_Upkeep\<close> write the properties out over the assembly.
  \<^item> \<open>Node_Http\<close>: \<open>dwbase-node/src/main.rs\<close>, with \<open>Node_Http_Claims\<close> and \<open>Node_Policy\<close>.
  \<^item> \<open>Swarm_Peers\<close>: \<open>dwbase-swarm/src/lib.rs\<close>. \<open>Nats_Table\<close>, \<open>Nats_Bus\<close>, \<open>Nats_Replicator\<close>, \<open>Nats_Events\<close>: the
    four files of \<open>dwbase-swarm-nats/src\<close>, with \<open>Nats_Contract\<close> and \<open>Nats_Claims\<close>.
  \<^item> \<open>Component_Qa\<close>, \<open>Component_Build\<close>: \<open>component-dwbase\<close> (\<open>qa.rs\<close>, \<open>i18n.rs\<close>, \<open>lib.rs\<close>; \<open>build.rs\<close> and
    \<open>i18n_bundle.rs\<close>), with \<open>Component_Claims\<close>, and \<open>Component_Describe\<close> for its descriptor. \<open>Wit_Host\<close>: \<open>dwbase-wit-host/src/lib.rs\<close>.
  \<^item> \<open>Cli_Commands\<close>, \<open>Cli_Backup\<close>, \<open>Cli_Devnet\<close>, \<open>Cli_Storage\<close>, \<open>Cli_Soak\<close>: \<open>dwbase-cli/src/main.rs\<close>.

  \<^bold>\<open>What the lemmas show.\<close>
  Storage: the key order is the log order; under \<open>store_ok\<close> a world's log is a list of atoms
  (\<open>log_atoms\<close>), and append, scan, delete, repair and reopening are functions on such lists; checking a
  database whose log keys the store wrote leaves the log of each world without a slash its longest
  sound prefix and bodies and other worlds as they are. Engine: remembering refines an append to one log; but for
  garbage collection no entry of a log is lost, and one changes only if its identifier is issued
  again, as after a restart; collection deletes exactly its victims, ingest is idempotent, answers are
  ranked by score first. Gatekeeper: which writes pass, and how many a
  bucket admits with rounded arithmetic. Node: a run of requests is a run of the engine, which requests
  are malformed, which worlds are listed, which policy is read back. Swarm: filters have no false negatives, subscriptions
  survive a restart, an announced world is replicated, inboxes stay bounded, requests end. Setup: which
  answers are accepted, updates are stable, translations come from the files. Command line: no request
  is malformed, a restored backup is what was backed up, a refused restore spares the target, a failed
  deployment leaves no process behind, a soak test ends and its report adds up.

  \<^bold>\<open>Interfaces.\<close>
  The locales \<open>atom_store\<close> and its extension \<open>indexed_store\<close>, \<open>vector_contract\<close>, \<open>stream_contract\<close>, \<open>gate_contract\<close> and
  \<open>engine_contract\<close> with its extension \<open>gc_contract\<close> state what the engine needs of its components; \<open>sled\<close>, \<open>hnsw\<close>,
  \<open>streams\<close>, \<open>gate\<close> and \<open>node\<close> interpret them on the code's components. \<open>delivering_bus\<close> is what the NATS
  transport needs of a bus; \<open>mb\<close> interprets it on the in-memory bus.

  \<^bold>\<open>Conventions.\<close>
  A fallible function returns a sum, \<open>Inl\<close> the error; one that may fail after it changed the state returns
  the result beside the state. A \<open>HashMap\<close> whose order is never seen is a map, one whose iteration order
  can be seen, and a JSON object, is an association list. Machine integers are words where the code
  wraps or casts, and naturals where the bound is a hypothesis (\<open>log_room\<close>, identifiers below
  \<open>2 ^ 64\<close>) or the code saturates. Instants are naturals in nanoseconds and dates integers; an operation
  reads each clock once, but where it reads it again and again the readings are a function or a list.
  An operation of a component, and a request of the node, is one atomic step: locks are held for the
  whole of it in the code, or only unrelated state changes in between. \<open>sort_by\<close> is modelled as a
  stable insertion sort, which is what Rust's sort does for any comparison that is a total preorder; a
  score that is not a number breaks that, and the theorem on answers excludes it.

  \<^bold>\<open>Bounds and fuel.\<close>
  Loops over data are structural recursion. Waiting loops (the lock of the database, the request over
  NATS) and the timed loop of the soak test consume a list of the attempts and clock readings to come; a
  run that would outlast the list is \<open>None\<close>, and the termination theorems show that readings which
  pass the deadline end it. Number text
  searches among at most as many digits as the format needs. Nothing else has fuel.

  \<^bold>\<open>Not modelled, and why.\<close>
  Code outside the repository is a parameter with its documented behaviour as a hypothesis where a
  theorem needs it: the sled tree, MessagePack, bincode, JSON and TOML codecs, AES-GCM and the hashes,
  the HNSW graph, the date parser, tar and zstd, NATS servers (\<open>NatsBus\<close> and \<open>AsyncNats\<close> only forward to the
  client crate), sockets, and the axum and clap crates, so requests and commands come decoded. The
  metrics facade (\<open>dwbase-metrics\<close>) only emits values. The benchmarks, the examples, the deprecated
  pack runner and the guest's configuration record hold no logic of the store. Interleavings inside
  one operation, failing disks, and processes that outlive a signal are outside the model.
\<close>

end
